(* ===== verification/Prelude.thy ===== *)
theory Prelude
  imports "HOL-Library.Word"
begin

unbundle bit_operations_syntax

section \<open>Prelude: machine integers, results, shared lemmas\<close>

text \<open>
  What every component shares: names for Rust's unsigned integers, the checked operations of
  the standard library, the \<open>?\<close> operator on results, and the lemmas that move sums of
  machine words to sums of natural numbers.

  Arithmetic is that of a release build (the workspace sets no \<open>overflow-checks\<close>): \<open>+\<close>,
  \<open>-\<close> and \<open>Iterator::sum\<close> on \<open>u64\<close> wrap around, which is what \<open>+\<close>, \<open>-\<close> and \<open>sum_list\<close> do on
  words. Where the wrap-around must not happen, a theorem says so over natural numbers.
\<close>

type_synonym u8 = "8 word"
type_synonym u16 = "16 word"
type_synonym u32 = "32 word"
type_synonym u64 = "64 word"

named_theorems outcome_simps \<open>evaluation of results and the question-mark operator\<close>
named_theorems funds_simps \<open>how operations change the funds held on a channel\<close>
named_theorems inv_intros \<open>operations preserve the invariants\<close>

subsection \<open>Checked arithmetic\<close>

definition checked_add :: "'a::len word \<Rightarrow> 'a word \<Rightarrow> 'a word option" where
  "checked_add a b = (if unat a + unat b < 2 ^ LENGTH('a) then Some (a + b) else None)"

definition checked_mul :: "'a::len word \<Rightarrow> 'a word \<Rightarrow> 'a word option" where
  "checked_mul a b = (if unat a * unat b < 2 ^ LENGTH('a) then Some (a * b) else None)"

lemma checked_add_Some:
  "checked_add a b = Some c \<longleftrightarrow> unat a + unat b < 2 ^ LENGTH('a) \<and> c = a + b"
  for a b c :: "'a::len word"
  by (auto simp: checked_add_def)

lemma checked_mul_Some:
  "checked_mul a b = Some c \<longleftrightarrow> unat a * unat b < 2 ^ LENGTH('a) \<and> c = a * b"
  for a b c :: "'a::len word"
  by (auto simp: checked_mul_def)

lemma unat_add_bounded:
  "unat a + unat b < 2 ^ LENGTH('a) \<Longrightarrow> unat (a + b) = unat a + unat b"
  for a b :: "'a::len word"
  by (simp add: unat_word_ariths)

lemma unat_mul_bounded:
  "unat a * unat b < 2 ^ LENGTH('a) \<Longrightarrow> unat (a * b) = unat a * unat b"
  for a b :: "'a::len word"
  by (simp add: unat_word_ariths)

lemma unat_sub_le: "b \<le> a \<Longrightarrow> unat (a - b) = unat a - unat b"
  for a b :: "'a::len word"
  by (rule unat_sub)

lemma unat_u64_less [simp]: "unat (w :: u64) < 18446744073709551616"
  by (rule order_less_le_trans [OF unsigned_less]) simp

lemma unat_of_nat_u64: "n < 2 ^ 64 \<Longrightarrow> unat (of_nat n :: u64) = n"
  by (simp add: unat_of_nat)

subsection \<open>Sums of words\<close>

text \<open>A wrapped sum is the true sum as soon as the true sum fits the width.\<close>

lemma unat_sum_list:
  "sum_list (map unat ws) < 2 ^ LENGTH('a) \<Longrightarrow> unat (sum_list ws) = sum_list (map unat ws)"
  for ws :: "'a::len word list"
proof (induction ws)
  case Nil
  then show ?case by simp
next
  case (Cons w ws)
  then have "unat (sum_list ws) = sum_list (map unat ws)" by simp
  with Cons.prems show ?case by (simp add: unat_add_bounded)
qed

lemma sum_list_map_unat:
  "sum_list (map (\<lambda>x. unat (f x)) xs) < 2 ^ LENGTH('a) \<Longrightarrow>
   unat (sum_list (map f xs)) = sum_list (map (\<lambda>x. unat (f x)) xs)"
  for f :: "'b \<Rightarrow> 'a::len word"
  using unat_sum_list [of "map f xs"] by (simp add: comp_def)

subsection \<open>Results\<close>

text \<open>
  \<open>Result<T, E>\<close> is \<open>'e + 't\<close> with \<open>Inl\<close> for \<open>Err\<close>. The question-mark operator
  returns early on an error: \<open>res_bind\<close>.
\<close>

definition res_bind :: "'e + 'a \<Rightarrow> ('a \<Rightarrow> 'e + 'b) \<Rightarrow> 'e + 'b" where
  "res_bind r f = (case r of Inl e \<Rightarrow> Inl e | Inr x \<Rightarrow> f x)"

lemma res_bind_simps [simp, outcome_simps]:
  "res_bind (Inl e) f = Inl e"
  "res_bind (Inr x) f = f x"
  by (simp_all add: res_bind_def)

lemma res_bind_Inr_iff [outcome_simps]:
  "res_bind r f = Inr y \<longleftrightarrow> (\<exists>x. r = Inr x \<and> f x = Inr y)"
  by (cases r) auto

definition is_ok :: "'e + 'a \<Rightarrow> bool" where
  "is_ok r = (case r of Inl _ \<Rightarrow> False | Inr _ \<Rightarrow> True)"

lemma is_ok_simps [simp, outcome_simps]: "is_ok (Inr x)" "\<not> is_ok (Inl e)"
  by (simp_all add: is_ok_def)

lemma is_ok_iff: "is_ok r \<longleftrightarrow> (\<exists>x. r = Inr x)"
  by (cases r) auto

definition ok_or :: "'a option \<Rightarrow> 'e \<Rightarrow> 'e + 'a" where
  "ok_or x e = (case x of None \<Rightarrow> Inl e | Some v \<Rightarrow> Inr v)"

lemma ok_or_simps [simp, outcome_simps]:
  "ok_or None e = Inl e" "ok_or (Some v) e = Inr v"
  by (simp_all add: ok_or_def)

subsection \<open>Sequences of fallible steps\<close>

fun fold_opt :: "('op \<Rightarrow> 's \<Rightarrow> 's option) \<Rightarrow> 'op list \<Rightarrow> 's \<Rightarrow> 's option" where
  "fold_opt f [] s = Some s"
| "fold_opt f (x # xs) s = Option.bind (f x s) (fold_opt f xs)"

lemma fold_opt_append: "fold_opt f (xs @ ys) s = Option.bind (fold_opt f xs s) (fold_opt f ys)"
proof (induction xs arbitrary: s)
  case (Cons x xs)
  then show ?case by (cases "f x s") simp_all
qed simp

lemma fold_opt_snoc: "fold_opt f (xs @ [x]) s = Option.bind (fold_opt f xs s) (f x)"
proof -
  have "fold_opt f [x] t = f x t" for t
    by (cases "f x t") simp_all
  then show ?thesis
    by (simp add: fold_opt_append fun_eq_iff cong: bind_option_cong)
qed

lemma fold_opt_invariant:
  assumes "\<And>x s t. f x s = Some t \<Longrightarrow> P s \<Longrightarrow> P t"
  shows "fold_opt f xs s = Some t \<Longrightarrow> P s \<Longrightarrow> P t"
  by (induction xs arbitrary: s) (auto split: bind_splits dest: assms)

subsection \<open>State machines\<close>

text \<open>
  The one argument every reachability theorem below uses: an invariant that holds initially
  and is kept by each step holds in every state a run can reach.
\<close>

locale invariant_system =
  fixes init :: "'s \<Rightarrow> bool"
    and step :: "'s \<Rightarrow> 's \<Rightarrow> bool"
    and invar :: "'s \<Rightarrow> bool"
  assumes invar_init: "init s \<Longrightarrow> invar s"
    and invar_step: "step s t \<Longrightarrow> invar s \<Longrightarrow> invar t"
begin

lemma invar_steps: "step\<^sup>*\<^sup>* s t \<Longrightarrow> invar s \<Longrightarrow> invar t"
  by (induction rule: rtranclp_induct) (auto intro: invar_step)

lemma invar_reachable: "init s \<Longrightarrow> step\<^sup>*\<^sup>* s t \<Longrightarrow> invar t"
  by (blast intro: invar_init invar_steps)

end

end
