(* ===== verification/Hash_Map.thy ===== *)
theory Hash_Map
  imports Prelude
begin

section \<open>Hash maps\<close>

text \<open>
  \<open>std::collections::HashMap\<close> as the source uses it: lookup, insertion, removal, the
  number of entries, and iteration over keys and values in an order the code does not choose.
  A map is the list of its entries, in iteration order, each key once (\<open>hm_wf\<close>). The
  interface \<open>hash_map\<close> states what clients rely on; sums over the values are
  derived inside it, once for all maps.
\<close>

type_synonym ('k, 'v) hmap = "('k \<times> 'v) list"

definition hm_new :: "('k, 'v) hmap" where
  "hm_new = []"

definition hm_get :: "('k, 'v) hmap \<Rightarrow> 'k \<Rightarrow> 'v option" where
  "hm_get m k = map_of m k"

definition hm_contains :: "('k, 'v) hmap \<Rightarrow> 'k \<Rightarrow> bool" where
  "hm_contains m k = (hm_get m k \<noteq> None)"

fun hm_insert :: "'k \<Rightarrow> 'v \<Rightarrow> ('k, 'v) hmap \<Rightarrow> ('k, 'v) hmap" where
  "hm_insert k v [] = [(k, v)]"
| "hm_insert k v ((k', v') # m) = (if k = k' then (k, v) # m else (k', v') # hm_insert k v m)"

definition hm_remove :: "'k \<Rightarrow> ('k, 'v) hmap \<Rightarrow> ('k, 'v) hmap" where
  "hm_remove k m = filter (\<lambda>e. fst e \<noteq> k) m"

definition hm_len :: "('k, 'v) hmap \<Rightarrow> nat" where
  "hm_len m = length m"

definition hm_values :: "('k, 'v) hmap \<Rightarrow> 'v list" where
  "hm_values m = map snd m"

definition hm_keys :: "('k, 'v) hmap \<Rightarrow> 'k list" where
  "hm_keys m = map fst m"

definition hm_wf :: "('k, 'v) hmap \<Rightarrow> bool" where
  "hm_wf m = distinct (map fst m)"

subsection \<open>The interface\<close>

locale hash_map =
  fixes new :: 'm
    and get :: "'m \<Rightarrow> 'k \<Rightarrow> 'v option"
    and insert :: "'k \<Rightarrow> 'v \<Rightarrow> 'm \<Rightarrow> 'm"
    and remove :: "'k \<Rightarrow> 'm \<Rightarrow> 'm"
    and entries :: "'m \<Rightarrow> ('k \<times> 'v) list"
    and wf :: "'m \<Rightarrow> bool"
  assumes wf_new: "wf new"
    and get_new: "get new k = None"
    and wf_insert: "wf m \<Longrightarrow> wf (insert k v m)"
    and wf_remove: "wf m \<Longrightarrow> wf (remove k m)"
    and get_insert: "get (insert k v m) k' = (if k' = k then Some v else get m k')"
    and get_remove: "get (remove k m) k' = (if k' = k then None else get m k')"
    and entries_distinct: "wf m \<Longrightarrow> distinct (map fst (entries m))"
    and entries_get: "wf m \<Longrightarrow> map_of (entries m) k = get m k"
begin

lemma entries_iff: "wf m \<Longrightarrow> (k, v) \<in> set (entries m) \<longleftrightarrow> get m k = Some v"
  using entries_distinct [of m] entries_get [of m k] by (auto dest: map_of_SomeD)

lemma entries_nodup: "wf m \<Longrightarrow> distinct (entries m)"
  using entries_distinct [of m] by (simp add: distinct_map)

lemma set_entries: "wf m \<Longrightarrow> set (entries m) = {(k, v). get m k = Some v}"
  by (auto simp: entries_iff)

text \<open>A sum over the entries counts each key once, whatever the iteration order.\<close>

lemma total_entries:
  fixes f :: "'k \<times> 'v \<Rightarrow> nat"
  assumes "wf m"
  shows "sum_list (map f (entries m)) = sum f {(k, v). get m k = Some v}"
  using assms by (simp add: sum_list_distinct_conv_sum_set entries_nodup set_entries)

lemma finite_entries: "wf m \<Longrightarrow> finite {(k, v). get m k = Some v}"
  by (metis set_entries List.finite_set)

lemma total_insert_fresh:
  fixes f :: "'k \<times> 'v \<Rightarrow> nat"
  assumes "wf m" and "get m k = None"
  shows "sum_list (map f (entries (insert k v m))) = f (k, v) + sum_list (map f (entries m))"
proof -
  have "{(k', v'). get (insert k v m) k' = Some v'} =
      Set.insert (k, v) {(k', v'). get m k' = Some v'}"
    using assms(2) by (auto simp: get_insert split: if_splits)
  moreover have "(k, v) \<notin> {(k', v'). get m k' = Some v'}"
    using assms(2) by simp
  ultimately show ?thesis
    using assms(1) by (simp add: total_entries wf_insert finite_entries)
qed

lemma total_remove:
  fixes f :: "'k \<times> 'v \<Rightarrow> nat"
  assumes "wf m" and "get m k = Some v"
  shows "f (k, v) + sum_list (map f (entries (remove k m))) = sum_list (map f (entries m))"
proof -
  let ?S = "{(k', v'). get m k' = Some v'}"
  have "{(k', v'). get (remove k m) k' = Some v'} = ?S - {(k, v)}"
    using assms(2) by (auto simp: get_remove split: if_splits)
  moreover have "(k, v) \<in> ?S"
    using assms(2) by simp
  ultimately show ?thesis
    using assms(1)
    by (simp add: total_entries wf_remove finite_entries sum.remove [of ?S "(k, v)"])
qed

lemma length_insert_fresh:
  "wf m \<Longrightarrow> get m k = None \<Longrightarrow> length (entries (insert k v m)) = Suc (length (entries m))"
  using total_insert_fresh [of m k "\<lambda>_. 1" v] by (simp add: sum_list_triv)

lemma length_remove:
  "wf m \<Longrightarrow> get m k = Some v \<Longrightarrow> Suc (length (entries (remove k m))) = length (entries m)"
  using total_remove [of m k v "\<lambda>_. 1"] by (simp add: sum_list_triv)

lemma member_bound:
  "wf m \<Longrightarrow> get m k = Some v \<Longrightarrow> f (k, v) \<le> sum_list (map f (entries m))"
  for f :: "'k \<times> 'v \<Rightarrow> nat"
  using total_remove [of m k v f] by simp

end

subsection \<open>The implementation\<close>

lemma hm_get_insert: "hm_get (hm_insert k v m) k' = (if k' = k then Some v else hm_get m k')"
  by (induction k v m rule: hm_insert.induct) (auto simp: hm_get_def)

lemma hm_get_remove: "hm_get (hm_remove k m) k' = (if k' = k then None else hm_get m k')"
  by (induction m) (auto simp: hm_get_def hm_remove_def)

lemma keys_hm_insert: "fst ` set (hm_insert k v m) = insert k (fst ` set m)"
  by (induction k v m rule: hm_insert.induct) auto

lemma set_hm_insert: "set (hm_insert k v m) \<subseteq> insert (k, v) (set m)"
  by (induction k v m rule: hm_insert.induct) auto

lemma hm_wf_insert: "hm_wf m \<Longrightarrow> hm_wf (hm_insert k v m)"
proof (induction k v m rule: hm_insert.induct)
  case (1 k v)
  then show ?case by (simp add: hm_wf_def)
next
  case (2 k v k' v' m)
  then show ?case
    using keys_hm_insert [of k v m] by (auto simp: hm_wf_def)
qed

lemma hm_wf_remove: "hm_wf m \<Longrightarrow> hm_wf (hm_remove k m)"
  by (auto simp: hm_wf_def hm_remove_def distinct_map inj_on_def)

lemma hm_wf_new [simp]: "hm_wf hm_new"
  by (simp add: hm_wf_def hm_new_def)

lemma hm_get_new [simp]: "hm_get hm_new k = None"
  by (simp add: hm_get_def hm_new_def)

interpretation hm: hash_map hm_new hm_get hm_insert hm_remove "\<lambda>m. m" hm_wf
  by unfold_locales
    (simp_all add: hm_get_insert hm_get_remove hm_wf_insert hm_wf_remove hm_wf_def [symmetric],
     simp_all add: hm_wf_def hm_get_def)

lemma hm_contains_iff: "hm_contains m k \<longleftrightarrow> k \<in> fst ` set m"
  by (simp add: hm_contains_def hm_get_def map_of_eq_None_iff)

lemma hm_keys_insert: "set (hm_keys (hm_insert k v m)) = insert k (set (hm_keys m))"
  by (simp add: hm_keys_def keys_hm_insert)

text \<open>Inserting a fresh key and removing it again gives the map back.\<close>

lemma hm_remove_insert_fresh: "hm_get m k = None \<Longrightarrow> hm_remove k (hm_insert k v m) = m"
  by (induction k v m rule: hm_insert.induct)
    (auto simp: hm_get_def hm_remove_def map_of_eq_None_iff filter_id_conv split: if_splits)

lemma hm_len_insert_fresh: "hm_get m k = None \<Longrightarrow> hm_len (hm_insert k v m) = Suc (hm_len m)"
  by (induction k v m rule: hm_insert.induct) (auto simp: hm_get_def hm_len_def split: if_splits)

lemma hm_insert_same: "hm_get m k = Some v \<Longrightarrow> hm_insert k v m = m"
  by (induction k v m rule: hm_insert.induct) (auto simp: hm_get_def split: if_splits)

lemmas hm_simps = hm_get_insert hm_get_remove hm_wf_insert hm_wf_remove

end
