(* ===== verification/Sim_Types.thy ===== *)
theory Sim_Types
  imports Hash_Map
begin

section \<open>Shared data types of the library (simln-lib/src/lib.rs)\<close>

text \<open>
  The types that every part of the simulator passes around: keys, payment hashes, node ids,
  short channel ids, value ranges, errors, payment results.

  Third-party types are kept opaque. A \<open>PublicKey\<close> is known by the number its fixed-length
  serialisation spells, which carries the equality and the total order the source uses. A
  \<open>NodeFeatures\<close> value is its little-endian flag bytes (its constructor \<open>from_le_bytes\<close>); what
  a flag means (\<open>supports_keysend\<close>) is a parameter wherever it is used. A formatted message is
  its format string and its arguments, not their rendering.

  A \<open>Duration\<close> is a number of nanoseconds and a \<open>SystemTime\<close> the nanoseconds since the epoch.
\<close>

subsection \<open>Opaque keys\<close>

datatype pubkey = PublicKey nat

primrec pubkey_ord :: "pubkey \<Rightarrow> nat" where
  "pubkey_ord (PublicKey n) = n"

lemma pubkey_ord_inject [simp]: "pubkey_ord a = pubkey_ord b \<longleftrightarrow> a = b"
  by (cases a; cases b) simp

instantiation pubkey :: linorder
begin

definition less_eq_pubkey :: "pubkey \<Rightarrow> pubkey \<Rightarrow> bool" where
  "less_eq_pubkey a b = (pubkey_ord a \<le> pubkey_ord b)"

definition less_pubkey :: "pubkey \<Rightarrow> pubkey \<Rightarrow> bool" where
  "less_pubkey a b = (pubkey_ord a < pubkey_ord b)"

instance
  by standard (auto simp: less_eq_pubkey_def less_pubkey_def)

end

lemma pubkey_le [simp]: "PublicKey a \<le> PublicKey b \<longleftrightarrow> a \<le> b"
  by (simp add: less_eq_pubkey_def)

lemma pubkey_less [simp]: "PublicKey a < PublicKey b \<longleftrightarrow> a < b"
  by (simp add: less_pubkey_def)

text \<open>A payment hash is its 32 bytes.\<close>

datatype payment_hash = PaymentHash "u8 list"

datatype node_features = NodeFeatures "u8 list"

type_synonym duration = nat
type_synonym system_time = nat

abbreviation nanos_per_sec :: nat where
  "nanos_per_sec \<equiv> 1000000000"

definition duration_from_secs :: "nat \<Rightarrow> duration" where
  "duration_from_secs s = s * nanos_per_sec"

text \<open>\<open>bitcoin::Network\<close>, with the variants the source names.\<close>

datatype network = Bitcoin | Testnet | Signet | Regtest | OtherNetwork nat

subsection \<open>Messages\<close>

datatype msg_arg =
    ArgPk pubkey
  | ArgNum nat
  | ArgStr string
  | ArgNet network
  | ArgPks "pubkey list"
  | ArgHex "u8 list"
  | ArgInt int

datatype message = Fmt string "msg_arg list"

subsection \<open>Node ids\<close>

datatype node_id = NodeIdPublicKey pubkey | NodeIdAlias string

datatype lightning_error =
    ConnectionError message
  | GetInfoError message
  | SendPaymentError message
  | TrackPaymentError message
  | InvalidPaymentHash
  | GetNodeInfoError message
  | ValidationError message
  | PermanentError message
  | ListChannelsError message
  | GetGraphError message
  | SystemTimeConversionError

text \<open>
  \<open>validate\<close> takes the backend's alias by mutable reference: the new alias is returned.
\<close>

fun node_id_validate ::
  "node_id \<Rightarrow> pubkey \<Rightarrow> string \<Rightarrow> lightning_error + string" where
  "node_id_validate (NodeIdPublicKey pk) node_pk alias =
     (if pk \<noteq> node_pk
      then Inl (ValidationError (Fmt ''The provided node id does not match the one returned by the backend ({} != {}).''
                 [ArgPk pk, ArgPk node_pk]))
      else Inr alias)"
| "node_id_validate (NodeIdAlias a) node_pk alias = Inr a"

fun node_id_get_pk :: "node_id \<Rightarrow> string + pubkey" where
  "node_id_get_pk (NodeIdPublicKey pk) = Inr pk"
| "node_id_get_pk (NodeIdAlias a) = Inl ''NodeId is not a PublicKey''"

lemma node_id_validate_ok:
  "node_id_validate n pk alias = Inr alias' \<longleftrightarrow>
   (case n of NodeIdPublicKey p \<Rightarrow> p = pk \<and> alias' = alias | NodeIdAlias a \<Rightarrow> alias' = a)"
  by (cases n) auto

subsection \<open>Short channel ids\<close>

datatype short_channel_id = ShortChannelID u64

primrec scid_to_u64 :: "short_channel_id \<Rightarrow> u64" where
  "scid_to_u64 (ShortChannelID v) = v"

definition scid_from_u64 :: "u64 \<Rightarrow> short_channel_id" where
  "scid_from_u64 v = ShortChannelID v"

lemma scid_from_to [simp]:
  "scid_from_u64 (scid_to_u64 s) = s"
  "scid_to_u64 (scid_from_u64 v) = v"
  by (cases s) (simp_all add: scid_from_u64_def)

text \<open>
  The three numbers of the display form \<open>block:transaction:output\<close>: the shifts and masks of
  the source, then its \<open>as u32\<close> and \<open>as u16\<close> casts.
\<close>

definition scid_display :: "short_channel_id \<Rightarrow> u32 \<times> u32 \<times> u16" where
  "scid_display s =
     (let v = scid_to_u64 s in
      (ucast (drop_bit 40 v), ucast ((drop_bit 16 v) AND 0xFFFFFF), ucast (v AND 0xFFFF)))"

lemma and_mask_mod:
  "unat (w AND 0xFFFF) = unat w mod 2 ^ 16"
  "unat (w AND 0xFFFFFF) = unat w mod 2 ^ 24"
  for w :: u64
proof -
  have m: "(0xFFFF :: u64) = mask 16" "(0xFFFFFF :: u64) = mask 24"
    by (simp_all add: mask_eq_exp_minus_1)
  show "unat (w AND 0xFFFF) = unat w mod 2 ^ 16"
    unfolding m take_bit_eq_mask [symmetric] unsigned_take_bit_eq by (simp only: take_bit_eq_mod)
  show "unat (w AND 0xFFFFFF) = unat w mod 2 ^ 24"
    unfolding m take_bit_eq_mask [symmetric] unsigned_take_bit_eq by (simp only: take_bit_eq_mod)
qed

lemma unat_drop_bit_u64: "unat (drop_bit n w) = unat w div 2 ^ n" for w :: u64
  unfolding unat_drop_bit_eq by (rule drop_bit_eq_div)

lemma scid_display_parts:
  assumes "scid_display (ShortChannelID v) = (b, t, o')"
  shows "unat b = unat v div 2 ^ 40"
    and "unat t = unat v div 2 ^ 16 mod 2 ^ 24"
    and "unat o' = unat v mod 2 ^ 16"
proof -
  have parts: "b = ucast (drop_bit 40 v)" "t = ucast ((drop_bit 16 v) AND 0xFFFFFF)"
    "o' = ucast (v AND 0xFFFF)"
    using assms by (simp_all add: scid_display_def Let_def)
  have "unat v div 2 ^ 40 < 2 ^ 24"
    using unat_u64_less [of v] by (simp add: div_less_iff_less_mult)
  then show "unat b = unat v div 2 ^ 40"
    unfolding parts unsigned_ucast_eq take_bit_eq_mod unat_drop_bit_u64 by simp
  have "unat v div 2 ^ 16 mod 2 ^ 24 < (2 ^ 24 :: nat)" by (rule mod_less_divisor) simp
  then show "unat t = unat v div 2 ^ 16 mod 2 ^ 24"
    unfolding parts unsigned_ucast_eq take_bit_eq_mod and_mask_mod unat_drop_bit_u64 by simp
  have "unat v mod 2 ^ 16 < (2 ^ 16 :: nat)" by (rule mod_less_divisor) simp
  then show "unat o' = unat v mod 2 ^ 16"
    unfolding parts unsigned_ucast_eq take_bit_eq_mod and_mask_mod by simp
qed

subsection \<open>Values and ranges\<close>

datatype 'a value_or_range = Value 'a | Range 'a 'a

text \<open>
  Sampling a range calls \<open>gen_range(x..y)\<close> of the \<open>rand\<close> crate: a parameter that draws from the
  state of a generator. Its documented behaviour (\<open>gen_range_ok\<close>) is that a draw from a
  non-empty range lies in it; on an empty range it panics, which is the value \<open>None\<close>.
\<close>

type_synonym ('r, 'a) range_sampler = "'a \<Rightarrow> 'a \<Rightarrow> 'r \<Rightarrow> 'a \<times> 'r"

definition gen_range_ok :: "('r, 'a::linorder) range_sampler \<Rightarrow> bool" where
  "gen_range_ok g \<longleftrightarrow> (\<forall>x y r. x < y \<longrightarrow> x \<le> fst (g x y r) \<and> fst (g x y r) < y)"

fun value_or_range_value ::
  "('r, 'a::linorder) range_sampler \<Rightarrow> 'a value_or_range \<Rightarrow> 'r \<Rightarrow> ('a \<times> 'r) option" where
  "value_or_range_value g (Value x) r = Some (x, r)"
| "value_or_range_value g (Range x y) r = (if x < y then Some (g x y r) else None)"

fun range_valid :: "'a::linorder value_or_range \<Rightarrow> bool" where
  "range_valid (Value x) = True"
| "range_valid (Range x y) = (x < y)"

fun in_range :: "'a::linorder value_or_range \<Rightarrow> 'a \<Rightarrow> bool" where
  "in_range (Value x) v = (v = x)"
| "in_range (Range x y) v = (x \<le> v \<and> v < y)"

lemma value_or_range_value_in_range:
  assumes "gen_range_ok g" and "value_or_range_value g vr r = Some (v, r')"
  shows "in_range vr v"
proof (cases vr)
  case (Value x)
  with assms(2) show ?thesis by simp
next
  case (Range x y)
  with assms(2) have "x < y" and "v = fst (g x y r)" by (auto split: if_splits)
  with assms(1) Range show ?thesis by (simp add: gen_range_ok_def)
qed

lemma value_or_range_value_total:
  "range_valid vr \<Longrightarrow> \<exists>v r'. value_or_range_value g vr r = Some (v, r')"
  by (cases vr) (auto simp: prod.exhaust_sel)

subsection \<open>Nodes, activities, payments\<close>

record node_info =
  pubkey :: pubkey
  node_alias :: string
  features :: node_features

record activity_definition =
  act_source :: node_info
  act_destination :: node_info
  act_start_secs :: "u16 option"
  act_count :: "u64 option"
  act_interval_secs :: "u16 value_or_range"
  act_amount_msat :: "u64 value_or_range"

datatype payment_outcome =
    Success
  | RecipientRejected
  | UserAbandoned
  | RetriesExhausted
  | PaymentExpired
  | RouteNotFound
  | UnexpectedError
  | IncorrectPaymentDetails
  | OutcomeInsufficientBalance
  | Unknown
  | NotDispatched
  | TrackPaymentFailed
  | IndexFailure nat

record payment_result =
  htlc_count :: nat
  payment_outcome :: payment_outcome

definition not_dispatched :: payment_result where
  "not_dispatched = \<lparr>htlc_count = 0, payment_outcome = NotDispatched\<rparr>"

definition track_payment_failed :: payment_result where
  "track_payment_failed = \<lparr>htlc_count = 0, payment_outcome = TrackPaymentFailed\<rparr>"

record payment =
  pay_source :: pubkey
  pay_destination :: pubkey
  pay_amount_msat :: u64
  pay_hash :: "payment_hash option"
  pay_dispatch_time :: system_time

datatype simulation_event = SendPayment node_info u64

datatype simulation_output =
    SendPaymentSuccess payment
  | SendPaymentFailure payment payment_result

datatype random_activity_error = ValueError message | InsufficientCapacity message

datatype simulation_error =
    LightningError lightning_error
  | TaskError
  | CsvError
  | FileError
  | RandomActivityError random_activity_error
  | SimulatedNetworkError message
  | SystemTimeError
  | MissingNodeError message
  | MpscChannelError message
  | PaymentGenerationError message
  | DestinationGenerationError message
  | RuntimeError message

end
