(* ===== verification/Sim_Channel.thy ===== *)
theory Sim_Channel
  imports Sim_Types
begin

section \<open>Simulated channels (simln-lib/src/sim_node.rs)\<close>

text \<open>
  One payment channel: each side's liquidity, in-flight outgoing HTLCs and policy, and the
  operations that add, check, remove and settle HTLCs.

  A method on \<open>&mut self\<close> returns its result together with the new state, also when the result
  is an error, because the code may have changed the state before it failed.
  \<open>Result<Result<T, ForwardingError>, CriticalError>\<close> is
  \<open>critical_error + (forwarding_error + 't)\<close>.
\<close>

subsection \<open>Errors\<close>

datatype forwarding_error =
    InsufficientBalance u64 u64
  | LessThanMinimum u64 u64
  | MoreThanMaximum u64 u64
  | ExceedsInFlightCount u64 u64
  | ExceedsInFlightTotal u64 u64
  | ExpiryInSeconds u32 u32
  | InsufficientCltvDelta u32 u32
  | InsufficientFee u64 u64 u64 u64
  | FwdInterceptorError string

datatype critical_error =
    ZeroAmountHtlc
  | ChannelNotFound short_channel_id
  | NodeNotFound pubkey
  | PaymentHashExists payment_hash
  | PaymentHashNotFound payment_hash
  | FeeOverflow u64 u64 u64
  | SanityCheckFailed u64 u64
  | DuplicateCustomRecord u64
  | CritInterceptorError string

type_synonym 'a forward = "critical_error + (forwarding_error + 'a)"

subsection \<open>State\<close>

record htlc =
  amount_msat :: u64
  cltv_expiry :: u32

record channel_policy =
  pol_pubkey :: pubkey
  pol_alias :: string
  max_htlc_count :: u64
  max_in_flight_msat :: u64
  min_htlc_size_msat :: u64
  max_htlc_size_msat :: u64
  cltv_expiry_delta :: u32
  base_fee :: u64
  fee_rate_prop :: u64

record channel_state =
  local_balance_msat :: u64
  in_flight :: "(payment_hash, htlc \<times> u64) hmap"
  policy :: channel_policy
  htlc_index :: u64

record simulated_channel =
  capacity_msat :: u64
  short_channel_id :: short_channel_id
  node_1 :: channel_state
  node_2 :: channel_state
  exclude_capacity :: bool

subsection \<open>Policies\<close>

definition channel_policy_validate :: "channel_policy \<Rightarrow> u64 \<Rightarrow> simulation_error + unit" where
  "channel_policy_validate p capacity =
     (if max_in_flight_msat p > capacity
      then Inl (SimulatedNetworkError (Fmt ''max_in_flight_msat {} > capacity {}''
             [ArgNum (unat (max_in_flight_msat p)), ArgNum (unat capacity)]))
      else if max_htlc_size_msat p > capacity
      then Inl (SimulatedNetworkError (Fmt ''max_htlc_size_msat {} > capacity {}''
             [ArgNum (unat (max_htlc_size_msat p)), ArgNum (unat capacity)]))
      else Inr ())"

subsection \<open>One side of a channel\<close>

definition channel_state_new :: "channel_policy \<Rightarrow> u64 \<Rightarrow> channel_state" where
  "channel_state_new p balance =
     \<lparr>local_balance_msat = balance, in_flight = hm_new, policy = p, htlc_index = 0\<rparr>"

definition in_flight_total :: "channel_state \<Rightarrow> u64" where
  "in_flight_total cs = sum_list (map (\<lambda>h. amount_msat (fst h)) (hm_values (in_flight cs)))"

definition state_check_htlc_forward ::
  "channel_state \<Rightarrow> u32 \<Rightarrow> u64 \<Rightarrow> u64 \<Rightarrow> unit forward" where
  "state_check_htlc_forward cs cltv_delta amt fee =
     (let p = policy cs in
      if cltv_delta < cltv_expiry_delta p
      then Inr (Inl (InsufficientCltvDelta cltv_delta (cltv_expiry_delta p)))
      else
        res_bind
          (ok_or (Option.bind (checked_mul amt (fee_rate_prop p))
                    (\<lambda>prop_fee. checked_add (prop_fee div 1000000) (base_fee p)))
                 (FeeOverflow amt (base_fee p) (fee_rate_prop p)))
          (\<lambda>expected_fee.
             if fee < expected_fee
             then Inr (Inl (InsufficientFee fee (base_fee p) (fee_rate_prop p) expected_fee))
             else Inr (Inr ())))"

definition check_outgoing_addition ::
  "channel_state \<Rightarrow> htlc \<Rightarrow> channel_policy \<Rightarrow> forwarding_error + unit" where
  "check_outgoing_addition cs h counterparty =
     (if amount_msat h > max_htlc_size_msat (policy cs)
      then Inl (MoreThanMaximum (amount_msat h) (max_htlc_size_msat (policy cs)))
      else if amount_msat h < min_htlc_size_msat (policy cs)
      then Inl (LessThanMinimum (amount_msat h) (min_htlc_size_msat (policy cs)))
      else if of_nat (hm_len (in_flight cs)) + 1 > max_htlc_count counterparty
      then Inl (ExceedsInFlightCount (of_nat (hm_len (in_flight cs)) + 1)
                  (max_htlc_count counterparty))
      else if in_flight_total cs + amount_msat h > max_in_flight_msat counterparty
      then Inl (ExceedsInFlightTotal (in_flight_total cs + amount_msat h)
                  (max_in_flight_msat counterparty))
      else if amount_msat h > local_balance_msat cs
      then Inl (InsufficientBalance (amount_msat h) (local_balance_msat cs))
      else if cltv_expiry h > 500000000
      then Inl (ExpiryInSeconds (cltv_expiry h) 500000000)
      else Inr ())"

definition add_outgoing_htlc ::
  "channel_state \<Rightarrow> payment_hash \<Rightarrow> htlc \<Rightarrow> channel_policy \<Rightarrow> u64 forward \<times> channel_state" where
  "add_outgoing_htlc cs hash h counterparty =
     (case check_outgoing_addition cs h counterparty of
        Inl fwd_err \<Rightarrow> (Inr (Inl fwd_err), cs)
      | Inr _ \<Rightarrow>
          if hm_contains (in_flight cs) hash then (Inl (PaymentHashExists hash), cs)
          else
            (let index = htlc_index cs in
             (Inr (Inr index),
              cs\<lparr>htlc_index := htlc_index cs + 1,
                 local_balance_msat := local_balance_msat cs - amount_msat h,
                 in_flight := hm_insert hash (h, index) (in_flight cs)\<rparr>)))"

definition remove_outgoing_htlc ::
  "channel_state \<Rightarrow> payment_hash \<Rightarrow> (critical_error + (htlc \<times> u64)) \<times> channel_state" where
  "remove_outgoing_htlc cs hash =
     (case hm_get (in_flight cs) hash of
        None \<Rightarrow> (Inl (PaymentHashNotFound hash), cs)
      | Some entry \<Rightarrow> (Inr entry, cs\<lparr>in_flight := hm_remove hash (in_flight cs)\<rparr>))"

definition settle_outgoing_htlc :: "channel_state \<Rightarrow> u64 \<Rightarrow> bool \<Rightarrow> channel_state" where
  "settle_outgoing_htlc cs amt success =
     (if \<not> success then cs\<lparr>local_balance_msat := local_balance_msat cs + amt\<rparr> else cs)"

definition settle_incoming_htlc :: "channel_state \<Rightarrow> u64 \<Rightarrow> bool \<Rightarrow> channel_state" where
  "settle_incoming_htlc cs amt success =
     (if success then cs\<lparr>local_balance_msat := local_balance_msat cs + amt\<rparr> else cs)"

subsection \<open>The channel\<close>

definition simulated_channel_new ::
  "u64 \<Rightarrow> short_channel_id \<Rightarrow> channel_policy \<Rightarrow> channel_policy \<Rightarrow> bool \<Rightarrow> simulated_channel" where
  "simulated_channel_new capacity scid p1 p2 exclude =
     \<lparr>capacity_msat = capacity,
      short_channel_id = scid,
      node_1 = channel_state_new p1 (capacity div 2),
      node_2 = channel_state_new p2 (capacity div 2),
      exclude_capacity = exclude\<rparr>"

definition pk_1 :: "simulated_channel \<Rightarrow> pubkey" where
  "pk_1 c = pol_pubkey (policy (node_1 c))"

definition pk_2 :: "simulated_channel \<Rightarrow> pubkey" where
  "pk_2 c = pol_pubkey (policy (node_2 c))"

definition simulated_channel_validate :: "simulated_channel \<Rightarrow> simulation_error + unit" where
  "simulated_channel_validate c =
     (if pk_1 c = pk_2 c
      then Inl (SimulatedNetworkError
             (Fmt ''Channel should have distinct node pubkeys, got: {} for both nodes.'' [ArgPk (pk_1 c)]))
      else res_bind (channel_policy_validate (policy (node_1 c)) (capacity_msat c)) (\<lambda>_.
           res_bind (channel_policy_validate (policy (node_2 c)) (capacity_msat c)) (\<lambda>_.
           Inr ())))"

text \<open>
  \<open>get_node_mut\<close> hands out a mutable reference to one side. The reference is the side's name;
  \<open>side_state\<close> and \<open>set_side\<close> read and write through it.
\<close>

datatype side = Side1 | Side2

primrec side_state :: "side \<Rightarrow> simulated_channel \<Rightarrow> channel_state" where
  "side_state Side1 c = node_1 c"
| "side_state Side2 c = node_2 c"

primrec set_side :: "side \<Rightarrow> channel_state \<Rightarrow> simulated_channel \<Rightarrow> simulated_channel" where
  "set_side Side1 cs c = c\<lparr>node_1 := cs\<rparr>"
| "set_side Side2 cs c = c\<lparr>node_2 := cs\<rparr>"

primrec other_side :: "side \<Rightarrow> side" where
  "other_side Side1 = Side2"
| "other_side Side2 = Side1"

definition get_node_mut :: "simulated_channel \<Rightarrow> pubkey \<Rightarrow> critical_error + side" where
  "get_node_mut c pk =
     (if pk = pk_1 c then Inr Side1
      else if pk = pk_2 c then Inr Side2
      else Inl (NodeNotFound pk))"

definition get_node :: "simulated_channel \<Rightarrow> pubkey \<Rightarrow> critical_error + channel_state" where
  "get_node c pk =
     (if pk = pk_1 c then Inr (node_1 c)
      else if pk = pk_2 c then Inr (node_2 c)
      else Inl (NodeNotFound pk))"

definition sanity_check :: "simulated_channel \<Rightarrow> critical_error + unit" where
  "sanity_check c =
     (let node_1_total = local_balance_msat (node_1 c) + in_flight_total (node_1 c);
          node_2_total = local_balance_msat (node_2 c) + in_flight_total (node_2 c);
          channel_balance = node_1_total + node_2_total
      in if channel_balance \<noteq> capacity_msat c
         then Inl (SanityCheckFailed channel_balance (capacity_msat c))
         else Inr ())"

definition add_htlc ::
  "simulated_channel \<Rightarrow> pubkey \<Rightarrow> payment_hash \<Rightarrow> htlc \<Rightarrow> u64 forward \<times> simulated_channel" where
  "add_htlc c sending_node hash h =
     (if amount_msat h = 0 then (Inl ZeroAmountHtlc, c)
      else
        (case sanity_check c of
           Inl e \<Rightarrow> (Inl e, c)
         | Inr _ \<Rightarrow>
             if sending_node = pk_1 c
             then (let (r, cs) = add_outgoing_htlc (node_1 c) hash h (policy (node_2 c))
                   in (r, c\<lparr>node_1 := cs\<rparr>))
             else if sending_node = pk_2 c
             then (let (r, cs) = add_outgoing_htlc (node_2 c) hash h (policy (node_1 c))
                   in (r, c\<lparr>node_2 := cs\<rparr>))
             else (Inl (NodeNotFound sending_node), c)))"

definition settle_htlc ::
  "simulated_channel \<Rightarrow> pubkey \<Rightarrow> u64 \<Rightarrow> bool \<Rightarrow> (critical_error + unit) \<times> simulated_channel" where
  "settle_htlc c sending_node amt success =
     (if sending_node = pk_1 c
      then (Inr (), c\<lparr>node_1 := settle_outgoing_htlc (node_1 c) amt success,
                      node_2 := settle_incoming_htlc (node_2 c) amt success\<rparr>)
      else if sending_node = pk_2 c
      then (Inr (), c\<lparr>node_2 := settle_outgoing_htlc (node_2 c) amt success,
                      node_1 := settle_incoming_htlc (node_1 c) amt success\<rparr>)
      else (Inl (NodeNotFound sending_node), c))"

definition remove_htlc ::
  "simulated_channel \<Rightarrow> pubkey \<Rightarrow> payment_hash \<Rightarrow> bool \<Rightarrow>
   (critical_error + (htlc \<times> u64)) \<times> simulated_channel" where
  "remove_htlc c sending_node hash success =
     (case get_node_mut c sending_node of
        Inl e \<Rightarrow> (Inl e, c)
      | Inr s \<Rightarrow>
          (case remove_outgoing_htlc (side_state s c) hash of
             (Inl e, cs) \<Rightarrow> (Inl e, set_side s cs c)
           | (Inr entry, cs) \<Rightarrow>
               (case settle_htlc (set_side s cs c) sending_node (amount_msat (fst entry)) success of
                  (Inl e, c') \<Rightarrow> (Inl e, c')
                | (Inr _, c') \<Rightarrow>
                    (case sanity_check c' of
                       Inl e \<Rightarrow> (Inl e, c')
                     | Inr _ \<Rightarrow> (Inr entry, c')))))"

definition channel_check_htlc_forward ::
  "simulated_channel \<Rightarrow> pubkey \<Rightarrow> u32 \<Rightarrow> u64 \<Rightarrow> u64 \<Rightarrow> unit forward" where
  "channel_check_htlc_forward c forwarding_node cltv_delta amt fee =
     res_bind (get_node c forwarding_node)
       (\<lambda>cs. state_check_htlc_forward cs cltv_delta amt fee)"

text \<open>
  \<open>node_info\<close> sets the keysend bit through the \<open>lightning\<close> crate's feature type: a parameter.
\<close>

definition make_node_info ::
  "(node_features \<Rightarrow> node_features) \<Rightarrow> pubkey \<Rightarrow> string \<Rightarrow> node_info" where
  "make_node_info set_keysend_optional pk al =
     \<lparr>pubkey = pk, node_alias = al, features = set_keysend_optional (NodeFeatures [])\<rparr>"

definition create_simulated_nodes ::
  "(node_features \<Rightarrow> node_features) \<Rightarrow> simulated_channel \<Rightarrow> node_info \<times> node_info" where
  "create_simulated_nodes set_keysend_optional c =
     (make_node_info set_keysend_optional (pk_1 c) (pol_alias (policy (node_1 c))),
      make_node_info set_keysend_optional (pk_2 c) (pol_alias (policy (node_2 c))))"

end
