(* ===== verification/Channel_Laws.thy ===== *)
theory Channel_Laws
  imports Sim_Channel
begin

section \<open>Laws of the simulated channel\<close>

text \<open>
  The funds of a channel over natural numbers, the invariant \<open>channel_inv\<close>, what each
  operation does to them, and the reachable states of the channel as a state machine.
\<close>

subsection \<open>Reading and writing one side\<close>

lemma side_state_set [simp]:
  "side_state s (set_side s cs c) = cs"
  "side_state (other_side s) (set_side s cs c) = side_state (other_side s) c"
  "side_state s (set_side (other_side s) cs c) = side_state s c"
  by (cases s; simp)+

lemma other_side_twice [simp]: "other_side (other_side s) = s"
  by (cases s) simp_all

lemma other_side_neq [simp]: "other_side s \<noteq> s" "s \<noteq> other_side s"
  by (cases s; simp)+

lemma set_side_fields [simp]:
  "capacity_msat (set_side s cs c) = capacity_msat c"
  "short_channel_id (set_side s cs c) = short_channel_id c"
  "exclude_capacity (set_side s cs c) = exclude_capacity c"
  by (cases s; simp)+

lemma set_side_same [simp]: "set_side s (side_state s c) c = c"
  by (cases s) simp_all

lemma set_side_set_side [simp]: "set_side s x (set_side s y c) = set_side s x c"
  by (cases s) simp_all

lemma set_side_swap: "set_side (other_side s) x (set_side s y c) = set_side s y (set_side (other_side s) x c)"
  by (cases s) simp_all

lemma set_side_pk [simp]:
  assumes "policy cs = policy (side_state s c)"
  shows "pk_1 (set_side s cs c) = pk_1 c" and "pk_2 (set_side s cs c) = pk_2 c"
  using assms by (cases s; simp add: pk_1_def pk_2_def)+

lemma get_node_mut_set_side [simp]:
  "policy cs = policy (side_state s c) \<Longrightarrow> get_node_mut (set_side s cs c) pk = get_node_mut c pk"
  by (simp add: get_node_mut_def)

lemma get_node_via_side:
  "get_node c pk = (case get_node_mut c pk of Inl e \<Rightarrow> Inl e | Inr s \<Rightarrow> Inr (side_state s c))"
  by (simp add: get_node_def get_node_mut_def)

lemma channel_eqI:
  assumes "side_state s c = side_state s d" "side_state (other_side s) c = side_state (other_side s) d"
    "capacity_msat c = capacity_msat d" "short_channel_id c = short_channel_id d"
    "exclude_capacity c = exclude_capacity d"
  shows "c = d"
  using assms by (cases s) auto

text \<open>Adding and settling, said once for both sides.\<close>

lemma add_htlc_side:
  assumes "get_node_mut c pk = Inr s"
  shows "add_htlc c pk hash h =
    (if amount_msat h = 0 then (Inl ZeroAmountHtlc, c)
     else case sanity_check c of
       Inl e \<Rightarrow> (Inl e, c)
     | Inr _ \<Rightarrow>
         (let (r, cs) = add_outgoing_htlc (side_state s c) hash h (policy (side_state (other_side s) c))
          in (r, set_side s cs c)))"
  using assms by (auto simp: add_htlc_def get_node_mut_def Let_def split: if_splits sum.splits)

lemma settle_htlc_side:
  assumes "get_node_mut c pk = Inr s"
  shows "settle_htlc c pk amt success =
    (Inr (), set_side (other_side s) (settle_incoming_htlc (side_state (other_side s) c) amt success)
              (set_side s (settle_outgoing_htlc (side_state s c) amt success) c))"
  using assms by (auto simp: settle_htlc_def get_node_mut_def split: if_splits)

subsection \<open>Funds\<close>

definition in_flight_funds :: "channel_state \<Rightarrow> nat" where
  "in_flight_funds cs = sum_list (map (\<lambda>e. unat (amount_msat (fst (snd e)))) (in_flight cs))"

definition funds :: "channel_state \<Rightarrow> nat" where
  "funds cs = unat (local_balance_msat cs) + in_flight_funds cs"

definition total_funds :: "simulated_channel \<Rightarrow> nat" where
  "total_funds c = funds (node_1 c) + funds (node_2 c)"

definition htlcs_wf :: "channel_state \<Rightarrow> bool" where
  "htlcs_wf cs \<longleftrightarrow> hm_wf (in_flight cs) \<and>
     list_all (\<lambda>e. amount_msat (fst (snd e)) \<noteq> 0) (in_flight cs)"

definition channel_inv :: "simulated_channel \<Rightarrow> bool" where
  "channel_inv c \<longleftrightarrow> htlcs_wf (node_1 c) \<and> htlcs_wf (node_2 c) \<and>
     total_funds c = unat (capacity_msat c)"

lemma total_funds_side: "total_funds c = funds (side_state s c) + funds (side_state (other_side s) c)"
  by (cases s) (simp_all add: total_funds_def)

lemma channel_inv_side:
  "channel_inv c \<longleftrightarrow> htlcs_wf (side_state s c) \<and> htlcs_wf (side_state (other_side s) c) \<and>
     funds (side_state s c) + funds (side_state (other_side s) c) = unat (capacity_msat c)"
  by (cases s) (auto simp: channel_inv_def total_funds_def)

lemma in_flight_total_nat:
  "in_flight_funds cs < 2 ^ 64 \<Longrightarrow> unat (in_flight_total cs) = in_flight_funds cs"
  using sum_list_map_unat [of "\<lambda>e. amount_msat (fst (snd e))" "in_flight cs"]
  by (simp add: in_flight_total_def in_flight_funds_def hm_values_def comp_def)

lemma channel_inv_bounds:
  assumes "channel_inv c"
  shows "funds (node_1 c) + funds (node_2 c) < 2 ^ 64" "funds (side_state s c) < 2 ^ 64"
    "in_flight_funds (side_state s c) < 2 ^ 64"
    "unat (local_balance_msat (side_state s c)) + in_flight_funds (side_state s c) < 2 ^ 64"
    "funds (side_state s c) + funds (side_state (other_side s) c) < 2 ^ 64"
proof -
  have total: "funds (node_1 c) + funds (node_2 c) = unat (capacity_msat c)"
    "funds (side_state s c) + funds (side_state (other_side s) c) = unat (capacity_msat c)"
    using assms channel_inv_side [of c s] by (simp_all add: channel_inv_def total_funds_def)
  have "unat (capacity_msat c) < 2 ^ 64" by simp
  with total show "funds (node_1 c) + funds (node_2 c) < 2 ^ 64"
    "funds (side_state s c) + funds (side_state (other_side s) c) < 2 ^ 64"
    "funds (side_state s c) < 2 ^ 64"
    by linarith+
  then show "in_flight_funds (side_state s c) < 2 ^ 64"
    "unat (local_balance_msat (side_state s c)) + in_flight_funds (side_state s c) < 2 ^ 64"
    by (simp_all only: funds_def)
qed

lemma sanity_check_ok:
  assumes "channel_inv c"
  shows "sanity_check c = Inr ()"
proof -
  have side: "unat (local_balance_msat (side_state s c) + in_flight_total (side_state s c))
      = funds (side_state s c)" for s
    using channel_inv_bounds(3,4) [OF assms, of s]
    by (simp add: in_flight_total_nat unat_add_bounded funds_def)
  have "unat ((local_balance_msat (node_1 c) + in_flight_total (node_1 c)) +
      (local_balance_msat (node_2 c) + in_flight_total (node_2 c))) = total_funds c"
    using side [of Side1] side [of Side2] channel_inv_bounds(1) [OF assms]
    by (simp add: unat_add_bounded total_funds_def)
  also have "\<dots> = unat (capacity_msat c)"
    using assms by (simp add: channel_inv_def)
  finally show ?thesis
    by (simp add: sanity_check_def Let_def word_unat_eq_iff)
qed

subsection \<open>Accepting an HTLC\<close>

text \<open>The limits of a channel, over natural numbers and without reference to the code's order of tests.\<close>

definition within_limits :: "channel_state \<Rightarrow> htlc \<Rightarrow> channel_policy \<Rightarrow> bool" where
  "within_limits cs h counterparty \<longleftrightarrow>
     unat (min_htlc_size_msat (policy cs)) \<le> unat (amount_msat h) \<and>
     unat (amount_msat h) \<le> unat (max_htlc_size_msat (policy cs)) \<and>
     length (in_flight cs) + 1 \<le> unat (max_htlc_count counterparty) \<and>
     in_flight_funds cs + unat (amount_msat h) \<le> unat (max_in_flight_msat counterparty) \<and>
     unat (amount_msat h) \<le> unat (local_balance_msat cs) \<and>
     unat (cltv_expiry h) \<le> 500000000"

lemma count_le_in_flight_funds: "htlcs_wf cs \<Longrightarrow> length (in_flight cs) \<le> in_flight_funds cs"
proof -
  have "list_all (\<lambda>e. amount_msat (fst (snd e)) \<noteq> 0) es \<Longrightarrow>
    length es \<le> sum_list (map (\<lambda>e. unat (amount_msat (fst (snd e)))) es)"
    for es :: "(payment_hash, htlc \<times> u64) hmap"
  proof (induction es)
    case Nil
    then show ?case by simp
  next
    case (Cons e es)
    then have "1 \<le> unat (amount_msat (fst (snd e)))"
      by (simp add: Suc_le_eq unat_gt_0)
    with Cons show ?case by simp
  qed
  then show "htlcs_wf cs \<Longrightarrow> length (in_flight cs) \<le> in_flight_funds cs"
    by (simp add: htlcs_wf_def in_flight_funds_def)
qed

lemma check_outgoing_addition_iff:
  assumes "htlcs_wf cs" and "funds cs < 2 ^ 64" and "amount_msat h \<noteq> 0"
  shows "check_outgoing_addition cs h cp = Inr () \<longleftrightarrow> within_limits cs h cp"
proof (cases "amount_msat h \<le> local_balance_msat cs")
  case False
  then show ?thesis
    by (auto simp: check_outgoing_addition_def within_limits_def word_le_nat_alt not_less
        linorder_not_le)
next
  case True
  then have "unat (amount_msat h) \<le> unat (local_balance_msat cs)" by (simp add: word_le_nat_alt)
  with assms have fits: "in_flight_funds cs + unat (amount_msat h) < 2 ^ 64"
    by (simp add: funds_def)
  then have total: "unat (in_flight_total cs + amount_msat h) = in_flight_funds cs + unat (amount_msat h)"
    by (simp add: in_flight_total_nat unat_add_bounded)
  have "0 < unat (amount_msat h)" using assms(3) by (simp add: unat_gt_0)
  with fits count_le_in_flight_funds [OF assms(1)] have "length (in_flight cs) + 1 < 2 ^ 64"
    by simp
  then have count: "unat (of_nat (length (in_flight cs)) + 1 :: u64) = length (in_flight cs) + 1"
    by (simp add: unat_word_ariths unat_of_nat)
  show ?thesis
    using True total count
    by (auto simp: check_outgoing_addition_def within_limits_def hm_len_def word_le_nat_alt
        word_less_nat_alt not_less)
qed

subsection \<open>What each operation does to the state\<close>

text \<open>The state of the sending side once an HTLC is locked in, and once it is taken out again.\<close>

definition lock_htlc :: "payment_hash \<Rightarrow> htlc \<Rightarrow> channel_state \<Rightarrow> channel_state" where
  "lock_htlc hash h cs =
     cs\<lparr>htlc_index := htlc_index cs + 1,
        local_balance_msat := local_balance_msat cs - amount_msat h,
        in_flight := hm_insert hash (h, htlc_index cs) (in_flight cs)\<rparr>"

definition drop_htlc :: "payment_hash \<Rightarrow> channel_state \<Rightarrow> channel_state" where
  "drop_htlc hash cs = cs\<lparr>in_flight := hm_remove hash (in_flight cs)\<rparr>"

definition credit :: "u64 \<Rightarrow> channel_state \<Rightarrow> channel_state" where
  "credit amt cs = cs\<lparr>local_balance_msat := local_balance_msat cs + amt\<rparr>"

lemma side_update_simps [simp]:
  "policy (lock_htlc hash h cs) = policy cs" "policy (drop_htlc hash cs) = policy cs"
  "policy (credit amt cs) = policy cs"
  "in_flight (lock_htlc hash h cs) = hm_insert hash (h, htlc_index cs) (in_flight cs)"
  "in_flight (drop_htlc hash cs) = hm_remove hash (in_flight cs)"
  "in_flight (credit amt cs) = in_flight cs"
  "local_balance_msat (lock_htlc hash h cs) = local_balance_msat cs - amount_msat h"
  "local_balance_msat (drop_htlc hash cs) = local_balance_msat cs"
  "local_balance_msat (credit amt cs) = local_balance_msat cs + amt"
  by (simp_all add: lock_htlc_def drop_htlc_def credit_def)

lemma settle_credit:
  "settle_outgoing_htlc cs amt success = (if success then cs else credit amt cs)"
  "settle_incoming_htlc cs amt success = (if success then credit amt cs else cs)"
  by (simp_all add: settle_outgoing_htlc_def settle_incoming_htlc_def credit_def)

lemma add_outgoing_htlc_ok:
  "add_outgoing_htlc cs hash h cp = (Inr (Inr idx), cs') \<longleftrightarrow>
     check_outgoing_addition cs h cp = Inr () \<and> hm_get (in_flight cs) hash = None \<and>
     idx = htlc_index cs \<and> cs' = lock_htlc hash h cs"
  by (cases "hm_get (in_flight cs) hash"; cases "check_outgoing_addition cs h cp")
    (auto simp: add_outgoing_htlc_def lock_htlc_def hm_contains_def Let_def)

lemma add_outgoing_htlc_refused:
  "add_outgoing_htlc cs hash h cp = (r, cs') \<Longrightarrow> \<nexists>idx. r = Inr (Inr idx) \<Longrightarrow> cs' = cs"
  by (auto simp: add_outgoing_htlc_def Let_def split: sum.splits if_splits)

lemma add_htlc_ok_side:
  assumes "channel_inv c"
  shows "add_htlc c pk hash h = (Inr (Inr idx), c') \<longleftrightarrow>
    (\<exists>s. get_node_mut c pk = Inr s \<and> amount_msat h \<noteq> 0 \<and>
       within_limits (side_state s c) h (policy (side_state (other_side s) c)) \<and>
       hm_get (in_flight (side_state s c)) hash = None \<and>
       idx = htlc_index (side_state s c) \<and>
       c' = set_side s (lock_htlc hash h (side_state s c)) c)"
proof (cases "get_node_mut c pk")
  case (Inl e)
  then show ?thesis
    using sanity_check_ok [OF assms]
    by (auto simp: add_htlc_def get_node_mut_def split: if_splits)
next
  case (Inr s)
  note wf = assms [THEN channel_inv_side [THEN iffD1], of s] channel_inv_bounds(2) [OF assms, of s]
  show ?thesis
  proof (cases "amount_msat h = 0")
    case True
    then show ?thesis using Inr by (simp add: add_htlc_side)
  next
    case False
    let ?cs = "side_state s c" and ?cp = "policy (side_state (other_side s) c)"
    have check: "check_outgoing_addition ?cs h ?cp = Inr () \<longleftrightarrow> within_limits ?cs h ?cp"
      using wf False by (intro check_outgoing_addition_iff) auto
    have "add_htlc c pk hash h =
        (fst (add_outgoing_htlc ?cs hash h ?cp), set_side s (snd (add_outgoing_htlc ?cs hash h ?cp)) c)"
      using False sanity_check_ok [OF assms] by (simp add: add_htlc_side [OF Inr] split_beta Let_def)
    then have "add_htlc c pk hash h = (Inr (Inr idx), c') \<longleftrightarrow>
        (\<exists>cs'. add_outgoing_htlc ?cs hash h ?cp = (Inr (Inr idx), cs') \<and> c' = set_side s cs' c)"
      by (cases "add_outgoing_htlc ?cs hash h ?cp") auto
    then show ?thesis
      using Inr False check by (simp add: add_outgoing_htlc_ok)
  qed
qed

lemma add_htlc_refused:
  assumes "add_htlc c pk hash h = (r, c')" and "\<nexists>idx. r = Inr (Inr idx)"
  shows "c' = c"
proof (cases "get_node_mut c pk")
  case (Inl e)
  with assms(1) show ?thesis
    by (auto simp: add_htlc_def get_node_mut_def split: if_splits sum.splits)
next
  case (Inr s)
  from assms show ?thesis
    unfolding add_htlc_side [OF Inr]
    by (auto simp: Let_def split: if_splits sum.splits prod.splits dest: add_outgoing_htlc_refused)
qed

subsection \<open>Funds under each update\<close>

lemma in_flight_funds_lock:
  assumes "hm_wf (in_flight cs)" and "hm_get (in_flight cs) hash = None"
  shows "in_flight_funds (lock_htlc hash h cs) = unat (amount_msat h) + in_flight_funds cs"
  using hm.total_insert_fresh [OF assms, of "\<lambda>e. unat (amount_msat (fst (snd e)))" "(h, htlc_index cs)"]
  by (simp add: in_flight_funds_def)

lemma in_flight_funds_drop:
  assumes "hm_wf (in_flight cs)" and "hm_get (in_flight cs) hash = Some (h, i)"
  shows "unat (amount_msat h) + in_flight_funds (drop_htlc hash cs) = in_flight_funds cs"
  using hm.total_remove [OF assms, of "\<lambda>e. unat (amount_msat (fst (snd e)))"]
  by (simp add: in_flight_funds_def)

lemma in_flight_funds_credit [simp]: "in_flight_funds (credit amt cs) = in_flight_funds cs"
  by (simp add: in_flight_funds_def)

lemma funds_lock:
  assumes "hm_wf (in_flight cs)" and "hm_get (in_flight cs) hash = None"
    and "amount_msat h \<le> local_balance_msat cs"
  shows "funds (lock_htlc hash h cs) = funds cs"
  using assms
  by (simp add: funds_def in_flight_funds_lock unat_sub_le word_le_nat_alt)

lemma funds_drop:
  assumes "hm_wf (in_flight cs)" and "hm_get (in_flight cs) hash = Some (h, i)"
  shows "funds cs = unat (amount_msat h) + funds (drop_htlc hash cs)"
  using in_flight_funds_drop [OF assms] by (simp add: funds_def)

lemma funds_credit:
  "unat (local_balance_msat cs) + unat amt < 2 ^ 64 \<Longrightarrow> funds (credit amt cs) = funds cs + unat amt"
  by (simp add: funds_def unat_add_bounded)

lemma htlcs_wf_lock: "htlcs_wf cs \<Longrightarrow> amount_msat h \<noteq> 0 \<Longrightarrow> htlcs_wf (lock_htlc hash h cs)"
proof -
  assume a: "htlcs_wf cs" "amount_msat h \<noteq> 0"
  then have "list_all (\<lambda>e. amount_msat (fst (snd e)) \<noteq> 0) (hm_insert hash (h, i) (in_flight cs))" for i
    using set_hm_insert [of hash "(h, i)" "in_flight cs"] by (auto simp: htlcs_wf_def list_all_iff)
  with a show ?thesis by (simp add: htlcs_wf_def hm_simps)
qed

lemma htlcs_wf_drop: "htlcs_wf cs \<Longrightarrow> htlcs_wf (drop_htlc hash cs)"
  by (simp add: htlcs_wf_def hm_simps) (simp add: hm_remove_def list_all_iff)

lemma htlcs_wf_credit [simp]: "htlcs_wf (credit amt cs) = htlcs_wf cs"
  by (simp add: htlcs_wf_def)

subsection \<open>Removing an HTLC\<close>

text \<open>The channel after an HTLC of side \<open>s\<close> is resolved: dropped there, its amount credited.\<close>

definition resolve_htlc ::
  "side \<Rightarrow> payment_hash \<Rightarrow> u64 \<Rightarrow> bool \<Rightarrow> simulated_channel \<Rightarrow> simulated_channel" where
  "resolve_htlc s hash amt success c =
     (let c' = set_side s (drop_htlc hash (side_state s c)) c;
          to = (if success then other_side s else s)
      in set_side to (credit amt (side_state to c')) c')"

lemma resolve_htlc_sides:
  "side_state s (resolve_htlc s hash amt success c) =
     (if success then drop_htlc hash (side_state s c) else credit amt (drop_htlc hash (side_state s c)))"
  "side_state (other_side s) (resolve_htlc s hash amt success c) =
     (if success then credit amt (side_state (other_side s) c) else side_state (other_side s) c)"
  "capacity_msat (resolve_htlc s hash amt success c) = capacity_msat c"
  by (simp_all add: resolve_htlc_def Let_def)

lemma resolve_htlc_pk [simp]:
  "pk_1 (resolve_htlc s hash amt success c) = pk_1 c"
  "pk_2 (resolve_htlc s hash amt success c) = pk_2 c"
  by (cases s; simp add: resolve_htlc_def Let_def pk_1_def pk_2_def)+

lemma channel_inv_resolve:
  assumes "channel_inv c" and "hm_get (in_flight (side_state s c)) hash = Some (h, i)"
  shows "channel_inv (resolve_htlc s hash (amount_msat h) success c)"
proof -
  let ?s = "side_state s c" and ?o = "side_state (other_side s) c"
  have inv: "htlcs_wf ?s" "htlcs_wf ?o" "funds ?s + funds ?o = unat (capacity_msat c)"
    using assms(1) by (simp_all add: channel_inv_side [of c s])
  have drop: "funds ?s = unat (amount_msat h) + funds (drop_htlc hash ?s)"
    using inv(1) assms(2) by (intro funds_drop) (auto simp: htlcs_wf_def)
  have cap: "unat (capacity_msat c) < 2 ^ 64" by simp
  have "unat (local_balance_msat ?o) \<le> funds ?o" "unat (local_balance_msat ?s) \<le> funds (drop_htlc hash ?s)"
    by (simp_all add: funds_def)
  then have "unat (local_balance_msat ?o) + unat (amount_msat h) < 2 ^ 64"
    "unat (local_balance_msat (drop_htlc hash ?s)) + unat (amount_msat h) < 2 ^ 64"
    using inv(3) drop cap unfolding side_update_simps by linarith+
  then have "funds (credit (amount_msat h) ?o) = funds ?o + unat (amount_msat h)"
    "funds (credit (amount_msat h) (drop_htlc hash ?s)) = funds (drop_htlc hash ?s) + unat (amount_msat h)"
    by (simp_all only: funds_credit)
  then show ?thesis
    unfolding channel_inv_side [of _ s] resolve_htlc_sides
    using inv drop by (simp add: htlcs_wf_drop)
qed

lemma remove_htlc_side:
  assumes "get_node_mut c pk = Inr s" and "hm_get (in_flight (side_state s c)) hash = Some (h, i)"
  shows "remove_htlc c pk hash success =
    (let c' = resolve_htlc s hash (amount_msat h) success c in
     (case sanity_check c' of Inl e \<Rightarrow> (Inl e, c') | Inr _ \<Rightarrow> (Inr (h, i), c')))"
proof -
  let ?d = "set_side s (drop_htlc hash (side_state s c)) c"
  have "get_node_mut ?d pk = Inr s"
    using assms(1) by simp
  from settle_htlc_side [OF this]
  have "settle_htlc ?d pk (amount_msat h) success = (Inr (), resolve_htlc s hash (amount_msat h) success c)"
    by (cases s) (auto simp: resolve_htlc_def Let_def settle_credit)
  with assms show ?thesis
    by (simp add: remove_htlc_def remove_outgoing_htlc_def Let_def
        flip: drop_htlc_def split: sum.splits)
qed

lemma remove_htlc_ok:
  assumes "channel_inv c" and "get_node_mut c pk = Inr s"
    and "hm_get (in_flight (side_state s c)) hash = Some (h, i)"
  shows "remove_htlc c pk hash success = (Inr (h, i), resolve_htlc s hash (amount_msat h) success c)"
  using sanity_check_ok [OF channel_inv_resolve [OF assms(1,3)]]
  by (simp add: remove_htlc_side [OF assms(2,3)] Let_def)

lemma remove_htlc_no_node:
  "get_node_mut c pk = Inl e \<Longrightarrow> remove_htlc c pk hash success = (Inl e, c)"
  by (simp add: remove_htlc_def)

lemma remove_htlc_no_hash:
  "get_node_mut c pk = Inr s \<Longrightarrow> hm_get (in_flight (side_state s c)) hash = None \<Longrightarrow>
   remove_htlc c pk hash success = (Inl (PaymentHashNotFound hash), c)"
  by (simp add: remove_htlc_def remove_outgoing_htlc_def)

subsection \<open>The invariant is kept by every operation\<close>

lemma channel_inv_lock:
  assumes "channel_inv c" and "amount_msat h \<noteq> 0"
    and "within_limits (side_state s c) h cp" and "hm_get (in_flight (side_state s c)) hash = None"
  shows "channel_inv (set_side s (lock_htlc hash h (side_state s c)) c)"
proof -
  have "htlcs_wf (side_state s c)" "amount_msat h \<le> local_balance_msat (side_state s c)"
    using assms by (simp_all add: channel_inv_side [of _ s] within_limits_def word_le_nat_alt)
  then have "funds (lock_htlc hash h (side_state s c)) = funds (side_state s c)"
    using assms(4) by (intro funds_lock) (simp_all add: htlcs_wf_def)
  with assms(1,2) show ?thesis
    by (simp add: channel_inv_side [of _ s] htlcs_wf_lock)
qed

lemma channel_inv_add [inv_intros]:
  assumes "channel_inv c"
  shows "channel_inv (snd (add_htlc c pk hash h))"
proof (cases "\<exists>idx. fst (add_htlc c pk hash h) = Inr (Inr idx)")
  case True
  then obtain idx where "add_htlc c pk hash h = (Inr (Inr idx), snd (add_htlc c pk hash h))"
    by (metis prod.collapse)
  then show ?thesis
    using channel_inv_lock [OF assms] by (auto simp: add_htlc_ok_side [OF assms])
next
  case False
  then have "snd (add_htlc c pk hash h) = c"
    by (intro add_htlc_refused [of c pk hash h "fst (add_htlc c pk hash h)"]) auto
  with assms show ?thesis by simp
qed

lemma channel_inv_remove [inv_intros]:
  assumes "channel_inv c"
  shows "channel_inv (snd (remove_htlc c pk hash success))"
proof (cases "get_node_mut c pk")
  case (Inl e)
  with assms show ?thesis by (simp add: remove_htlc_no_node)
next
  case (Inr s)
  show ?thesis
  proof (cases "hm_get (in_flight (side_state s c)) hash")
    case None
    with Inr assms show ?thesis by (simp add: remove_htlc_no_hash)
  next
    case (Some entry)
    then show ?thesis
      using channel_inv_resolve [OF assms] remove_htlc_ok [OF assms Inr]
      by (cases entry) simp
  qed
qed

lemma channel_inv_new:
  assumes "even (unat capacity)"
  shows "channel_inv (simulated_channel_new capacity scid p1 p2 excl)"
proof -
  have "unat capacity div 2 + unat capacity div 2 = unat capacity"
    using assms by presburger
  then show ?thesis
    by (simp add: channel_inv_def total_funds_def funds_def in_flight_funds_def htlcs_wf_def
        hm_wf_def simulated_channel_new_def channel_state_new_def hm_new_def unat_div)
qed

lemma new_in_flight [simp]: "in_flight (side_state s (simulated_channel_new cap scid p1 p2 excl)) = hm_new"
  by (cases s) (simp_all add: simulated_channel_new_def channel_state_new_def)

subsection \<open>The channel as a state machine\<close>

inductive channel_step :: "simulated_channel \<Rightarrow> simulated_channel \<Rightarrow> bool" where
  add: "channel_step c (snd (add_htlc c pk hash h))"
| remove: "channel_step c (snd (remove_htlc c pk hash success))"

inductive_cases channel_stepE: "channel_step c d"

definition channel_init :: "simulated_channel \<Rightarrow> bool" where
  "channel_init c \<longleftrightarrow> (\<exists>capacity scid p1 p2 excl. even (unat capacity) \<and>
     c = simulated_channel_new capacity scid p1 p2 excl)"

interpretation chan: invariant_system channel_init channel_step channel_inv
  by unfold_locales
    (auto simp: channel_init_def channel_inv_new elim!: channel_stepE intro: inv_intros)

end
