(* ===== verification/Channel_Properties.thy ===== *)
theory Channel_Properties
  imports Channel_Laws
begin

section \<open>Properties of the simulated channel\<close>

text \<open>
  What the channel promises: funds are conserved, an HTLC is accepted exactly when every limit
  allows it, a resolved HTLC moves exactly its amount, the limits hold at all times, and the
  detailed state implements a ledger of balances and pending amounts.
\<close>

subsection \<open>What no step changes\<close>

definition channel_frame :: "simulated_channel \<Rightarrow> u64 \<times> short_channel_id \<times> bool \<times> channel_policy \<times> channel_policy" where
  "channel_frame c = (capacity_msat c, short_channel_id c, exclude_capacity c,
     policy (node_1 c), policy (node_2 c))"

lemma channel_frame_set_side:
  "policy cs = policy (side_state s c) \<Longrightarrow> channel_frame (set_side s cs c) = channel_frame c"
  by (cases s) (simp_all add: channel_frame_def)

lemma policy_add_outgoing [simp]: "policy (snd (add_outgoing_htlc cs hash h cp)) = policy cs"
  by (simp add: add_outgoing_htlc_def Let_def split: sum.splits)

lemma channel_frame_add [simp]: "channel_frame (snd (add_htlc c pk hash h)) = channel_frame c"
proof (cases "get_node_mut c pk")
  case (Inl e)
  then have "snd (add_htlc c pk hash h) = c"
    by (auto simp: add_htlc_def get_node_mut_def split: if_splits sum.splits)
  then show ?thesis by simp
next
  case (Inr s)
  then show ?thesis
    by (auto simp: add_htlc_side Let_def split_beta channel_frame_set_side split: sum.splits)
qed

lemma channel_frame_resolve [simp]:
  "channel_frame (resolve_htlc s hash amt success c) = channel_frame c"
  by (simp add: resolve_htlc_def Let_def channel_frame_set_side)

lemma channel_frame_remove [simp]: "channel_frame (snd (remove_htlc c pk hash success)) = channel_frame c"
proof (cases "get_node_mut c pk")
  case (Inl e)
  then show ?thesis by (simp add: remove_htlc_no_node)
next
  case (Inr s)
  show ?thesis
  proof (cases "hm_get (in_flight (side_state s c)) hash")
    case None
    with Inr show ?thesis by (simp add: remove_htlc_no_hash)
  next
    case (Some entry)
    with Inr show ?thesis
      by (cases entry) (simp add: remove_htlc_side Let_def split: sum.splits)
  qed
qed

lemma channel_frame_step: "channel_step c d \<Longrightarrow> channel_frame d = channel_frame c"
  by (erule channel_stepE) auto

lemma channel_frame_steps: "channel_step\<^sup>*\<^sup>* c d \<Longrightarrow> channel_frame d = channel_frame c"
  by (induction rule: rtranclp_induct) (simp_all add: channel_frame_step)

subsection \<open>The limits hold at all times\<close>

definition entry_ok :: "channel_policy \<Rightarrow> htlc \<Rightarrow> bool" where
  "entry_ok p h \<longleftrightarrow> min_htlc_size_msat p \<le> amount_msat h \<and> amount_msat h \<le> max_htlc_size_msat p \<and>
     unat (cltv_expiry h) \<le> 500000000"

definition side_limits :: "channel_state \<Rightarrow> channel_policy \<Rightarrow> bool" where
  "side_limits cs cp \<longleftrightarrow>
     length (in_flight cs) \<le> unat (max_htlc_count cp) \<and>
     in_flight_funds cs \<le> unat (max_in_flight_msat cp) \<and>
     (\<forall>e \<in> set (in_flight cs). entry_ok (policy cs) (fst (snd e)))"

definition limits_inv :: "simulated_channel \<Rightarrow> bool" where
  "limits_inv c \<longleftrightarrow> side_limits (node_1 c) (policy (node_2 c)) \<and> side_limits (node_2 c) (policy (node_1 c))"

lemma limits_inv_side:
  "limits_inv c \<longleftrightarrow> side_limits (side_state s c) (policy (side_state (other_side s) c)) \<and>
     side_limits (side_state (other_side s) c) (policy (side_state s c))"
  by (cases s) (auto simp: limits_inv_def)

lemma side_limits_lock:
  assumes "htlcs_wf cs" and "side_limits cs cp" and "within_limits cs h cp"
    and "hm_get (in_flight cs) hash = None"
  shows "side_limits (lock_htlc hash h cs) cp"
proof -
  have "in_flight_funds (lock_htlc hash h cs) = unat (amount_msat h) + in_flight_funds cs"
    using assms(1,4) by (intro in_flight_funds_lock) (simp_all add: htlcs_wf_def)
  moreover have "length (in_flight (lock_htlc hash h cs)) = Suc (length (in_flight cs))"
    using assms(1,4) hm.length_insert_fresh [of "in_flight cs" hash] by (simp add: htlcs_wf_def)
  moreover have "entry_ok (policy cs) h"
    using assms(3) by (simp add: within_limits_def entry_ok_def word_le_nat_alt)
  ultimately show ?thesis
    using assms(2,3) set_hm_insert [of hash "(h, htlc_index cs)" "in_flight cs"]
    by (auto simp: side_limits_def within_limits_def)
qed

lemma side_limits_drop:
  assumes "side_limits cs cp"
  shows "side_limits (drop_htlc hash cs) cp"
proof -
  have "sum_list (map f (hm_remove hash m)) \<le> sum_list (map f m)"
    for f :: "payment_hash \<times> htlc \<times> u64 \<Rightarrow> nat" and m
    by (induction m) (auto simp: hm_remove_def)
  then have "in_flight_funds (drop_htlc hash cs) \<le> in_flight_funds cs"
    by (simp add: in_flight_funds_def)
  moreover have "length (in_flight (drop_htlc hash cs)) \<le> length (in_flight cs)"
    by (simp add: hm_remove_def)
  moreover have "set (in_flight (drop_htlc hash cs)) \<subseteq> set (in_flight cs)"
    by (auto simp: hm_remove_def)
  ultimately show ?thesis
    using assms by (auto simp: side_limits_def)
qed

lemma side_limits_credit [simp]: "side_limits (credit amt cs) cp = side_limits cs cp"
  by (simp add: side_limits_def)

lemma limits_inv_step:
  assumes "channel_step c d" and "channel_inv c" and "limits_inv c"
  shows "limits_inv d"
  using assms(1)
proof (cases rule: channel_step.cases)
  case (add pk hash h)
  show ?thesis
  proof (cases "\<exists>idx. fst (add_htlc c pk hash h) = Inr (Inr idx)")
    case True
    then obtain idx where "add_htlc c pk hash h = (Inr (Inr idx), d)"
      using add by (metis prod.collapse)
    then obtain s where "within_limits (side_state s c) h (policy (side_state (other_side s) c))"
      "hm_get (in_flight (side_state s c)) hash = None"
      "d = set_side s (lock_htlc hash h (side_state s c)) c"
      by (auto simp: add_htlc_ok_side [OF assms(2)])
    then show ?thesis
      using assms(2,3) by (simp add: limits_inv_side [of _ s] channel_inv_side [of _ s] side_limits_lock)
  next
    case False
    then have "d = c"
      using add by (intro add_htlc_refused [of c pk hash h "fst (add_htlc c pk hash h)"]) auto
    with assms(3) show ?thesis by simp
  qed
next
  case (remove pk hash success)
  show ?thesis
  proof (cases "get_node_mut c pk")
    case (Inl e)
    with remove assms(3) show ?thesis by (simp add: remove_htlc_no_node)
  next
    case (Inr s)
    show ?thesis
    proof (cases "hm_get (in_flight (side_state s c)) hash")
      case None
      with Inr remove assms(3) show ?thesis by (simp add: remove_htlc_no_hash)
    next
      case (Some entry)
      then have "d = resolve_htlc s hash (amount_msat (fst entry)) success c"
        using remove remove_htlc_ok [OF assms(2) Inr] by (cases entry) simp
      with assms(3) show ?thesis
        by (simp add: limits_inv_side [of _ s] resolve_htlc_sides side_limits_drop)
    qed
  qed
qed

interpretation lim: invariant_system channel_init channel_step "\<lambda>c. channel_inv c \<and> limits_inv c"
proof unfold_locales
  fix c
  assume "channel_init c"
  then show "channel_inv c \<and> limits_inv c"
    using chan.invar_init
    by (auto simp: channel_init_def simulated_channel_new_def channel_state_new_def limits_inv_def
        side_limits_def in_flight_funds_def hm_new_def)
qed (auto intro: chan.invar_step limits_inv_step)

subsection \<open>The abstract ledger\<close>

text \<open>
  What a channel is for: each side holds spendable funds and a set of pending payments. An HTLC
  that is added moves its amount from spendable to pending; when it is resolved the amount goes to
  the counterparty or back.
\<close>

type_synonym ledger = "side \<Rightarrow> nat \<times> (payment_hash \<rightharpoonup> nat)"

definition abs_ledger :: "simulated_channel \<Rightarrow> ledger" where
  "abs_ledger c s =
     (unat (local_balance_msat (side_state s c)),
      \<lambda>hash. map_option (\<lambda>e. unat (amount_msat (fst e))) (hm_get (in_flight (side_state s c)) hash))"

definition ledger_lock :: "side \<Rightarrow> payment_hash \<Rightarrow> nat \<Rightarrow> ledger \<Rightarrow> ledger" where
  "ledger_lock s hash a L = L(s := (fst (L s) - a, (snd (L s))(hash \<mapsto> a)))"

definition ledger_resolve :: "side \<Rightarrow> payment_hash \<Rightarrow> bool \<Rightarrow> ledger \<Rightarrow> ledger" where
  "ledger_resolve s hash success L =
     (case snd (L s) hash of
        None \<Rightarrow> L
      | Some a \<Rightarrow>
          let L' = L(s := (fst (L s), (snd (L s))(hash := None)));
              to = (if success then other_side s else s)
          in L'(to := (fst (L' to) + a, snd (L' to))))"

lemma ledger_eqI: "L s = M s \<Longrightarrow> L (other_side s) = M (other_side s) \<Longrightarrow> L = M"
  for L M :: ledger
proof (rule ext)
  fix t
  assume "L s = M s" "L (other_side s) = M (other_side s)"
  then show "L t = M t" by (cases s; cases t) auto
qed

lemma abs_ledger_lock:
  assumes "amount_msat h \<le> local_balance_msat (side_state s c)"
  shows "abs_ledger (set_side s (lock_htlc hash h (side_state s c)) c)
    = ledger_lock s hash (unat (amount_msat h)) (abs_ledger c)"
  by (rule ledger_eqI [of _ s])
    (auto simp: abs_ledger_def ledger_lock_def unat_sub_le [OF assms] hm_get_insert fun_eq_iff)

lemma resolve_no_wrap:
  assumes "channel_inv c" and "hm_get (in_flight (side_state s c)) hash = Some (h, i)"
  shows "unat (local_balance_msat (side_state t c)) + unat (amount_msat h) < 2 ^ 64"
proof -
  have "hm_wf (in_flight (side_state s c))"
    using assms(1) by (simp add: channel_inv_side [of c s] htlcs_wf_def)
  from funds_drop [OF this assms(2)] have
    "unat (local_balance_msat (side_state s c)) + unat (amount_msat h) \<le> funds (side_state s c)"
    by (simp add: funds_def)
  moreover have "unat (local_balance_msat (side_state (other_side s) c)) \<le> funds (side_state (other_side s) c)"
    by (simp add: funds_def)
  ultimately have
    "unat (local_balance_msat (side_state s c)) + unat (amount_msat h) < 2 ^ 64"
    "unat (local_balance_msat (side_state (other_side s) c)) + unat (amount_msat h) < 2 ^ 64"
    using channel_inv_bounds(5) [OF assms(1), of s] by linarith+
  then show ?thesis by (cases s; cases t) simp_all
qed

lemma abs_ledger_resolve:
  assumes "channel_inv c" and "hm_get (in_flight (side_state s c)) hash = Some (h, i)"
  shows "abs_ledger (resolve_htlc s hash (amount_msat h) success c)
    = ledger_resolve s hash success (abs_ledger c)"
  using resolve_no_wrap [OF assms, of s] resolve_no_wrap [OF assms, of "other_side s"] assms(2)
  by (intro ledger_eqI [of _ s])
    (auto simp: abs_ledger_def ledger_resolve_def resolve_htlc_sides unat_add_bounded hm_get_remove
      fun_eq_iff Let_def)

subsection \<open>A worked example\<close>

text \<open>A channel of 1000 msat between two nodes, used to witness the theorems.\<close>

definition demo_policy :: "nat \<Rightarrow> channel_policy" where
  "demo_policy n = \<lparr>pol_pubkey = PublicKey n, pol_alias = [], max_htlc_count = 10,
     max_in_flight_msat = 1000, min_htlc_size_msat = 2, max_htlc_size_msat = 500,
     cltv_expiry_delta = 10, base_fee = 1, fee_rate_prop = 5000\<rparr>"

definition demo_channel :: simulated_channel where
  "demo_channel = simulated_channel_new 1000 (ShortChannelID 7) (demo_policy 1) (demo_policy 2) False"

definition demo_hash :: payment_hash where
  "demo_hash = PaymentHash (replicate 32 1)"

definition demo_htlc :: htlc where
  "demo_htlc = \<lparr>amount_msat = 200, cltv_expiry = 40\<rparr>"

definition demo_locked :: simulated_channel where
  "demo_locked = snd (add_htlc demo_channel (PublicKey 1) demo_hash demo_htlc)"

lemma demo_channel_init: "channel_init demo_channel"
  unfolding channel_init_def demo_channel_def by (intro exI conjI) (auto simp: even_numeral)

lemma demo_channel_inv: "channel_inv demo_channel"
  by (rule chan.invar_init [OF demo_channel_init])

lemmas demo_defs = demo_policy_def demo_channel_def demo_hash_def demo_htlc_def demo_locked_def

lemma demo_add:
  "add_htlc demo_channel (PublicKey 1) demo_hash demo_htlc = (Inr (Inr 0), demo_locked)"
  by (simp add: demo_defs add_htlc_def sanity_check_def in_flight_total_def hm_values_def hm_new_def
      simulated_channel_new_def channel_state_new_def pk_1_def add_outgoing_htlc_def hm_contains_def
      check_outgoing_addition_def hm_len_def hm_get_def)

lemma demo_side: "get_node_mut demo_channel (PublicKey 1) = Inr Side1"
  by (simp add: demo_defs get_node_mut_def pk_1_def simulated_channel_new_def channel_state_new_def)

lemma demo_locked_inv: "channel_inv demo_locked"
  using channel_inv_add [OF demo_channel_inv] by (simp add: demo_locked_def)

lemma demo_locked_side: "get_node_mut demo_locked (PublicKey 1) = Inr Side1"
  using channel_frame_add [of demo_channel "PublicKey 1" demo_hash demo_htlc] demo_side
  by (auto simp: channel_frame_def demo_locked_def get_node_mut_def pk_1_def pk_2_def split: if_splits)

lemma demo_locked_entry: "hm_get (in_flight (side_state Side1 demo_locked)) demo_hash = Some (demo_htlc, 0)"
proof -
  have eq: "demo_locked = set_side Side1 (lock_htlc demo_hash demo_htlc (side_state Side1 demo_channel)) demo_channel"
    using demo_add add_htlc_ok_side [OF demo_channel_inv] demo_side by auto
  have "htlc_index (side_state Side1 demo_channel) = 0"
    by (simp add: demo_channel_def simulated_channel_new_def channel_state_new_def)
  then show ?thesis
    unfolding eq by (simp add: hm_get_insert)
qed

lemma demo_remove:
  "remove_htlc demo_locked (PublicKey 1) demo_hash success =
     (Inr (demo_htlc, 0), resolve_htlc Side1 demo_hash 200 success demo_locked)"
  using remove_htlc_ok [OF demo_locked_inv demo_locked_side demo_locked_entry]
  by (simp add: demo_htlc_def)

subsection \<open>The properties\<close>

text \<open>C1. Conservation. In every state a channel of even capacity can reach, through any
  additions and removals of HTLCs by anybody, successful or refused, the balances and in-flight
  HTLCs of both sides add up (as natural numbers, so nothing wrapped) to the capacity it was
  opened with, and the code's own sanity check passes.\<close>

theorem channel_conserves_funds:
  assumes "even (unat capacity)"
    and "channel_step\<^sup>*\<^sup>* (simulated_channel_new capacity scid p1 p2 excl) c"
  shows "total_funds c = unat capacity \<and> sanity_check c = Inr ()"
proof -
  let ?c0 = "simulated_channel_new capacity scid p1 p2 excl"
  have "channel_init ?c0"
    using assms(1) unfolding channel_init_def by blast
  then have inv: "channel_inv c"
    using assms(2) by (rule chan.invar_reachable)
  have "capacity_msat c = capacity"
    using channel_frame_steps [OF assms(2)] by (simp add: channel_frame_def simulated_channel_new_def)
  with inv show ?thesis
    by (simp add: channel_inv_def sanity_check_ok [OF inv])
qed

theorem channel_conserves_funds_witness:
  "total_funds demo_locked = 1000 \<and> sanity_check demo_locked = Inr ()"
proof -
  have "channel_step\<^sup>*\<^sup>* (simulated_channel_new 1000 (ShortChannelID 7) (demo_policy 1) (demo_policy 2) False) demo_locked"
    unfolding demo_locked_def demo_channel_def by (rule r_into_rtranclp) (rule channel_step.add)
  then show ?thesis
    using channel_conserves_funds [of 1000 "ShortChannelID 7" "demo_policy 1" "demo_policy 2" False demo_locked]
    by simp
qed

text \<open>C13. An HTLC is added exactly when its amount is non-zero, the sender is an end of the channel,
  its payment hash is not already in flight on that side, and every limit allows it: the sender's
  own minimum and maximum size and spendable balance, the counterparty's bounds on the number and
  total value in flight, and the expiry bound. The limits are read over natural numbers, so the
  code's wrapping sums never let one through. The effect is to lock the amount on the sender's side
  under the next index.\<close>

theorem add_htlc_accepts_iff:
  assumes "channel_inv c"
  shows "add_htlc c pk hash h = (Inr (Inr idx), c') \<longleftrightarrow>
    (\<exists>s. get_node_mut c pk = Inr s \<and> amount_msat h \<noteq> 0 \<and>
       within_limits (side_state s c) h (policy (side_state (other_side s) c)) \<and>
       hm_get (in_flight (side_state s c)) hash = None \<and>
       idx = htlc_index (side_state s c) \<and>
       c' = set_side s (lock_htlc hash h (side_state s c)) c)"
  by (rule add_htlc_ok_side [OF assms])

theorem add_htlc_accepts_iff_witness:
  "within_limits (node_1 demo_channel) demo_htlc (demo_policy 2) \<and>
   demo_locked = demo_channel\<lparr>node_1 := lock_htlc demo_hash demo_htlc (node_1 demo_channel)\<rparr>"
proof -
  have "policy (node_2 demo_channel) = demo_policy 2"
    by (simp add: demo_channel_def simulated_channel_new_def channel_state_new_def)
  with add_htlc_accepts_iff [OF demo_channel_inv, of "PublicKey 1" demo_hash demo_htlc 0 demo_locked]
    demo_add demo_side show ?thesis by auto
qed

text \<open>A refused HTLC changes nothing: whatever forwarding or critical error \<open>add_htlc\<close> returns, the
  channel is exactly as it was.\<close>

theorem add_htlc_error_unchanged:
  assumes "add_htlc c pk hash h = (r, c')" and "\<nexists>idx. r = Inr (Inr idx)"
  shows "c' = c"
  using assms by (rule add_htlc_refused)

theorem add_htlc_error_unchanged_witness:
  "add_htlc demo_channel (PublicKey 3) demo_hash demo_htlc = (Inl (NodeNotFound (PublicKey 3)), demo_channel)"
proof -
  have r: "fst (add_htlc demo_channel (PublicKey 3) demo_hash demo_htlc) = Inl (NodeNotFound (PublicKey 3))"
    using sanity_check_ok [OF demo_channel_inv]
    by (simp add: demo_defs add_htlc_def simulated_channel_new_def channel_state_new_def pk_1_def pk_2_def)
  have "snd (add_htlc demo_channel (PublicKey 3) demo_hash demo_htlc) = demo_channel"
    by (rule add_htlc_error_unchanged [OF surjective_pairing]) (simp add: r)
  with r show ?thesis by (intro prod_eqI) (simp_all only: fst_conv snd_conv)
qed

text \<open>C26. Refinement. Adding an HTLC implements the ledger operation that moves its amount from the
  sender's spendable funds to its pending payments.\<close>

theorem add_htlc_refines_ledger:
  assumes "channel_inv c" and "get_node_mut c pk = Inr s"
    and "add_htlc c pk hash h = (Inr (Inr idx), c')"
  shows "abs_ledger c' = ledger_lock s hash (unat (amount_msat h)) (abs_ledger c)"
proof -
  from assms(2,3) have "within_limits (side_state s c) h (policy (side_state (other_side s) c))"
    and c': "c' = set_side s (lock_htlc hash h (side_state s c)) c"
    by (auto simp: add_htlc_ok_side [OF assms(1)])
  then show ?thesis
    unfolding c' by (intro abs_ledger_lock) (simp add: within_limits_def word_le_nat_alt)
qed

theorem add_htlc_refines_ledger_witness:
  "abs_ledger demo_locked = ledger_lock Side1 demo_hash 200 (abs_ledger demo_channel)"
  using add_htlc_refines_ledger [OF demo_channel_inv demo_side demo_add] by (simp add: demo_htlc_def)

text \<open>C17. Refinement. Removing a known HTLC always succeeds, returns the HTLC that was added, and
  implements the ledger operation that credits its amount to the counterparty on success and back
  to the sender on failure. An unknown hash or node is reported and changes nothing.\<close>

theorem remove_htlc_refines_ledger:
  assumes "channel_inv c"
  shows "(case get_node_mut c pk of
      Inl e \<Rightarrow> e = NodeNotFound pk \<and> remove_htlc c pk hash success = (Inl e, c)
    | Inr s \<Rightarrow>
        (case hm_get (in_flight (side_state s c)) hash of
           None \<Rightarrow> remove_htlc c pk hash success = (Inl (PaymentHashNotFound hash), c)
         | Some entry \<Rightarrow> fst (remove_htlc c pk hash success) = Inr entry \<and>
             abs_ledger (snd (remove_htlc c pk hash success))
               = ledger_resolve s hash success (abs_ledger c)))"
proof (cases "get_node_mut c pk")
  case (Inl e)
  then have "e = NodeNotFound pk" by (auto simp: get_node_mut_def split: if_splits)
  with Inl show ?thesis by (simp add: remove_htlc_no_node)
next
  case (Inr s)
  then show ?thesis
    using remove_htlc_ok [OF assms Inr] abs_ledger_resolve [OF assms]
    by (auto simp: remove_htlc_no_hash split: option.split)
qed

theorem remove_htlc_refines_ledger_witness:
  "fst (remove_htlc demo_locked (PublicKey 1) demo_hash True) = Inr (demo_htlc, 0) \<and>
   abs_ledger (snd (remove_htlc demo_locked (PublicKey 1) demo_hash True))
     = ledger_resolve Side1 demo_hash True (abs_ledger demo_locked)"
  using remove_htlc_refines_ledger [OF demo_locked_inv, of "PublicKey 1" demo_hash True]
    demo_locked_side demo_locked_entry by simp

text \<open>Round trip. Adding an HTLC and then failing it gives back the channel as it was, but for the
  sender's index counter, which has advanced by one.\<close>

theorem add_then_fail_restores:
  assumes "channel_inv c" and "get_node_mut c pk = Inr s"
    and "add_htlc c pk hash h = (Inr (Inr idx), c')"
  shows "remove_htlc c' pk hash False =
    (Inr (h, idx), set_side s ((side_state s c)\<lparr>htlc_index := htlc_index (side_state s c) + 1\<rparr>) c)"
proof -
  from assms(2,3) have fresh: "hm_get (in_flight (side_state s c)) hash = None"
    and idx: "idx = htlc_index (side_state s c)"
    and c': "c' = set_side s (lock_htlc hash h (side_state s c)) c"
    by (auto simp: add_htlc_ok_side [OF assms(1)])
  have inv: "channel_inv c'"
    using channel_inv_add [OF assms(1), of pk hash h] assms(3) by simp
  have "get_node_mut c' pk = Inr s" "hm_get (in_flight (side_state s c')) hash = Some (h, idx)"
    using assms(2) idx by (simp_all add: c' hm_get_insert)
  from remove_htlc_ok [OF inv this] show ?thesis
    by (simp add: c' resolve_htlc_def Let_def credit_def drop_htlc_def lock_htlc_def
        hm_remove_insert_fresh [OF fresh])
qed

theorem add_then_fail_restores_witness:
  "remove_htlc demo_locked (PublicKey 1) demo_hash False =
    (Inr (demo_htlc, 0), demo_channel\<lparr>node_1 := (node_1 demo_channel)\<lparr>htlc_index := 1\<rparr>\<rparr>)"
  using add_then_fail_restores [OF demo_channel_inv demo_side demo_add]
  by (simp add: demo_channel_def simulated_channel_new_def channel_state_new_def)

text \<open>C27. The limits hold at all times, not only when an HTLC is added: in every reachable state each
  side has at most as many HTLCs in flight, and at most as much value, as its counterparty accepts,
  and every HTLC in flight has a size and an expiry its sender's policy allows.\<close>

theorem limits_always_hold:
  assumes "even (unat capacity)"
    and "channel_step\<^sup>*\<^sup>* (simulated_channel_new capacity scid p1 p2 excl) c"
  shows "side_limits (node_1 c) p2 \<and> side_limits (node_2 c) p1"
proof -
  have "channel_init (simulated_channel_new capacity scid p1 p2 excl)"
    using assms(1) unfolding channel_init_def by blast
  then have "limits_inv c"
    using lim.invar_reachable [OF _ assms(2)] by simp
  moreover have "policy (node_1 c) = p1" "policy (node_2 c) = p2"
    using channel_frame_steps [OF assms(2)]
    by (simp_all add: channel_frame_def simulated_channel_new_def channel_state_new_def)
  ultimately show ?thesis by (simp add: limits_inv_def)
qed

theorem limits_always_hold_witness:
  "side_limits (node_1 demo_locked) (demo_policy 2) \<and> side_limits (node_2 demo_locked) (demo_policy 1)"
proof -
  have "channel_step\<^sup>*\<^sup>* (simulated_channel_new 1000 (ShortChannelID 7) (demo_policy 1) (demo_policy 2) False) demo_locked"
    unfolding demo_locked_def demo_channel_def by (rule r_into_rtranclp) (rule channel_step.add)
  then show ?thesis
    using limits_always_hold [of 1000 "ShortChannelID 7" "demo_policy 1" "demo_policy 2" False demo_locked]
    by simp
qed

text \<open>The forwarding policy, over natural numbers and on every branch: the CLTV delta is tested
  first; the fee policy overflows exactly when \<open>amount * rate\<close> or the expected fee does not fit 64
  bits; otherwise the forward passes iff the offered fee is at least
  \<open>amount * rate div 1000000 + base\<close>.\<close>

theorem check_htlc_forward_spec:
  "state_check_htlc_forward cs delta amt fee =
    (let p = policy cs;
         prod_nat = unat amt * unat (fee_rate_prop p);
         expected = prod_nat div 1000000 + unat (base_fee p)
     in if unat delta < unat (cltv_expiry_delta p)
        then Inr (Inl (InsufficientCltvDelta delta (cltv_expiry_delta p)))
        else if 2 ^ 64 \<le> prod_nat \<or> 2 ^ 64 \<le> expected
        then Inl (FeeOverflow amt (base_fee p) (fee_rate_prop p))
        else if unat fee < expected
        then Inr (Inl (InsufficientFee fee (base_fee p) (fee_rate_prop p) (of_nat expected)))
        else Inr (Inr ()))"
proof -
  let ?r = "fee_rate_prop (policy cs)" and ?b = "base_fee (policy cs)"
  let ?prd = "unat amt * unat ?r"
  let ?exp = "?prd div 1000000 + unat ?b"
  have div: "unat (amt * ?r div 1000000) = ?prd div 1000000" if "?prd < 2 ^ 64"
    using that by (simp add: unat_div unat_mul_bounded)
  have expected: "Option.bind (checked_mul amt ?r) (\<lambda>p. checked_add (p div 1000000) ?b) =
      (if 2 ^ 64 \<le> ?prd \<or> 2 ^ 64 \<le> ?exp then None else Some (of_nat ?exp))"
  proof (cases "?prd < 2 ^ 64")
    case False
    then show ?thesis by (simp add: checked_mul_def)
  next
    case True
    have "(of_nat ?exp :: u64) = of_nat (unat (amt * ?r div 1000000)) + of_nat (unat ?b)"
      by (simp only: div [OF True] of_nat_add)
    then have "(of_nat ?exp :: u64) = amt * ?r div 1000000 + ?b"
      by simp
    with True div [OF True] show ?thesis
      by (auto simp: checked_mul_def checked_add_def)
  qed
  have "unat (of_nat ?exp :: u64) = ?exp" if "?exp < 2 ^ 64"
    using that by (rule unat_of_nat_u64)
  with expected show ?thesis
    unfolding state_check_htlc_forward_def Let_def expected
    by (simp add: word_less_nat_alt)
qed

text \<open>A channel of odd capacity passes validation whenever its policies do, but its two halves miss
  one millisatoshi, so the first HTLC anybody adds to it fails with the critical
  \<open>SanityCheckFailed\<close>, which shuts the simulation down.\<close>

theorem odd_capacity_always_fails:
  assumes "odd (unat capacity)" and "amount_msat h \<noteq> 0"
  shows "add_htlc (simulated_channel_new capacity scid p1 p2 excl) pk hash h =
    (Inl (SanityCheckFailed (capacity - 1) capacity), simulated_channel_new capacity scid p1 p2 excl)"
proof -
  have "unat capacity div 2 + unat capacity div 2 \<le> unat capacity" by presburger
  moreover have "unat capacity < 2 ^ LENGTH(64)" by (rule unsigned_less)
  moreover have d: "unat (capacity div 2) = unat capacity div 2" by (simp add: unat_div)
  ultimately have "unat (capacity div 2) + unat (capacity div 2) < 2 ^ LENGTH(64)"
    unfolding d by linarith
  then have "unat (capacity div 2 + capacity div 2) = unat capacity div 2 + unat capacity div 2"
    by (subst unat_add_bounded) (simp_all add: unat_div)
  also have "\<dots> = unat capacity - 1"
    using assms(1) by presburger
  also have "\<dots> = unat (capacity - 1)"
    using assms(1) by (subst unat_sub_le) (auto simp: word_le_nat_alt Suc_le_eq intro: Nat.gr0I)
  finally have half: "capacity div 2 + capacity div 2 = capacity - 1"
    by (simp only: word_unat_eq_iff)
  then show ?thesis
    using assms(2)
    by (simp add: add_htlc_def sanity_check_def in_flight_total_def simulated_channel_new_def
        channel_state_new_def hm_new_def hm_values_def)
qed

theorem odd_capacity_always_fails_witness:
  "simulated_channel_validate (simulated_channel_new 1001 (ShortChannelID 7) (demo_policy 1) (demo_policy 2) False)
     = Inr () \<and>
   fst (add_htlc (simulated_channel_new 1001 (ShortChannelID 7) (demo_policy 1) (demo_policy 2) False)
     (PublicKey 1) demo_hash demo_htlc) = Inl (SanityCheckFailed 1000 1001)"
proof -
  have "fst (add_htlc (simulated_channel_new 1001 (ShortChannelID 7) (demo_policy 1) (demo_policy 2) False)
     (PublicKey 1) demo_hash demo_htlc) = Inl (SanityCheckFailed (1001 - 1) 1001)"
    by (subst odd_capacity_always_fails) (simp_all add: demo_htlc_def)
  then show ?thesis
    by (simp add: simulated_channel_validate_def channel_policy_validate_def demo_policy_def
        simulated_channel_new_def channel_state_new_def pk_1_def pk_2_def)
qed

end
