(* ===== verification/Interceptors.thy ===== *)
theory Interceptors
  imports Sim_Channel "HOL-Library.Multiset"
begin

section \<open>HTLC interceptors (simln-lib/src/sim_node.rs)\<close>

text \<open>
  The \<open>Interceptor\<close> trait and \<open>handle_intercepted_htlc\<close>, which runs every interceptor on a
  forwarded HTLC, merges the custom records they attach and reports a failure.

  The interceptors run as concurrent tasks. What the \<open>select!\<close> loop sees is the sequence of
  their results in the order they complete, cut short by a shutdown signal if one comes: a list of
  \<open>join_event\<close>s, an argument of the model. \<open>all_joined\<close> says that a list is some completion
  order of the interceptors' answers.

  The field \<open>shutdown_listener\<close> of a request carries no data and is left out. It lets an interceptor that
  waits end early when another one has failed; what an interceptor answers then is again one of the
  join events, which are arbitrary here.
\<close>

type_synonym custom_records = "(u64, u8 list) hmap"

record htlc_ref =
  ref_channel_id :: short_channel_id
  ref_index :: u64

record intercept_request =
  forwarding_node :: pubkey
  req_payment_hash :: payment_hash
  incoming_htlc :: htlc_ref
  incoming_custom_records :: custom_records
  outgoing_channel_id :: "short_channel_id option"
  incoming_amount_msat :: u64
  outgoing_amount_msat :: u64
  incoming_expiry_height :: u32
  outgoing_expiry_height :: u32

record intercept_resolution =
  res_forwarding_node :: pubkey
  res_incoming_htlc :: htlc_ref
  res_outgoing_channel_id :: "short_channel_id option"
  res_success :: bool

record interceptor =
  interceptor_name :: string
  intercept_htlc :: "intercept_request \<Rightarrow> custom_records forward"
  notify_resolution :: "intercept_resolution \<Rightarrow> critical_error + unit"

text \<open>The trait's default implementation of \<open>notify_resolution\<close> is a no-op.\<close>

definition default_notify_resolution :: "intercept_resolution \<Rightarrow> critical_error + unit" where
  "default_notify_resolution res = Inr ()"

text \<open>What the loop observes: a finished task, a task that panicked, or the shutdown signal.\<close>

datatype join_event =
    Joined "custom_records forward"
  | JoinFailed string
  | ShutdownSignal

fun merge_records :: "(u64 \<times> u8 list) list \<Rightarrow> custom_records \<Rightarrow> critical_error + custom_records" where
  "merge_records [] attached = Inr attached"
| "merge_records ((k, v) # records) attached =
     (case hm_get attached k of
        Some existing_value \<Rightarrow>
          if existing_value \<noteq> v then Inl (DuplicateCustomRecord k)
          else merge_records records attached
      | None \<Rightarrow> merge_records records (hm_insert k v attached))"

record gathered =
  attached_custom_records :: custom_records
  interceptor_failure :: "forwarding_error option"
  interceptor_triggered :: bool

definition gather_start :: gathered where
  "gather_start = \<lparr>attached_custom_records = hm_new, interceptor_failure = None,
     interceptor_triggered = False\<rparr>"

text \<open>The loop \<open>'get_resp\<close>: it ends when no task is left or the shutdown signal is seen.\<close>

fun get_resp :: "join_event list \<Rightarrow> gathered \<Rightarrow> critical_error + gathered" where
  "get_resp [] g = Inr g"
| "get_resp (Joined (Inr (Inr records)) # es) g =
     res_bind (merge_records records (attached_custom_records g))
       (\<lambda>attached. get_resp es (g\<lparr>attached_custom_records := attached\<rparr>))"
| "get_resp (Joined (Inr (Inl fwd_error)) # es) g =
     get_resp es (g\<lparr>interceptor_failure := Some fwd_error, interceptor_triggered := True\<rparr>)"
| "get_resp (Joined (Inl e) # es) g = Inl e"
| "get_resp (JoinFailed msg # es) g = Inl (CritInterceptorError msg)"
| "get_resp (ShutdownSignal # es) g = Inr (g\<lparr>interceptor_triggered := True\<rparr>)"

definition handle_intercepted_htlc ::
  "intercept_request \<Rightarrow> interceptor list \<Rightarrow> join_event list \<Rightarrow> custom_records forward" where
  "handle_intercepted_htlc request interceptors events =
     (if interceptors = [] then Inr (Inr (incoming_custom_records request))
      else
        res_bind (get_resp events gather_start)
          (\<lambda>g. case interceptor_failure g of
                 Some e \<Rightarrow> Inr (Inl e)
               | None \<Rightarrow> Inr (Inr (attached_custom_records g))))"

subsection \<open>Merging records\<close>

definition all_joined :: "interceptor list \<Rightarrow> intercept_request \<Rightarrow> join_event list \<Rightarrow> bool" where
  "all_joined interceptors request events \<longleftrightarrow>
     mset events = mset (map (\<lambda>i. Joined (intercept_htlc i request)) interceptors)"

definition consistent :: "('k \<times> 'v) set \<Rightarrow> bool" where
  "consistent S \<longleftrightarrow> (\<forall>k v w. (k, v) \<in> S \<longrightarrow> (k, w) \<in> S \<longrightarrow> v = w)"

definition graph_of :: "('k, 'v) hmap \<Rightarrow> ('k \<times> 'v) set" where
  "graph_of m = {(k, v). hm_get m k = Some v}"

lemma consistent_graph [simp]: "consistent (graph_of m)"
  by (simp add: consistent_def graph_of_def)

lemma consistent_mono: "consistent S \<Longrightarrow> T \<subseteq> S \<Longrightarrow> consistent T"
  unfolding consistent_def by blast

lemma graph_of_insert_fresh:
  "hm_get m k = None \<Longrightarrow> graph_of (hm_insert k v m) = insert (k, v) (graph_of m)"
  by (auto simp: graph_of_def hm_get_insert split: if_splits)

lemma graph_of_new [simp]: "graph_of hm_new = {}"
  by (simp add: graph_of_def)

lemma merge_records_consistent:
  "consistent (set records \<union> graph_of attached) \<Longrightarrow>
   \<exists>m. merge_records records attached = Inr m \<and> graph_of m = set records \<union> graph_of attached"
proof (induction records attached rule: merge_records.induct)
  case (1 attached)
  then show ?case by simp
next
  case (2 k v records attached)
  show ?case
  proof (cases "hm_get attached k")
    case None
    then have "graph_of (hm_insert k v attached) = insert (k, v) (graph_of attached)"
      by (rule graph_of_insert_fresh)
    then show ?thesis using 2 None by simp
  next
    case (Some w)
    then have w: "(k, w) \<in> graph_of attached" by (simp add: graph_of_def)
    with "2.prems" have wv: "w = v" unfolding consistent_def by auto
    have "consistent (set records \<union> graph_of attached)"
      using "2.prems" by (rule consistent_mono) auto
    moreover have "insert (k, v) (set records \<union> graph_of attached) = set records \<union> graph_of attached"
      using w wv by auto
    ultimately show ?thesis using "2.IH" Some wv by simp
  qed
qed

lemma merge_records_inconsistent:
  "\<not> consistent (set records \<union> graph_of attached) \<Longrightarrow>
   \<exists>k. merge_records records attached = Inl (DuplicateCustomRecord k)"
proof (induction records attached rule: merge_records.induct)
  case (1 attached)
  then show ?case by simp
next
  case (2 k v records attached)
  show ?case
  proof (cases "hm_get attached k")
    case None
    then have "graph_of (hm_insert k v attached) = insert (k, v) (graph_of attached)"
      by (rule graph_of_insert_fresh)
    then show ?thesis using 2 None by simp
  next
    case (Some w)
    then have "(k, w) \<in> graph_of attached" by (simp add: graph_of_def)
    then have "w = v \<Longrightarrow> set ((k, v) # records) \<union> graph_of attached = set records \<union> graph_of attached"
      by auto
    then show ?thesis using 2 Some by auto
  qed
qed

subsection \<open>The loop over the answers\<close>

fun records_of :: "join_event \<Rightarrow> (u64 \<times> u8 list) set" where
  "records_of (Joined (Inr (Inr records))) = set records"
| "records_of _ = {}"

fun failure_of :: "join_event \<Rightarrow> forwarding_error set" where
  "failure_of (Joined (Inr (Inl e))) = {e}"
| "failure_of _ = {}"

fun answered :: "join_event \<Rightarrow> bool" where
  "answered (Joined (Inr _)) = True"
| "answered _ = False"

definition all_records :: "join_event list \<Rightarrow> (u64 \<times> u8 list) set" where
  "all_records es = (\<Union>e \<in> set es. records_of e)"

definition all_failures :: "join_event list \<Rightarrow> forwarding_error set" where
  "all_failures es = (\<Union>e \<in> set es. failure_of e)"

lemma get_resp_consistent:
  "list_all answered es \<Longrightarrow> consistent (all_records es \<union> graph_of (attached_custom_records g)) \<Longrightarrow>
   \<exists>g'. get_resp es g = Inr g' \<and>
     graph_of (attached_custom_records g') = all_records es \<union> graph_of (attached_custom_records g) \<and>
     (interceptor_failure g' = None \<longleftrightarrow> interceptor_failure g = None \<and> all_failures es = {}) \<and>
     (\<forall>e. interceptor_failure g' = Some e \<longrightarrow> interceptor_failure g = Some e \<or> e \<in> all_failures es)"
proof (induction es g rule: get_resp.induct)
  case (2 records es g)
  have "consistent (set records \<union> graph_of (attached_custom_records g))"
    using "2.prems"(2) by (rule consistent_mono) (auto simp: all_records_def)
  then obtain m where m: "merge_records records (attached_custom_records g) = Inr m"
    "graph_of m = set records \<union> graph_of (attached_custom_records g)"
    using merge_records_consistent by blast
  then have "consistent (all_records es \<union> graph_of m)"
    using "2.prems"(2) by (auto simp: all_records_def Un_ac)
  with "2.IH" [of m] "2.prems"(1) m show ?case
    by (fastforce simp: all_records_def all_failures_def)
next
  case (3 fwd_error es g)
  then show ?case by (fastforce simp: all_records_def all_failures_def)
qed (simp_all add: all_records_def all_failures_def)

lemma get_resp_inconsistent:
  "list_all answered es \<Longrightarrow> \<not> consistent (all_records es \<union> graph_of (attached_custom_records g)) \<Longrightarrow>
   \<exists>k. get_resp es g = Inl (DuplicateCustomRecord k)"
proof (induction es g rule: get_resp.induct)
  case (2 records es g)
  show ?case
  proof (cases "consistent (set records \<union> graph_of (attached_custom_records g))")
    case True
    then obtain m where m: "merge_records records (attached_custom_records g) = Inr m"
      "graph_of m = set records \<union> graph_of (attached_custom_records g)"
      using merge_records_consistent by blast
    then have "\<not> consistent (all_records es \<union> graph_of m)"
      using "2.prems"(2) by (auto simp: all_records_def Un_ac)
    with "2.IH" [of m] "2.prems"(1) m show ?thesis by simp
  next
    case False
    then show ?thesis using merge_records_inconsistent by fastforce
  qed
next
  case (3 fwd_error es g)
  then show ?case by (simp add: all_records_def)
qed (simp_all add: all_records_def)

subsection \<open>Any completion order gives the same answer\<close>

definition interceptor_records :: "interceptor list \<Rightarrow> intercept_request \<Rightarrow> (u64 \<times> u8 list) set" where
  "interceptor_records interceptors request =
     {(k, v). \<exists>i \<in> set interceptors. \<exists>records.
        intercept_htlc i request = Inr (Inr records) \<and> (k, v) \<in> set records}"

definition interceptor_failures :: "interceptor list \<Rightarrow> intercept_request \<Rightarrow> forwarding_error set" where
  "interceptor_failures interceptors request =
     {e. \<exists>i \<in> set interceptors. intercept_htlc i request = Inr (Inl e)}"

lemma all_joined_set:
  "all_joined interceptors request es \<Longrightarrow>
   set es = (\<lambda>i. Joined (intercept_htlc i request)) ` set interceptors"
  by (metis all_joined_def set_mset_mset list.set_map)

lemma records_of_iff:
  "p \<in> records_of (Joined r) \<longleftrightarrow> (\<exists>records. r = Inr (Inr records) \<and> p \<in> set records)"
  by (cases "Joined r" rule: records_of.cases) auto

lemma failure_of_iff: "e \<in> failure_of (Joined r) \<longleftrightarrow> r = Inr (Inl e)"
  by (cases "Joined r" rule: failure_of.cases) auto

lemma all_joined_parts:
  assumes "all_joined interceptors request es"
  shows "all_records es = interceptor_records interceptors request"
    and "all_failures es = interceptor_failures interceptors request"
  by (auto simp: all_records_def all_failures_def interceptor_records_def interceptor_failures_def
      all_joined_set [OF assms] records_of_iff failure_of_iff)

lemma all_joined_answered:
  assumes "all_joined interceptors request es"
    and "\<forall>i \<in> set interceptors. is_ok (intercept_htlc i request)"
  shows "list_all answered es"
  using assms(2) by (auto simp: list_all_iff all_joined_set [OF assms(1)] is_ok_iff)

lemma handle_consistent:
  assumes "interceptors \<noteq> []" and "list_all answered es" and "consistent (all_records es)"
  shows "if all_failures es = {}
    then \<exists>m. handle_intercepted_htlc request interceptors es = Inr (Inr m) \<and> graph_of m = all_records es
    else \<exists>e \<in> all_failures es. handle_intercepted_htlc request interceptors es = Inr (Inl e)"
proof -
  have start: "graph_of (attached_custom_records gather_start) = {}"
    "interceptor_failure gather_start = None"
    by (simp_all add: gather_start_def)
  have "consistent (all_records es \<union> graph_of (attached_custom_records gather_start))"
    using assms(3) by (simp add: start)
  from get_resp_consistent [OF assms(2) this] obtain g where
    g: "get_resp es gather_start = Inr g" "graph_of (attached_custom_records g) = all_records es \<union> {}"
    "interceptor_failure g = None \<longleftrightarrow> None = (None :: forwarding_error option) \<and> all_failures es = {}"
    "\<forall>e. interceptor_failure g = Some e \<longrightarrow> None = Some e \<or> e \<in> all_failures es"
    unfolding start by (elim exE conjE)
  then show ?thesis
    using assms(1) by (cases "interceptor_failure g") (auto simp: handle_intercepted_htlc_def)
qed

lemma handle_inconsistent:
  assumes "interceptors \<noteq> []" and "list_all answered es" and "\<not> consistent (all_records es)"
  shows "\<exists>k. handle_intercepted_htlc request interceptors es = Inl (DuplicateCustomRecord k)"
  using get_resp_inconsistent [OF assms(2), of gather_start] assms(1,3)
  by (auto simp: gather_start_def handle_intercepted_htlc_def)

text \<open>C25. Whatever order the interceptors complete in, the decision on an HTLC is the same kind of
  decision: conflicting custom records are a critical \<open>DuplicateCustomRecord\<close>; otherwise the HTLC
  fails iff some interceptor fails it, with one of their errors; otherwise it proceeds with exactly
  the union of the records they attached.\<close>

theorem interceptors_any_order:
  assumes "interceptors \<noteq> []" and "all_joined interceptors request es"
    and "\<forall>i \<in> set interceptors. is_ok (intercept_htlc i request)"
  shows "if \<not> consistent (interceptor_records interceptors request)
    then \<exists>k. handle_intercepted_htlc request interceptors es = Inl (DuplicateCustomRecord k)
    else if interceptor_failures interceptors request = {}
    then \<exists>m. handle_intercepted_htlc request interceptors es = Inr (Inr m) \<and>
           graph_of m = interceptor_records interceptors request
    else \<exists>e \<in> interceptor_failures interceptors request.
           handle_intercepted_htlc request interceptors es = Inr (Inl e)"
proof -
  have "list_all answered es"
    using assms(2,3) by (rule all_joined_answered)
  from handle_consistent [OF assms(1) this, of request] handle_inconsistent [OF assms(1) this, of request]
  show ?thesis
    unfolding all_joined_parts [OF assms(2), symmetric]
    by (cases "consistent (all_records es)") simp_all
qed

definition demo_request :: intercept_request where
  "demo_request = \<lparr>forwarding_node = PublicKey 2, req_payment_hash = PaymentHash (replicate 32 1),
     incoming_htlc = \<lparr>ref_channel_id = ShortChannelID 7, ref_index = 0\<rparr>,
     incoming_custom_records = [], outgoing_channel_id = None, incoming_amount_msat = 100,
     outgoing_amount_msat = 50, incoming_expiry_height = 120, outgoing_expiry_height = 100\<rparr>"

definition demo_interceptor :: "u64 \<Rightarrow> u8 \<Rightarrow> interceptor" where
  "demo_interceptor k v = \<lparr>interceptor_name = ''attach'', intercept_htlc = (\<lambda>_. Inr (Inr [(k, [v])])),
     notify_resolution = default_notify_resolution\<rparr>"

theorem interceptors_any_order_witness:
  "\<exists>m. handle_intercepted_htlc demo_request [demo_interceptor 1 5, demo_interceptor 2 6]
        [Joined (Inr (Inr [(2, [6])])), Joined (Inr (Inr [(1, [5])]))] = Inr (Inr m) \<and>
     graph_of m = {(1, [5]), (2, [6])}"
proof -
  let ?is = "[demo_interceptor 1 5, demo_interceptor 2 6]"
  have r: "interceptor_records ?is demo_request = {(1, [5]), (2, [6])}"
    and f: "interceptor_failures ?is demo_request = {}"
    by (auto simp: interceptor_records_def interceptor_failures_def demo_interceptor_def)
  have c: "consistent {(1 :: u64, [5 :: u8]), (2, [6])}"
    by (auto simp: consistent_def)
  show ?thesis
    using interceptors_any_order [of ?is demo_request
        "[Joined (Inr (Inr [(2, [6])])), Joined (Inr (Inr [(1, [5])]))]"]
    unfolding r f by (auto simp: c all_joined_def demo_interceptor_def)
qed

end
