(* ===== verification/Propagation.thy ===== *)
theory Propagation
  imports Interceptors
begin

section \<open>Payment propagation (simln-lib/src/sim_node.rs)\<close>

text \<open>
  A payment walks its route hop by hop: \<open>add_htlcs\<close> locks an HTLC on each channel, asks the
  interceptors, and stops at the first refusal; \<open>remove_htlcs\<close> then resolves the HTLCs backwards;
  \<open>propagate_payment\<close> combines the two and reports the outcome.

  The channels are behind a mutex that is held for one hop at a time. What is done under the lock
  is one function of the shared channels: \<open>add_hop\<close> and \<open>remove_hop\<close>. The loops below run those
  sections one after the other; \<open>Interleaving\<close> runs the sections of many payments in any order.

  \<open>Path\<close> and \<open>RouteHop\<close> are types of the \<open>lightning\<close> crate. A path is its hops and the values of
  its methods \<open>fee_msat()\<close> and \<open>final_value_msat()\<close>; \<open>path_documented\<close> is what the crate documents
  of a path without a blinded tail: the last hop's \<open>fee_msat\<close> is the value delivered, and the total
  fee is the sum over the other hops.
\<close>

type_synonym channels = "(short_channel_id, simulated_channel) hmap"

record route_hop =
  hop_pubkey :: pubkey
  hop_short_channel_id :: u64
  hop_fee_msat :: u64
  hop_cltv_expiry_delta :: u32

record path =
  hops :: "route_hop list"
  path_fee_msat :: u64
  path_final_value_msat :: u64

definition path_documented :: "path \<Rightarrow> bool" where
  "path_documented p \<longleftrightarrow> hops p \<noteq> [] \<and>
     path_final_value_msat p = hop_fee_msat (last (hops p)) \<and>
     path_fee_msat p = sum_list (map hop_fee_msat (butlast (hops p)))"

subsection \<open>One hop under the lock\<close>

text \<open>The loop variables of \<open>add_htlcs\<close>.\<close>

record add_state =
  outgoing_node :: pubkey
  outgoing_amount :: u64
  outgoing_cltv :: u32
  incoming_records :: custom_records
  fail_idx :: "nat option"

type_synonym 'a add_result = "critical_error + ((nat option \<times> forwarding_error) + 'a)"

definition next_hop_scid :: "path \<Rightarrow> nat \<Rightarrow> short_channel_id option" where
  "next_hop_scid route i =
     (let last_hop = length (hops route) - 1 in
      if i \<noteq> last_hop then Some (scid_from_u64 (hop_short_channel_id (hops route ! (i + 1)))) else None)"

text \<open>
  From taking the lock to dropping it: add the HTLC to this hop's channel, then check the next
  channel's forwarding policy. The result carries the failure index of the code's early returns.
\<close>

definition add_hop ::
  "path \<Rightarrow> payment_hash \<Rightarrow> nat \<Rightarrow> route_hop \<Rightarrow> add_state \<Rightarrow> channels \<Rightarrow>
   (htlc_ref \<times> short_channel_id option) add_result \<times> channels" where
  "add_hop route payment_hash i hop st nodes =
     (let scid = scid_from_u64 (hop_short_channel_id hop) in
      case hm_get nodes scid of
        None \<Rightarrow> (Inl (ChannelNotFound scid), nodes)
      | Some channel \<Rightarrow>
          (case add_htlc channel (outgoing_node st) payment_hash
                  \<lparr>amount_msat = outgoing_amount st, cltv_expiry = outgoing_cltv st\<rparr> of
             (Inl e, channel') \<Rightarrow> (Inl e, hm_insert scid channel' nodes)
           | (Inr (Inl e), channel') \<Rightarrow> (Inr (Inl (fail_idx st, e)), hm_insert scid channel' nodes)
           | (Inr (Inr index), channel') \<Rightarrow>
               (let nodes' = hm_insert scid channel' nodes;
                    next_scid = next_hop_scid route i;
                    forward_check =
                      (case Option.bind next_scid (hm_get nodes') of
                         None \<Rightarrow> Inr (Inr ())
                       | Some next_channel \<Rightarrow>
                           channel_check_htlc_forward next_channel (hop_pubkey hop)
                             (hop_cltv_expiry_delta hop)
                             (outgoing_amount st - hop_fee_msat hop) (hop_fee_msat hop))
                in (case forward_check of
                      Inl e \<Rightarrow> Inl e
                    | Inr (Inl e) \<Rightarrow> Inr (Inl (Some i, e))
                    | Inr (Inr _) \<Rightarrow>
                        Inr (Inr (\<lparr>ref_channel_id = scid, ref_index = index\<rparr>, next_scid)),
                    nodes'))))"

definition hop_request ::
  "payment_hash \<Rightarrow> route_hop \<Rightarrow> add_state \<Rightarrow> htlc_ref \<Rightarrow> short_channel_id option \<Rightarrow> intercept_request" where
  "hop_request payment_hash hop st incoming next_scid =
     \<lparr>forwarding_node = hop_pubkey hop,
      req_payment_hash = payment_hash,
      incoming_htlc = incoming,
      incoming_custom_records = incoming_records st,
      outgoing_channel_id = next_scid,
      incoming_amount_msat = outgoing_amount st,
      outgoing_amount_msat = outgoing_amount st - hop_fee_msat hop,
      incoming_expiry_height = outgoing_cltv st,
      outgoing_expiry_height = outgoing_cltv st - hop_cltv_expiry_delta hop\<rparr>"

definition add_state_next :: "nat \<Rightarrow> route_hop \<Rightarrow> custom_records \<Rightarrow> add_state \<Rightarrow> add_state" where
  "add_state_next i hop records st =
     \<lparr>outgoing_node = hop_pubkey hop,
      outgoing_amount = outgoing_amount st - hop_fee_msat hop,
      outgoing_cltv = outgoing_cltv st - hop_cltv_expiry_delta hop,
      incoming_records = records,
      fail_idx = Some i\<rparr>"

definition add_state_start :: "pubkey \<Rightarrow> path \<Rightarrow> custom_records \<Rightarrow> add_state" where
  "add_state_start source route custom_records =
     \<lparr>outgoing_node = source,
      outgoing_amount = path_fee_msat route + path_final_value_msat route,
      outgoing_cltv = sum_list (map hop_cltv_expiry_delta (hops route)),
      incoming_records = custom_records,
      fail_idx = None\<rparr>"

subsection \<open>Adding HTLCs along the route\<close>

text \<open>
  \<open>joins\<close> is what the interceptors' tasks deliver for a request, in completion order.
\<close>

type_synonym joins = "intercept_request \<Rightarrow> join_event list"

fun add_htlcs_loop ::
  "path \<Rightarrow> payment_hash \<Rightarrow> interceptor list \<Rightarrow> joins \<Rightarrow> nat \<Rightarrow> route_hop list \<Rightarrow> add_state \<Rightarrow> channels \<Rightarrow>
   unit add_result \<times> channels" where
  "add_htlcs_loop route payment_hash interceptors joins i [] st nodes = (Inr (Inr ()), nodes)"
| "add_htlcs_loop route payment_hash interceptors joins i (hop # rest) st nodes =
     (case add_hop route payment_hash i hop st nodes of
        (Inl e, nodes') \<Rightarrow> (Inl e, nodes')
      | (Inr (Inl failed), nodes') \<Rightarrow> (Inr (Inl failed), nodes')
      | (Inr (Inr (incoming, next_scid)), nodes') \<Rightarrow>
          (let request = hop_request payment_hash hop st incoming next_scid in
           case handle_intercepted_htlc request interceptors (joins request) of
             Inl e \<Rightarrow> (Inl e, nodes')
           | Inr (Inl fwd_err) \<Rightarrow> (Inr (Inl (Some i, fwd_err)), nodes')
           | Inr (Inr records) \<Rightarrow>
               add_htlcs_loop route payment_hash interceptors joins (Suc i) rest
                 (add_state_next i hop records st) nodes'))"

definition add_htlcs ::
  "channels \<Rightarrow> pubkey \<Rightarrow> path \<Rightarrow> payment_hash \<Rightarrow> interceptor list \<Rightarrow> joins \<Rightarrow> custom_records \<Rightarrow>
   unit add_result \<times> channels" where
  "add_htlcs nodes source route payment_hash interceptors joins custom_records =
     add_htlcs_loop route payment_hash interceptors joins 0 (hops route)
       (add_state_start source route custom_records) nodes"

subsection \<open>Removing HTLCs\<close>

definition hop_sender :: "pubkey \<Rightarrow> path \<Rightarrow> nat \<Rightarrow> pubkey" where
  "hop_sender source route i = (if i = 0 then source else hop_pubkey (hops route ! (i - 1)))"

definition remove_hop ::
  "pubkey \<Rightarrow> path \<Rightarrow> payment_hash \<Rightarrow> bool \<Rightarrow> nat \<Rightarrow> route_hop \<Rightarrow> channels \<Rightarrow>
   (critical_error + u64) \<times> channels" where
  "remove_hop source route payment_hash success i hop nodes =
     (let incoming_node = hop_sender source route i;
          incoming_scid = scid_from_u64 (hop_short_channel_id hop)
      in case hm_get nodes incoming_scid of
           None \<Rightarrow> (Inl (ChannelNotFound incoming_scid), nodes)
         | Some channel \<Rightarrow>
             (case remove_htlc channel incoming_node payment_hash success of
                (Inl e, channel') \<Rightarrow> (Inl e, hm_insert incoming_scid channel' nodes)
              | (Inr (_, index), channel') \<Rightarrow> (Inr index, hm_insert incoming_scid channel' nodes)))"

text \<open>Every interceptor is told, in turn; the first error ends it.\<close>

fun notify_all :: "interceptor list \<Rightarrow> intercept_resolution \<Rightarrow> critical_error + unit" where
  "notify_all [] res = Inr ()"
| "notify_all (i # is) res = res_bind (notify_resolution i res) (\<lambda>_. notify_all is res)"

fun remove_htlcs_loop ::
  "pubkey \<Rightarrow> path \<Rightarrow> payment_hash \<Rightarrow> bool \<Rightarrow> interceptor list \<Rightarrow> (nat \<times> route_hop) list \<Rightarrow>
   short_channel_id option \<Rightarrow> channels \<Rightarrow> (critical_error + unit) \<times> channels" where
  "remove_htlcs_loop source route payment_hash success interceptors [] outgoing nodes = (Inr (), nodes)"
| "remove_htlcs_loop source route payment_hash success interceptors ((i, hop) # rest) outgoing nodes =
     (case remove_hop source route payment_hash success i hop nodes of
        (Inl e, nodes') \<Rightarrow> (Inl e, nodes')
      | (Inr index, nodes') \<Rightarrow>
          (let incoming_scid = scid_from_u64 (hop_short_channel_id hop) in
           case notify_all interceptors
                  \<lparr>res_forwarding_node = hop_pubkey hop,
                   res_incoming_htlc = \<lparr>ref_channel_id = incoming_scid, ref_index = index\<rparr>,
                   res_outgoing_channel_id = outgoing,
                   res_success = success\<rparr> of
             Inl e \<Rightarrow> (Inl e, nodes')
           | Inr _ \<Rightarrow>
               remove_htlcs_loop source route payment_hash success interceptors rest
                 (Some incoming_scid) nodes'))"

text \<open>
  The slice \<open>route.hops[0..=resolution_idx]\<close> panics when the index is out of range: \<open>None\<close>.
\<close>

definition remove_htlcs ::
  "channels \<Rightarrow> nat \<Rightarrow> pubkey \<Rightarrow> path \<Rightarrow> payment_hash \<Rightarrow> bool \<Rightarrow> interceptor list \<Rightarrow>
   ((critical_error + unit) \<times> channels) option" where
  "remove_htlcs nodes resolution_idx source route payment_hash success interceptors =
     (if resolution_idx < length (hops route)
      then Some (remove_htlcs_loop source route payment_hash success interceptors
                   (rev (enumerate 0 (take (Suc resolution_idx) (hops route)))) None nodes)
      else None)"

subsection \<open>The whole payment\<close>

record payment_request =
  pr_source :: pubkey
  pr_route :: path
  pr_payment_hash :: payment_hash
  pr_interceptors :: "interceptor list"
  pr_custom_records :: custom_records

text \<open>
  What the task leaves behind: the channels, whether it triggered the shutdown, and the result it
  sent, if it lived to send one. \<open>usize\<close> subtraction wraps in \<open>hops.len() - 1\<close> on an empty route,
  and the slice then panics: the index is out of range either way.
\<close>

record payment_report =
  rep_nodes :: channels
  rep_shutdown :: bool
  rep_result :: "payment_result option"

definition after_removal ::
  "((critical_error + unit) \<times> channels) option \<Rightarrow> channels \<Rightarrow> payment_result \<Rightarrow> payment_report" where
  "after_removal removal nodes result =
     (case removal of
        None \<Rightarrow> \<lparr>rep_nodes = nodes, rep_shutdown = False, rep_result = None\<rparr>
      | Some (r, nodes') \<Rightarrow> \<lparr>rep_nodes = nodes', rep_shutdown = \<not> is_ok r, rep_result = Some result\<rparr>)"

definition propagate_payment :: "channels \<Rightarrow> joins \<Rightarrow> payment_request \<Rightarrow> payment_report" where
  "propagate_payment nodes joins request =
     (case add_htlcs nodes (pr_source request) (pr_route request) (pr_payment_hash request)
             (pr_interceptors request) joins (pr_custom_records request) of
        (Inr (Inr _), nodes') \<Rightarrow>
          after_removal
            (if hops (pr_route request) = [] then None
             else remove_htlcs nodes' (length (hops (pr_route request)) - 1) (pr_source request)
                    (pr_route request) (pr_payment_hash request) True (pr_interceptors request))
            nodes' \<lparr>htlc_count = 1, payment_outcome = Success\<rparr>
      | (Inr (Inl (failed_at, fwd_err)), nodes') \<Rightarrow>
          (let result = \<lparr>htlc_count = 0,
                         payment_outcome = IndexFailure (case failed_at of None \<Rightarrow> 0 | Some i \<Rightarrow> i)\<rparr>
           in case failed_at of
                None \<Rightarrow> \<lparr>rep_nodes = nodes', rep_shutdown = False, rep_result = Some result\<rparr>
              | Some resolution_idx \<Rightarrow>
                  after_removal
                    (remove_htlcs nodes' resolution_idx (pr_source request) (pr_route request)
                       (pr_payment_hash request) False (pr_interceptors request))
                    nodes' result)
      | (Inl critical_err, nodes') \<Rightarrow>
          \<lparr>rep_nodes = nodes', rep_shutdown = True,
           rep_result = Some \<lparr>htlc_count = 0, payment_outcome = Unknown\<rparr>\<rparr>)"

end
