(* ===== verification/Escrow.thy ===== *)
theory Escrow
  imports Prelude "HOL-Library.Multiset"
begin

section \<open>Escrow: locking and releasing funds\<close>

text \<open>
  The contract payment propagation has with the channels, without their details. An operation
  locks an amount of one account under a key; releasing it pays the amount to the account's
  partner or back. From the laws of a single operation follows what a whole payment does: a
  sequence of locks released in the reverse order leaves no lock behind, and moves every amount
  once (\<open>paid\<close>) or not at all.
\<close>

locale escrow =
  fixes inv :: "'s \<Rightarrow> bool"
    and lock :: "'op \<Rightarrow> 's \<Rightarrow> 's option"
    and release :: "bool \<Rightarrow> 'op \<Rightarrow> 's \<Rightarrow> 's option"
    and acct :: "'op \<Rightarrow> 'a"
    and partner :: "'a \<Rightarrow> 'a"
    and lock_key :: "'op \<Rightarrow> 'k"
    and amount :: "'op \<Rightarrow> nat"
    and balance :: "'s \<Rightarrow> 'a \<Rightarrow> nat"
    and pending :: "'s \<Rightarrow> 'a \<Rightarrow> 'k \<Rightarrow> nat option"
  assumes lock_inv: "inv s \<Longrightarrow> lock x s = Some t \<Longrightarrow> inv t"
    and lock_fresh: "inv s \<Longrightarrow> lock x s = Some t \<Longrightarrow> pending s (acct x) (lock_key x) = None"
    and lock_pending: "inv s \<Longrightarrow> lock x s = Some t \<Longrightarrow>
          pending t a k = (if a = acct x \<and> k = lock_key x then Some (amount x) else pending s a k)"
    and lock_balance: "inv s \<Longrightarrow> lock x s = Some t \<Longrightarrow>
          balance s a = balance t a + (if a = acct x then amount x else 0)"
    and release_total: "inv s \<Longrightarrow> pending s (acct x) (lock_key x) = Some (amount x) \<Longrightarrow>
          \<exists>t. release b x s = Some t"
    and release_inv: "inv s \<Longrightarrow> release b x s = Some t \<Longrightarrow> inv t"
    and release_pending: "inv s \<Longrightarrow> release b x s = Some t \<Longrightarrow>
          pending t a k = (if a = acct x \<and> k = lock_key x then None else pending s a k)"
    and release_balance: "inv s \<Longrightarrow> release b x s = Some t \<Longrightarrow>
          pending s (acct x) (lock_key x) = Some (amount x) \<Longrightarrow>
          balance t a = balance s a + (if a = (if b then partner (acct x) else acct x) then amount x else 0)"
begin

text \<open>What a list of released operations has moved to and from an account.\<close>

definition received :: "bool \<Rightarrow> 'op list \<Rightarrow> 'a \<Rightarrow> nat" where
  "received b xs a = sum_list (map (\<lambda>x. if b \<and> a = partner (acct x) then amount x else 0) xs)"

definition paid :: "bool \<Rightarrow> 'op list \<Rightarrow> 'a \<Rightarrow> nat" where
  "paid b xs a = sum_list (map (\<lambda>x. if b \<and> a = acct x then amount x else 0) xs)"

lemma received_paid_simps [simp]:
  "received b [] a = 0" "paid b [] a = 0"
  "received b (x # xs) a = (if b \<and> a = partner (acct x) then amount x else 0) + received b xs a"
  "paid b (x # xs) a = (if b \<and> a = acct x then amount x else 0) + paid b xs a"
  by (simp_all add: received_def paid_def)

lemma locks_inv: "fold_opt lock xs s = Some t \<Longrightarrow> inv s \<Longrightarrow> inv t"
  by (rule fold_opt_invariant [where P = inv]) (auto intro: lock_inv)

lemma release_one:
  assumes "inv s" and "lock x s = Some t"
    and "inv u" and "pending u = pending t" and "\<And>a. balance u a + d a = balance t a + e a"
  shows "\<exists>v. release b x u = Some v \<and> inv v \<and> pending v = pending s \<and>
    (\<forall>a. balance v a + ((if b \<and> a = acct x then amount x else 0) + d a)
       = balance s a + ((if b \<and> a = partner (acct x) then amount x else 0) + e a))"
proof -
  have p: "pending u (acct x) (lock_key x) = Some (amount x)"
    using assms(4) lock_pending [OF assms(1,2)] by simp
  then obtain v where v: "release b x u = Some v"
    using release_total [OF assms(3)] by blast
  have "pending v a k = pending s a k" for a k
    using release_pending [OF assms(3) v] lock_pending [OF assms(1,2)] lock_fresh [OF assms(1,2)]
    by (simp add: assms(4))
  moreover have "balance v a + ((if b \<and> a = acct x then amount x else 0) + d a)
      = balance s a + ((if b \<and> a = partner (acct x) then amount x else 0) + e a)" for a
    using release_balance [OF assms(3) v p, of a] lock_balance [OF assms(1,2), of a] assms(5) [of a]
    by (auto split: if_splits)
  ultimately show ?thesis
    using v release_inv [OF assms(3) v] by (auto simp: fun_eq_iff)
qed

theorem lock_release_all:
  assumes "inv s" and "fold_opt lock xs s = Some t"
  shows "\<exists>u. fold_opt (release b) (rev xs) t = Some u \<and> inv u \<and> pending u = pending s \<and>
    (\<forall>a. balance u a + paid b xs a = balance s a + received b xs a)"
  using assms
proof (induction xs arbitrary: s)
  case Nil
  then show ?case by simp
next
  case (Cons x xs)
  from Cons.prems obtain s1 where s1: "lock x s = Some s1" "fold_opt lock xs s1 = Some t"
    by (auto split: bind_splits)
  from Cons.IH [OF lock_inv [OF Cons.prems(1) s1(1)] s1(2)] obtain u1 where
    u1: "fold_opt (release b) (rev xs) t = Some u1" "inv u1" "pending u1 = pending s1"
    "\<And>a. balance u1 a + paid b xs a = balance s1 a + received b xs a"
    by blast
  from release_one [OF Cons.prems(1) s1(1) u1(2,3,4), of b] u1(1)
  show ?case by (auto simp: fold_opt_snoc)
qed

text \<open>A payment that fails leaves balances and pending amounts as it found them.\<close>

lemma lock_fail_all:
  assumes "inv s" and "fold_opt lock xs s = Some t"
  shows "\<exists>u. fold_opt (release False) (rev xs) t = Some u \<and> inv u \<and> pending u = pending s \<and>
    balance u = balance s"
proof -
  have "received False xs a = 0" "paid False xs a = 0" for a
    by (simp_all add: received_def paid_def)
  with lock_release_all [OF assms, of False] show ?thesis
    by (auto simp: fun_eq_iff)
qed

subsection \<open>Many parties at once\<close>

text \<open>
  The state seen by several payments whose locks and releases interleave: \<open>M\<close> are the operations
  locked and not yet released, \<open>D\<close> those released with success. Every pending amount belongs to
  exactly one operation of \<open>M\<close>, and the balances are those of the start, less \<open>M\<close>, with \<open>D\<close> moved.
\<close>

definition held :: "'op multiset \<Rightarrow> 'a \<Rightarrow> nat" where
  "held M a = sum_mset (image_mset (\<lambda>x. if acct x = a then amount x else 0) M)"

definition gained :: "'op multiset \<Rightarrow> 'a \<Rightarrow> nat" where
  "gained D a = sum_mset (image_mset (\<lambda>x. if partner (acct x) = a then amount x else 0) D)"

definition keyed :: "'op multiset \<Rightarrow> 'a \<Rightarrow> 'k \<Rightarrow> 'op multiset" where
  "keyed M a k = filter_mset (\<lambda>x. acct x = a \<and> lock_key x = k) M"

definition backed :: "'s \<Rightarrow> 's \<Rightarrow> 'op multiset \<Rightarrow> 'op multiset \<Rightarrow> bool" where
  "backed s0 s M D \<longleftrightarrow> inv s \<and>
     (\<forall>x \<in># M. pending s (acct x) (lock_key x) = Some (amount x)) \<and>
     (\<forall>a k. size (keyed M a k) = (if pending s a k = None then 0 else 1)) \<and>
     (\<forall>a. balance s a + held M a + held D a = balance s0 a + gained D a)"

lemma held_simps [simp]:
  "held {#} a = 0" "held (add_mset x M) a = (if acct x = a then amount x else 0) + held M a"
  "gained {#} a = 0" "gained (add_mset x M) a = (if partner (acct x) = a then amount x else 0) + gained M a"
  "keyed {#} a k = {#}"
  "keyed (add_mset x M) a k = (if acct x = a \<and> lock_key x = k then add_mset x (keyed M a k) else keyed M a k)"
  by (simp_all add: held_def gained_def keyed_def)

lemma backed_start: "inv s \<Longrightarrow> \<forall>a k. pending s a k = None \<Longrightarrow> backed s s {#} {#}"
  by (simp add: backed_def)

lemma backed_lock:
  assumes "backed s0 s M D" and "lock x s = Some t"
  shows "backed s0 t (add_mset x M) D"
proof -
  have "inv s" using assms(1) by (simp add: backed_def)
  note eff = lock_inv [OF this assms(2)] lock_fresh [OF this assms(2)]
    lock_pending [OF this assms(2)] lock_balance [OF this assms(2)]
  have "acct y \<noteq> acct x \<or> lock_key y \<noteq> lock_key x" if "y \<in># M" for y
    using assms(1) that eff(2) by (auto simp: backed_def)
  then have "\<forall>y \<in># add_mset x M. pending t (acct y) (lock_key y) = Some (amount y)"
    using assms(1) by (auto simp: backed_def eff(3))
  moreover have "size (keyed (add_mset x M) a k) = (if pending t a k = None then 0 else 1)" for a k
  proof -
    have "size (keyed M a k) = (if pending s a k = None then 0 else 1)"
      using assms(1) by (simp add: backed_def)
    then show ?thesis using eff(2) by (auto simp: eff(3) split: if_splits)
  qed
  moreover have "balance t a + held (add_mset x M) a + held D a = balance s0 a + gained D a" for a
  proof -
    have "balance s a + held M a + held D a = balance s0 a + gained D a"
      using assms(1) by (simp add: backed_def)
    then show ?thesis using eff(4) [of a] by (simp split: if_splits)
  qed
  ultimately show ?thesis using eff(1) by (simp add: backed_def)
qed

lemma keyed_empty_other:
  "size (keyed (add_mset x M) (acct x) (lock_key x)) \<le> 1 \<Longrightarrow> y \<in># M \<Longrightarrow>
   \<not> (acct y = acct x \<and> lock_key y = lock_key x)"
  by (auto simp: keyed_def)

text \<open>What a party holds it can always release, whatever the others did in between.\<close>

lemma backed_release:
  assumes "backed s0 s (add_mset x M) D"
  shows "\<exists>t. release b x s = Some t \<and> backed s0 t M (if b then add_mset x D else D)"
proof -
  have s: "inv s" "pending s (acct x) (lock_key x) = Some (amount x)"
    "\<And>a k. size (keyed (add_mset x M) a k) = (if pending s a k = None then 0 else 1)"
    using assms by (simp_all add: backed_def)
  then obtain t where t: "release b x s = Some t" using release_total by blast
  note eff = release_inv [OF s(1) t] release_pending [OF s(1) t] release_balance [OF s(1) t s(2)]
  have other: "\<not> (acct y = acct x \<and> lock_key y = lock_key x)" if "y \<in># M" for y
    using s(3) [of "acct x" "lock_key x"] that by (intro keyed_empty_other) (simp_all split: if_splits)
  then have "keyed M (acct x) (lock_key x) = {#}"
    by (auto simp: keyed_def)
  then have "size (keyed M a k) = (if pending t a k = None then 0 else 1)" for a k
    using s(3) [of a k] by (auto simp: eff(2) split: if_splits)
  moreover have "\<forall>y \<in># M. pending t (acct y) (lock_key y) = Some (amount y)"
    using assms other by (auto simp: backed_def eff(2))
  moreover have "balance t a + held M a + held (if b then add_mset x D else D) a
      = balance s0 a + gained (if b then add_mset x D else D) a" for a
  proof -
    have "balance s a + held (add_mset x M) a + held D a = balance s0 a + gained D a"
      using assms unfolding backed_def by blast
    then show ?thesis using eff(3) [of a] by (cases b) (simp_all split: if_splits)
  qed
  ultimately show ?thesis using t eff(1) by (auto simp: backed_def)
qed

end

end
