(* ===== verification/Propagation_Laws.thy ===== *)
theory Propagation_Laws
  imports Propagation Escrow Channel_Properties
begin

section \<open>Laws of payment propagation\<close>

text \<open>
  A simulated network is an escrow: adding an HTLC locks its amount on one side of one channel,
  removing it releases the amount. The interpretation below proves the contract of \<open>Escrow\<close> for
  the code's \<open>add_htlc\<close> and \<open>remove_htlc\<close>; the two loops of \<open>Propagation\<close> are then shown to be
  sequences of locks and releases.
\<close>

subsection \<open>The network invariant\<close>

definition channel_good :: "simulated_channel \<Rightarrow> bool" where
  "channel_good c \<longleftrightarrow> channel_inv c \<and> pk_1 c \<noteq> pk_2 c"

definition net_inv :: "channels \<Rightarrow> bool" where
  "net_inv chans \<longleftrightarrow> hm_wf chans \<and> (\<forall>scid c. hm_get chans scid = Some c \<longrightarrow> channel_good c)"

definition net_frame :: "channels \<Rightarrow> short_channel_id \<Rightarrow> (pubkey \<times> pubkey) option" where
  "net_frame chans scid = map_option (\<lambda>c. (pk_1 c, pk_2 c)) (hm_get chans scid)"

primrec side_pk :: "side \<Rightarrow> simulated_channel \<Rightarrow> pubkey" where
  "side_pk Side1 c = pk_1 c"
| "side_pk Side2 c = pk_2 c"

lemma get_node_mut_side_pk: "channel_good c \<Longrightarrow> get_node_mut c (side_pk s c) = Inr s"
  by (cases s) (auto simp: get_node_mut_def channel_good_def)

lemma get_node_mut_InrD: "get_node_mut c pk = Inr s \<Longrightarrow> pk = side_pk s c"
  by (cases s) (auto simp: get_node_mut_def split: if_splits)

lemma frame_pks: "channel_frame c' = channel_frame c \<Longrightarrow> pk_1 c' = pk_1 c \<and> pk_2 c' = pk_2 c"
  by (simp add: channel_frame_def pk_1_def pk_2_def)

lemma net_inv_get: "net_inv chans \<Longrightarrow> hm_get chans scid = Some c \<Longrightarrow> channel_good c"
  by (simp add: net_inv_def)

lemma net_inv_update:
  assumes "net_inv chans" and "hm_get chans scid = Some c"
    and "channel_inv c'" and "channel_frame c' = channel_frame c"
  shows "net_inv (hm_insert scid c' chans)"
  using assms frame_pks [OF assms(4)]
  by (auto simp: net_inv_def channel_good_def hm_simps)

lemma net_frame_update:
  "hm_get chans scid = Some c \<Longrightarrow> channel_frame c' = channel_frame c \<Longrightarrow>
   net_frame (hm_insert scid c' chans) = net_frame chans"
  by (auto simp: net_frame_def hm_get_insert fun_eq_iff dest: frame_pks)

subsection \<open>Operations on the network\<close>

text \<open>One HTLC of a payment: the channel, who sends it and on which side that is.\<close>

record htlc_op =
  op_scid :: short_channel_id
  op_sender :: pubkey
  op_side :: side
  op_hash :: payment_hash
  op_htlc :: htlc

definition op_valid :: "channels \<Rightarrow> htlc_op \<Rightarrow> bool" where
  "op_valid chans x \<longleftrightarrow>
     (\<exists>c. hm_get chans (op_scid x) = Some c \<and> get_node_mut c (op_sender x) = Inr (op_side x))"

definition net_lock :: "htlc_op \<Rightarrow> channels \<Rightarrow> channels option" where
  "net_lock x chans =
     (case hm_get chans (op_scid x) of
        None \<Rightarrow> None
      | Some c \<Rightarrow>
          (case add_htlc c (op_sender x) (op_hash x) (op_htlc x) of
             (Inr (Inr _), c') \<Rightarrow>
               if get_node_mut c (op_sender x) = Inr (op_side x)
               then Some (hm_insert (op_scid x) c' chans) else None
           | _ \<Rightarrow> None))"

definition net_release :: "bool \<Rightarrow> htlc_op \<Rightarrow> channels \<Rightarrow> channels option" where
  "net_release success x chans =
     (case hm_get chans (op_scid x) of
        None \<Rightarrow> None
      | Some c \<Rightarrow>
          (case remove_htlc c (side_pk (op_side x) c) (op_hash x) success of
             (Inr _, c') \<Rightarrow> Some (hm_insert (op_scid x) c' chans)
           | _ \<Rightarrow> None))"

type_synonym account = "short_channel_id \<times> side"

definition op_acct :: "htlc_op \<Rightarrow> account" where
  "op_acct x = (op_scid x, op_side x)"

definition op_amount :: "htlc_op \<Rightarrow> nat" where
  "op_amount x = unat (amount_msat (op_htlc x))"

definition acct_partner :: "account \<Rightarrow> account" where
  "acct_partner a = (fst a, other_side (snd a))"

definition acct_balance :: "channels \<Rightarrow> account \<Rightarrow> nat" where
  "acct_balance chans a =
     (case hm_get chans (fst a) of None \<Rightarrow> 0 | Some c \<Rightarrow> fst (abs_ledger c (snd a)))"

definition acct_pending :: "channels \<Rightarrow> account \<Rightarrow> payment_hash \<Rightarrow> nat option" where
  "acct_pending chans a hash =
     (case hm_get chans (fst a) of None \<Rightarrow> None | Some c \<Rightarrow> snd (abs_ledger c (snd a)) hash)"

lemma net_lockE:
  assumes "net_lock x chans = Some chans'" and "net_inv chans"
  obtains c where "hm_get chans (op_scid x) = Some c" "channel_good c"
    "get_node_mut c (op_sender x) = Inr (op_side x)"
    "hm_get (in_flight (side_state (op_side x) c)) (op_hash x) = None"
    "amount_msat (op_htlc x) \<le> local_balance_msat (side_state (op_side x) c)"
    "chans' = hm_insert (op_scid x)
      (set_side (op_side x) (lock_htlc (op_hash x) (op_htlc x) (side_state (op_side x) c)) c) chans"
    "channel_inv (set_side (op_side x) (lock_htlc (op_hash x) (op_htlc x) (side_state (op_side x) c)) c)"
proof -
  from assms(1) obtain c idx c' where c: "hm_get chans (op_scid x) = Some c"
    "add_htlc c (op_sender x) (op_hash x) (op_htlc x) = (Inr (Inr idx), c')"
    "get_node_mut c (op_sender x) = Inr (op_side x)" "chans' = hm_insert (op_scid x) c' chans"
    by (auto simp: net_lock_def split: option.splits sum.splits prod.splits if_splits)
  have good: "channel_good c" using net_inv_get [OF assms(2) c(1)] .
  then have inv: "channel_inv c" by (simp add: channel_good_def)
  from c(2,3) have "within_limits (side_state (op_side x) c) (op_htlc x)
      (policy (side_state (other_side (op_side x)) c))"
    "hm_get (in_flight (side_state (op_side x) c)) (op_hash x) = None"
    "c' = set_side (op_side x) (lock_htlc (op_hash x) (op_htlc x) (side_state (op_side x) c)) c"
    by (auto simp: add_htlc_ok_side [OF inv])
  with c good channel_inv_add [OF inv, of "op_sender x" "op_hash x" "op_htlc x"] show thesis
    by (intro that) (simp_all add: within_limits_def word_le_nat_alt)
qed

lemma net_releaseE:
  assumes "net_release b x chans = Some chans'" and "net_inv chans"
  obtains c h i where "hm_get chans (op_scid x) = Some c" "channel_good c"
    "hm_get (in_flight (side_state (op_side x) c)) (op_hash x) = Some (h, i)"
    "chans' = hm_insert (op_scid x) (resolve_htlc (op_side x) (op_hash x) (amount_msat h) b c) chans"
    "channel_inv (resolve_htlc (op_side x) (op_hash x) (amount_msat h) b c)"
proof -
  from assms(1) obtain c entry c' where c: "hm_get chans (op_scid x) = Some c"
    "remove_htlc c (side_pk (op_side x) c) (op_hash x) b = (Inr entry, c')"
    "chans' = hm_insert (op_scid x) c' chans"
    by (auto simp: net_release_def split: option.splits sum.splits prod.splits)
  have good: "channel_good c" using net_inv_get [OF assms(2) c(1)] .
  then have inv: "channel_inv c" by (simp add: channel_good_def)
  note side = get_node_mut_side_pk [OF good, of "op_side x"]
  show thesis
  proof (cases "hm_get (in_flight (side_state (op_side x) c)) (op_hash x)")
    case None
    with c(2) show thesis by (simp add: remove_htlc_no_hash [OF side])
  next
    case (Some e)
    obtain h i where e: "e = (h, i)" by (cases e)
    from Some e have "c' = resolve_htlc (op_side x) (op_hash x) (amount_msat h) b c"
      using remove_htlc_ok [OF inv side] c(2) by simp
    with c good Some e show thesis
      by (intro that [of c h i]) (auto intro: channel_inv_resolve [OF inv])
  qed
qed

lemma net_release_total:
  assumes "net_inv chans" and "acct_pending chans (op_acct x) (op_hash x) = Some a"
  shows "\<exists>chans'. net_release b x chans = Some chans'"
proof -
  from assms(2) obtain c h i where c: "hm_get chans (op_scid x) = Some c"
    "hm_get (in_flight (side_state (op_side x) c)) (op_hash x) = Some (h, i)"
    by (auto simp: acct_pending_def op_acct_def abs_ledger_def split: option.splits)
  then show ?thesis
    using net_inv_get [OF assms(1) c(1)] remove_htlc_ok [of c _ "op_side x" "op_hash x" h i b]
    by (auto simp: net_release_def get_node_mut_side_pk channel_good_def)
qed

lemma acct_insert:
  "acct_balance (hm_insert scid c chans) a =
     (if fst a = scid then fst (abs_ledger c (snd a)) else acct_balance chans a)"
  "acct_pending (hm_insert scid c chans) a k =
     (if fst a = scid then snd (abs_ledger c (snd a)) k else acct_pending chans a k)"
  by (simp_all add: acct_balance_def acct_pending_def hm_get_insert)

lemma net_lock_effect:
  assumes "net_inv chans" and "net_lock x chans = Some chans'"
  shows "net_inv chans'" and "net_frame chans' = net_frame chans" and "op_valid chans x"
    and "acct_pending chans (op_acct x) (op_hash x) = None"
    and "acct_pending chans' a k =
      (if a = op_acct x \<and> k = op_hash x then Some (op_amount x) else acct_pending chans a k)"
    and "acct_balance chans a = acct_balance chans' a + (if a = op_acct x then op_amount x else 0)"
proof -
  from net_lockE [OF assms(2,1)] obtain c where
    c: "hm_get chans (op_scid x) = Some c" "channel_good c"
    "get_node_mut c (op_sender x) = Inr (op_side x)"
    and fresh: "hm_get (in_flight (side_state (op_side x) c)) (op_hash x) = None"
    and le: "amount_msat (op_htlc x) \<le> local_balance_msat (side_state (op_side x) c)"
    and upd: "chans' = hm_insert (op_scid x)
      (set_side (op_side x) (lock_htlc (op_hash x) (op_htlc x) (side_state (op_side x) c)) c) chans"
    and inv: "channel_inv (set_side (op_side x) (lock_htlc (op_hash x) (op_htlc x) (side_state (op_side x) c)) c)" .
  have fr: "channel_frame (set_side (op_side x) (lock_htlc (op_hash x) (op_htlc x) (side_state (op_side x) c)) c)
      = channel_frame c"
    by (simp add: channel_frame_set_side)
  show "net_inv chans'" "net_frame chans' = net_frame chans"
    unfolding upd by (rule net_inv_update [OF assms(1) c(1) inv fr], rule net_frame_update [OF c(1) fr])
  show "op_valid chans x" using c by (auto simp: op_valid_def)
  show "acct_pending chans (op_acct x) (op_hash x) = None"
    using c(1) fresh by (simp add: acct_pending_def op_acct_def abs_ledger_def)
  have amt: "unat (amount_msat (op_htlc x)) \<le> unat (local_balance_msat (side_state (op_side x) c))"
    using le by (simp add: word_le_nat_alt)
  show "acct_pending chans' a k =
      (if a = op_acct x \<and> k = op_hash x then Some (op_amount x) else acct_pending chans a k)"
    unfolding upd acct_insert abs_ledger_lock [OF le]
    by (cases a) (auto simp: acct_pending_def c(1) op_acct_def op_amount_def ledger_lock_def)
  show "acct_balance chans a = acct_balance chans' a + (if a = op_acct x then op_amount x else 0)"
    unfolding upd acct_insert abs_ledger_lock [OF le]
    using amt by (cases a) (auto simp: acct_balance_def c(1) op_acct_def op_amount_def ledger_lock_def abs_ledger_def)
qed

lemma ledger_resolve_parts:
  assumes "snd (L s) hash = Some a"
  shows "fst (ledger_resolve s hash b L t) = fst (L t) + (if t = (if b then other_side s else s) then a else 0)"
    and "snd (ledger_resolve s hash b L t) k = (if t = s \<and> k = hash then None else snd (L t) k)"
  using assms by (cases s; cases t; auto simp: ledger_resolve_def Let_def)+

lemma net_release_effect:
  assumes "net_inv chans" and "net_release b x chans = Some chans'"
  shows "net_inv chans'" and "net_frame chans' = net_frame chans"
    and "acct_pending chans' a k =
      (if a = op_acct x \<and> k = op_hash x then None else acct_pending chans a k)"
    and "acct_pending chans (op_acct x) (op_hash x) = Some (op_amount x) \<Longrightarrow>
      acct_balance chans' a = acct_balance chans a +
        (if a = (if b then acct_partner (op_acct x) else op_acct x) then op_amount x else 0)"
proof -
  from net_releaseE [OF assms(2,1)] obtain c h i where
    c: "hm_get chans (op_scid x) = Some c" "channel_good c"
    and entry: "hm_get (in_flight (side_state (op_side x) c)) (op_hash x) = Some (h, i)"
    and upd: "chans' = hm_insert (op_scid x) (resolve_htlc (op_side x) (op_hash x) (amount_msat h) b c) chans"
    and inv: "channel_inv (resolve_htlc (op_side x) (op_hash x) (amount_msat h) b c)" .
  have "channel_inv c" using c(2) by (simp add: channel_good_def)
  note abs = abs_ledger_resolve [OF this entry, of b]
  have snd: "snd (abs_ledger c (op_side x)) (op_hash x) = Some (unat (amount_msat h))"
    using entry by (simp add: abs_ledger_def)
  show "net_inv chans'" "net_frame chans' = net_frame chans"
    unfolding upd
    by (rule net_inv_update [OF assms(1) c(1) inv channel_frame_resolve],
        rule net_frame_update [OF c(1) channel_frame_resolve])
  show "acct_pending chans' a k =
      (if a = op_acct x \<and> k = op_hash x then None else acct_pending chans a k)"
    unfolding upd acct_insert abs ledger_resolve_parts [of "abs_ledger c", OF snd]
    by (cases a) (auto simp: acct_pending_def c(1) op_acct_def)
  show "acct_balance chans' a = acct_balance chans a +
        (if a = (if b then acct_partner (op_acct x) else op_acct x) then op_amount x else 0)"
    if "acct_pending chans (op_acct x) (op_hash x) = Some (op_amount x)"
  proof -
    have "unat (amount_msat h) = op_amount x"
      using that c(1) snd by (simp add: acct_pending_def op_acct_def)
    then show ?thesis
      unfolding upd acct_insert abs ledger_resolve_parts [of "abs_ledger c", OF snd]
      by (cases a) (auto simp: acct_balance_def c(1) op_acct_def acct_partner_def)
  qed
qed

interpretation net: escrow net_inv net_lock net_release op_acct acct_partner op_hash op_amount
  acct_balance acct_pending
  by unfold_locales
    (erule (1) net_lock_effect net_release_effect | erule (2) net_release_effect(4) |
     erule (1) net_release_total)+

subsection \<open>The HTLCs of a route\<close>

text \<open>
  What \<open>add_htlcs\<close> would lock on an undisturbed walk along the hops: the amount and expiry shrink
  by the hop's fee and delta.
\<close>

definition sender_side :: "channels \<Rightarrow> short_channel_id \<Rightarrow> pubkey \<Rightarrow> side" where
  "sender_side chans scid pk =
     (case net_frame chans scid of
        None \<Rightarrow> Side1 | Some (pk1, _) \<Rightarrow> if pk = pk1 then Side1 else Side2)"

definition hop_op :: "channels \<Rightarrow> payment_hash \<Rightarrow> pubkey \<Rightarrow> u64 \<Rightarrow> u32 \<Rightarrow> route_hop \<Rightarrow> htlc_op" where
  "hop_op chans hash sender amt cltv hop =
     (let scid = scid_from_u64 (hop_short_channel_id hop) in
      \<lparr>op_scid = scid, op_sender = sender, op_side = sender_side chans scid sender,
       op_hash = hash, op_htlc = \<lparr>amount_msat = amt, cltv_expiry = cltv\<rparr>\<rparr>)"

fun hop_ops :: "channels \<Rightarrow> payment_hash \<Rightarrow> pubkey \<Rightarrow> u64 \<Rightarrow> u32 \<Rightarrow> route_hop list \<Rightarrow> htlc_op list" where
  "hop_ops chans hash sender amt cltv [] = []"
| "hop_ops chans hash sender amt cltv (hop # rest) =
     hop_op chans hash sender amt cltv hop #
     hop_ops chans hash (hop_pubkey hop) (amt - hop_fee_msat hop)
       (cltv - hop_cltv_expiry_delta hop) rest"

definition route_ops :: "channels \<Rightarrow> payment_hash \<Rightarrow> pubkey \<Rightarrow> path \<Rightarrow> htlc_op list" where
  "route_ops chans hash source route =
     (let st = add_state_start source route [] in
      hop_ops chans hash source (outgoing_amount st) (outgoing_cltv st) (hops route))"

lemma length_hop_ops [simp]: "length (hop_ops chans hash sender amt cltv hs) = length hs"
  by (induction hs arbitrary: sender amt cltv) simp_all

lemma hop_ops_frame:
  "net_frame chans' = net_frame chans \<Longrightarrow>
   hop_ops chans' hash sender amt cltv hs = hop_ops chans hash sender amt cltv hs"
  by (induction hs arbitrary: sender amt cltv) (simp_all add: hop_op_def Let_def sender_side_def)

lemma hop_ops_nth:
  "k < length hs \<Longrightarrow>
   op_scid (hop_ops chans hash sender amt cltv hs ! k) = scid_from_u64 (hop_short_channel_id (hs ! k)) \<and>
   op_hash (hop_ops chans hash sender amt cltv hs ! k) = hash \<and>
   op_sender (hop_ops chans hash sender amt cltv hs ! k) = (if k = 0 then sender else hop_pubkey (hs ! (k - 1)))"
proof (induction hs arbitrary: sender amt cltv k)
  case (Cons hop hs)
  then show ?case by (cases k) (auto simp: hop_op_def Let_def nth_Cons')
qed simp

lemma sender_side_eq:
  "hm_get chans scid = Some c \<Longrightarrow> get_node_mut c pk = Inr s \<Longrightarrow> sender_side chans scid pk = s"
  by (auto simp: sender_side_def net_frame_def get_node_mut_def split: if_splits)

lemma net_lock_intro:
  assumes "hm_get chans (op_scid x) = Some c"
    and "add_htlc c (op_sender x) (op_hash x) (op_htlc x) = (Inr (Inr idx), c')"
    and "channel_inv c" and "op_side x = sender_side chans (op_scid x) (op_sender x)"
  shows "net_lock x chans = Some (hm_insert (op_scid x) c' chans)"
proof -
  from assms(2) obtain s where s: "get_node_mut c (op_sender x) = Inr s"
    by (auto simp: add_htlc_ok_side [OF assms(3)])
  then have "op_side x = s"
    using sender_side_eq [OF assms(1)] assms(4) by simp
  with assms s show ?thesis by (simp add: net_lock_def)
qed

text \<open>
  One hop of \<open>add_htlcs\<close>: refused without an effect and with the old failure index, or the HTLC is
  locked and any error carries the hop's own index.
\<close>

lemma add_hop_cases:
  assumes "net_inv nodes" and "add_hop route hash i hop st nodes = (r, nodes')"
    and "x = hop_op nodes hash (outgoing_node st) (outgoing_amount st) (outgoing_cltv st) hop"
  obtains (refused) "nodes' = nodes" "(\<exists>e. r = Inl e) \<or> (\<exists>f. r = Inr (Inl (fail_idx st, f)))"
  | (locked) "net_lock x nodes = Some nodes'"
      "(\<exists>e. r = Inl e) \<or> (\<exists>f. r = Inr (Inl (Some i, f))) \<or> (\<exists>y. r = Inr (Inr y))"
proof -
  let ?scid = "scid_from_u64 (hop_short_channel_id hop)"
  let ?h = "\<lparr>amount_msat = outgoing_amount st, cltv_expiry = outgoing_cltv st\<rparr>"
  have x: "op_scid x = ?scid" "op_sender x = outgoing_node st" "op_hash x = hash" "op_htlc x = ?h"
    "op_side x = sender_side nodes ?scid (outgoing_node st)"
    by (simp_all add: assms(3) hop_op_def Let_def)
  show thesis
  proof (cases "hm_get nodes ?scid")
    case None
    with assms(2) show thesis by (intro refused) (auto simp: add_hop_def Let_def)
  next
    case (Some c)
    then have inv: "channel_inv c"
      using net_inv_get [OF assms(1)] by (auto simp: channel_good_def)
    obtain res c' where add: "add_htlc c (outgoing_node st) hash ?h = (res, c')"
      by (cases "add_htlc c (outgoing_node st) hash ?h")
    show thesis
    proof (cases "\<exists>idx. res = Inr (Inr idx)")
      case True
      then obtain idx where idx: "res = Inr (Inr idx)" ..
      have "nodes' = hm_insert ?scid c' nodes"
        using assms(2) Some add idx by (simp add: add_hop_def Let_def)
      then have "net_lock x nodes = Some nodes'"
        using net_lock_intro [of nodes x c idx c'] Some add idx inv x by simp
      moreover have "(\<exists>e. r = Inl e) \<or> (\<exists>f. r = Inr (Inl (Some i, f))) \<or> (\<exists>y. r = Inr (Inr y))"
        using assms(2) Some add idx by (auto simp: add_hop_def Let_def split: sum.splits)
      ultimately show thesis by (rule locked)
    next
      case False
      from add_htlc_refused [OF add False] have c': "c' = c" .
      have same: "hm_insert ?scid c nodes = nodes"
        using hm_insert_same [OF Some] .
      show thesis
      proof (cases res)
        case (Inl e)
        with assms(2) Some add c' same show thesis
          by (intro refused) (auto simp: add_hop_def Let_def)
      next
        case (Inr res')
        with False obtain f where "res = Inr (Inl f)" by (cases res') auto
        with assms(2) Some add c' same show thesis
          by (intro refused) (auto simp: add_hop_def Let_def)
      qed
    qed
  qed
qed

text \<open>
  The whole loop: it locks the first \<open>n\<close> HTLCs of the route, all of them when it succeeds, and a
  forwarding error reports the index of the last HTLC locked.
\<close>

definition loop_outcome :: "nat \<Rightarrow> nat \<Rightarrow> nat \<Rightarrow> nat option \<Rightarrow> unit add_result \<Rightarrow> bool" where
  "loop_outcome len n i start r \<longleftrightarrow>
     (case r of
        Inl _ \<Rightarrow> True
      | Inr (Inl (f, _)) \<Rightarrow> f = (if n = 0 then start else Some (i + n - 1))
      | Inr (Inr _) \<Rightarrow> n = len)"

lemma add_htlcs_loop_locks:
  assumes "net_inv nodes"
    and "add_htlcs_loop route hash ics joins i hs st nodes = (r, nodes')"
  shows "\<exists>n \<le> length hs.
    fold_opt net_lock (take n (hop_ops nodes hash (outgoing_node st) (outgoing_amount st) (outgoing_cltv st) hs))
      nodes = Some nodes' \<and> loop_outcome (length hs) n i (fail_idx st) r"
  using assms
proof (induction hs arbitrary: i st nodes)
  case Nil
  then show ?case by (auto simp: loop_outcome_def)
next
  case (Cons hop hs)
  let ?ops = "hop_ops nodes hash (outgoing_node st) (outgoing_amount st) (outgoing_cltv st) (hop # hs)"
  obtain r1 nodes1 where hop: "add_hop route hash i hop st nodes = (r1, nodes1)"
    by (cases "add_hop route hash i hop st nodes")
  show ?case
    using Cons.prems(1) hop refl
  proof (cases rule: add_hop_cases)
    case refused
    with Cons.prems(2) hop have "nodes' = nodes" "loop_outcome (Suc (length hs)) 0 i (fail_idx st) r"
      by (auto simp: loop_outcome_def)
    then show ?thesis by (intro exI [of _ 0]) simp
  next
    case locked
    note step = net_lock_effect(1,2) [OF Cons.prems(1) locked(1)]
    have stop: ?thesis if "nodes' = nodes1" "loop_outcome (Suc (length hs)) 1 i (fail_idx st) r"
      using that locked(1) by (intro exI [of _ 1]) simp
    from locked(2) consider e where "r1 = Inl e" | f where "r1 = Inr (Inl (Some i, f))"
      | y where "r1 = Inr (Inr y)" by blast
    then show ?thesis
    proof cases
      case 1
      with Cons.prems(2) hop show ?thesis by (intro stop) (auto simp: loop_outcome_def)
    next
      case 2
      with Cons.prems(2) hop show ?thesis by (intro stop) (auto simp: loop_outcome_def)
    next
      case 3
      obtain incoming next_scid where y: "y = (incoming, next_scid)" by (cases y)
      let ?req = "hop_request hash hop st incoming next_scid"
      show ?thesis
      proof (cases "\<exists>records. handle_intercepted_htlc ?req ics (joins ?req) = Inr (Inr records)")
        case False
        with Cons.prems(2) hop 3 y show ?thesis
          by (intro stop) (auto simp: loop_outcome_def Let_def split: sum.splits)
      next
        case True
        then obtain records where rec: "handle_intercepted_htlc ?req ics (joins ?req) = Inr (Inr records)" ..
        let ?st = "add_state_next i hop records st"
        have "add_htlcs_loop route hash ics joins (Suc i) hs ?st nodes1 = (r, nodes')"
          using Cons.prems(2) hop 3 y rec by (simp add: Let_def)
        from Cons.IH [OF step(1) this] obtain n where n: "n \<le> length hs"
          "fold_opt net_lock (take n (hop_ops nodes hash (hop_pubkey hop)
             (outgoing_amount st - hop_fee_msat hop) (outgoing_cltv st - hop_cltv_expiry_delta hop) hs)) nodes1
             = Some nodes'"
          "loop_outcome (length hs) n (Suc i) (Some i) r"
          by (auto simp: add_state_next_def hop_ops_frame [OF step(2)])
        with locked(1) show ?thesis
          by (intro exI [of _ "Suc n"])
            (auto simp: loop_outcome_def split: sum.splits if_splits)
      qed
    qed
  qed
qed

subsection \<open>Resolving the HTLCs of a route\<close>

definition notify_ok :: "interceptor list \<Rightarrow> bool" where
  "notify_ok interceptors \<longleftrightarrow> (\<forall>i \<in> set interceptors. \<forall>res. is_ok (notify_resolution i res))"

lemma notify_all_ok: "notify_ok interceptors \<Longrightarrow> notify_all interceptors res = Inr ()"
  by (induction interceptors) (auto simp: notify_ok_def is_ok_iff)

text \<open>A hop of the route and the HTLC it stands for.\<close>

definition hop_matches :: "pubkey \<Rightarrow> path \<Rightarrow> payment_hash \<Rightarrow> nat \<times> route_hop \<Rightarrow> htlc_op \<Rightarrow> bool" where
  "hop_matches source route hash ih x \<longleftrightarrow>
     op_scid x = scid_from_u64 (hop_short_channel_id (snd ih)) \<and>
     op_sender x = hop_sender source route (fst ih) \<and> op_hash x = hash"

lemma op_valid_frame:
  assumes "net_frame chans' = net_frame chans"
  shows "op_valid chans' x = op_valid chans x"
proof -
  have "op_valid c x \<longleftrightarrow> (case net_frame c (op_scid x) of
      None \<Rightarrow> False
    | Some (p, q) \<Rightarrow> (if op_sender x = p then Inr Side1 else if op_sender x = q then Inr Side2
                       else Inl (NodeNotFound (op_sender x))) = Inr (op_side x))" for c
    by (cases "hm_get c (op_scid x)") (simp_all add: op_valid_def net_frame_def get_node_mut_def)
  then show ?thesis using assms by simp
qed

lemma fold_lock_frame:
  "fold_opt net_lock xs s = Some t \<Longrightarrow> net_inv s \<Longrightarrow> net_inv t \<and> net_frame t = net_frame s"
  by (rule fold_opt_invariant [where f = "net_lock" and P = "\<lambda>u. net_inv u \<and> net_frame u = net_frame s"])
    (auto dest: net_lock_effect(1,2))

lemma fold_release_frame:
  "fold_opt (net_release b) xs s = Some t \<Longrightarrow> net_inv s \<Longrightarrow> net_inv t \<and> net_frame t = net_frame s"
  by (rule fold_opt_invariant [where f = "net_release b" and P = "\<lambda>u. net_inv u \<and> net_frame u = net_frame s"])
    (auto dest: net_release_effect(1,2))

lemma locked_ops_valid:
  "fold_opt net_lock xs s = Some t \<Longrightarrow> net_inv s \<Longrightarrow> \<forall>x \<in> set xs. op_valid s x"
proof (induction xs arbitrary: s)
  case (Cons x xs)
  then obtain u where u: "net_lock x s = Some u" "fold_opt net_lock xs u = Some t"
    by (auto split: bind_splits)
  note eff = net_lock_effect(1-3) [OF Cons.prems(2) u(1)]
  from Cons.IH [OF u(2) eff(1)] eff(3) show ?case
    by (simp add: op_valid_frame [OF eff(2)])
qed simp

lemma remove_hop_releases:
  assumes "net_inv nodes" and "op_valid nodes x" and "hop_matches source route hash (i, hop) x"
    and "net_release b x nodes = Some nodes'"
  shows "\<exists>index. remove_hop source route hash b i hop nodes = (Inr index, nodes')"
proof -
  from assms(2) obtain c where c: "hm_get nodes (op_scid x) = Some c"
    "get_node_mut c (op_sender x) = Inr (op_side x)"
    by (auto simp: op_valid_def)
  then have "op_sender x = side_pk (op_side x) c"
    by (auto dest: get_node_mut_InrD)
  with assms(3,4) c(1) show ?thesis
    by (auto simp: net_release_def hop_matches_def remove_hop_def Let_def split: sum.splits prod.splits)
qed

lemma remove_loop_releases:
  assumes "net_inv nodes" and "list_all2 (hop_matches source route hash) ihs xs"
    and "\<forall>x \<in> set xs. op_valid nodes x" and "notify_ok ics"
    and "fold_opt (net_release b) xs nodes = Some nodes'"
  shows "remove_htlcs_loop source route hash b ics ihs outgoing nodes = (Inr (), nodes')"
  using assms(2,1,3,5)
proof (induction ihs xs arbitrary: nodes outgoing rule: list_all2_induct)
  case Nil
  then show ?case by simp
next
  case (Cons ih ihs x xs)
  obtain i hop where ih: "ih = (i, hop)" by (cases ih)
  from Cons.prems(3) obtain u where u: "net_release b x nodes = Some u"
    "fold_opt (net_release b) xs u = Some nodes'"
    by (auto split: bind_splits)
  note eff = net_release_effect(1,2) [OF Cons.prems(1) u(1)]
  have "op_valid nodes x" using Cons.prems(2) by simp
  from remove_hop_releases [OF Cons.prems(1) this Cons.hyps(1) [unfolded ih] u(1)] obtain index where
    "remove_hop source route hash b i hop nodes = (Inr index, u)" ..
  with Cons.IH [OF eff(1) _ u(2)] Cons.prems(2) show ?case
    by (simp add: ih notify_all_ok [OF assms(4)] op_valid_frame [OF eff(2)])
qed

lemma route_matches:
  "n \<le> length (hops route) \<Longrightarrow>
   list_all2 (hop_matches source route hash) (enumerate 0 (take n (hops route)))
     (take n (hop_ops chans hash source amt cltv (hops route)))"
  by (auto simp: list_all2_conv_all_nth nth_enumerate_eq hop_matches_def hop_ops_nth hop_sender_def)

text \<open>What was locked along the first \<open>n\<close> hops, \<open>remove_htlcs\<close> releases in the reverse order.\<close>

lemma remove_htlcs_releases:
  assumes "net_inv nodes" and "notify_ok ics" and "n < length (hops route)"
    and "fold_opt net_lock (take (Suc n) (route_ops nodes hash source route)) nodes = Some nodes1"
  shows "\<exists>nodes2. remove_htlcs nodes1 n source route hash b ics = Some (Inr (), nodes2) \<and>
    net_inv nodes2 \<and> net_frame nodes2 = net_frame nodes \<and> acct_pending nodes2 = acct_pending nodes \<and>
    (\<forall>a. acct_balance nodes2 a + net.paid b (take (Suc n) (route_ops nodes hash source route)) a
       = acct_balance nodes a + net.received b (take (Suc n) (route_ops nodes hash source route)) a)"
proof -
  let ?xs = "take (Suc n) (route_ops nodes hash source route)"
  note frame = fold_lock_frame [OF assms(4,1)]
  from net.lock_release_all [OF assms(1,4), of b] obtain nodes2 where
    nodes2: "fold_opt (net_release b) (rev ?xs) nodes1 = Some nodes2" "net_inv nodes2"
    "acct_pending nodes2 = acct_pending nodes"
    "\<forall>a. acct_balance nodes2 a + net.paid b ?xs a = acct_balance nodes a + net.received b ?xs a"
    by blast
  have "list_all2 (hop_matches source route hash) (enumerate 0 (take (Suc n) (hops route))) ?xs"
    using assms(3) route_matches [of "Suc n" route source hash nodes] by (simp add: route_ops_def Let_def)
  then have "list_all2 (hop_matches source route hash) (rev (enumerate 0 (take (Suc n) (hops route)))) (rev ?xs)"
    by simp
  moreover have "\<forall>x \<in> set (rev ?xs). op_valid nodes1 x"
    using locked_ops_valid [OF assms(4,1)] frame by (simp add: op_valid_frame [of nodes1 nodes])
  ultimately have "remove_htlcs_loop source route hash b ics (rev (enumerate 0 (take (Suc n) (hops route))))
      None nodes1 = (Inr (), nodes2)"
    using frame assms(2) nodes2(1) by (intro remove_loop_releases) auto
  with assms(3) nodes2 frame fold_release_frame [OF nodes2(1)] show ?thesis
    by (simp add: remove_htlcs_def)
qed

subsection \<open>The whole payment\<close>

lemma add_htlcs_locks:
  assumes "net_inv nodes" and "add_htlcs nodes source route hash ics joins records = (r, nodes')"
  shows "\<exists>n \<le> length (hops route).
    fold_opt net_lock (take n (route_ops nodes hash source route)) nodes = Some nodes' \<and>
    loop_outcome (length (hops route)) n 0 None r"
  using add_htlcs_loop_locks [OF assms(1) assms(2) [unfolded add_htlcs_def]]
  by (simp add: route_ops_def Let_def add_state_start_def)

text \<open>The cases of a payment over a non-empty route whose interceptors accept every notification.\<close>

lemma propagate_cases:
  fixes joins :: joins
  assumes "net_inv nodes" and "hops (pr_route req) \<noteq> []" and "notify_ok (pr_interceptors req)"
  defines "ops \<equiv> route_ops nodes (pr_payment_hash req) (pr_source req) (pr_route req)"
    and "rep \<equiv> propagate_payment nodes joins req"
  obtains (critical) n where "n \<le> length ops" "fold_opt net_lock (take n ops) nodes = Some (rep_nodes rep)"
      "rep_shutdown rep" "rep_result rep = Some \<lparr>htlc_count = 0, payment_outcome = Unknown\<rparr>"
  | (failed) i where "\<not> rep_shutdown rep" "net_inv (rep_nodes rep)"
      "rep_result rep = Some \<lparr>htlc_count = 0, payment_outcome = IndexFailure i\<rparr>" "i < length ops"
      "acct_balance (rep_nodes rep) = acct_balance nodes" "acct_pending (rep_nodes rep) = acct_pending nodes"
      "net_frame (rep_nodes rep) = net_frame nodes"
  | (settled) "\<not> rep_shutdown rep" "net_inv (rep_nodes rep)"
      "rep_result rep = Some \<lparr>htlc_count = 1, payment_outcome = Success\<rparr>"
      "\<forall>x \<in> set ops. op_valid nodes x"
      "\<forall>a. acct_balance (rep_nodes rep) a + net.paid True ops a = acct_balance nodes a + net.received True ops a"
      "acct_pending (rep_nodes rep) = acct_pending nodes" "net_frame (rep_nodes rep) = net_frame nodes"
proof -
  let ?route = "pr_route req" and ?hash = "pr_payment_hash req" and ?src = "pr_source req"
  obtain r nodes1 where add: "add_htlcs nodes ?src ?route ?hash (pr_interceptors req) joins
      (pr_custom_records req) = (r, nodes1)"
    by (metis prod.exhaust)
  from add_htlcs_locks [OF assms(1) add] obtain n where n: "n \<le> length (hops ?route)"
    "fold_opt net_lock (take n ops) nodes = Some nodes1" "loop_outcome (length (hops ?route)) n 0 None r"
    unfolding ops_def by blast
  have len: "length ops = length (hops ?route)"
    by (simp add: ops_def route_ops_def Let_def)
  note remove = remove_htlcs_releases [OF assms(1,3), of "n - 1" ?route ?hash ?src nodes1, folded ops_def]
  consider (c) e where "r = Inl e" | (f) f e where "r = Inr (Inl (f, e))" | (s) "r = Inr (Inr ())"
  proof (cases r)
    case (Inr r')
    then show ?thesis using that(2,3) by (cases r') auto
  qed (use that(1) in simp)
  then show thesis
  proof cases
    case c
    with add n len show thesis
      by (intro critical [of n]) (simp_all add: rep_def propagate_payment_def)
  next
    case s
    then have "n = length (hops ?route)" using n(3) by (simp add: loop_outcome_def)
    with assms(2) n(2) len have all: "Suc (n - 1) = length ops" "n - 1 < length (hops ?route)"
      "fold_opt net_lock (take (Suc (n - 1)) ops) nodes = Some nodes1" "n - 1 = length (hops ?route) - 1"
      by (cases n; simp)+
    have "take (Suc (n - 1)) ops = ops" using all(1) by simp
    from remove [OF all(2,3), of True, unfolded this] obtain nodes2 where
      "remove_htlcs nodes1 (n - 1) ?src ?route ?hash True (pr_interceptors req) = Some (Inr (), nodes2)"
      "net_inv nodes2" "net_frame nodes2 = net_frame nodes" "acct_pending nodes2 = acct_pending nodes"
      "\<forall>a. acct_balance nodes2 a + net.paid True ops a = acct_balance nodes a + net.received True ops a"
      by blast
    with add s assms(2) all locked_ops_valid [OF n(2) assms(1)] show thesis
      by (intro settled)
        (simp_all add: rep_def propagate_payment_def after_removal_def \<open>n = length (hops ?route)\<close> len)
  next
    case f
    show thesis
    proof (cases "n = 0")
      case True
      with f n have "f = None" "nodes1 = nodes" by (simp_all add: loop_outcome_def)
      with add f assms(1,2) len show thesis
        by (intro failed [of 0]) (simp_all add: rep_def propagate_payment_def)
    next
      case False
      with f n len have some: "f = Some (n - 1)" "n - 1 < length (hops ?route)"
        "fold_opt net_lock (take (Suc (n - 1)) ops) nodes = Some nodes1"
        by (simp_all add: loop_outcome_def)
      have none: "net.paid False xs a = 0" "net.received False xs a = 0" for xs a
        by (simp_all add: net.paid_def net.received_def)
      from remove [OF some(2,3), of False] obtain nodes2 where
        "remove_htlcs nodes1 (n - 1) ?src ?route ?hash False (pr_interceptors req) = Some (Inr (), nodes2)"
        "net_inv nodes2" "net_frame nodes2 = net_frame nodes" "acct_pending nodes2 = acct_pending nodes"
        "acct_balance nodes2 = acct_balance nodes"
        by (auto simp: none fun_eq_iff)
      with add f some len show thesis
        by (intro failed [of "n - 1"]) (simp_all add: rep_def propagate_payment_def after_removal_def)
    qed
  qed
qed

end
