(* ===== verification/Payment_Properties.thy ===== *)
theory Payment_Properties
  imports Propagation_Laws
begin

section \<open>Properties of a propagated payment\<close>

text \<open>
  What a payment does to the network as a whole: it is atomic, it pays every node on its route
  exactly its fee, it keeps the invariant of every channel, and it reports one result.
\<close>

subsection \<open>What a node owns\<close>

definition owned :: "channels \<Rightarrow> pubkey \<Rightarrow> account set" where
  "owned chans pk = {a. \<exists>p q. net_frame chans (fst a) = Some (p, q) \<and>
     (if snd a = Side1 then p = pk else q = pk)}"

definition node_funds :: "channels \<Rightarrow> pubkey \<Rightarrow> nat" where
  "node_funds chans pk = sum (acct_balance chans) (owned chans pk)"

lemma finite_owned [simp]: "finite (owned chans pk)"
proof (rule finite_subset)
  show "owned chans pk \<subseteq> fst ` set chans \<times> {Side1, Side2}"
  proof
    fix a
    assume "a \<in> owned chans pk"
    then have "fst a \<in> fst ` set chans"
      by (auto simp: owned_def net_frame_def hm_get_def intro: map_of_SomeD image_eqI [rotated])
    moreover have "snd a \<in> {Side1, Side2}" by (cases "snd a") auto
    ultimately show "a \<in> fst ` set chans \<times> {Side1, Side2}"
      by (cases a) simp
  qed
qed simp

lemma owned_frame: "net_frame chans' = net_frame chans \<Longrightarrow> owned chans' pk = owned chans pk"
  by (simp add: owned_def)

text \<open>A route follows the channels: each hop's channel joins the node before it and its own node.\<close>

fun connects :: "channels \<Rightarrow> pubkey \<Rightarrow> route_hop list \<Rightarrow> bool" where
  "connects chans sender [] = True"
| "connects chans sender (h # hs) =
     ((case net_frame chans (scid_from_u64 (hop_short_channel_id h)) of
         None \<Rightarrow> False
       | Some (p, q) \<Rightarrow> p \<noteq> q \<and> (sender = p \<and> hop_pubkey h = q \<or> sender = q \<and> hop_pubkey h = p)) \<and>
      connects chans (hop_pubkey h) hs)"

definition paid_by :: "account set \<Rightarrow> htlc_op list \<Rightarrow> nat" where
  "paid_by A xs = sum_list (map (\<lambda>x. if op_acct x \<in> A then op_amount x else 0) xs)"

definition received_by :: "account set \<Rightarrow> htlc_op list \<Rightarrow> nat" where
  "received_by A xs = sum_list (map (\<lambda>x. if acct_partner (op_acct x) \<in> A then op_amount x else 0) xs)"

lemma sum_paid_received:
  assumes "finite A"
  shows "sum (net.paid True xs) A = paid_by A xs" and "sum (net.received True xs) A = received_by A xs"
  using assms by (induction xs) (simp_all add: paid_by_def received_by_def sum.distrib sum.delta)

definition earned :: "pubkey \<Rightarrow> route_hop list \<Rightarrow> nat" where
  "earned pk hs = sum_list (map (\<lambda>h. if hop_pubkey h = pk then unat (hop_fee_msat h) else 0) hs)"

definition fee_total :: "route_hop list \<Rightarrow> nat" where
  "fee_total hs = sum_list (map (\<lambda>h. unat (hop_fee_msat h)) hs)"

lemma hop_op_owned:
  assumes "connects chans sender (h # hs)"
  shows "op_acct (hop_op chans hash sender amt cltv h) \<in> owned chans pk \<longleftrightarrow> sender = pk"
    and "acct_partner (op_acct (hop_op chans hash sender amt cltv h)) \<in> owned chans pk \<longleftrightarrow> hop_pubkey h = pk"
  using assms
  by (auto simp: hop_op_def op_acct_def acct_partner_def owned_def sender_side_def Let_def
      split: option.splits if_splits)

text \<open>
  Along the route each node receives what it forwards plus its fee, so the forwarded amounts cancel.
\<close>

lemma hops_telescope:
  "connects chans sender hs \<Longrightarrow> unat amt = fee_total hs \<Longrightarrow>
   received_by (owned chans pk) (hop_ops chans hash sender amt cltv hs) + (if pk = sender then unat amt else 0)
   = paid_by (owned chans pk) (hop_ops chans hash sender amt cltv hs) + earned pk hs"
proof (induction hs arbitrary: sender amt cltv)
  case Nil
  then show ?case by (simp add: received_by_def paid_by_def earned_def fee_total_def)
next
  case (Cons h hs)
  have "hop_fee_msat h \<le> amt"
    using Cons.prems(2) by (simp add: fee_total_def word_le_nat_alt)
  then have rest: "unat (amt - hop_fee_msat h) = fee_total hs" "unat amt = unat (hop_fee_msat h) + fee_total hs"
    using Cons.prems(2) by (simp_all add: unat_sub_le fee_total_def)
  let ?x = "hop_op chans hash sender amt cltv h"
  have amount: "op_amount ?x = unat amt"
    by (simp add: op_amount_def hop_op_def Let_def)
  have "connects chans (hop_pubkey h) hs" using Cons.prems(1) by simp
  from Cons.IH [OF this rest(1), of "cltv - hop_cltv_expiry_delta h"] hop_op_owned [OF Cons.prems(1)] rest amount
  show ?case
    by (auto simp: received_by_def paid_by_def earned_def)
qed

lemma unat_path_total:
  assumes "path_documented route" and "fee_total (hops route) < 2 ^ 64"
  shows "unat (path_fee_msat route + path_final_value_msat route) = fee_total (hops route)"
proof -
  from assms(1) obtain hs h where hs: "hops route = hs @ [h]"
    by (metis path_documented_def append_butlast_last_id)
  with assms(1) have "path_fee_msat route = sum_list (map hop_fee_msat hs)"
    "path_final_value_msat route = hop_fee_msat h"
    by (simp_all add: path_documented_def)
  then have "path_fee_msat route + path_final_value_msat route = sum_list (map hop_fee_msat (hops route))"
    by (simp add: hs)
  then show ?thesis
    using assms(2) by (simp add: fee_total_def sum_list_map_unat)
qed

lemma settled_pays:
  assumes "connects nodes source (hops route)" and "path_documented route"
    and "fee_total (hops route) < 2 ^ 64" and "net_frame nodes' = net_frame nodes"
    and "\<forall>a. acct_balance nodes' a + net.paid True (route_ops nodes hash source route) a
           = acct_balance nodes a + net.received True (route_ops nodes hash source route) a"
  shows "node_funds nodes' pk + (if pk = source then fee_total (hops route) else 0)
    = node_funds nodes pk + earned pk (hops route)"
proof -
  let ?A = "owned nodes pk" and ?xs = "route_ops nodes hash source route"
  let ?amt = "path_fee_msat route + path_final_value_msat route"
  note amt = unat_path_total [OF assms(2,3)]
  have "sum (\<lambda>a. acct_balance nodes' a + net.paid True ?xs a) ?A
      = sum (\<lambda>a. acct_balance nodes a + net.received True ?xs a) ?A"
    using assms(5) by (intro sum.cong) blast+
  then have "node_funds nodes' pk + paid_by ?A ?xs = node_funds nodes pk + received_by ?A ?xs"
    by (simp add: node_funds_def owned_frame [OF assms(4)] sum.distrib sum_paid_received)
  moreover have "received_by ?A ?xs + (if pk = source then unat ?amt else 0) = paid_by ?A ?xs + earned pk (hops route)"
    using hops_telescope [OF assms(1) amt] by (simp add: route_ops_def add_state_start_def Let_def)
  ultimately show ?thesis
    by (simp add: amt split: if_splits)
qed

lemma success_pays:
  fixes joins :: joins
  assumes "net_inv nodes" and "path_documented (pr_route req)" and "notify_ok (pr_interceptors req)"
    and "connects nodes (pr_source req) (hops (pr_route req))"
    and "fee_total (hops (pr_route req)) < 2 ^ 64"
    and "rep_result (propagate_payment nodes joins req) = Some res" and "payment_outcome res = Success"
  shows "node_funds (rep_nodes (propagate_payment nodes joins req)) pk
      + (if pk = pr_source req then fee_total (hops (pr_route req)) else 0)
    = node_funds nodes pk + earned pk (hops (pr_route req))"
proof -
  have "hops (pr_route req) \<noteq> []" using assms(2) by (simp add: path_documented_def)
  with assms(1) show ?thesis using assms(3)
  proof (cases rule: propagate_cases [where joins = joins])
    case settled
    then show ?thesis using settled_pays [OF assms(4,2,5)] by blast
  qed (use assms(6,7) in simp_all)
qed

subsection \<open>A worked example\<close>

text \<open>Two channels, 1 -- 2 -- 3, and a payment of 200 msat from 1 to 3 that pays 2 a fee of 2.\<close>

definition demo_net :: channels where
  "demo_net = [(ShortChannelID 7, simulated_channel_new 1000 (ShortChannelID 7) (demo_policy 1) (demo_policy 2) False),
     (ShortChannelID 8, simulated_channel_new 1000 (ShortChannelID 8) (demo_policy 2) (demo_policy 3) False)]"

definition demo_route :: "u64 \<Rightarrow> path" where
  "demo_route fee = \<lparr>hops = [\<lparr>hop_pubkey = PublicKey 2, hop_short_channel_id = 7, hop_fee_msat = fee, hop_cltv_expiry_delta = 10\<rparr>,
      \<lparr>hop_pubkey = PublicKey 3, hop_short_channel_id = 8, hop_fee_msat = 200, hop_cltv_expiry_delta = 20\<rparr>],
     path_fee_msat = fee, path_final_value_msat = 200\<rparr>"

definition demo_payment :: "u64 \<Rightarrow> payment_request" where
  "demo_payment fee = \<lparr>pr_source = PublicKey 1, pr_route = demo_route fee, pr_payment_hash = demo_hash,
     pr_interceptors = [], pr_custom_records = []\<rparr>"

definition demo_joins :: joins where
  "demo_joins request = []"

lemmas demo_net_defs = demo_net_def demo_route_def demo_payment_def demo_joins_def

lemma demo_net_inv: "net_inv demo_net"
proof -
  have "channel_good (simulated_channel_new 1000 scid (demo_policy i) (demo_policy j) False)" if "i \<noteq> j" for scid i j
    using channel_inv_new [of 1000 scid "demo_policy i" "demo_policy j" False] that
    by (auto simp: channel_good_def pk_1_def pk_2_def simulated_channel_new_def channel_state_new_def
        demo_policy_def even_numeral)
  then show ?thesis
    by (auto simp: net_inv_def demo_net_def hm_wf_def hm_get_def split: if_splits)
qed

lemmas channel_eval = simulated_channel_new_def channel_state_new_def pk_1_def pk_2_def hm_new_def hm_get_def
  hm_contains_def hm_len_def hm_values_def hm_remove_def add_htlc_def sanity_check_def in_flight_total_def
  add_outgoing_htlc_def check_outgoing_addition_def remove_htlc_def remove_outgoing_htlc_def settle_htlc_def
  settle_outgoing_htlc_def settle_incoming_htlc_def get_node_mut_def get_node_def state_check_htlc_forward_def
  channel_check_htlc_forward_def checked_add_def checked_mul_def scid_from_u64_def

lemmas payment_eval = propagate_payment_def add_htlcs_def add_hop_def hop_request_def add_state_start_def
  add_state_next_def next_hop_scid_def remove_htlcs_def remove_hop_def hop_sender_def after_removal_def
  handle_intercepted_htlc_def channel_eval

lemma demo_pays: "rep_result (propagate_payment demo_net demo_joins (demo_payment 2)) =
    Some \<lparr>htlc_count = 1, payment_outcome = Success\<rparr>"
  by (simp add: payment_eval demo_net_defs demo_policy_def demo_hash_def Let_def)

lemma demo_underpays: "rep_result (propagate_payment demo_net demo_joins (demo_payment 1)) =
    Some \<lparr>htlc_count = 0, payment_outcome = IndexFailure 0\<rparr>"
  by (simp add: payment_eval demo_net_defs demo_policy_def demo_hash_def Let_def)

lemma demo_payment_fields [simp]:
  "pr_source (demo_payment f) = PublicKey 1" "pr_route (demo_payment f) = demo_route f"
  "notify_ok (pr_interceptors (demo_payment f))" "hops (demo_route f) \<noteq> []"
  "length (hops (demo_route f)) = 2"
  by (simp_all add: demo_payment_def demo_route_def notify_ok_def)

lemma demo_route_facts:
  "path_documented (demo_route 2)" "connects demo_net (PublicKey 1) (hops (demo_route 2))"
  "fee_total (hops (demo_route 2)) = 202" "earned (PublicKey 2) (hops (demo_route 2)) = 2"
  by (simp_all add: demo_route_def path_documented_def fee_total_def earned_def)
    (simp add: demo_net_def demo_policy_def channel_eval net_frame_def)

subsection \<open>The properties\<close>

text \<open>C2. Atomicity. Whatever happens along the route, a payment over a non-empty route whose
  interceptors accept their notifications ends in one of three ways: it reports success; it reports
  the index of a failure and then every balance and every pending HTLC of the network is as it was;
  or a critical error was met, and then it reports an unknown outcome and shuts the simulation down.
  In the first two cases no shutdown is triggered, no HTLC stays behind and every channel keeps its
  invariant.\<close>

theorem payment_atomic:
  fixes joins :: joins
  assumes "net_inv nodes" and "hops (pr_route req) \<noteq> []" and "notify_ok (pr_interceptors req)"
  defines "rep \<equiv> propagate_payment nodes joins req"
  shows "case rep_result rep of
      None \<Rightarrow> False
    | Some res \<Rightarrow>
        (case payment_outcome res of
           Success \<Rightarrow> htlc_count res = 1 \<and> \<not> rep_shutdown rep \<and> net_inv (rep_nodes rep) \<and>
             acct_pending (rep_nodes rep) = acct_pending nodes
         | IndexFailure i \<Rightarrow> htlc_count res = 0 \<and> \<not> rep_shutdown rep \<and> net_inv (rep_nodes rep) \<and>
             i < length (hops (pr_route req)) \<and> acct_pending (rep_nodes rep) = acct_pending nodes \<and>
             acct_balance (rep_nodes rep) = acct_balance nodes
         | Unknown \<Rightarrow> htlc_count res = 0 \<and> rep_shutdown rep
         | _ \<Rightarrow> False)"
  using assms(1-3)
  by (cases rule: propagate_cases [where joins = joins]) (simp_all add: rep_def route_ops_def Let_def)

theorem payment_atomic_witness:
  "acct_balance (rep_nodes (propagate_payment demo_net demo_joins (demo_payment 1))) = acct_balance demo_net"
  using payment_atomic [OF demo_net_inv, of "demo_payment 1" demo_joins]
  by (simp add: demo_underpays)

text \<open>C23. What a successful payment pays. When the payment reports success on a route that follows
  the channels, every node of the network ends up with what it had, plus the fee of each hop it is
  the node of (for the last hop: the amount delivered), and the source alone pays for it: the sum
  of the hop fees, which must fit in 64 bits.\<close>

theorem payment_pays_fees:
  fixes joins :: joins
  assumes "net_inv nodes" and "path_documented (pr_route req)" and "notify_ok (pr_interceptors req)"
    and "connects nodes (pr_source req) (hops (pr_route req))"
    and "fee_total (hops (pr_route req)) < 2 ^ 64"
    and "rep_result (propagate_payment nodes joins req) = Some res" and "payment_outcome res = Success"
  shows "node_funds (rep_nodes (propagate_payment nodes joins req)) pk
      + (if pk = pr_source req then fee_total (hops (pr_route req)) else 0)
    = node_funds nodes pk + earned pk (hops (pr_route req))"
  using assms by (rule success_pays)

theorem payment_pays_fees_witness:
  "node_funds (rep_nodes (propagate_payment demo_net demo_joins (demo_payment 2))) (PublicKey 2)
     = node_funds demo_net (PublicKey 2) + 2"
  using payment_pays_fees [OF demo_net_inv, of "demo_payment 2" demo_joins, OF _ _ _ _ demo_pays, of "PublicKey 2"]
    demo_route_facts
  by simp

text \<open>The two loops are inverse halves. Adding HTLCs along a route locks the first \<open>n\<close> HTLCs of
  the route and nothing else: all of them when it succeeds, and when it fails with a forwarding
  error the reported index is that of the last HTLC locked (none when the first hop refused), which
  is what makes \<open>propagate_payment\<close> remove exactly those.\<close>

theorem add_htlcs_failure_index:
  assumes "net_inv nodes"
  shows "\<exists>n \<le> length (hops route).
    fold_opt net_lock (take n (route_ops nodes hash source route)) nodes
      = Some (snd (add_htlcs nodes source route hash ics joins records)) \<and>
    (case fst (add_htlcs nodes source route hash ics joins records) of
       Inl _ \<Rightarrow> True
     | Inr (Inl (f, _)) \<Rightarrow> f = (if n = 0 then None else Some (n - 1))
     | Inr (Inr _) \<Rightarrow> n = length (hops route))"
proof -
  obtain r nodes' where r: "add_htlcs nodes source route hash ics joins records = (r, nodes')"
    by (cases "add_htlcs nodes source route hash ics joins records")
  from add_htlcs_locks [OF assms r] show ?thesis
    unfolding r loop_outcome_def fst_conv snd_conv add_0 .
qed

theorem add_htlcs_failure_index_witness:
  "\<exists>n \<le> 2. fold_opt net_lock (take n (route_ops demo_net demo_hash (PublicKey 1) (demo_route 1))) demo_net
      = Some (snd (add_htlcs demo_net (PublicKey 1) (demo_route 1) demo_hash [] demo_joins []))"
  using add_htlcs_failure_index [OF demo_net_inv, of "demo_route 1" demo_hash "PublicKey 1" "[]" demo_joins "[]"]
  by auto

text \<open>On a route without hops the task dies before it reports: the slice \<open>hops[0..=usize::MAX]\<close>
  panics and no result is sent. The other tasks keep running and the shutdown is not triggered.\<close>

theorem payment_empty_route:
  "hops (pr_route req) = [] \<Longrightarrow>
   propagate_payment nodes joins req = \<lparr>rep_nodes = nodes, rep_shutdown = False, rep_result = None\<rparr>"
  by (simp add: propagate_payment_def add_htlcs_def after_removal_def)

theorem payment_empty_route_witness:
  "rep_result (propagate_payment demo_net demo_joins
     (demo_payment 2\<lparr>pr_route := \<lparr>hops = [], path_fee_msat = 0, path_final_value_msat = 0\<rparr>\<rparr>)) = None"
  by (simp add: payment_empty_route)

end
