(* ===== verification/Interleaving.thy ===== *)
theory Interleaving
  imports Payment_Properties
begin

section \<open>Concurrent payments (simln-lib/src/sim_node.rs)\<close>

text \<open>
  \<open>dispatch_payment\<close> spawns one task per payment; the tasks share the channels behind a mutex that
  is held for one hop at a time. A task is what is left of \<open>propagate_payment\<close>: it is about to add
  the HTLC of the next hop, or to remove one, or it has reported. \<open>task_step\<close> runs a task up to the
  end of its next section under the lock, together with the code outside the lock that follows it;
  \<open>net_step\<close> lets any task take the next step. \<open>run_task\<close> runs one task alone and is shown to be
  \<open>propagate_payment\<close>.
\<close>

datatype task =
    Adding nat "route_hop list" add_state
  | Removing bool "(nat \<times> route_hop) list" "short_channel_id option" payment_result
  | Reported bool "payment_result option"

definition start_task :: "payment_request \<Rightarrow> task" where
  "start_task req = Adding 0 (hops (pr_route req))
     (add_state_start (pr_source req) (pr_route req) (pr_custom_records req))"

definition begin_removal :: "payment_request \<Rightarrow> bool \<Rightarrow> nat \<Rightarrow> payment_result \<Rightarrow> task" where
  "begin_removal req success resolution_idx result =
     (if resolution_idx < length (hops (pr_route req))
      then Removing success (rev (enumerate 0 (take (Suc resolution_idx) (hops (pr_route req))))) None result
      else Reported False None)"

definition add_failed :: "payment_request \<Rightarrow> nat option \<Rightarrow> task" where
  "add_failed req failed_at =
     (let result = \<lparr>htlc_count = 0,
                    payment_outcome = IndexFailure (case failed_at of None \<Rightarrow> 0 | Some i \<Rightarrow> i)\<rparr>
      in case failed_at of
           None \<Rightarrow> Reported False (Some result)
         | Some i \<Rightarrow> begin_removal req False i result)"

definition add_done :: "payment_request \<Rightarrow> task" where
  "add_done req =
     (if hops (pr_route req) = [] then Reported False None
      else begin_removal req True (length (hops (pr_route req)) - 1)
             \<lparr>htlc_count = 1, payment_outcome = Success\<rparr>)"

definition crashed :: task where
  "crashed = Reported True (Some \<lparr>htlc_count = 0, payment_outcome = Unknown\<rparr>)"

fun task_step :: "payment_request \<Rightarrow> joins \<Rightarrow> task \<Rightarrow> channels \<Rightarrow> task \<times> channels" where
  "task_step req joins (Adding i [] st) nodes = (add_done req, nodes)"
| "task_step req joins (Adding i (hop # rest) st) nodes =
     (case add_hop (pr_route req) (pr_payment_hash req) i hop st nodes of
        (Inl e, nodes') \<Rightarrow> (crashed, nodes')
      | (Inr (Inl (failed_at, e)), nodes') \<Rightarrow> (add_failed req failed_at, nodes')
      | (Inr (Inr (incoming, next_scid)), nodes') \<Rightarrow>
          (let request = hop_request (pr_payment_hash req) hop st incoming next_scid in
           case handle_intercepted_htlc request (pr_interceptors req) (joins request) of
             Inl e \<Rightarrow> (crashed, nodes')
           | Inr (Inl e) \<Rightarrow> (add_failed req (Some i), nodes')
           | Inr (Inr records) \<Rightarrow> (Adding (Suc i) rest (add_state_next i hop records st), nodes')))"
| "task_step req joins (Removing success [] outgoing result) nodes = (Reported False (Some result), nodes)"
| "task_step req joins (Removing success ((i, hop) # rest) outgoing result) nodes =
     (case remove_hop (pr_source req) (pr_route req) (pr_payment_hash req) success i hop nodes of
        (Inl e, nodes') \<Rightarrow> (Reported True (Some result), nodes')
      | (Inr index, nodes') \<Rightarrow>
          (let incoming_scid = scid_from_u64 (hop_short_channel_id hop) in
           case notify_all (pr_interceptors req)
                  \<lparr>res_forwarding_node = hop_pubkey hop,
                   res_incoming_htlc = \<lparr>ref_channel_id = incoming_scid, ref_index = index\<rparr>,
                   res_outgoing_channel_id = outgoing,
                   res_success = success\<rparr> of
             Inl e \<Rightarrow> (Reported True (Some result), nodes')
           | Inr _ \<Rightarrow> (Removing success rest (Some incoming_scid) result, nodes')))"
| "task_step req joins (Reported sd result) nodes = (Reported sd result, nodes)"

subsection \<open>A task that runs alone\<close>

fun run_task :: "nat \<Rightarrow> payment_request \<Rightarrow> joins \<Rightarrow> task \<times> channels \<Rightarrow> task \<times> channels" where
  "run_task 0 req joins s = s"
| "run_task (Suc n) req joins s = run_task n req joins (task_step req joins (fst s) (snd s))"

lemma run_task_add: "run_task (m + n) req joins s = run_task n req joins (run_task m req joins s)"
  by (induction m arbitrary: s) simp_all

lemma run_reported: "run_task n req joins (Reported sd r, nodes) = (Reported sd r, nodes)"
  by (induction n) simp_all

lemma run_removing:
  "run_task (Suc (length ihs)) req joins (Removing b ihs out result, nodes) =
     (case remove_htlcs_loop (pr_source req) (pr_route req) (pr_payment_hash req) b (pr_interceptors req)
             ihs out nodes of
        (r, nodes') \<Rightarrow> (Reported (\<not> is_ok r) (Some result), nodes'))"
proof (induction ihs arbitrary: out nodes)
  case (Cons ih ihs)
  then show ?case
    by (cases ih)
      (auto simp: run_reported Let_def split: sum.split prod.split simp del: run_task.simps(2)
        simp: run_task.simps(2) [of "Suc _"])
qed simp

text \<open>After the add loop, the task stands where \<open>propagate_payment\<close> goes on.\<close>

definition after_add :: "payment_request \<Rightarrow> unit add_result \<Rightarrow> task" where
  "after_add req r =
     (case r of
        Inl _ \<Rightarrow> crashed
      | Inr (Inl (failed_at, _)) \<Rightarrow> add_failed req failed_at
      | Inr (Inr _) \<Rightarrow> add_done req)"

lemma run_adding:
  "\<exists>n \<le> Suc (length hs). run_task n req joins (Adding i hs st, nodes) =
     (case add_htlcs_loop (pr_route req) (pr_payment_hash req) (pr_interceptors req) joins i hs st nodes of
        (r, nodes') \<Rightarrow> (after_add req r, nodes'))"
proof (induction hs arbitrary: i st nodes)
  case Nil
  then show ?case by (intro exI [of _ "Suc 0"]) (simp add: after_add_def)
next
  case (Cons hop hs)
  let ?s = "task_step req joins (Adding i (hop # hs) st) nodes"
  show ?case
  proof (cases "\<exists>j hs' st' nodes'. ?s = (Adding j hs' st', nodes')")
    case False
    then have "?s = (case add_htlcs_loop (pr_route req) (pr_payment_hash req) (pr_interceptors req) joins i
        (hop # hs) st nodes of (r, nodes') \<Rightarrow> (after_add req r, nodes'))"
      by (auto simp: after_add_def Let_def split: sum.split prod.split)
    then show ?thesis by (intro exI [of _ "Suc 0"]) simp
  next
    case True
    then obtain incoming next_scid nodes' records where
      add: "add_hop (pr_route req) (pr_payment_hash req) i hop st nodes = (Inr (Inr (incoming, next_scid)), nodes')"
      and rec: "handle_intercepted_htlc (hop_request (pr_payment_hash req) hop st incoming next_scid)
        (pr_interceptors req) (joins (hop_request (pr_payment_hash req) hop st incoming next_scid)) = Inr (Inr records)"
      by (auto simp: Let_def crashed_def add_failed_def begin_removal_def split: sum.splits prod.splits
          option.splits if_splits)
    from Cons.IH [of "Suc i" "add_state_next i hop records st" nodes'] obtain n where "n \<le> Suc (length hs)"
      "run_task n req joins (Adding (Suc i) hs (add_state_next i hop records st), nodes') =
       (case add_htlcs_loop (pr_route req) (pr_payment_hash req) (pr_interceptors req) joins (Suc i) hs
          (add_state_next i hop records st) nodes' of (r, nodes') \<Rightarrow> (after_add req r, nodes'))" by blast
    with add rec show ?thesis
      by (intro exI [of _ "Suc n"]) (simp add: Let_def)
  qed
qed

lemma run_removal:
  assumes "begin_removal req b idx result = t"
  shows "run_task (Suc (length (hops (pr_route req)))) req joins (t, nodes) =
    (case remove_htlcs nodes idx (pr_source req) (pr_route req) (pr_payment_hash req) b (pr_interceptors req) of
       None \<Rightarrow> (Reported False None, nodes)
     | Some (r, nodes') \<Rightarrow> (Reported (\<not> is_ok r) (Some result), nodes'))"
proof (cases "idx < length (hops (pr_route req))")
  case False
  with assms show ?thesis by (auto simp: begin_removal_def remove_htlcs_def run_reported)
next
  case True
  let ?ihs = "rev (enumerate 0 (take (Suc idx) (hops (pr_route req))))"
  have len: "length ?ihs \<le> length (hops (pr_route req))" using True by simp
  have "run_task (Suc (length ?ihs) + k) req joins (Removing b ?ihs None result, nodes) =
    (case remove_htlcs_loop (pr_source req) (pr_route req) (pr_payment_hash req) b (pr_interceptors req)
        ?ihs None nodes of (r, nodes') \<Rightarrow> (Reported (\<not> is_ok r) (Some result), nodes'))" for k
    unfolding run_task_add run_removing by (simp add: run_reported split: prod.split)
  moreover have "Suc (length ?ihs) + (length (hops (pr_route req)) - length ?ihs) = Suc (length (hops (pr_route req)))"
    using len by simp
  ultimately have "run_task (Suc (length (hops (pr_route req)))) req joins (Removing b ?ihs None result, nodes) =
    (case remove_htlcs_loop (pr_source req) (pr_route req) (pr_payment_hash req) b (pr_interceptors req)
        ?ihs None nodes of (r, nodes') \<Rightarrow> (Reported (\<not> is_ok r) (Some result), nodes'))"
    by metis
  with True assms show ?thesis
    by (auto simp: begin_removal_def remove_htlcs_def simp del: run_task.simps)
qed

definition report_of :: "task \<times> channels \<Rightarrow> payment_report option" where
  "report_of s =
     (case fst s of
        Reported sd r \<Rightarrow> Some \<lparr>rep_nodes = snd s, rep_shutdown = sd, rep_result = r\<rparr>
      | _ \<Rightarrow> None)"

lemma after_add_report:
  "report_of (run_task (Suc (length (hops (pr_route req)))) req joins (after_add req r, nodes)) =
   Some (case r of
      Inr (Inr _) \<Rightarrow>
        after_removal
          (if hops (pr_route req) = [] then None
           else remove_htlcs nodes (length (hops (pr_route req)) - 1) (pr_source req)
                  (pr_route req) (pr_payment_hash req) True (pr_interceptors req))
          nodes \<lparr>htlc_count = 1, payment_outcome = Success\<rparr>
    | Inr (Inl (failed_at, _)) \<Rightarrow>
        (let result = \<lparr>htlc_count = 0,
                       payment_outcome = IndexFailure (case failed_at of None \<Rightarrow> 0 | Some i \<Rightarrow> i)\<rparr>
         in case failed_at of
              None \<Rightarrow> \<lparr>rep_nodes = nodes, rep_shutdown = False, rep_result = Some result\<rparr>
            | Some idx \<Rightarrow> after_removal
                (remove_htlcs nodes idx (pr_source req) (pr_route req) (pr_payment_hash req) False
                   (pr_interceptors req)) nodes result)
    | Inl _ \<Rightarrow> \<lparr>rep_nodes = nodes, rep_shutdown = True,
                rep_result = Some \<lparr>htlc_count = 0, payment_outcome = Unknown\<rparr>\<rparr>)"
proof -
  define N where "N = Suc (length (hops (pr_route req)))"
  have removal: "report_of (run_task N req joins (begin_removal req b idx result, nodes)) =
      Some (after_removal (remove_htlcs nodes idx (pr_source req) (pr_route req) (pr_payment_hash req) b
        (pr_interceptors req)) nodes result)" for b idx result
    unfolding N_def run_removal [OF refl]
    by (simp add: after_removal_def report_of_def split: option.split prod.split)
  have reported: "report_of (run_task n req joins (Reported sd res, nodes)) =
      Some \<lparr>rep_nodes = nodes, rep_shutdown = sd, rep_result = res\<rparr>" for n sd res
    by (simp add: run_reported report_of_def)
  show ?thesis
    unfolding N_def [symmetric] after_add_def add_failed_def add_done_def crashed_def
    by (auto simp: reported removal Let_def after_removal_def split: sum.split prod.split option.split
        simp del: run_task.simps(2))
qed

lemma run_task_propagates:
  "\<exists>n \<le> 2 * length (hops (pr_route req)) + 2.
     report_of (run_task n req joins (start_task req, nodes)) = Some (propagate_payment nodes joins req)"
proof -
  let ?hs = "hops (pr_route req)"
  obtain r nodes' where add: "add_htlcs nodes (pr_source req) (pr_route req) (pr_payment_hash req)
      (pr_interceptors req) joins (pr_custom_records req) = (r, nodes')"
    by (metis prod.exhaust)
  from run_adding [of ?hs req joins 0 "add_state_start (pr_source req) (pr_route req) (pr_custom_records req)" nodes]
  obtain n where n: "n \<le> Suc (length ?hs)"
    "run_task n req joins (start_task req, nodes) = (after_add req r, nodes')"
    using add by (auto simp: start_task_def add_htlcs_def)
  have "run_task (n + Suc (length ?hs)) req joins (start_task req, nodes)
      = run_task (Suc (length ?hs)) req joins (after_add req r, nodes')"
    unfolding run_task_add n(2) ..
  then have "report_of (run_task (n + Suc (length ?hs)) req joins (start_task req, nodes))
      = Some (propagate_payment nodes joins req)"
    by (auto simp: after_add_report propagate_payment_def add split: sum.split prod.split simp del: run_task.simps)
  then show ?thesis using n(1) by (intro exI [of _ "n + Suc (length ?hs)"]) simp
qed

subsection \<open>Tasks that interleave\<close>

inductive net_step :: "payment_request list \<Rightarrow> task list \<times> channels \<Rightarrow> task list \<times> channels \<Rightarrow> bool" where
  net_step: "j < length ts \<Longrightarrow> task_step (reqs ! j) joins (ts ! j) nodes = (t, nodes') \<Longrightarrow>
    net_step reqs (ts, nodes) (ts[j := t], nodes')"

inductive_cases net_stepE: "net_step reqs s s'"

definition req_ops :: "channels \<Rightarrow> payment_request \<Rightarrow> htlc_op list" where
  "req_ops nodes req = route_ops nodes (pr_payment_hash req) (pr_source req) (pr_route req)"

definition succeeded :: "task \<Rightarrow> bool" where
  "succeeded t = (case t of Reported _ (Some r) \<Rightarrow> payment_outcome r = Success | _ \<Rightarrow> False)"

text \<open>
  What a task holds (\<open>h\<close>) and has delivered (\<open>d\<close>) in each of its states. A task that ended with the
  shutdown may leave anything behind.
\<close>

fun task_inv :: "channels \<Rightarrow> payment_request \<Rightarrow> task \<Rightarrow> htlc_op list \<Rightarrow> htlc_op list \<Rightarrow> bool" where
  "task_inv nodes0 req (Adding i hs st) h d =
     (i \<le> length (hops (pr_route req)) \<and> hs = drop i (hops (pr_route req)) \<and>
      h = take i (req_ops nodes0 req) \<and> d = [] \<and>
      hop_ops nodes0 (pr_payment_hash req) (outgoing_node st) (outgoing_amount st) (outgoing_cltv st) hs
        = drop i (req_ops nodes0 req) \<and>
      fail_idx st = (if i = 0 then None else Some (i - 1)))"
| "task_inv nodes0 req (Removing b ihs out result) h d =
     (\<exists>n \<le> length (hops (pr_route req)). ihs = rev (enumerate 0 (take n (hops (pr_route req)))) \<and>
      h = take n (req_ops nodes0 req) \<and> d = (if b then drop n (req_ops nodes0 req) else []) \<and>
      (payment_outcome result = Success \<longleftrightarrow> b))"
| "task_inv nodes0 req (Reported sd r) h d =
     (sd \<or> h = [] \<and> d = (if succeeded (Reported sd r) then req_ops nodes0 req else []))"

definition net_cfg :: "channels \<Rightarrow> channels \<Rightarrow> htlc_op multiset \<Rightarrow> htlc_op multiset \<Rightarrow> bool" where
  "net_cfg nodes0 nodes M D \<longleftrightarrow> net.backed nodes0 nodes M D \<and> net_frame nodes = net_frame nodes0 \<and>
     (\<forall>x \<in># M. op_valid nodes0 x)"

lemma net_cfg_inv: "net_cfg nodes0 nodes M D \<Longrightarrow> net_inv nodes"
  by (simp add: net_cfg_def net.backed_def)

lemma net_cfg_lock:
  assumes "net_cfg nodes0 nodes M D" and "net_lock x nodes = Some nodes'"
  shows "net_cfg nodes0 nodes' (add_mset x M) D"
proof -
  have cfg: "net.backed nodes0 nodes M D" "net_frame nodes = net_frame nodes0" "\<forall>y \<in># M. op_valid nodes0 y"
    using assms(1) by (simp_all add: net_cfg_def)
  note eff = net_lock_effect(2,3) [OF net_cfg_inv [OF assms(1)] assms(2)]
  have "op_valid nodes0 x" using eff(2) op_valid_frame [OF cfg(2)] by simp
  with net.backed_lock [OF cfg(1) assms(2)] eff(1) cfg(2,3) show ?thesis
    by (simp add: net_cfg_def)
qed

lemma net_cfg_release:
  assumes "net_cfg nodes0 nodes (add_mset x M) D" and "hop_matches source route hash (i, hop) x"
  shows "\<exists>index nodes'. remove_hop source route hash b i hop nodes = (Inr index, nodes') \<and>
    net_cfg nodes0 nodes' M (if b then add_mset x D else D)"
proof -
  have cfg: "net.backed nodes0 nodes (add_mset x M) D" "net_frame nodes = net_frame nodes0"
    "op_valid nodes0 x" "\<forall>y \<in># M. op_valid nodes0 y"
    using assms(1) by (simp_all add: net_cfg_def)
  have valid: "op_valid nodes x" using cfg(3) op_valid_frame [OF cfg(2)] by simp
  from net.backed_release [OF cfg(1), of b] obtain nodes' where rel: "net_release b x nodes = Some nodes'"
    "net.backed nodes0 nodes' M (if b then add_mset x D else D)" by blast
  from remove_hop_releases [OF net_cfg_inv [OF assms(1)] valid assms(2) rel(1)] obtain index where
    "remove_hop source route hash b i hop nodes = (Inr index, nodes')" ..
  with net_release_effect(2) [OF net_cfg_inv [OF assms(1)] rel(1)] rel(2) cfg(2,4) show ?thesis
    unfolding net_cfg_def by (intro exI [of _ index] exI [of _ nodes']) simp
qed

lemma length_req_ops [simp]: "length (req_ops nodes0 req) = length (hops (pr_route req))"
  by (simp add: req_ops_def route_ops_def Let_def)

text \<open>The three ways on after a hop was added.\<close>

lemma task_inv_crashed: "task_inv nodes0 req crashed h d"
  by (simp add: crashed_def)

lemma task_inv_add_failed:
  assumes "n \<le> length (hops (pr_route req))"
  shows "task_inv nodes0 req (add_failed req (if n = 0 then None else Some (n - 1)))
    (take n (req_ops nodes0 req)) []"
  using assms by (cases n) (auto simp: add_failed_def begin_removal_def succeeded_def)

lemma task_inv_add_done:
  "task_inv nodes0 req (add_done req) (req_ops nodes0 req) []"
proof (cases "hops (pr_route req) = []")
  case True
  then have "req_ops nodes0 req = []" by (metis length_req_ops length_0_conv)
  with True show ?thesis by (simp add: add_done_def)
next
  case False
  then show ?thesis
    by (auto simp: add_done_def begin_removal_def intro: exI [of _ "length (hops (pr_route req))"])
qed

lemma task_step_adding:
  assumes inv: "task_inv nodes0 req (Adding i hs st) h d"
    and cfg: "net_cfg nodes0 nodes (mset h + R) (mset d + Q)"
    and step: "task_step req joins (Adding i hs st) nodes = (t', nodes')"
  shows "\<exists>h' d'. task_inv nodes0 req t' h' d' \<and> net_cfg nodes0 nodes' (mset h' + R) (mset d' + Q)"
proof (cases hs)
  case Nil
  with inv have "h = req_ops nodes0 req" "d = []" by simp_all
  then have "task_inv nodes0 req t' h d \<and> net_cfg nodes0 nodes' (mset h + R) (mset d + Q)"
    using Nil step cfg task_inv_add_done [of nodes0 req] by auto
  then show ?thesis by blast
next
  case (Cons hop rest)
  let ?ops = "req_ops nodes0 req"
  let ?x = "hop_op nodes0 (pr_payment_hash req) (outgoing_node st) (outgoing_amount st) (outgoing_cltv st) hop"
  from inv Cons have i: "i < length (hops (pr_route req))" and hd: "h = take i ?ops" "d = []"
    and fi: "fail_idx st = (if i = 0 then None else Some (i - 1))"
    by (auto intro: ccontr)
  have rest: "rest = drop (Suc i) (hops (pr_route req))"
    using inv Cons by (metis drop_Suc list.sel(3) task_inv.simps(1) tl_drop)
  from inv Cons have drop: "drop i ?ops = ?x # hop_ops nodes0 (pr_payment_hash req) (hop_pubkey hop)
      (outgoing_amount st - hop_fee_msat hop) (outgoing_cltv st - hop_cltv_expiry_delta hop) rest"
    by simp
  then have x: "?ops ! i = ?x" and ops': "drop (Suc i) ?ops = hop_ops nodes0 (pr_payment_hash req)
      (hop_pubkey hop) (outgoing_amount st - hop_fee_msat hop) (outgoing_cltv st - hop_cltv_expiry_delta hop) rest"
    using i by (simp_all add: hd_drop_conv_nth [symmetric] drop_Suc tl_drop [symmetric])
  have snoc: "take (Suc i) ?ops = h @ [?x]"
    using i x by (simp add: take_Suc_conv_app_nth hd(1))
  have frame: "net_frame nodes = net_frame nodes0" using cfg by (simp add: net_cfg_def)
  have xn: "?x = hop_op nodes (pr_payment_hash req) (outgoing_node st) (outgoing_amount st) (outgoing_cltv st) hop"
    by (simp add: hop_op_def sender_side_def frame)
  obtain r nodes1 where add: "add_hop (pr_route req) (pr_payment_hash req) i hop st nodes = (r, nodes1)"
    by (metis prod.exhaust)
  have failed0: "task_inv nodes0 req (add_failed req (fail_idx st)) h d"
    using task_inv_add_failed [of i req nodes0] i fi hd by simp
  have failed1: "task_inv nodes0 req (add_failed req (Some i)) (h @ [?x]) d"
    using task_inv_add_failed [of "Suc i" req nodes0] i hd(2) snoc by simp
  show ?thesis
    using net_cfg_inv [OF cfg] add xn
  proof (cases rule: add_hop_cases)
    case refused
    then have "t' = crashed \<or> t' = add_failed req (fail_idx st)" "nodes' = nodes"
      using step Cons add by auto
    then show ?thesis using cfg failed0 task_inv_crashed by metis
  next
    case locked
    have cfg1: "net_cfg nodes0 nodes1 (mset (h @ [?x]) + R) (mset d + Q)"
      using net_cfg_lock [OF cfg locked(1)] by simp
    have "nodes' = nodes1" "t' = crashed \<or> t' = add_failed req (Some i) \<or>
        (\<exists>records. t' = Adding (Suc i) rest (add_state_next i hop records st))"
      using step Cons add locked(2) by (auto simp: Let_def split: sum.splits prod.splits)
    moreover have "task_inv nodes0 req (Adding (Suc i) rest (add_state_next i hop records st)) (h @ [?x]) d" for records
      using i rest snoc ops' hd(2) by (simp add: add_state_next_def)
    ultimately show ?thesis using cfg1 failed1 task_inv_crashed by metis
  qed
qed

lemma task_step_removing:
  assumes inv: "task_inv nodes0 req (Removing b ihs out result) h d"
    and cfg: "net_cfg nodes0 nodes (mset h + R) (mset d + Q)"
    and step: "task_step req joins (Removing b ihs out result) nodes = (t', nodes')"
    and ok: "notify_ok (pr_interceptors req)"
  shows "(\<exists>h' d'. task_inv nodes0 req t' h' d' \<and> net_cfg nodes0 nodes' (mset h' + R) (mset d' + Q)) \<and>
    (\<forall>r. t' \<noteq> Reported True r)"
proof -
  let ?hops = "hops (pr_route req)" and ?ops = "req_ops nodes0 req"
  from inv obtain n where n: "n \<le> length ?hops" "ihs = rev (enumerate 0 (take n ?hops))" "h = take n ?ops"
    "d = (if b then drop n ?ops else [])" "payment_outcome result = Success \<longleftrightarrow> b"
    by auto
  show ?thesis
  proof (cases n)
    case 0
    then have "t' = Reported False (Some result)" "nodes' = nodes" "h = []" "d = (if b then ?ops else [])"
      using n step by simp_all
    with cfg n(5) have "task_inv nodes0 req t' h d \<and> net_cfg nodes0 nodes' (mset h + R) (mset d + Q)"
      by (simp add: succeeded_def)
    with \<open>t' = _\<close> show ?thesis by blast
  next
    case (Suc m)
    let ?x = "?ops ! m" and ?hop = "?hops ! m"
    have m: "m < length ?hops" using n(1) Suc by simp
    have ihs: "ihs = (m, ?hop) # rev (enumerate 0 (take m ?hops))"
      using n(2) Suc m by (simp add: take_Suc_conv_app_nth enumerate_append_eq)
    have h: "mset h = add_mset ?x (mset (take m ?ops))"
      using n(3) Suc m by (simp add: take_Suc_conv_app_nth)
    have d': "(if b then drop m ?ops else []) = (if b then ?x # d else [])"
      using n(4) Suc m by (simp add: Cons_nth_drop_Suc)
    have "hop_matches (pr_source req) (pr_route req) (pr_payment_hash req) (m, ?hop) ?x"
      using m by (simp add: hop_matches_def req_ops_def route_ops_def Let_def hop_ops_nth hop_sender_def)
    note release = net_cfg_release [OF _ this, of nodes0 nodes "mset (take m ?ops) + R" "mset d + Q" b]
    from cfg obtain index nodes1 where
      rem: "remove_hop (pr_source req) (pr_route req) (pr_payment_hash req) b m ?hop nodes = (Inr index, nodes1)"
      and cfg1: "net_cfg nodes0 nodes1 (mset (take m ?ops) + R)
        (if b then add_mset ?x (mset d + Q) else mset d + Q)"
      using release by (auto simp: h)
    have "nodes' = nodes1" "\<exists>out'. t' = Removing b (rev (enumerate 0 (take m ?hops))) out' result"
      using step rem ihs by (auto simp: Let_def notify_all_ok [OF ok])
    moreover have "mset (if b then drop m ?ops else []) + Q = (if b then add_mset ?x (mset d + Q) else mset d + Q)"
      using n(4) by (simp add: d')
    moreover have "task_inv nodes0 req (Removing b (rev (enumerate 0 (take m ?hops))) out' result)
        (take m ?ops) (if b then drop m ?ops else [])" for out'
      unfolding task_inv.simps using m n(5) by (intro exI [of _ m]) simp
    ultimately have "task_inv nodes0 req t' (take m ?ops) (if b then drop m ?ops else []) \<and>
        net_cfg nodes0 nodes' (mset (take m ?ops) + R) (mset (if b then drop m ?ops else []) + Q)"
      using cfg1 by (elim exE) (simp only: simp_thms)
    then have "\<exists>h' d'. task_inv nodes0 req t' h' d' \<and> net_cfg nodes0 nodes' (mset h' + R) (mset d' + Q)"
      by blast
    with \<open>\<exists>out'. t' = _\<close> show ?thesis by blast
  qed
qed

lemma task_step_inv:
  assumes "task_inv nodes0 req t h d" and "net_cfg nodes0 nodes (mset h + R) (mset d + Q)"
    and "task_step req joins t nodes = (t', nodes')" and "notify_ok (pr_interceptors req)"
  shows "\<exists>h' d'. task_inv nodes0 req t' h' d' \<and> net_cfg nodes0 nodes' (mset h' + R) (mset d' + Q)"
proof (cases t)
  case (Adding i hs st)
  with assms show ?thesis by (intro task_step_adding) auto
next
  case (Removing b ihs out result)
  with assms task_step_removing show ?thesis by blast
next
  case (Reported sd r)
  with assms have "task_inv nodes0 req t' h d \<and> net_cfg nodes0 nodes' (mset h + R) (mset d + Q)"
    by auto
  then show ?thesis by blast
qed

text \<open>The holdings of all tasks together; one task's share can be singled out.\<close>

lemma mset_concat_update:
  "j < length H \<Longrightarrow> \<exists>R. \<forall>h. mset (concat (H[j := h])) = mset h + R"
proof (induction H arbitrary: j)
  case (Cons h0 H)
  show ?case
  proof (cases j)
    case 0
    then show ?thesis by (intro exI [of _ "mset (concat H)"]) simp
  next
    case (Suc k)
    with Cons obtain R where "\<forall>h. mset (concat (H[k := h])) = mset h + R" by auto
    with Suc show ?thesis by (intro exI [of _ "mset h0 + R"]) simp
  qed
qed simp

definition tasks_inv :: "payment_request list \<Rightarrow> channels \<Rightarrow> task list \<times> channels \<Rightarrow> bool" where
  "tasks_inv reqs nodes0 s \<longleftrightarrow> length (fst s) = length reqs \<and>
     (\<forall>req \<in> set reqs. notify_ok (pr_interceptors req)) \<and>
     (\<exists>H D. length H = length reqs \<and> length D = length reqs \<and>
        (\<forall>j < length reqs. task_inv nodes0 (reqs ! j) (fst s ! j) (H ! j) (D ! j)) \<and>
        net_cfg nodes0 (snd s) (mset (concat H)) (mset (concat D)))"

definition tasks_init :: "payment_request list \<Rightarrow> channels \<Rightarrow> task list \<times> channels \<Rightarrow> bool" where
  "tasks_init reqs nodes0 s \<longleftrightarrow> s = (map start_task reqs, nodes0) \<and> net_inv nodes0 \<and>
     (\<forall>a k. acct_pending nodes0 a k = None) \<and> (\<forall>req \<in> set reqs. notify_ok (pr_interceptors req))"

lemma task_inv_start: "task_inv nodes0 req (start_task req) [] []"
  by (simp add: start_task_def add_state_start_def req_ops_def route_ops_def Let_def)

lemma tasks_inv_init:
  assumes "tasks_init reqs nodes0 s"
  shows "tasks_inv reqs nodes0 s"
proof -
  have "net_cfg nodes0 nodes0 {#} {#}"
    using assms by (auto simp: tasks_init_def net_cfg_def intro: net.backed_start)
  moreover have "concat (replicate n []) = ([] :: htlc_op list)" for n
    by (induction n) simp_all
  ultimately show ?thesis
    using assms task_inv_start
    by (auto simp: tasks_init_def tasks_inv_def intro!: exI [of _ "replicate (length reqs) []"])
qed

lemma tasks_inv_step:
  assumes "net_step reqs s s'" and "tasks_inv reqs nodes0 s"
  shows "tasks_inv reqs nodes0 s'"
proof -
  obtain ts nodes where s: "s = (ts, nodes)" by (cases s)
  from assms(1) [unfolded s] obtain j joins t nodes' where j: "j < length ts"
    "task_step (reqs ! j) joins (ts ! j) nodes = (t, nodes')" "s' = (ts[j := t], nodes')"
    by (elim net_stepE) auto
  from assms(2) obtain H D where inv: "length ts = length reqs" "\<forall>req \<in> set reqs. notify_ok (pr_interceptors req)"
    "length H = length reqs" "length D = length reqs"
    "\<forall>j < length reqs. task_inv nodes0 (reqs ! j) (ts ! j) (H ! j) (D ! j)"
    "net_cfg nodes0 nodes (mset (concat H)) (mset (concat D))"
    by (auto simp: tasks_inv_def s)
  from mset_concat_update [of j H] mset_concat_update [of j D] j(1) inv(1,3,4) obtain R Q where
    RQ: "\<forall>h. mset (concat (H[j := h])) = mset h + R" "\<forall>d. mset (concat (D[j := d])) = mset d + Q"
    by auto
  have "net_cfg nodes0 nodes (mset (H ! j) + R) (mset (D ! j) + Q)"
    using inv(6) RQ(1) [rule_format, of "H ! j"] RQ(2) [rule_format, of "D ! j"] by simp
  with task_step_inv [of nodes0 "reqs ! j" "ts ! j" "H ! j" "D ! j" nodes R Q joins t nodes'] inv(1,2,5) j
  obtain h d where "task_inv nodes0 (reqs ! j) t h d" "net_cfg nodes0 nodes' (mset h + R) (mset d + Q)"
    by auto
  with inv j RQ show ?thesis
    unfolding tasks_inv_def
    by (intro conjI exI [of _ "H[j := h]"] exI [of _ "D[j := d]"]) (auto simp: nth_list_update)
qed

interpretation tasks: invariant_system "tasks_init reqs nodes0" "net_step reqs" "tasks_inv reqs nodes0"
  for reqs nodes0
  by unfold_locales (auto intro: tasks_inv_init tasks_inv_step)

subsection \<open>The properties\<close>

definition all_reported :: "task list \<Rightarrow> bool" where
  "all_reported ts \<longleftrightarrow> (\<forall>t \<in> set ts. \<exists>r. t = Reported False r)"

lemma all_reported_holdings:
  assumes "all_reported ts" and "length ts = length reqs" and "length H = length reqs" and "length D = length reqs"
    and "\<forall>j < length reqs. task_inv nodes0 (reqs ! j) (ts ! j) (H ! j) (D ! j)"
  shows "concat H = []"
    and "D = map2 (\<lambda>req t. if succeeded t then req_ops nodes0 req else []) reqs ts"
proof -
  have each: "H ! j = [] \<and> D ! j = (if succeeded (ts ! j) then req_ops nodes0 (reqs ! j) else [])"
    if "j < length reqs" for j
  proof -
    have "ts ! j \<in> set ts" using assms(2) that by simp
    then obtain r where "ts ! j = Reported False r"
      using assms(1) unfolding all_reported_def by blast
    with assms(5) [rule_format, OF that] show ?thesis by auto
  qed
  then show "concat H = []" using assms(3) by (auto simp: in_set_conv_nth)
  show "D = map2 (\<lambda>req t. if succeeded t then req_ops nodes0 req else []) reqs ts"
    using each assms(2,4) by (intro nth_equalityI) simp_all
qed

lemma sum_mset_concat:
  "sum_mset (image_mset f (mset (concat xss))) = sum_list (map (\<lambda>xs. sum_list (map f xs)) xss)"
  for f :: "'a \<Rightarrow> nat"
  by (induction xss) (simp_all flip: sum_mset_sum_list)

text \<open>What a payment that succeeded moves from and to an account.\<close>

definition pays_from :: "channels \<Rightarrow> account \<Rightarrow> payment_request \<times> task \<Rightarrow> nat" where
  "pays_from nodes0 a rt =
     (if succeeded (snd rt) then sum_list (map (\<lambda>x. if op_acct x = a then op_amount x else 0) (req_ops nodes0 (fst rt)))
      else 0)"

definition pays_to :: "channels \<Rightarrow> account \<Rightarrow> payment_request \<times> task \<Rightarrow> nat" where
  "pays_to nodes0 a rt =
     (if succeeded (snd rt)
      then sum_list (map (\<lambda>x. if acct_partner (op_acct x) = a then op_amount x else 0) (req_ops nodes0 (fst rt)))
      else 0)"

lemma settled_network:
  assumes "tasks_inv reqs nodes0 (ts, nodes)" and "all_reported ts"
  shows "net_inv nodes" and "acct_pending nodes a k = None"
    and "acct_balance nodes a + sum_list (map (pays_from nodes0 a) (zip reqs ts))
       = acct_balance nodes0 a + sum_list (map (pays_to nodes0 a) (zip reqs ts))"
proof -
  from assms(1) obtain H D where inv: "length ts = length reqs" "length H = length reqs" "length D = length reqs"
    "\<forall>j < length reqs. task_inv nodes0 (reqs ! j) (ts ! j) (H ! j) (D ! j)"
    "net_cfg nodes0 nodes (mset (concat H)) (mset (concat D))"
    by (auto simp: tasks_inv_def)
  note hold = all_reported_holdings [OF assms(2) inv(1-4)]
  have backed: "net.backed nodes0 nodes {#} (mset (concat D))"
    using inv(5) by (simp add: hold(1) net_cfg_def)
  then show "net_inv nodes" by (simp add: net.backed_def)
  show "acct_pending nodes a k = None"
    using backed by (cases a) (auto simp: net.backed_def split: if_splits)
  have "net.held (mset (concat D)) a = sum_list (map (pays_from nodes0 a) (zip reqs ts))"
    "net.gained (mset (concat D)) a = sum_list (map (pays_to nodes0 a) (zip reqs ts))"
    unfolding net.held_def net.gained_def sum_mset_concat hold(2)
    by (auto simp: pays_from_def pays_to_def comp_def case_prod_beta intro!: arg_cong [where f = sum_list])
  moreover have "acct_balance nodes a + net.held (mset (concat D)) a
      = acct_balance nodes0 a + net.gained (mset (concat D)) a"
    using backed unfolding net.backed_def by (cases a) simp
  ultimately show "acct_balance nodes a + sum_list (map (pays_from nodes0 a) (zip reqs ts))
       = acct_balance nodes0 a + sum_list (map (pays_to nodes0 a) (zip reqs ts))"
    by simp
qed

subsection \<open>A worked example\<close>

lemma run_task_steps:
  "j < length ts \<Longrightarrow> run_task n (reqs ! j) joins (ts ! j, nodes) = (t, nodes') \<Longrightarrow>
   (net_step reqs)\<^sup>*\<^sup>* (ts, nodes) (ts[j := t], nodes')"
proof (induction n arbitrary: ts nodes)
  case 0
  then have "t = ts ! j" "nodes' = nodes" by auto
  then show ?case by simp
next
  case (Suc n)
  obtain u nodes1 where u: "task_step (reqs ! j) joins (ts ! j) nodes = (u, nodes1)"
    by (metis prod.exhaust)
  have "net_step reqs (ts, nodes) (ts[j := u], nodes1)"
    using Suc.prems(1) u by (rule net_step)
  moreover have "(net_step reqs)\<^sup>*\<^sup>* (ts[j := u], nodes1) (ts[j := u, j := t], nodes')"
    using Suc.prems u by (intro Suc.IH) simp_all
  ultimately show ?case by simp
qed

lemma run_to_report:
  assumes "j < length ts" and "ts ! j = start_task (reqs ! j)"
    and "propagate_payment nodes joins (reqs ! j) = rep"
  shows "(net_step reqs)\<^sup>*\<^sup>* (ts, nodes) (ts[j := Reported (rep_shutdown rep) (rep_result rep)], rep_nodes rep)"
proof -
  obtain n where n: "report_of (run_task n (reqs ! j) joins (start_task (reqs ! j), nodes)) = Some rep"
    using run_task_propagates assms(3) by blast
  then have "run_task n (reqs ! j) joins (ts ! j, nodes)
      = (Reported (rep_shutdown rep) (rep_result rep), rep_nodes rep)"
    unfolding assms(2) by (auto simp: report_of_def prod_eq_iff split: task.splits)
  with assms(1) show ?thesis by (rule run_task_steps)
qed

definition demo_reqs :: "payment_request list" where
  "demo_reqs = [demo_payment 2, (demo_payment 1)\<lparr>pr_payment_hash := PaymentHash []\<rparr>]"

definition demo_first :: payment_report where
  "demo_first = propagate_payment demo_net demo_joins (demo_reqs ! 0)"

definition demo_second :: payment_report where
  "demo_second = propagate_payment (rep_nodes demo_first) demo_joins (demo_reqs ! 1)"

lemma demo_two:
  "rep_shutdown demo_first = False" "rep_shutdown demo_second = False"
  "rep_result demo_first = Some \<lparr>htlc_count = 1, payment_outcome = Success\<rparr>"
  "rep_result demo_second = Some \<lparr>htlc_count = 0, payment_outcome = IndexFailure 0\<rparr>"
  by (simp_all add: demo_first_def demo_second_def demo_reqs_def payment_eval demo_net_defs
      demo_policy_def demo_hash_def Let_def)

definition demo_ts :: "task list" where
  "demo_ts = [Reported (rep_shutdown demo_first) (rep_result demo_first),
     Reported (rep_shutdown demo_second) (rep_result demo_second)]"

lemma demo_run: "(net_step demo_reqs)\<^sup>*\<^sup>* (map start_task demo_reqs, demo_net) (demo_ts, rep_nodes demo_second)"
proof -
  let ?t0 = "Reported (rep_shutdown demo_first) (rep_result demo_first)"
  have "(net_step demo_reqs)\<^sup>*\<^sup>* (map start_task demo_reqs, demo_net)
      ((map start_task demo_reqs)[0 := ?t0], rep_nodes demo_first)"
    by (rule run_to_report [where joins = demo_joins]) (simp_all add: demo_reqs_def demo_first_def)
  also have "(net_step demo_reqs)\<^sup>*\<^sup>* ((map start_task demo_reqs)[0 := ?t0], rep_nodes demo_first)
      ((map start_task demo_reqs)[0 := ?t0, 1 := Reported (rep_shutdown demo_second) (rep_result demo_second)],
       rep_nodes demo_second)"
    by (rule run_to_report [where joins = demo_joins]) (simp_all add: demo_reqs_def demo_second_def)
  finally show ?thesis by (simp add: demo_reqs_def demo_ts_def)
qed

lemma demo_idle: "\<forall>a k. acct_pending demo_net a k = None"
  by (simp add: acct_pending_def demo_net_def abs_ledger_def hm_get_def hm_new_def)

lemma demo_notify: "\<forall>req \<in> set demo_reqs. notify_ok (pr_interceptors req)"
  by (simp add: demo_reqs_def demo_payment_def notify_ok_def)

text \<open>C3. Any interleaving. Any number of payments start on an idle network and their sections under
  the lock interleave in any order. Once all of them have reported, none with a critical error, no
  HTLC is pending anywhere, every channel's funds add up to its capacity, and every balance is the
  initial one plus what the successful payments, and only those, moved to and from it: the order in
  which the tasks ran leaves no trace beyond which payments succeeded.\<close>

theorem interleaved_payments_settle:
  assumes "net_inv nodes0" and "\<forall>a k. acct_pending nodes0 a k = None"
    and "\<forall>req \<in> set reqs. notify_ok (pr_interceptors req)"
    and "(net_step reqs)\<^sup>*\<^sup>* (map start_task reqs, nodes0) (ts, nodes)" and "all_reported ts"
  shows "net_inv nodes \<and> (\<forall>a k. acct_pending nodes a k = None) \<and>
    (\<forall>a. acct_balance nodes a + sum_list (map (pays_from nodes0 a) (zip reqs ts))
       = acct_balance nodes0 a + sum_list (map (pays_to nodes0 a) (zip reqs ts)))"
proof -
  have "tasks_init reqs nodes0 (map start_task reqs, nodes0)"
    using assms(1-3) by (simp add: tasks_init_def)
  from tasks.invar_reachable [OF this assms(4)] show ?thesis
    using settled_network [OF _ assms(5)] by blast
qed

theorem interleaved_payments_settle_witness:
  "succeeded (demo_ts ! 0) \<and> \<not> succeeded (demo_ts ! 1) \<and>
   (\<forall>a k. acct_pending (rep_nodes demo_second) a k = None) \<and>
   (\<forall>a. acct_balance (rep_nodes demo_second) a + sum_list (map (pays_from demo_net a) (zip demo_reqs demo_ts))
      = acct_balance demo_net a + sum_list (map (pays_to demo_net a) (zip demo_reqs demo_ts)))"
proof -
  have "all_reported demo_ts" by (simp add: all_reported_def demo_ts_def demo_two)
  moreover have "succeeded (demo_ts ! 0) \<and> \<not> succeeded (demo_ts ! 1)"
    by (simp add: demo_ts_def demo_two succeeded_def)
  ultimately show ?thesis
    using interleaved_payments_settle [OF demo_net_inv demo_idle demo_notify demo_run] by blast
qed



end
