(* ===== verification/Sim_Graph.thy ===== *)
theory Sim_Graph
  imports Interleaving
begin

section \<open>The simulated network (simln-lib/src/sim_node.rs)\<close>

text \<open>
  \<open>SimGraph\<close>, the \<open>SimNetwork\<close> that owns the channels and dispatches payments, and the gossip that
  \<open>populate_network_graph\<close> feeds to the routing graph of the \<open>lightning\<close> crate.

  The crate's graph is a parameter: \<open>apply_gossip\<close> takes one announcement or update, in the order
  the code makes the calls, to a new graph or an error. \<open>dispatch_payment\<close> returns what becomes of the
  sender half of the payment's result channel: it is dropped, it is used at once, or it goes with a
  spawned task (the tasks run in \<open>Interleaving\<close>).
\<close>

subsection \<open>Building the graph\<close>

type_synonym graph_nodes = "(pubkey, node_info \<times> short_channel_id list) hmap"

record sim_graph =
  sg_nodes :: graph_nodes
  sg_channels :: channels
  sg_interceptors :: "interceptor list"
  sg_default_custom_records :: custom_records

definition add_graph_node ::
  "(node_features \<Rightarrow> node_features) \<Rightarrow> short_channel_id \<Rightarrow> channel_policy \<Rightarrow> graph_nodes \<Rightarrow> graph_nodes" where
  "add_graph_node set_keysend scid info nodes =
     (case hm_get nodes (pol_pubkey info) of
        Some (ni, scids) \<Rightarrow> hm_insert (pol_pubkey info) (ni, scids @ [scid]) nodes
      | None \<Rightarrow> hm_insert (pol_pubkey info)
                  (make_node_info set_keysend (pol_pubkey info) (pol_alias info), [scid]) nodes)"

fun sim_graph_loop ::
  "(node_features \<Rightarrow> node_features) \<Rightarrow> simulated_channel list \<Rightarrow> graph_nodes \<Rightarrow> channels \<Rightarrow>
   simulation_error + (graph_nodes \<times> channels)" where
  "sim_graph_loop set_keysend [] nodes channels = Inr (nodes, channels)"
| "sim_graph_loop set_keysend (c # cs) nodes channels =
     res_bind (simulated_channel_validate c)
       (\<lambda>_. if hm_contains channels (short_channel_id c)
             then Inl (SimulatedNetworkError
                    (Fmt ''Simulated short channel ID should be unique: {} duplicated''
                       [ArgNum (unat (scid_to_u64 (short_channel_id c)))]))
             else sim_graph_loop set_keysend cs
                    (add_graph_node set_keysend (short_channel_id c) (policy (node_2 c))
                      (add_graph_node set_keysend (short_channel_id c) (policy (node_1 c)) nodes))
                    (hm_insert (short_channel_id c) c channels))"

definition sim_graph_new ::
  "(node_features \<Rightarrow> node_features) \<Rightarrow> simulated_channel list \<Rightarrow> interceptor list \<Rightarrow> custom_records \<Rightarrow>
   simulation_error + sim_graph" where
  "sim_graph_new set_keysend graph_channels interceptors default_records =
     res_bind (sim_graph_loop set_keysend graph_channels hm_new hm_new)
       (\<lambda>(nodes, channels). Inr \<lparr>sg_nodes = nodes, sg_channels = channels,
          sg_interceptors = interceptors, sg_default_custom_records = default_records\<rparr>)"

subsection \<open>Queries\<close>

definition lookup_node :: "sim_graph \<Rightarrow> pubkey \<Rightarrow> lightning_error + (node_info \<times> u64 list)" where
  "lookup_node g node =
     (case hm_get (sg_nodes g) node of
        None \<Rightarrow> Inl (GetNodeInfoError (Fmt ''Node {} not found'' [ArgPk node]))
      | Some (ni, scids) \<Rightarrow>
          Inr (ni, map capacity_msat
                     (filter (\<lambda>c. \<not> exclude_capacity c)
                        (List.map_filter (hm_get (sg_channels g)) scids))))"

definition list_nodes :: "sim_graph \<Rightarrow> node_info list" where
  "list_nodes g = map (\<lambda>e. fst (snd e)) (sg_nodes g)"

subsection \<open>Dispatching a payment\<close>

text \<open>A \<open>Route\<close> of the \<open>lightning\<close> crate is its list of paths.\<close>

type_synonym route = "path list"

datatype sender_fate =
    SenderDropped
  | SenderSent payment_result
  | SenderSpawned payment_request

definition dispatch_payment ::
  "sim_graph \<Rightarrow> pubkey \<Rightarrow> route \<Rightarrow> custom_records option \<Rightarrow> payment_hash \<Rightarrow> sender_fate" where
  "dispatch_payment g source route custom_records payment_hash =
     (if length route \<noteq> 1 then SenderDropped
      else case route of
             [] \<Rightarrow> SenderSent \<lparr>htlc_count = 0, payment_outcome = RouteNotFound\<rparr>
           | path # _ \<Rightarrow> SenderSpawned
               \<lparr>pr_source = source, pr_route = path, pr_payment_hash = payment_hash,
                pr_interceptors = sg_interceptors g,
                pr_custom_records = (case custom_records of None \<Rightarrow> sg_default_custom_records g
                                     | Some r \<Rightarrow> r)\<rparr>)"

subsection \<open>The routing graph\<close>

datatype gossip =
    ChannelAnnouncement u64 pubkey pubkey u64 \<comment> \<open>scid, both nodes, satoshis the mock UTXO lookup returns\<close>
  | ChannelUpdate u64 u32 u8 u16 u64 u64 u32 u32
      \<comment> \<open>scid, timestamp, channel flags, cltv delta, minimum, maximum, base fee, proportional fee\<close>

definition channel_announcement :: "simulated_channel \<Rightarrow> gossip" where
  "channel_announcement c =
     ChannelAnnouncement (scid_to_u64 (short_channel_id c)) (pk_1 c) (pk_2 c) (capacity_msat c div 1000)"

definition channel_update :: "system_time \<Rightarrow> short_channel_id \<Rightarrow> nat \<Rightarrow> channel_policy \<Rightarrow> gossip" where
  "channel_update now scid i p =
     ChannelUpdate (scid_to_u64 scid) (of_nat (now div nanos_per_sec)) (of_nat i)
       (ucast (cltv_expiry_delta p)) (min_htlc_size_msat p) (max_htlc_size_msat p)
       (ucast (base_fee p)) (ucast (fee_rate_prop p))"

definition channel_gossip :: "system_time \<Rightarrow> simulated_channel \<Rightarrow> gossip list" where
  "channel_gossip now c =
     [channel_announcement c,
      channel_update now (short_channel_id c) 0 (policy (node_1 c)),
      channel_update now (short_channel_id c) 1 (policy (node_2 c))]"

fun apply_all :: "(gossip \<Rightarrow> 'g \<Rightarrow> 'e + 'g) \<Rightarrow> gossip list \<Rightarrow> 'g \<Rightarrow> 'e + 'g" where
  "apply_all apply_gossip [] graph = Inr graph"
| "apply_all apply_gossip (m # ms) graph = res_bind (apply_gossip m graph) (apply_all apply_gossip ms)"

text \<open>\<open>clock\<close> gives the time read for the i-th channel, which differs between channels.\<close>

fun populate_loop ::
  "(gossip \<Rightarrow> 'g \<Rightarrow> 'e + 'g) \<Rightarrow> (nat \<Rightarrow> system_time) \<Rightarrow> nat \<Rightarrow> simulated_channel list \<Rightarrow> 'g \<Rightarrow> 'e + 'g" where
  "populate_loop apply_gossip clock i [] graph = Inr graph"
| "populate_loop apply_gossip clock i (c # cs) graph =
     res_bind (apply_all apply_gossip (channel_gossip (clock i) c) graph)
       (populate_loop apply_gossip clock (Suc i) cs)"

definition populate_network_graph ::
  "(gossip \<Rightarrow> 'g \<Rightarrow> 'e + 'g) \<Rightarrow> (nat \<Rightarrow> system_time) \<Rightarrow> 'g \<Rightarrow> simulated_channel list \<Rightarrow> 'e + 'g" where
  "populate_network_graph apply_gossip clock new_graph channels =
     populate_loop apply_gossip clock 0 channels new_graph"

subsection \<open>What the graph holds\<close>

text \<open>A node's channels, in the order they were given.\<close>

definition channels_of :: "pubkey \<Rightarrow> simulated_channel list \<Rightarrow> simulated_channel list" where
  "channels_of pk cs = filter (\<lambda>c. pk = pk_1 c \<or> pk = pk_2 c) cs"

lemma add_graph_node_get:
  "map_option snd (hm_get (add_graph_node f scid p nodes) pk) =
     (if pk = pol_pubkey p
      then Some ((case hm_get nodes pk of None \<Rightarrow> [] | Some e \<Rightarrow> snd e) @ [scid])
      else map_option snd (hm_get nodes pk))"
  by (auto simp: add_graph_node_def hm_get_insert split: option.splits prod.splits)

lemma validate_distinct_pks: "simulated_channel_validate c = Inr () \<Longrightarrow> pk_1 c \<noteq> pk_2 c"
  by (auto simp: simulated_channel_validate_def)

lemma sim_graph_loop_nodes:
  "sim_graph_loop f cs nodes chans = Inr (nodes', chans') \<Longrightarrow>
   map_option snd (hm_get nodes' pk) =
     (let scids = (case hm_get nodes pk of None \<Rightarrow> [] | Some e \<Rightarrow> snd e) @
                  map short_channel_id (channels_of pk cs)
      in if hm_get nodes pk = None \<and> channels_of pk cs = [] then None else Some scids)"
proof (induction cs arbitrary: nodes chans)
  case Nil
  then show ?case by (cases "hm_get nodes pk") (auto simp: channels_of_def)
next
  case (Cons c cs)
  let ?n1 = "add_graph_node f (short_channel_id c) (policy (node_1 c)) nodes"
  let ?n2 = "add_graph_node f (short_channel_id c) (policy (node_2 c)) ?n1"
  from Cons.prems have valid: "simulated_channel_validate c = Inr ()"
    and rest: "sim_graph_loop f cs ?n2 (hm_insert (short_channel_id c) c chans) = Inr (nodes', chans')"
    by (auto simp: res_bind_Inr_iff split: if_splits)
  have neq: "pk_1 c \<noteq> pk_2 c" using validate_distinct_pks [OF valid] .
  have get: "map_option snd (hm_get ?n2 pk) =
      (if pk = pk_1 c \<or> pk = pk_2 c
       then Some ((case hm_get nodes pk of None \<Rightarrow> [] | Some e \<Rightarrow> snd e) @ [short_channel_id c])
       else map_option snd (hm_get nodes pk))"
  proof -
    have cs: "(case hm_get m pk of None \<Rightarrow> [] | Some e \<Rightarrow> snd e)
        = (case map_option snd (hm_get m pk) of None \<Rightarrow> [] | Some l \<Rightarrow> l)" for m :: graph_nodes
      by (cases "hm_get m pk") simp_all
    show ?thesis
      using neq unfolding add_graph_node_get cs by (auto simp: pk_1_def pk_2_def)
  qed
  have split: "map_option snd (hm_get ?n2 pk) = None \<longleftrightarrow> hm_get ?n2 pk = None"
    "(case hm_get ?n2 pk of None \<Rightarrow> [] | Some e \<Rightarrow> snd e)
       = (case map_option snd (hm_get ?n2 pk) of None \<Rightarrow> [] | Some l \<Rightarrow> l)"
    by (cases "hm_get ?n2 pk"; simp)+
  show ?case
    unfolding Cons.IH [OF rest] split(2) split(1) [symmetric] get
    by (cases "hm_get nodes pk") (auto simp: channels_of_def Let_def)
qed

lemma sim_graph_loop_channels:
  "sim_graph_loop f cs nodes chans = Inr (nodes', chans') \<Longrightarrow> hm_wf chans \<Longrightarrow>
   hm_wf chans' \<and> distinct (map short_channel_id cs) \<and>
   (\<forall>c \<in> set cs. hm_get chans (short_channel_id c) = None \<and> simulated_channel_validate c = Inr ()) \<and>
   (\<forall>scid. hm_get chans' scid =
      (case find (\<lambda>c. short_channel_id c = scid) cs of None \<Rightarrow> hm_get chans scid | Some c \<Rightarrow> Some c))"
proof (induction cs arbitrary: nodes chans)
  case Nil
  then show ?case by simp
next
  case (Cons c cs)
  let ?chans = "hm_insert (short_channel_id c) c chans"
  from Cons.prems obtain nodes1 where valid: "simulated_channel_validate c = Inr ()"
    and fresh: "hm_get chans (short_channel_id c) = None"
    and rest: "sim_graph_loop f cs nodes1 ?chans = Inr (nodes', chans')"
    by (auto simp: res_bind_Inr_iff hm_contains_def split: if_splits)
  from Cons.IH [OF rest] Cons.prems(2) have IH: "hm_wf chans'" "distinct (map short_channel_id cs)"
    "\<forall>d \<in> set cs. hm_get ?chans (short_channel_id d) = None \<and> simulated_channel_validate d = Inr ()"
    "\<forall>scid. hm_get chans' scid =
      (case find (\<lambda>c. short_channel_id c = scid) cs of None \<Rightarrow> hm_get ?chans scid | Some c \<Rightarrow> Some c)"
    by (simp_all add: hm_wf_insert)
  have other: "short_channel_id d \<noteq> short_channel_id c" if "d \<in> set cs" for d
    using IH(3) that by (auto simp: hm_get_insert split: if_splits)
  then have "find (\<lambda>d. short_channel_id d = short_channel_id c) cs = None"
    by (auto simp: find_None_iff)
  moreover have "short_channel_id c \<notin> short_channel_id ` set cs"
    using other by (metis imageE)
  ultimately show ?case
    using valid fresh IH other by (auto simp: hm_get_insert split: option.splits)
qed

lemma sim_graph_loop_ok:
  "(\<forall>c \<in> set cs. simulated_channel_validate c = Inr () \<and> hm_get chans (short_channel_id c) = None) \<Longrightarrow>
   distinct (map short_channel_id cs) \<Longrightarrow> \<exists>r. sim_graph_loop f cs nodes chans = Inr r"
proof (induction cs arbitrary: nodes chans)
  case (Cons c cs)
  then have "short_channel_id c \<notin> short_channel_id ` set cs" by simp
  then have "short_channel_id d \<noteq> short_channel_id c" if "d \<in> set cs" for d
    using that by (metis imageI)
  with Cons have "\<forall>d \<in> set cs. simulated_channel_validate d = Inr () \<and>
      hm_get (hm_insert (short_channel_id c) c chans) (short_channel_id d) = None"
    by (auto simp: hm_get_insert)
  with Cons show ?case by (simp add: hm_contains_def)
qed simp

lemma sim_graph_new_parts:
  assumes "sim_graph_new f cs ics recs = Inr g"
  shows "hm_wf (sg_channels g)" and "distinct (map short_channel_id cs)"
    and "\<forall>c \<in> set cs. simulated_channel_validate c = Inr ()"
    and "hm_get (sg_channels g) scid = find (\<lambda>c. short_channel_id c = scid) cs"
    and "map_option snd (hm_get (sg_nodes g) pk) =
      (if channels_of pk cs = [] then None else Some (map short_channel_id (channels_of pk cs)))"
proof -
  from assms obtain nodes chans where loop: "sim_graph_loop f cs hm_new hm_new = Inr (nodes, chans)"
    and g: "sg_nodes g = nodes" "sg_channels g = chans"
    by (auto simp: sim_graph_new_def res_bind_Inr_iff)
  note parts = sim_graph_loop_channels [OF loop hm_wf_new]
  from parts g show "hm_wf (sg_channels g)" "distinct (map short_channel_id cs)"
    "\<forall>c \<in> set cs. simulated_channel_validate c = Inr ()" by simp_all
  show "hm_get (sg_channels g) scid = find (\<lambda>c. short_channel_id c = scid) cs"
    using parts g by (auto split: option.splits)
  show "map_option snd (hm_get (sg_nodes g) pk) =
      (if channels_of pk cs = [] then None else Some (map short_channel_id (channels_of pk cs)))"
    using sim_graph_loop_nodes [OF loop, of pk] g by (auto simp: Let_def)
qed

lemma find_distinct:
  "distinct (map f cs) \<Longrightarrow> c \<in> set cs \<Longrightarrow> find (\<lambda>d. f d = f c) cs = Some c"
proof (induction cs)
  case (Cons d cs)
  then show ?case by (cases "f d = f c") auto
qed simp

lemma lookup_capacities:
  assumes "sim_graph_new f cs ics recs = Inr g" and "channels_of pk cs \<noteq> []"
  shows "\<exists>ni. lookup_node g pk =
    Inr (ni, map capacity_msat (filter (\<lambda>c. \<not> exclude_capacity c) (channels_of pk cs)))"
proof -
  note parts = sim_graph_new_parts [OF assms(1)]
  from parts(5) [of pk] assms(2) obtain ni where
    node: "hm_get (sg_nodes g) pk = Some (ni, map short_channel_id (channels_of pk cs))"
    by auto
  have "hm_get (sg_channels g) (short_channel_id c) = Some c" if "c \<in> set cs" for c
    using parts(2,4) that by (simp add: find_distinct)
  then have "List.map_filter (hm_get (sg_channels g)) (map short_channel_id ds) = ds" if "set ds \<subseteq> set cs" for ds
    using that by (induction ds) (auto simp: List.map_filter_simps)
  then have "List.map_filter (hm_get (sg_channels g)) (map short_channel_id (channels_of pk cs)) = channels_of pk cs"
    by (simp add: channels_of_def)
  then show ?thesis by (simp add: lookup_node_def node)
qed

text \<open>
  A graph of freshly opened channels of even capacity satisfies what the payment theorems need.
\<close>

definition fresh_channel :: "simulated_channel \<Rightarrow> bool" where
  "fresh_channel c \<longleftrightarrow> even (unat (capacity_msat c)) \<and>
     c = simulated_channel_new (capacity_msat c) (short_channel_id c) (policy (node_1 c)) (policy (node_2 c))
           (exclude_capacity c)"

lemma fresh_graph:
  assumes "sim_graph_new f cs ics recs = Inr g" and "\<forall>c \<in> set cs. fresh_channel c"
  shows "net_inv (sg_channels g)" and "acct_pending (sg_channels g) a k = None"
proof -
  note parts = sim_graph_new_parts [OF assms(1)]
  have chan: "c \<in> set cs" if "hm_get (sg_channels g) scid = Some c" for scid c
    using that unfolding parts(4) by (auto simp: find_Some_iff)
  have good: "channel_good c" if "c \<in> set cs" for c
  proof -
    have "even (unat (capacity_msat c))" "c = simulated_channel_new (capacity_msat c) (short_channel_id c)
        (policy (node_1 c)) (policy (node_2 c)) (exclude_capacity c)"
      using assms(2) that by (simp_all add: fresh_channel_def)
    then have "channel_inv c" using channel_inv_new by metis
    then show ?thesis using parts(3) that validate_distinct_pks by (simp add: channel_good_def)
  qed
  show "net_inv (sg_channels g)"
    using parts(1) good chan by (auto simp: net_inv_def)
  have "in_flight (side_state s c) = hm_new" if "c \<in> set cs" for s c
  proof -
    have "c = simulated_channel_new (capacity_msat c) (short_channel_id c)
        (policy (node_1 c)) (policy (node_2 c)) (exclude_capacity c)"
      using assms(2) that by (simp add: fresh_channel_def)
    then show ?thesis by (metis new_in_flight)
  qed
  then show "acct_pending (sg_channels g) a k = None"
    using chan by (auto simp: acct_pending_def abs_ledger_def split: option.split)
qed

subsection \<open>Gossip\<close>

fun gossip_from :: "(nat \<Rightarrow> system_time) \<Rightarrow> nat \<Rightarrow> simulated_channel list \<Rightarrow> gossip list" where
  "gossip_from clock i [] = []"
| "gossip_from clock i (c # cs) = channel_gossip (clock i) c @ gossip_from clock (Suc i) cs"

lemma apply_all_append:
  "apply_all f (ms @ ns) g = res_bind (apply_all f ms g) (apply_all f ns)"
proof (induction ms arbitrary: g)
  case (Cons m ms)
  then show ?case by (cases "f m g") simp_all
qed simp

lemma populate_loop_gossip:
  "populate_loop f clock i cs g = apply_all f (gossip_from clock i cs) g"
proof (induction cs arbitrary: i g)
  case (Cons c cs)
  then have "populate_loop f clock (Suc i) cs = apply_all f (gossip_from clock (Suc i) cs)" by blast
  then show ?case by (simp add: apply_all_append)
qed simp

lemma gossip_from_updates:
  "c \<in> set cs \<Longrightarrow> \<exists>t. set (channel_gossip t c) \<subseteq> set (gossip_from clock i cs)"
  by (induction clock i cs rule: gossip_from.induct) auto

lemma unat_ucast_eq_iff:
  "unat (ucast w :: 'b::len word) = unat w \<longleftrightarrow> unat w < 2 ^ LENGTH('b)" for w :: "'a::len word"
proof
  assume "unat (ucast w :: 'b word) = unat w"
  moreover have "unat (ucast w :: 'b word) < 2 ^ LENGTH('b)" by simp
  ultimately show "unat w < 2 ^ LENGTH('b)" by simp
qed (simp add: unsigned_ucast_eq take_bit_nat_eq_self)

subsection \<open>The properties\<close>

text \<open>A graph is built exactly from valid channels with distinct short channel ids; the error
  otherwise is the first invalid channel's, or the first duplicate's.\<close>

theorem sim_graph_new_accepts_iff:
  "is_ok (sim_graph_new f cs ics recs) \<longleftrightarrow>
     (\<forall>c \<in> set cs. simulated_channel_validate c = Inr ()) \<and> distinct (map short_channel_id cs)"
proof
  assume "is_ok (sim_graph_new f cs ics recs)"
  then obtain g where "sim_graph_new f cs ics recs = Inr g" by (auto simp: is_ok_iff)
  from sim_graph_new_parts [OF this]
  show "(\<forall>c \<in> set cs. simulated_channel_validate c = Inr ()) \<and> distinct (map short_channel_id cs)" by blast
next
  assume "(\<forall>c \<in> set cs. simulated_channel_validate c = Inr ()) \<and> distinct (map short_channel_id cs)"
  then obtain r where "sim_graph_loop f cs hm_new hm_new = Inr r"
    using sim_graph_loop_ok [of cs hm_new f hm_new] by auto
  then show "is_ok (sim_graph_new f cs ics recs)"
    by (cases r) (simp add: sim_graph_new_def)
qed

definition demo_channels :: "simulated_channel list" where
  "demo_channels = [simulated_channel_new 1000 (ShortChannelID 7) (demo_policy 1) (demo_policy 2) False,
     simulated_channel_new 1000 (ShortChannelID 8) (demo_policy 2) (demo_policy 3) True]"

definition demo_graph :: sim_graph where
  "demo_graph = (case sim_graph_new (\<lambda>x. x) demo_channels [] [] of Inr g \<Rightarrow> g)"

lemma demo_graph_ok: "sim_graph_new (\<lambda>x. x) demo_channels [] [] = Inr demo_graph"
  by (simp add: demo_graph_def demo_channels_def sim_graph_new_def simulated_channel_validate_def
      channel_policy_validate_def demo_policy_def channel_eval add_graph_node_def)

lemma demo_channels_fresh: "\<forall>c \<in> set demo_channels. fresh_channel c"
  by (simp add: demo_channels_def fresh_channel_def simulated_channel_new_def channel_state_new_def)

theorem sim_graph_new_accepts_iff_witness:
  "distinct (map short_channel_id demo_channels) \<and>
   \<not> is_ok (sim_graph_new (\<lambda>x. x) (demo_channels @ demo_channels) [] [])"
  using sim_graph_new_accepts_iff [of "\<lambda>x. x" demo_channels "[]" "[]"]
    sim_graph_new_accepts_iff [of "\<lambda>x. x" "demo_channels @ demo_channels" "[]" "[]"]
  by (simp add: demo_graph_ok) (simp add: demo_channels_def)

text \<open>\<open>lookup_node\<close> answers with the capacities of the node's channels, in the order the
  channels were given, without those marked \<open>exclude_capacity\<close>; a node without channels is
  unknown.\<close>

theorem lookup_node_capacities:
  assumes "sim_graph_new f cs ics recs = Inr g"
  shows "if channels_of pk cs = []
    then lookup_node g pk = Inl (GetNodeInfoError (Fmt ''Node {} not found'' [ArgPk pk]))
    else \<exists>ni. lookup_node g pk =
           Inr (ni, map capacity_msat (filter (\<lambda>c. \<not> exclude_capacity c) (channels_of pk cs)))"
proof (cases "channels_of pk cs = []")
  case True
  then have "hm_get (sg_nodes g) pk = None"
    using sim_graph_new_parts(5) [OF assms, of pk] by simp
  with True show ?thesis by (simp add: lookup_node_def)
next
  case False
  with lookup_capacities [OF assms] show ?thesis by simp
qed

theorem lookup_node_capacities_witness:
  "\<exists>ni. lookup_node demo_graph (PublicKey 2) = Inr (ni, [1000])"
  using lookup_node_capacities [OF demo_graph_ok, of "PublicKey 2"]
  by (simp add: channels_of_def demo_channels_def demo_policy_def channel_eval)

text \<open>The routing graph is given one announcement and two updates per channel, in the order of
  the channels, and the first error of the routing graph ends the population. Each update carries
  the policy's size limits; its CLTV delta, base fee and proportional fee are the policy's exactly
  when they fit in 16 and 32 bits, and are silently truncated otherwise, so pathfinding and the
  simulated channel then disagree on the fee.\<close>

theorem populate_network_graph_gossip:
  "populate_network_graph f clock g0 cs = apply_all f (gossip_from clock 0 cs) g0 \<and>
   (\<forall>c \<in> set cs. \<forall>s. \<exists>scid t flags cltv base fee.
      ChannelUpdate scid t flags cltv (min_htlc_size_msat (policy (side_state s c)))
        (max_htlc_size_msat (policy (side_state s c))) base fee \<in> set (gossip_from clock 0 cs) \<and>
      scid = scid_to_u64 (short_channel_id c) \<and>
      (unat cltv = unat (cltv_expiry_delta (policy (side_state s c)))
         \<longleftrightarrow> unat (cltv_expiry_delta (policy (side_state s c))) < 2 ^ 16) \<and>
      (unat base = unat (base_fee (policy (side_state s c)))
         \<longleftrightarrow> unat (base_fee (policy (side_state s c))) < 2 ^ 32) \<and>
      (unat fee = unat (fee_rate_prop (policy (side_state s c)))
         \<longleftrightarrow> unat (fee_rate_prop (policy (side_state s c))) < 2 ^ 32))"
proof (intro conjI ballI allI)
  show "populate_network_graph f clock g0 cs = apply_all f (gossip_from clock 0 cs) g0"
    by (simp add: populate_network_graph_def populate_loop_gossip)
next
  fix c s
  assume "c \<in> set cs"
  then obtain t where t: "set (channel_gossip t c) \<subseteq> set (gossip_from clock 0 cs)"
    using gossip_from_updates by blast
  let ?p = "policy (side_state s c)"
  have "channel_update t (short_channel_id c) (case s of Side1 \<Rightarrow> 0 | Side2 \<Rightarrow> 1) ?p \<in> set (channel_gossip t c)"
    by (cases s) (simp_all add: channel_gossip_def)
  with t have "channel_update t (short_channel_id c) (case s of Side1 \<Rightarrow> 0 | Side2 \<Rightarrow> 1) ?p
      \<in> set (gossip_from clock 0 cs)" by blast
  moreover have "LENGTH(16) = 16" "LENGTH(32) = 32" by simp_all
  ultimately show "\<exists>scid t flags cltv base fee.
      ChannelUpdate scid t flags cltv (min_htlc_size_msat ?p) (max_htlc_size_msat ?p) base fee
        \<in> set (gossip_from clock 0 cs) \<and>
      scid = scid_to_u64 (short_channel_id c) \<and>
      (unat cltv = unat (cltv_expiry_delta ?p) \<longleftrightarrow> unat (cltv_expiry_delta ?p) < 2 ^ 16) \<and>
      (unat base = unat (base_fee ?p) \<longleftrightarrow> unat (base_fee ?p) < 2 ^ 32) \<and>
      (unat fee = unat (fee_rate_prop ?p) \<longleftrightarrow> unat (fee_rate_prop ?p) < 2 ^ 32)"
    unfolding channel_update_def
    by (intro exI conjI) (assumption, rule refl, simp_all only: unat_ucast_eq_iff)
qed

theorem populate_network_graph_gossip_witness:
  "\<exists>scid t flags cltv base fee.
     ChannelUpdate scid t flags cltv 2 500 base fee \<in> set (gossip_from (\<lambda>_. 0) 0 demo_channels) \<and>
     unat base = 1 \<and> unat fee = 5000"
proof -
  let ?c = "hd demo_channels"
  have pol: "policy (side_state Side1 ?c) = demo_policy 1" and mem: "?c \<in> set demo_channels"
    by (simp_all add: demo_channels_def simulated_channel_new_def channel_state_new_def)
  from populate_network_graph_gossip [of "\<lambda>_ _. Inl ()" "\<lambda>_. 0" "()" demo_channels, THEN conjunct2,
      rule_format, OF mem, of Side1]
  show ?thesis unfolding pol by (simp add: demo_policy_def) blast
qed

text \<open>From configuration to settlement. A graph of freshly opened channels of even capacity is
  an idle, consistent network, so payments dispatched on it settle in every interleaving: once all
  have reported without a critical error, nothing is pending and the funds of every channel add up
  to its capacity. The tasks are those \<open>dispatch_payment\<close> spawns; the interceptors are the graph's
  and accept their notifications.\<close>

theorem dispatched_payments_settle:
  assumes "sim_graph_new f cs ics recs = Inr g" and "\<forall>c \<in> set cs. fresh_channel c" and "notify_ok ics"
    and "\<forall>req \<in> set reqs. \<exists>source route records hash. dispatch_payment g source route records hash = SenderSpawned req"
    and "(net_step reqs)\<^sup>*\<^sup>* (map start_task reqs, sg_channels g) (ts, nodes)" and "all_reported ts"
  shows "net_inv nodes \<and> (\<forall>a k. acct_pending nodes a k = None)"
proof -
  have "sg_interceptors g = ics"
    using assms(1) by (auto simp: sim_graph_new_def res_bind_Inr_iff)
  then have "\<forall>req \<in> set reqs. notify_ok (pr_interceptors req)"
    using assms(3,4) by (fastforce simp: dispatch_payment_def split: if_splits list.splits)
  with fresh_graph [OF assms(1,2)] have "tasks_init reqs (sg_channels g) (map start_task reqs, sg_channels g)"
    by (simp add: tasks_init_def)
  from tasks.invar_reachable [OF this assms(5)] show ?thesis
    using settled_network(1,2) [OF _ assms(6)] by blast
qed

theorem dispatched_payments_settle_witness:
  "\<exists>ts nodes. (net_step [demo_payment 2])\<^sup>*\<^sup>* (map start_task [demo_payment 2], sg_channels demo_graph) (ts, nodes) \<and>
     all_reported ts \<and> net_inv nodes \<and> (\<forall>a k. acct_pending nodes a k = None)"
proof -
  let ?rep = "propagate_payment (sg_channels demo_graph) demo_joins (demo_payment 2)"
  have spawned: "dispatch_payment demo_graph (PublicKey 1) [demo_route 2] (Some []) demo_hash
      = SenderSpawned (demo_payment 2)"
    by (simp add: dispatch_payment_def demo_payment_def demo_graph_def sim_graph_new_def demo_channels_def
        simulated_channel_validate_def channel_policy_validate_def demo_policy_def channel_eval add_graph_node_def)
  have sd: "rep_shutdown ?rep = False"
    by (simp add: payment_eval demo_net_defs demo_policy_def demo_hash_def Let_def demo_graph_def
        sim_graph_new_def demo_channels_def simulated_channel_validate_def channel_policy_validate_def add_graph_node_def)
  have run: "(net_step [demo_payment 2])\<^sup>*\<^sup>* (map start_task [demo_payment 2], sg_channels demo_graph)
      ((map start_task [demo_payment 2])[0 := Reported (rep_shutdown ?rep) (rep_result ?rep)], rep_nodes ?rep)"
    by (rule run_to_report [where joins = demo_joins]) simp_all
  have rep: "all_reported ((map start_task [demo_payment 2])[0 := Reported (rep_shutdown ?rep) (rep_result ?rep)])"
    by (simp add: all_reported_def sd)
  have "notify_ok []" by (simp add: notify_ok_def)
  moreover have "\<forall>req \<in> set [demo_payment 2]. \<exists>source route records hash.
      dispatch_payment demo_graph source route records hash = SenderSpawned req"
    using spawned by auto
  ultimately show ?thesis
    using dispatched_payments_settle [OF demo_graph_ok demo_channels_fresh _ _ run rep] run rep by blast
qed

end
