(* ===== verification/Sim_Node.thy ===== *)
theory Sim_Node
  imports Sim_Graph
begin

section \<open>Simulated lightning nodes (simln-lib/src/sim_node.rs)\<close>

text \<open>
  \<open>SimNode\<close> implements the \<open>LightningNode\<close> trait on top of the simulated network. Its own state is
  the map of payments in flight: for each hash the receiver of the result channel and the path.
  A one-shot channel is known by a number: the receiver waits for what the sender of that number
  sends, or for the sender to be dropped.

  Pathfinding and scoring are the \<open>lightning\<close> crate's. The outcome of the blocking pathfinding task
  is an argument of \<open>send_payment\<close>; what \<open>track_payment\<close> tells the scorer is part of its result.
\<close>

record in_flight_payment =
  track_payment_receiver :: nat
  ifp_path :: "path option"

record sim_node =
  sn_info :: node_info
  sn_in_flight :: "(payment_hash, in_flight_payment) hmap"

definition sim_node_new :: "node_info \<Rightarrow> lightning_error + sim_node" where
  "sim_node_new info = Inr \<lparr>sn_info = info, sn_in_flight = hm_new\<rparr>"

fun ln_nodes_loop ::
  "graph_nodes \<Rightarrow> (pubkey, sim_node) hmap \<Rightarrow> lightning_error + (pubkey, sim_node) hmap" where
  "ln_nodes_loop [] nodes = Inr nodes"
| "ln_nodes_loop ((pk, (ni, scids)) # rest) nodes =
     res_bind (sim_node_new ni) (\<lambda>node. ln_nodes_loop rest (hm_insert pk node nodes))"

definition ln_node_from_graph :: "sim_graph \<Rightarrow> lightning_error + (pubkey, sim_node) hmap" where
  "ln_node_from_graph g = ln_nodes_loop (sg_nodes g) hm_new"

subsection \<open>Sending\<close>

definition one_path_error :: lightning_error where
  "one_path_error = SendPaymentError
     (Fmt ''Route must contain exactly one path for this operation.'' [])"

definition hash_exists_error :: lightning_error where
  "hash_exists_error = SendPaymentError (Fmt ''payment hash exists'' [])"

text \<open>\<open>rx\<close> names the one-shot channel made for the call; the last component is its sender's fate.\<close>

definition send_to_route ::
  "sim_graph \<Rightarrow> sim_node \<Rightarrow> nat \<Rightarrow> route \<Rightarrow> payment_hash \<Rightarrow> custom_records option \<Rightarrow>
   (lightning_error + unit) \<times> sim_node \<times> sender_fate" where
  "send_to_route g node rx route payment_hash custom_records =
     (if length route \<noteq> 1 then (Inl one_path_error, node, SenderDropped)
      else if hm_contains (sn_in_flight node) payment_hash
      then (Inl hash_exists_error, node, SenderDropped)
      else
        (let node' = node\<lparr>sn_in_flight := hm_insert payment_hash
                            \<lparr>track_payment_receiver = rx, ifp_path = Some (route ! 0)\<rparr>
                            (sn_in_flight node)\<rparr>
         in (Inr (), node',
             dispatch_payment g (pubkey (sn_info node)) route custom_records payment_hash)))"

text \<open>
  \<open>payment_hash\<close> is the hash of the random preimage; \<open>route_task\<close> is what the blocking task made of
  \<open>find_payment_route\<close>: its own failure (a poisoned lock, a panic) or the result of pathfinding.
\<close>

definition send_payment ::
  "sim_graph \<Rightarrow> sim_node \<Rightarrow> nat \<Rightarrow> payment_hash \<Rightarrow> (message + (simulation_error + route)) \<Rightarrow>
   (lightning_error + payment_hash) \<times> sim_node \<times> sender_fate" where
  "send_payment g node rx payment_hash route_task =
     (case route_task of
        Inl msg \<Rightarrow> (Inl (SendPaymentError msg), node, SenderDropped)
      | Inr found \<Rightarrow>
          if hm_contains (sn_in_flight node) payment_hash
          then (Inl hash_exists_error, node, SenderDropped)
          else
            (case found of
               Inl e \<Rightarrow>
                 (Inr payment_hash,
                  node\<lparr>sn_in_flight := hm_insert payment_hash
                         \<lparr>track_payment_receiver = rx, ifp_path = None\<rparr> (sn_in_flight node)\<rparr>,
                  SenderSent \<lparr>htlc_count = 0, payment_outcome = RouteNotFound\<rparr>)
             | Inr route \<Rightarrow>
                 if length route \<noteq> 1 then (Inl one_path_error, node, SenderDropped)
                 else
                   (Inr payment_hash,
                    node\<lparr>sn_in_flight := hm_insert payment_hash
                           \<lparr>track_payment_receiver = rx, ifp_path = Some (route ! 0)\<rparr>
                           (sn_in_flight node)\<rparr>,
                    dispatch_payment g (pubkey (sn_info node)) route None payment_hash)))"

subsection \<open>Tracking\<close>

text \<open>
  What the \<open>select!\<close> of \<open>track_payment\<close> sees first: the shutdown (it is polled first), or what comes
  out of the receiver of the named channel.
\<close>

datatype track_event =
    ListenerTriggered
  | ReceiverClosed string
  | ReceiverGot "lightning_error + payment_result"

datatype scorer_update =
    PathSuccessful path duration
  | PathFailed path nat duration

definition shutdown_tracking_error :: lightning_error where
  "shutdown_tracking_error = TrackPaymentError (Fmt ''shutdown during payment tracking'' [])"

definition no_path_error :: lightning_error where
  "no_path_error = TrackPaymentError
     (Fmt ''payment outcome was not RouteNotFound, but no path was provided'' [])"

definition not_found_error :: "payment_hash \<Rightarrow> lightning_error" where
  "not_found_error hash = TrackPaymentError
     (Fmt ''payment hash {} not found'' [ArgHex (case hash of PaymentHash bs \<Rightarrow> bs)])"

text \<open>\<open>clock\<close> is the time since the epoch, or an error; \<open>poisoned\<close> says the scorer's lock is.\<close>

definition score_result ::
  "lightning_error + duration \<Rightarrow> string option \<Rightarrow> path option \<Rightarrow> payment_result \<Rightarrow>
   lightning_error + scorer_update list" where
  "score_result clock poisoned path result =
     res_bind clock
       (\<lambda>duration.
          case path of
            Some p \<Rightarrow>
              (case poisoned of
                 Some msg \<Rightarrow> Inl (TrackPaymentError (Fmt ''scorer lock poisoned: {e}'' [ArgStr msg]))
               | None \<Rightarrow>
                   Inr (case payment_outcome result of
                          Success \<Rightarrow> [PathSuccessful p duration]
                        | IndexFailure index \<Rightarrow> [PathFailed p index duration]
                        | _ \<Rightarrow> []))
          | None \<Rightarrow>
              if payment_outcome result \<noteq> RouteNotFound then Inl no_path_error else Inr [])"

text \<open>What is left to do for a payment that was taken from the map, when its event comes.\<close>

definition await_result ::
  "in_flight_payment \<Rightarrow> lightning_error + duration \<Rightarrow> string option \<Rightarrow> track_event \<Rightarrow>
   (lightning_error + payment_result) \<times> scorer_update list" where
  "await_result p clock poisoned event =
     (case event of
        ListenerTriggered \<Rightarrow> (Inl shutdown_tracking_error, [])
      | ReceiverClosed msg \<Rightarrow>
          (Inl (TrackPaymentError (Fmt ''channel receive err: {}'' [ArgStr msg])), [])
      | ReceiverGot track_result \<Rightarrow>
          (case track_result of
             Inl e \<Rightarrow> (track_result, [])
           | Inr result \<Rightarrow>
               (case score_result clock poisoned (ifp_path p) result of
                  Inl e \<Rightarrow> (Inl e, [])
                | Inr updates \<Rightarrow> (track_result, updates))))"

definition track_payment ::
  "sim_node \<Rightarrow> payment_hash \<Rightarrow> lightning_error + duration \<Rightarrow> string option \<Rightarrow> (nat \<Rightarrow> track_event) \<Rightarrow>
   (lightning_error + payment_result) \<times> sim_node \<times> scorer_update list" where
  "track_payment node hash clock poisoned event =
     (case hm_get (sn_in_flight node) hash of
        None \<Rightarrow> (Inl (not_found_error hash), node, [])
      | Some p \<Rightarrow>
          (case await_result p clock poisoned (event (track_payment_receiver p)) of
             (result, updates) \<Rightarrow>
               (result, node\<lparr>sn_in_flight := hm_remove hash (sn_in_flight node)\<rparr>, updates)))"

subsection \<open>The rest of the trait\<close>

definition sim_get_network :: network where
  "sim_get_network = Regtest"

definition sim_get_node_info :: "sim_graph \<Rightarrow> pubkey \<Rightarrow> lightning_error + node_info" where
  "sim_get_node_info g pk = res_bind (lookup_node g pk) (\<lambda>r. Inr (fst r))"

definition sim_channel_capacities :: "sim_graph \<Rightarrow> sim_node \<Rightarrow> lightning_error + u64" where
  "sim_channel_capacities g node =
     res_bind (lookup_node g (pubkey (sn_info node))) (\<lambda>r. Inr (sum_list (snd r)))"

fun nodes_by_pk :: "node_info list \<Rightarrow> (pubkey, node_info) hmap \<Rightarrow> (pubkey, node_info) hmap" where
  "nodes_by_pk [] m = m"
| "nodes_by_pk (n # ns) m = nodes_by_pk ns (hm_insert (pubkey n) n m)"

definition sim_get_graph :: "sim_graph \<Rightarrow> lightning_error + (pubkey, node_info) hmap" where
  "sim_get_graph g = Inr (nodes_by_pk (list_nodes g) hm_new)"

subsection \<open>Properties\<close>

lemma nodes_by_pk_get:
  "distinct (map pubkey ns) \<Longrightarrow>
   hm_get (nodes_by_pk ns m) pk = (case find (\<lambda>n. pubkey n = pk) ns of None \<Rightarrow> hm_get m pk | Some n \<Rightarrow> Some n)"
proof (induction ns m rule: nodes_by_pk.induct)
  case (2 n ns m)
  then have "pubkey n \<notin> pubkey ` set ns" by simp
  then have "find (\<lambda>x. pubkey x = pubkey n) ns = None"
    unfolding find_None_iff by (metis imageI)
  with 2 show ?case by (auto simp: hm_get_insert split: option.splits)
qed simp

lemma find_map_of:
  "(\<forall>e \<in> set m. pubkey (fst (snd e)) = fst e) \<Longrightarrow>
   find (\<lambda>n. pubkey n = pk) (map (\<lambda>e. fst (snd e)) m) = map_option fst (map_of m pk)"
  by (induction m) auto

definition nodes_keyed :: "graph_nodes \<Rightarrow> bool" where
  "nodes_keyed m \<longleftrightarrow> hm_wf m \<and> (\<forall>e \<in> set m. pubkey (fst (snd e)) = fst e)"

lemma nodes_keyed_insert:
  assumes "nodes_keyed m" and "pubkey (fst e) = k"
  shows "nodes_keyed (hm_insert k e m)"
proof -
  have "pubkey (fst (snd x)) = fst x" if "x \<in> set (hm_insert k e m)" for x
    using assms that set_hm_insert [of k e m] by (auto simp: nodes_keyed_def)
  with assms(1) show ?thesis by (simp add: nodes_keyed_def hm_wf_insert)
qed

lemma nodes_keyed_add:
  assumes "nodes_keyed m"
  shows "nodes_keyed (add_graph_node f scid p m)"
proof -
  have "pubkey (fst e) = pol_pubkey p" if "hm_get m (pol_pubkey p) = Some e" for e
    using assms that by (auto simp: nodes_keyed_def hm_get_def dest!: map_of_SomeD)
  with assms show ?thesis
    by (auto simp: add_graph_node_def make_node_info_def intro!: nodes_keyed_insert split: option.split)
qed

lemma sim_graph_nodes_keyed:
  assumes "sim_graph_new f cs ics recs = Inr g"
  shows "nodes_keyed (sg_nodes g)"
proof -
  have "sim_graph_loop f cs nodes chans = Inr r \<Longrightarrow> nodes_keyed nodes \<Longrightarrow> nodes_keyed (fst r)" for nodes chans r
  proof (induction cs arbitrary: nodes chans)
    case (Cons c cs)
    then show ?case by (auto simp: res_bind_Inr_iff nodes_keyed_add split: if_splits)
  qed auto
  moreover have "nodes_keyed hm_new" by (simp add: nodes_keyed_def hm_new_def hm_wf_def)
  ultimately show ?thesis using assms by (fastforce simp: sim_graph_new_def res_bind_Inr_iff)
qed

lemma get_graph_lookup:
  assumes "sim_graph_new f cs ics recs = Inr g" and "sim_get_graph g = Inr m"
  shows "hm_get m pk = map_option fst (hm_get (sg_nodes g) pk)"
proof -
  note keyed = sim_graph_nodes_keyed [OF assms(1), unfolded nodes_keyed_def]
  then have "map pubkey (list_nodes g) = map fst (sg_nodes g)"
    by (auto simp: list_nodes_def)
  then have "distinct (map pubkey (list_nodes g))"
    using keyed by (simp add: hm_wf_def)
  from nodes_by_pk_get [OF this, of hm_new pk] assms(2) show ?thesis
    using find_map_of [OF conjunct2 [OF keyed], of pk]
    by (simp add: sim_get_graph_def list_nodes_def hm_get_def hm_new_def split: option.splits)
qed

text \<open>The graph a node reports holds exactly the nodes that have a channel, each under its own
  public key.\<close>

theorem get_graph_nodes:
  assumes "sim_graph_new f cs ics recs = Inr g" and "sim_get_graph g = Inr m"
  shows "(hm_get m pk = None \<longleftrightarrow> channels_of pk cs = []) \<and>
    (case hm_get m pk of None \<Rightarrow> True | Some ni \<Rightarrow> pubkey ni = pk)"
proof -
  have "hm_get m pk = None \<longleftrightarrow> channels_of pk cs = []"
    using sim_graph_new_parts(5) [OF assms(1), of pk] get_graph_lookup [OF assms, of pk]
    by (auto split: if_splits)
  moreover have "pubkey (fst e) = pk" if "hm_get (sg_nodes g) pk = Some e" for e
    using sim_graph_nodes_keyed [OF assms(1)] that by (auto simp: nodes_keyed_def hm_get_def dest!: map_of_SomeD)
  ultimately show ?thesis
    using get_graph_lookup [OF assms, of pk] by (auto split: option.split)
qed

theorem get_graph_nodes_witness:
  "\<exists>m. sim_get_graph demo_graph = Inr m \<and> hm_get m (PublicKey 4) = None \<and> hm_get m (PublicKey 3) \<noteq> None"
proof -
  obtain m where m: "sim_get_graph demo_graph = Inr m" by (simp add: sim_get_graph_def)
  have "channels_of (PublicKey 4) demo_channels = []" "channels_of (PublicKey 3) demo_channels \<noteq> []"
    by (simp_all add: channels_of_def demo_channels_def demo_policy_def channel_eval)
  with m get_graph_nodes [OF demo_graph_ok m, of "PublicKey 3"] get_graph_nodes [OF demo_graph_ok m, of "PublicKey 4"]
  show ?thesis by blast
qed

text \<open>A payment is tracked once and its own result comes back. After \<open>send_to_route\<close> accepted a
  payment, \<open>track_payment\<close> on its hash waits on the channel made for it: what the network reported
  there is returned (with the success or the failing hop passed to the scorer), the entry is gone,
  and the other payments in flight are untouched. A second \<open>track_payment\<close> on the hash fails.\<close>

theorem send_then_track:
  assumes "send_to_route g node rx route hash records = (Inr (), node1, fate)"
    and "event rx = ReceiverGot (Inr result)"
  shows "\<exists>node2. track_payment node1 hash (Inr now) None event =
      (Inr result, node2,
       case payment_outcome result of
         Success \<Rightarrow> [PathSuccessful (route ! 0) now]
       | IndexFailure i \<Rightarrow> [PathFailed (route ! 0) i now]
       | _ \<Rightarrow> []) \<and>
    sn_in_flight node2 = sn_in_flight node \<and>
    track_payment node2 hash clock' poisoned' event' = (Inl (not_found_error hash), node2, [])"
proof -
  from assms(1) have fresh: "hm_get (sn_in_flight node) hash = None"
    and node1: "node1 = node\<lparr>sn_in_flight := hm_insert hash
      \<lparr>track_payment_receiver = rx, ifp_path = Some (route ! 0)\<rparr> (sn_in_flight node)\<rparr>"
    by (auto simp: send_to_route_def hm_contains_def Let_def split: if_splits)
  then show ?thesis
    using assms(2)
    by (auto simp: track_payment_def await_result_def score_result_def hm_get_insert hm_remove_insert_fresh Let_def)
qed

definition demo_node :: sim_node where
  "demo_node = \<lparr>sn_info = \<lparr>pubkey = PublicKey 1, node_alias = [], features = NodeFeatures []\<rparr>, sn_in_flight = []\<rparr>"

theorem send_then_track_witness:
  "\<exists>node1 fate node2. send_to_route demo_graph demo_node 5 [demo_route 2] demo_hash None = (Inr (), node1, fate) \<and>
     track_payment node1 demo_hash (Inr 3) None
       (\<lambda>_. ReceiverGot (Inr \<lparr>htlc_count = 1, payment_outcome = Success\<rparr>))
     = (Inr \<lparr>htlc_count = 1, payment_outcome = Success\<rparr>, node2, [PathSuccessful (demo_route 2) 3])"
proof -
  have ok: "fst (send_to_route demo_graph demo_node 5 [demo_route 2] demo_hash None) = Inr ()"
    by (simp add: send_to_route_def demo_node_def hm_contains_def hm_get_def Let_def)
  then obtain node1 fate where sent:
    "send_to_route demo_graph demo_node 5 [demo_route 2] demo_hash None = (Inr (), node1, fate)"
    by (metis prod.collapse)
  from send_then_track [OF sent, of "\<lambda>_. ReceiverGot (Inr \<lparr>htlc_count = 1, payment_outcome = Success\<rparr>)"
      "\<lparr>htlc_count = 1, payment_outcome = Success\<rparr>" 3] sent
  show ?thesis by fastforce
qed

text \<open>\<open>send_payment\<close> on every outcome of pathfinding. A hash that is already in flight is refused
  before anything is recorded, so is a route with more than one path; when no route is found the
  call still succeeds and the tracking channel already holds \<open>RouteNotFound\<close>; otherwise the payment
  over the one path goes out with the network's default records. An error never records a payment
  and never sends one.\<close>

theorem send_payment_outcomes:
  "case send_payment g node rx hash route_task of
     (Inl e, node', fate) \<Rightarrow> node' = node \<and> fate = SenderDropped \<and>
       ((\<exists>msg. route_task = Inl msg \<and> e = SendPaymentError msg) \<or>
        (hm_contains (sn_in_flight node) hash \<and> e = hash_exists_error) \<or>
        (\<exists>route. route_task = Inr (Inr route) \<and> length route \<noteq> 1 \<and> e = one_path_error))
   | (Inr h, node', fate) \<Rightarrow> h = hash \<and> hm_get (sn_in_flight node) hash = None \<and>
       (\<exists>p. hm_get (sn_in_flight node') hash = Some \<lparr>track_payment_receiver = rx, ifp_path = p\<rparr> \<and>
          (case p of
             None \<Rightarrow> (\<exists>e. route_task = Inr (Inl e)) \<and>
               fate = SenderSent \<lparr>htlc_count = 0, payment_outcome = RouteNotFound\<rparr>
           | Some path \<Rightarrow> route_task = Inr (Inr [path]) \<and>
               fate = SenderSpawned \<lparr>pr_source = pubkey (sn_info node), pr_route = path,
                 pr_payment_hash = hash, pr_interceptors = sg_interceptors g,
                 pr_custom_records = sg_default_custom_records g\<rparr>))"
proof (cases route_task)
  case (Inl msg)
  then show ?thesis by (simp add: send_payment_def)
next
  case (Inr found)
  show ?thesis
  proof (cases found)
    case (Inl e)
    with Inr show ?thesis
      by (auto simp: send_payment_def hm_contains_def hm_get_insert)
  next
    case (Inr route)
    show ?thesis
    proof (cases "length route = 1")
      case True
      then obtain path where "route = [path]" by (auto simp: length_Suc_conv)
      with \<open>route_task = Inr found\<close> Inr show ?thesis
        by (auto simp: send_payment_def hm_contains_def hm_get_insert dispatch_payment_def)
    next
      case False
      with \<open>route_task = Inr found\<close> Inr show ?thesis
        by (auto simp: send_payment_def hm_contains_def)
    qed
  qed
qed

text \<open>The capacity a node reports is the sum of the capacities of its channels that are not
  excluded, as long as that sum fits in 64 bits.\<close>

theorem channel_capacities_total:
  assumes "sim_graph_new f cs ics recs = Inr g" and "channels_of (pubkey (sn_info node)) cs \<noteq> []"
    and "sum_list (map (\<lambda>c. unat (capacity_msat c))
           (filter (\<lambda>c. \<not> exclude_capacity c) (channels_of (pubkey (sn_info node)) cs))) < 2 ^ 64"
  shows "\<exists>total. sim_channel_capacities g node = Inr total \<and>
    unat total = sum_list (map (\<lambda>c. unat (capacity_msat c))
      (filter (\<lambda>c. \<not> exclude_capacity c) (channels_of (pubkey (sn_info node)) cs)))"
proof -
  from lookup_capacities [OF assms(1,2)] obtain ni where "lookup_node g (pubkey (sn_info node)) =
    Inr (ni, map capacity_msat (filter (\<lambda>c. \<not> exclude_capacity c) (channels_of (pubkey (sn_info node)) cs)))" ..
  then show ?thesis
    using assms(3) by (simp add: sim_channel_capacities_def sum_list_map_unat)
qed

theorem channel_capacities_total_witness:
  "\<exists>total. sim_channel_capacities demo_graph demo_node = Inr total \<and> unat total = 1000"
proof -
  have "channels_of (pubkey (sn_info demo_node)) demo_channels = [hd demo_channels]"
    by (simp add: channels_of_def demo_channels_def demo_policy_def channel_eval demo_node_def)
  moreover have "capacity_msat (hd demo_channels) = 1000" "\<not> exclude_capacity (hd demo_channels)"
    by (simp_all add: demo_channels_def simulated_channel_new_def)
  ultimately show ?thesis
    using channel_capacities_total [OF demo_graph_ok, of demo_node] by simp
qed

end
