(* ===== verification/Generators.thy ===== *)
theory Generators
  imports Sim_Types "HOL-Library.Multiset"
begin

section \<open>Payment and destination generators (simln-lib)\<close>

text \<open>
  The traits \<open>PaymentGenerator\<close> and \<open>DestinationGenerator\<close> of lib.rs and their implementations:
  \<open>DefinedPaymentActivity\<close> (defined_activity.rs), \<open>RandomPaymentActivity\<close> and \<open>NetworkGraphView\<close>
  (random_activity.rs).

  A trait object is a record of its methods. A method that draws random numbers takes the state of
  the generators and returns it: \<open>('r, 'e, 'a) gen\<close>. \<open>None\<close> is a panic or a loop that never ends;
  otherwise the method's \<open>Result\<close> comes with the new state.

  Samplers of the \<open>rand\<close> crates and the rounding of \<open>f64\<close> arithmetic are parameters: \<open>rand_ops\<close>
  and \<open>float_ops\<close>.
\<close>

subsection \<open>Computations that draw random numbers\<close>

type_synonym ('r, 'e, 'a) gen = "'r \<Rightarrow> (('e + 'a) \<times> 'r) option"

definition gen_ok :: "'a \<Rightarrow> ('r, 'e, 'a) gen" where
  "gen_ok x = (\<lambda>r. Some (Inr x, r))"

definition gen_err :: "'e \<Rightarrow> ('r, 'e, 'a) gen" where
  "gen_err e = (\<lambda>r. Some (Inl e, r))"

definition gen_lift :: "'e + 'a \<Rightarrow> ('r, 'e, 'a) gen" where
  "gen_lift x = (\<lambda>r. Some (x, r))"

definition gen_bind :: "('r, 'e, 'a) gen \<Rightarrow> ('a \<Rightarrow> ('r, 'e, 'b) gen) \<Rightarrow> ('r, 'e, 'b) gen" where
  "gen_bind m f = (\<lambda>r.
     case m r of
       None \<Rightarrow> None
     | Some (Inl e, r') \<Rightarrow> Some (Inl e, r')
     | Some (Inr x, r') \<Rightarrow> f x r')"

definition gen_map_err :: "('e \<Rightarrow> 'f) \<Rightarrow> ('r, 'e, 'a) gen \<Rightarrow> ('r, 'f, 'a) gen" where
  "gen_map_err h m = (\<lambda>r.
     case m r of
       None \<Rightarrow> None
     | Some (Inl e, r') \<Rightarrow> Some (Inl (h e), r')
     | Some (Inr x, r') \<Rightarrow> Some (Inr x, r'))"

lemma gen_simps [simp]:
  "gen_ok x r = Some (Inr x, r)" "gen_err e r = Some (Inl e, r)" "gen_lift y r = Some (y, r)"
  by (simp_all add: gen_ok_def gen_err_def gen_lift_def)

lemma gen_bind_Inr:
  "gen_bind m f r = Some (Inr y, r'') \<longleftrightarrow> (\<exists>x r'. m r = Some (Inr x, r') \<and> f x r' = Some (Inr y, r''))"
  by (auto simp: gen_bind_def split: option.splits sum.splits prod.splits)

lemma gen_map_err_Inr: "gen_map_err h m r = Some (Inr x, r') \<longleftrightarrow> m r = Some (Inr x, r')"
  by (auto simp: gen_map_err_def split: option.splits sum.splits prod.splits)

subsection \<open>The traits\<close>

record 'r payment_generator =
  payment_start :: "duration option"
  payment_count :: "u64 option"
  next_payment_wait :: "('r, message, duration) gen"
  payment_amount :: "u64 option \<Rightarrow> ('r, message, u64) gen"

record 'r destination_generator =
  choose_destination :: "pubkey \<Rightarrow> ('r, message, node_info \<times> u64 option) gen"

text \<open>
  The contract between the two: whatever destination the one chooses, the other can produce an
  amount for it. The code pairs the generators so that it holds (\<open>payment_amount\<close> of the defined
  activity refuses a capacity, that of the random activity needs one).
\<close>

locale generator_pair =
  fixes pgen :: "'r payment_generator"
    and dgen :: "'r destination_generator"
    and sources :: "pubkey set"
    and amount_ok :: "u64 \<Rightarrow> bool"
  assumes wait_no_error: "src \<in> sources \<Longrightarrow> next_payment_wait pgen r = Some (w, r') \<Longrightarrow> is_ok w"
    and choose_no_error: "src \<in> sources \<Longrightarrow> choose_destination dgen src r = Some (c, r') \<Longrightarrow> is_ok c"
    and amount_for_choice: "src \<in> sources \<Longrightarrow> choose_destination dgen src r = Some (Inr (d, cap), r') \<Longrightarrow>
      payment_amount pgen cap s = Some (a, s') \<Longrightarrow> \<exists>v. a = Inr v \<and> amount_ok v"
begin

text \<open>A payment for a source of the set never meets an error of its generators.\<close>

lemma choice_then_amount:
  assumes "src \<in> sources" and "choose_destination dgen src r = Some (c, r')"
  shows "\<exists>d cap. c = Inr (d, cap) \<and>
    (\<forall>s a s'. payment_amount pgen cap s = Some (a, s') \<longrightarrow> (\<exists>v. a = Inr v \<and> amount_ok v))"
proof -
  from choose_no_error [OF assms] obtain d cap where "c = Inr (d, cap)"
    by (cases c) auto
  with assms amount_for_choice show ?thesis by blast
qed

end

subsection \<open>Defined activities (defined_activity.rs)\<close>

record defined_payment_activity =
  da_destination :: node_info
  da_start :: "duration option"
  da_count :: "u64 option"
  da_wait :: "u16 value_or_range"
  da_amount :: "u64 value_or_range"

definition defined_activity_new ::
  "node_info \<Rightarrow> duration option \<Rightarrow> u64 option \<Rightarrow> u16 value_or_range \<Rightarrow> u64 value_or_range \<Rightarrow>
   defined_payment_activity" where
  "defined_activity_new destination start count_opt wait amount =
     \<lparr>da_destination = destination, da_start = start, da_count = count_opt, da_wait = wait, da_amount = amount\<rparr>"

text \<open>The samplers of the two integer types.\<close>

record 'r range_ops =
  gen_range_u16 :: "('r, u16) range_sampler"
  gen_range_u64 :: "('r, u64) range_sampler"

definition range_ops_ok :: "'r range_ops \<Rightarrow> bool" where
  "range_ops_ok ops \<longleftrightarrow> gen_range_ok (gen_range_u16 ops) \<and> gen_range_ok (gen_range_u64 ops)"

definition defined_choose_destination ::
  "defined_payment_activity \<Rightarrow> pubkey \<Rightarrow> ('r, message, node_info \<times> u64 option) gen" where
  "defined_choose_destination da source = gen_ok (da_destination da, None)"

definition defined_next_payment_wait ::
  "'r range_ops \<Rightarrow> defined_payment_activity \<Rightarrow> ('r, message, duration) gen" where
  "defined_next_payment_wait ops da = (\<lambda>r.
     map_option (\<lambda>(v, r'). (Inr (duration_from_secs (unat v)), r'))
       (value_or_range_value (gen_range_u16 ops) (da_wait da) r))"

definition defined_payment_amount ::
  "'r range_ops \<Rightarrow> defined_payment_activity \<Rightarrow> u64 option \<Rightarrow> ('r, message, u64) gen" where
  "defined_payment_amount ops da destination_capacity = (\<lambda>r.
     if destination_capacity \<noteq> None
     then Some (Inl (Fmt ''destination amount must not be set for defined activity generator'' []), r)
     else map_option (\<lambda>(v, r'). (Inr v, r'))
            (value_or_range_value (gen_range_u64 ops) (da_amount da) r))"

definition defined_payment_generator :: "'r range_ops \<Rightarrow> defined_payment_activity \<Rightarrow> 'r payment_generator" where
  "defined_payment_generator ops da =
     \<lparr>payment_start = da_start da, payment_count = da_count da,
      next_payment_wait = defined_next_payment_wait ops da,
      payment_amount = defined_payment_amount ops da\<rparr>"

definition defined_destination_generator :: "defined_payment_activity \<Rightarrow> 'r destination_generator" where
  "defined_destination_generator da = \<lparr>choose_destination = defined_choose_destination da\<rparr>"

lemma defined_amount_in_range:
  "range_ops_ok ops \<Longrightarrow> defined_payment_amount ops da None r = Some (a, r') \<Longrightarrow>
   \<exists>v. a = Inr v \<and> in_range (da_amount da) v"
  by (auto simp: defined_payment_amount_def range_ops_ok_def dest: value_or_range_value_in_range)

interpretation defined_pair: generator_pair "defined_payment_generator ops da"
  "defined_destination_generator da" UNIV "\<lambda>v. range_ops_ok ops \<longrightarrow> in_range (da_amount da) v"
  for ops da
proof (unfold_locales, goal_cases)
  case (1 src r w r')
  then show ?case
    by (auto simp: defined_payment_generator_def defined_next_payment_wait_def)
next
  case (2 src r c r')
  then show ?case
    by (auto simp: defined_destination_generator_def defined_choose_destination_def)
next
  case (3 src r d cap r' s a s')
  then have "defined_payment_amount ops da None s = Some (a, s')"
    by (simp add: defined_destination_generator_def defined_choose_destination_def defined_payment_generator_def)
  then show ?case
    using defined_amount_in_range [of ops da s a s']
    by (auto simp: defined_payment_amount_def)
qed

subsection \<open>Floating point and distributions\<close>

record 'f float_ops =
  f64_of_u64 :: "u64 \<Rightarrow> 'f"
  f64_const :: "nat \<Rightarrow> 'f"
  f64_ln :: "'f \<Rightarrow> 'f"
  f64_sqrt :: "'f \<Rightarrow> 'f"
  f64_mul :: "'f \<Rightarrow> 'f \<Rightarrow> 'f"
  f64_div :: "'f \<Rightarrow> 'f \<Rightarrow> 'f"
  f64_sub :: "'f \<Rightarrow> 'f \<Rightarrow> 'f"
  f64_less :: "'f \<Rightarrow> 'f \<Rightarrow> bool"
  f64_eq :: "'f \<Rightarrow> 'f \<Rightarrow> bool"
  f64_to_u64 :: "'f \<Rightarrow> u64"

record ('f, 'd, 'r) rand_ops =
  exp_new :: "'f \<Rightarrow> message + 'd"
  exp_sample :: "'d \<Rightarrow> 'r \<Rightarrow> 'f \<times> 'r"
  log_normal_new :: "'f \<Rightarrow> 'f \<Rightarrow> message + 'd"
  log_normal_sample :: "'d \<Rightarrow> 'r \<Rightarrow> 'f \<times> 'r"
  rng_poisoned :: "message option"

text \<open>The generator's lock, which is poisoned when a holder panicked.\<close>

definition lock_rng :: "('f, 'd, 'r) rand_ops \<Rightarrow> ('r, message, unit) gen" where
  "lock_rng rops = (case rng_poisoned rops of Some msg \<Rightarrow> gen_err msg | None \<Rightarrow> gen_ok ())"

subsection \<open>Random activities (random_activity.rs)\<close>

definition hours_per_month :: nat where
  "hours_per_month = 30 * 24"

definition seconds_per_month :: nat where
  "seconds_per_month = hours_per_month * 60 * 60"

record ('f, 'd) random_payment_activity =
  ra_multiplier :: 'f
  ra_expected_payment_amt :: u64
  ra_source_capacity :: u64
  ra_event_dist :: 'd

text \<open>\<open>2 * expected_payment_amt\<close> is a multiplication of \<open>u64\<close> and wraps around.\<close>

definition validate_capacity :: "u64 \<Rightarrow> u64 \<Rightarrow> random_activity_error + unit" where
  "validate_capacity node_capacity_msat expected_payment_amt =
     (let min_required_capacity = 2 * expected_payment_amt in
      if node_capacity_msat < min_required_capacity
      then Inl (InsufficientCapacity
             (Fmt ''node needs at least {} capacity (has: {}) to process expected payment amount: {}''
                [ArgNum (unat min_required_capacity), ArgNum (unat node_capacity_msat),
                 ArgNum (unat expected_payment_amt)]))
      else Inr ())"

definition events_per_month :: "'f float_ops \<Rightarrow> u64 \<Rightarrow> 'f \<Rightarrow> u64 \<Rightarrow> 'f" where
  "events_per_month fl source_capacity_msat multiplier expected_payment_amt =
     f64_div fl (f64_mul fl (f64_of_u64 fl source_capacity_msat) multiplier)
       (f64_of_u64 fl expected_payment_amt)"

definition random_activity_new ::
  "'f float_ops \<Rightarrow> ('f, 'd, 'r) rand_ops \<Rightarrow> u64 \<Rightarrow> u64 \<Rightarrow> 'f \<Rightarrow>
   random_activity_error + ('f, 'd) random_payment_activity" where
  "random_activity_new fl rops source_capacity_msat expected_payment_amt multiplier =
     (if source_capacity_msat = 0
      then Inl (ValueError (Fmt ''source_capacity_msat cannot be zero'' []))
      else if expected_payment_amt = 0
      then Inl (ValueError (Fmt ''expected_payment_amt cannot be zero'' []))
      else if f64_eq fl multiplier (f64_const fl 0)
      then Inl (ValueError (Fmt ''multiplier cannot be zero'' []))
      else
        res_bind (validate_capacity source_capacity_msat expected_payment_amt)
          (\<lambda>_. let lamda = f64_div fl (events_per_month fl source_capacity_msat multiplier expected_payment_amt)
                             (f64_const fl seconds_per_month)
               in case exp_new rops lamda of
                    Inl e \<Rightarrow> Inl (ValueError e)
                  | Inr event_dist \<Rightarrow>
                      Inr \<lparr>ra_multiplier = multiplier, ra_expected_payment_amt = expected_payment_amt,
                           ra_source_capacity = source_capacity_msat, ra_event_dist = event_dist\<rparr>))"

definition random_next_payment_wait ::
  "'f float_ops \<Rightarrow> ('f, 'd, 'r) rand_ops \<Rightarrow> ('f, 'd) random_payment_activity \<Rightarrow> ('r, message, duration) gen" where
  "random_next_payment_wait fl rops ra =
     gen_bind (lock_rng rops)
       (\<lambda>_ r. let (x, r') = exp_sample rops (ra_event_dist ra) r
              in Some (Inr (duration_from_secs (unat (f64_to_u64 fl x))), r'))"

definition sigma_square :: "'f float_ops \<Rightarrow> u64 \<Rightarrow> u64 \<Rightarrow> 'f" where
  "sigma_square fl expected payment_limit =
     f64_mul fl (f64_const fl 2)
       (f64_sub fl (f64_ln fl (f64_of_u64 fl payment_limit)) (f64_ln fl (f64_of_u64 fl expected)))"

definition random_payment_amount ::
  "'f float_ops \<Rightarrow> ('f, 'd, 'r) rand_ops \<Rightarrow> ('f, 'd) random_payment_activity \<Rightarrow> u64 option \<Rightarrow>
   ('r, message, u64) gen" where
  "random_payment_amount fl rops ra destination_capacity =
     (case destination_capacity of
        None \<Rightarrow> gen_err (Fmt ''destination amount required for payment activity generator'' [])
      | Some capacity \<Rightarrow>
          (let payment_limit = min (ra_source_capacity ra) capacity div 2;
               ln_pmt_amt = f64_ln fl (f64_of_u64 fl (ra_expected_payment_amt ra));
               ln_limit = f64_ln fl (f64_of_u64 fl payment_limit);
               mu = f64_sub fl (f64_mul fl (f64_const fl 2) ln_pmt_amt) ln_limit;
               sigma_sq = sigma_square fl (ra_expected_payment_amt ra) payment_limit
           in if f64_less fl sigma_sq (f64_const fl 0)
              then gen_err (Fmt ''payment amount not possible for limit: {payment_limit}, sigma squared: {sigma_square}''
                     [ArgNum (unat payment_limit)])
              else
                gen_bind (gen_lift (log_normal_new rops mu (f64_sqrt fl sigma_sq)))
                  (\<lambda>log_normal.
                     gen_bind (lock_rng rops)
                       (\<lambda>_ r. let (x, r') = log_normal_sample rops log_normal r
                              in Some (Inr (f64_to_u64 fl x), r')))))"

definition random_payment_generator ::
  "'f float_ops \<Rightarrow> ('f, 'd, 'r) rand_ops \<Rightarrow> ('f, 'd) random_payment_activity \<Rightarrow> 'r payment_generator" where
  "random_payment_generator fl rops ra =
     \<lparr>payment_start = None, payment_count = None,
      next_payment_wait = random_next_payment_wait fl rops ra,
      payment_amount = random_payment_amount fl rops ra\<rparr>"

subsection \<open>The network view (random_activity.rs)\<close>

record 'w network_graph_view =
  node_picker :: 'w
  view_nodes :: "(node_info \<times> u64) list"

record ('w, 'r) picker_ops =
  weighted_new :: "u64 list \<Rightarrow> message + 'w"
  weighted_sample :: "'w \<Rightarrow> 'r \<Rightarrow> nat \<times> 'r"

definition network_graph_view_new ::
  "('w, 'r) picker_ops \<Rightarrow> (node_info \<times> u64) list \<Rightarrow> random_activity_error + 'w network_graph_view" where
  "network_graph_view_new wops nodes =
     (if length nodes < 2
      then Inl (ValueError (Fmt ''at least two nodes required for activity generation'' []))
      else if list_ex (\<lambda>n. snd n = 0) nodes
      then Inl (InsufficientCapacity (Fmt ''network generator created with zero capacity node'' []))
      else
        (let sorted = sort_key (\<lambda>n. pubkey (fst n)) nodes in
         case weighted_new wops (map snd sorted) of
           Inl e \<Rightarrow> Inl (ValueError e)
         | Inr picker \<Rightarrow> Inr \<lparr>node_picker = picker, view_nodes = sorted\<rparr>))"

text \<open>The loop over picks that fall on the source; an index out of range is the \<open>unwrap\<close>'s panic.\<close>

partial_function (option) choose_loop ::
  "('r \<Rightarrow> nat \<times> 'r) \<Rightarrow> (node_info \<times> u64) list \<Rightarrow> pubkey \<Rightarrow> 'r \<Rightarrow> ((node_info \<times> u64) \<times> 'r) option" where
  "choose_loop pick nodes source r =
     (let (index, r') = pick r in
      if index < length nodes
      then if pubkey (fst (nodes ! index)) \<noteq> source then Some (nodes ! index, r')
           else choose_loop pick nodes source r'
      else None)"

declare choose_loop.simps [code]

definition view_choose_destination ::
  "('w, 'r) picker_ops \<Rightarrow> message option \<Rightarrow> 'w network_graph_view \<Rightarrow> pubkey \<Rightarrow>
   ('r, message, node_info \<times> u64 option) gen" where
  "view_choose_destination wops poisoned view source =
     (case poisoned of
        Some msg \<Rightarrow> gen_err msg
      | None \<Rightarrow> (\<lambda>r.
          case choose_loop (weighted_sample wops (node_picker view)) (view_nodes view) source r of
            None \<Rightarrow> None
          | Some ((ni, capacity), r') \<Rightarrow> Some (Inr (ni, Some capacity), r')))"

definition view_destination_generator ::
  "('w, 'r) picker_ops \<Rightarrow> message option \<Rightarrow> 'w network_graph_view \<Rightarrow> 'r destination_generator" where
  "view_destination_generator wops poisoned view =
     \<lparr>choose_destination = view_choose_destination wops poisoned view\<rparr>"

subsection \<open>Random activities can always pay\<close>

text \<open>What is relied on of the arithmetic. IEEE 754 fixes conversion, subtraction and multiplication; that
  the logarithm is monotone is an assumption on the mathematics library of the platform, to which Rust
  leaves the precision of \<open>ln\<close>.\<close>

definition float_monotone :: "'f float_ops \<Rightarrow> bool" where
  "float_monotone fl \<longleftrightarrow>
     (\<forall>x y. x \<le> y \<longrightarrow> \<not> f64_less fl (f64_of_u64 fl y) (f64_of_u64 fl x)) \<and>
     (\<forall>x y. \<not> f64_less fl y x \<longrightarrow> \<not> f64_less fl (f64_ln fl y) (f64_ln fl x)) \<and>
     (\<forall>x y. \<not> f64_less fl y x \<longrightarrow> \<not> f64_less fl (f64_sub fl y x) (f64_const fl 0)) \<and>
     (\<forall>x. \<not> f64_less fl x (f64_const fl 0) \<longrightarrow> \<not> f64_less fl (f64_mul fl (f64_const fl 2) x) (f64_const fl 0))"

definition log_normal_documented :: "'f float_ops \<Rightarrow> ('f, 'd, 'r) rand_ops \<Rightarrow> bool" where
  "log_normal_documented fl rops \<longleftrightarrow> (\<forall>e limit mu. 1 \<le> e \<and> e \<le> limit \<longrightarrow>
     is_ok (log_normal_new rops mu (f64_sqrt fl (sigma_square fl e limit))))"

lemma sigma_square_nonneg:
  "float_monotone fl \<Longrightarrow> e \<le> limit \<Longrightarrow> \<not> f64_less fl (sigma_square fl e limit) (f64_const fl 0)"
  unfolding float_monotone_def sigma_square_def by blast

text \<open>Capacity enough for amounts around the expected one: twice it, without wrap-around.\<close>

definition enough_capacity :: "u64 \<Rightarrow> u64 \<Rightarrow> bool" where
  "enough_capacity capacity expected \<longleftrightarrow> 0 < unat expected \<and> 2 * unat expected \<le> unat capacity"

lemma unat_half: "unat (x div 2) = unat x div 2" for x :: u64
  by (simp add: unat_div)

lemma enough_capacity_limit:
  "enough_capacity a e \<Longrightarrow> enough_capacity b e \<Longrightarrow> 1 \<le> e \<and> e \<le> min a b div 2"
proof -
  assume "enough_capacity a e" "enough_capacity b e"
  then have "2 * unat e \<le> unat (min a b)" "0 < unat e"
    by (auto simp: enough_capacity_def min_def)
  then have "unat e \<le> unat (min a b div 2)" by (simp add: unat_half)
  moreover have "1 \<le> unat e" using \<open>0 < unat e\<close> by simp
  ultimately show ?thesis by (simp add: word_le_nat_alt)
qed

lemma random_payment_amount_ok:
  assumes "float_monotone fl" and "log_normal_documented fl rops" and "rng_poisoned rops = None"
    and "enough_capacity (ra_source_capacity ra) (ra_expected_payment_amt ra)"
    and "enough_capacity capacity (ra_expected_payment_amt ra)"
  shows "\<exists>v s'. random_payment_amount fl rops ra (Some capacity) s = Some (Inr v, s')"
proof -
  let ?e = "ra_expected_payment_amt ra" and ?limit = "min (ra_source_capacity ra) capacity div 2"
  have le: "1 \<le> ?e" "?e \<le> ?limit"
    using enough_capacity_limit [OF assms(4,5)] by simp_all
  then have "is_ok (log_normal_new rops mu (f64_sqrt fl (sigma_square fl ?e ?limit)))" for mu
    using assms(2) unfolding log_normal_documented_def by blast
  then obtain ln where "log_normal_new rops (f64_sub fl (f64_mul fl (f64_const fl 2) (f64_ln fl (f64_of_u64 fl ?e)))
      (f64_ln fl (f64_of_u64 fl ?limit))) (f64_sqrt fl (sigma_square fl ?e ?limit)) = Inr ln"
    unfolding is_ok_iff by blast
  with sigma_square_nonneg [OF assms(1) le(2)] assms(3) show ?thesis
    by (simp add: random_payment_amount_def Let_def gen_bind_def lock_rng_def split_beta)
qed

text \<open>What the loop returns is a node of the view other than the source.\<close>

lemma choose_loop_result:
  "choose_loop pick nodes source r = Some res \<Longrightarrow>
   fst res \<in> set nodes \<and> pubkey (fst (fst res)) \<noteq> source"
  by (erule choose_loop.raw_induct
      [where P = "\<lambda>pick nodes source r res. fst res \<in> set nodes \<and> pubkey (fst (fst res)) \<noteq> source", rotated])
    (auto simp: Let_def in_set_conv_nth split: prod.splits if_splits)

text \<open>The state after \<open>n\<close> picks; the loop ends with the first pick that is not the source.\<close>

primrec picks :: "('r \<Rightarrow> nat \<times> 'r) \<Rightarrow> nat \<Rightarrow> 'r \<Rightarrow> 'r" where
  "picks pick 0 r = r"
| "picks pick (Suc n) r = picks pick n (snd (pick r))"

lemma choose_loop_ends:
  "\<forall>s. fst (pick s) < length nodes \<Longrightarrow> pubkey (fst (nodes ! fst (pick (picks pick n r)))) \<noteq> source \<Longrightarrow>
   choose_loop pick nodes source r \<noteq> None"
proof (induction n arbitrary: r)
  case 0
  then show ?case
    by (subst choose_loop.simps) (simp add: split_beta Let_def)
next
  case (Suc n)
  then have "choose_loop pick nodes source (snd (pick r)) \<noteq> None" by simp
  with Suc.prems(1) show ?case
    by (subst choose_loop.simps) (simp add: split_beta Let_def)
qed

lemma view_choose_result:
  "view_choose_destination wops poisoned view source r = Some (Inr (ni, cap), r') \<Longrightarrow>
   \<exists>c. cap = Some c \<and> (ni, c) \<in> set (view_nodes view) \<and> pubkey ni \<noteq> source"
  by (fastforce simp: view_choose_destination_def split: option.splits dest!: choose_loop_result)

text \<open>
  The random generators keep the contract for every source when the locks are sound, the
  distributions behave as documented and both the source and the whole view have enough capacity.
\<close>

definition random_env_ok ::
  "'f float_ops \<Rightarrow> ('f, 'd, 'r) rand_ops \<Rightarrow> ('f, 'd) random_payment_activity \<Rightarrow> message option \<Rightarrow>
   'w network_graph_view \<Rightarrow> bool" where
  "random_env_ok fl rops ra poisoned view \<longleftrightarrow>
     float_monotone fl \<and> log_normal_documented fl rops \<and> rng_poisoned rops = None \<and> poisoned = None \<and>
     enough_capacity (ra_source_capacity ra) (ra_expected_payment_amt ra) \<and>
     (\<forall>n \<in> set (view_nodes view). enough_capacity (snd n) (ra_expected_payment_amt ra))"

interpretation random_pair: generator_pair "random_payment_generator fl rops ra"
  "view_destination_generator wops poisoned view"
  "{src. random_env_ok fl rops ra poisoned view}" "\<lambda>_. True"
  for fl rops ra wops poisoned view
proof (unfold_locales, goal_cases)
  case (1 src r w r')
  then have "rng_poisoned rops = None" by (simp add: random_env_ok_def split: if_splits)
  with 1(2) show ?case
    by (auto simp: random_payment_generator_def random_next_payment_wait_def lock_rng_def
        gen_bind_def Let_def split: prod.splits)
next
  case (2 src r c r')
  then have "poisoned = None" by (simp add: random_env_ok_def split: if_splits)
  with 2(2) show ?case
    by (auto simp: view_destination_generator_def view_choose_destination_def split: option.splits)
next
  case (3 src r d cap r' s a s')
  then have env: "random_env_ok fl rops ra poisoned view"
    and chosen: "view_choose_destination wops poisoned view src r = Some (Inr (d, cap), r')"
    and amount: "random_payment_amount fl rops ra cap s = Some (a, s')"
    by (simp_all add: view_destination_generator_def random_payment_generator_def split: if_splits)
  from view_choose_result [OF chosen] obtain c where c: "cap = Some c" "(d, c) \<in> set (view_nodes view)" by blast
  note parts = env [unfolded random_env_ok_def]
  from parts c(2) have "enough_capacity c (ra_expected_payment_amt ra)" by auto
  then obtain v s'' where "random_payment_amount fl rops ra (Some c) s = Some (Inr v, s'')"
    using random_payment_amount_ok [of fl rops ra c s] parts by auto
  with amount c(1) show ?case by auto
qed

subsection \<open>Properties\<close>

text \<open>Choosing a destination never picks the source, always picks a node of the view with the
  capacity stored for it, and ends as soon as one of the successive samples is not the source: it
  runs forever only on a sequence of samples that all name the source.\<close>

theorem choose_destination_correct:
  assumes "\<forall>s. fst (weighted_sample wops (node_picker view) s) < length (view_nodes view)"
  shows "case view_choose_destination wops None view source r of
      Some (Inr (ni, cap), r') \<Rightarrow>
        \<exists>c. cap = Some c \<and> (ni, c) \<in> set (view_nodes view) \<and> pubkey ni \<noteq> source
    | Some (Inl e, r') \<Rightarrow> False
    | None \<Rightarrow> \<forall>n. pubkey (fst (view_nodes view !
        fst (weighted_sample wops (node_picker view) (picks (weighted_sample wops (node_picker view)) n r)))) = source"
proof (cases "view_choose_destination wops None view source r")
  case None
  then have "choose_loop (weighted_sample wops (node_picker view)) (view_nodes view) source r = None"
    by (auto simp: view_choose_destination_def split: option.splits)
  then have "\<forall>n. pubkey (fst (view_nodes view !
      fst (weighted_sample wops (node_picker view) (picks (weighted_sample wops (node_picker view)) n r)))) = source"
    using choose_loop_ends [OF assms, of _ r source] by blast
  with None show ?thesis by simp
next
  case (Some res)
  then obtain ni c r' where "choose_loop (weighted_sample wops (node_picker view)) (view_nodes view) source r
      = Some ((ni, c), r')" "res = (Inr (ni, Some c), r')"
    by (auto simp: view_choose_destination_def split: option.splits)
  with choose_loop_result Some show ?thesis by fastforce
qed

definition demo_info :: "nat \<Rightarrow> node_info" where
  "demo_info n = \<lparr>pubkey = PublicKey n, node_alias = [], features = NodeFeatures []\<rparr>"

text \<open>A generator for the examples: the state is the list of picks to come.\<close>

definition demo_picker :: "(nat list, nat list) picker_ops" where
  "demo_picker = \<lparr>weighted_new = (\<lambda>ws. Inr []),
     weighted_sample = (\<lambda>_ r. case r of [] \<Rightarrow> (1, []) | i # r' \<Rightarrow> (min 1 i, r'))\<rparr>"

definition demo_view :: "nat list network_graph_view" where
  "demo_view = \<lparr>node_picker = [], view_nodes = [(demo_info 1, 40), (demo_info 2, 50)]\<rparr>"

theorem choose_destination_correct_witness:
  "view_choose_destination demo_picker None demo_view (PublicKey 1) [0, 0, 1, 0]
     = Some (Inr (demo_info 2, Some 50), [0]) \<and> PublicKey 2 \<noteq> PublicKey 1"
proof -
  have "view_choose_destination demo_picker None demo_view (PublicKey 1) [0, 0, 1, 0]
      = Some (Inr (demo_info 2, Some 50), [0])"
    by (simp add: view_choose_destination_def demo_view_def demo_picker_def demo_info_def choose_loop.simps)
  moreover have "\<forall>s. fst (weighted_sample demo_picker (node_picker demo_view) s) < length (view_nodes demo_view)"
    by (auto simp: demo_picker_def demo_view_def min_def split: list.split)
  note choose_destination_correct [OF this, where source = "PublicKey 1" and r = "[0, 0, 1, 0]"]
  ultimately show ?thesis by (auto simp: demo_info_def)
qed

lemma list_ex_mset: "mset xs = mset ys \<Longrightarrow> list_ex P xs = list_ex P ys"
  using mset_eq_setD [of xs ys] by (simp add: list_ex_iff)

text \<open>The view of the network does not depend on the order in which the hash map of active nodes
  yields them: for nodes with distinct public keys, any permutation gives the same view or error.\<close>

theorem network_view_order_independent:
  assumes "mset ns = mset ns'" and "distinct (map (\<lambda>n. pubkey (fst n)) ns)"
  shows "network_graph_view_new wops ns = network_graph_view_new wops ns'"
proof -
  have "sort_key (\<lambda>n. pubkey (fst n)) ns = sort_key (\<lambda>n. pubkey (fst n)) ns'"
    using assms by (intro sort_key_inj_key_eq) (auto simp: distinct_map)
  moreover have "length ns = length ns'"
    using assms(1) by (rule mset_eq_length)
  ultimately show ?thesis
    using list_ex_mset [OF assms(1)] by (simp add: network_graph_view_new_def)
qed

theorem network_view_order_independent_witness:
  "network_graph_view_new demo_picker [(demo_info 2, 50), (demo_info 1, 40)]
     = network_graph_view_new demo_picker [(demo_info 1, 40), (demo_info 2, 50)]"
  by (rule network_view_order_independent) (simp_all add: demo_info_def)

text \<open>The capacity check is the intended one, capacity at least twice the expected amount, exactly
  as long as the doubling fits in 64 bits; from \<open>2 ^ 63\<close> msat on it wraps around, so an expected
  amount of \<open>2 ^ 63\<close> is accepted with no capacity at all.\<close>

theorem validate_capacity_spec:
  "(is_ok (validate_capacity capacity expected) \<longleftrightarrow> 2 * unat expected mod 2 ^ 64 \<le> unat capacity) \<and>
   is_ok (validate_capacity 0 (2 ^ 63))"
proof -
  have "unat (2 * expected) = 2 * unat expected mod 2 ^ 64"
    by (simp add: unat_word_ariths)
  then show ?thesis
    by (auto simp: validate_capacity_def Let_def word_less_nat_alt not_less)
qed

end
