(* ===== verification/Events.thy ===== *)
theory Events
  imports Generators "HOL-Library.Product_Lexorder"
begin

section \<open>The event queue of the simulation (simln-lib/src/lib.rs)\<close>

text \<open>
  \<open>setup_payment_events\<close> fills a heap with one payment per executor; \<open>produce_payment_events\<close> pops
  the earliest, waits for its time, dispatches it and schedules the executor's next one.

  \<open>BinaryHeap<Reverse<PaymentEvent>>\<close> pops a least event by \<open>(execution_time, source)\<close>; which of
  several equal ones is not specified. The model keeps the events in a list sorted by that key,
  behind the interface \<open>priority_queue\<close>.

  What the loop observes of the world in one iteration is a \<open>tick\<close>: whether the shutdown signal is
  seen, and what the clock reads at each place the code reads it. The tasks the loop spawns are the
  \<open>dispatch\<close>es it returns.
\<close>

subsection \<open>Priority queues\<close>

locale priority_queue =
  fixes empty :: 'q
    and push :: "'e \<Rightarrow> 'q \<Rightarrow> 'q"
    and pop :: "'q \<Rightarrow> ('e \<times> 'q) option"
    and key :: "'e \<Rightarrow> 'k::linorder"
    and contents :: "'q \<Rightarrow> 'e multiset"
    and wf :: "'q \<Rightarrow> bool"
  assumes wf_empty: "wf empty"
    and contents_empty: "contents empty = {#}"
    and wf_push: "wf q \<Longrightarrow> wf (push e q)"
    and contents_push: "wf q \<Longrightarrow> contents (push e q) = add_mset e (contents q)"
    and pop_None: "wf q \<Longrightarrow> pop q = None \<longleftrightarrow> contents q = {#}"
    and pop_Some: "wf q \<Longrightarrow> pop q = Some (e, q') \<Longrightarrow>
      wf q' \<and> contents q = add_mset e (contents q') \<and> (\<forall>e' \<in># contents q'. key e \<le> key e')"
begin

text \<open>With distinct keys the popped element is determined by the contents alone.\<close>

lemma pop_unique:
  assumes "wf p" and "wf q" and "contents p = contents q" and "inj_on key (set_mset (contents p))"
    and "pop p = Some (e, p')" and "pop q = Some (f, q')"
  shows "e = f \<and> contents p' = contents q'"
proof -
  note P = pop_Some [OF assms(1,5)] and Q = pop_Some [OF assms(2,6)]
  have p: "contents p = add_mset e (contents p')" "contents p = add_mset f (contents q')"
    using P Q assms(3) by simp_all
  have le: "\<forall>g \<in># contents p. key e \<le> key g" unfolding p(1) using P by simp
  have ge: "\<forall>g \<in># contents p. key f \<le> key g" unfolding p(2) using Q by simp
  have mem: "e \<in># contents p" "f \<in># contents p"
    by (simp add: p(1), simp add: p(2))
  from le ge mem have "key e = key f" by (simp add: order_antisym)
  with assms(4) mem have "e = f" by (simp add: inj_on_def)
  with P Q assms(3) show ?thesis by simp
qed

end

record payment_event =
  ev_source :: pubkey
  ev_time :: system_time
  ev_destination :: node_info
  ev_amount :: u64

text \<open>The order of \<open>PaymentEvent::cmp\<close>: by time, then by source.\<close>

definition event_key :: "payment_event \<Rightarrow> system_time \<times> pubkey" where
  "event_key e = (ev_time e, ev_source e)"

type_synonym event_heap = "payment_event list"

definition heap_push :: "payment_event \<Rightarrow> event_heap \<Rightarrow> event_heap" where
  "heap_push e h = insort_key event_key e h"

fun heap_pop :: "event_heap \<Rightarrow> (payment_event \<times> event_heap) option" where
  "heap_pop [] = None"
| "heap_pop (e # h) = Some (e, h)"

definition heap_wf :: "event_heap \<Rightarrow> bool" where
  "heap_wf h = sorted (map event_key h)"

interpretation heap: priority_queue "[]" heap_push heap_pop event_key mset heap_wf
proof (unfold_locales, goal_cases)
  case (6 q e q')
  then show ?case by (cases q) (auto simp: heap_wf_def)
next
  case (5 q)
  then show ?case by (cases q) auto
qed (simp_all add: heap_wf_def heap_push_def sorted_insort_key)

subsection \<open>Executors\<close>

record 'r executor_kit =
  source_info :: node_info
  network_generator :: "'r destination_generator"
  kit_payment_generator :: "'r payment_generator"

record 'r payment_tracker =
  executor :: "'r executor_kit"
  payments_completed :: u64

type_synonym 'r trackers = "(pubkey, 'r payment_tracker) hmap"

definition executor_not_found :: "pubkey \<Rightarrow> simulation_error" where
  "executor_not_found pk = PaymentGenerationError (Fmt ''executor {} not found'' [ArgPk pk])"

definition get_payment_delay ::
  "u64 \<Rightarrow> 'r payment_generator \<Rightarrow> ('r, simulation_error, duration) gen" where
  "get_payment_delay call_count node_generator =
     (if call_count \<noteq> 0 then gen_map_err PaymentGenerationError (next_payment_wait node_generator)
      else case payment_start node_generator of
             Some start \<Rightarrow> gen_ok start
           | None \<Rightarrow> gen_map_err PaymentGenerationError (next_payment_wait node_generator))"

text \<open>
  \<open>SystemTime::checked_add\<close>: a time is kept in 64 bits of seconds, so the latest one is
  \<open>2 ^ 63\<close> seconds after the epoch.
\<close>

definition system_time_checked_add :: "system_time \<Rightarrow> duration \<Rightarrow> system_time option" where
  "system_time_checked_add t d = (if t + d < 2 ^ 63 * nanos_per_sec then Some (t + d) else None)"

definition generate_payment ::
  "event_heap \<Rightarrow> pubkey \<Rightarrow> 'r trackers \<Rightarrow> system_time \<Rightarrow> ('r, simulation_error, event_heap) gen" where
  "generate_payment heap pk trackers base_time =
     (case hm_get trackers pk of
        None \<Rightarrow> gen_err (executor_not_found pk)
      | Some tracker \<Rightarrow>
          gen_bind (get_payment_delay (payments_completed tracker) (kit_payment_generator (executor tracker)))
            (\<lambda>wait_time.
               case system_time_checked_add base_time wait_time of
                 None \<Rightarrow> gen_err (PaymentGenerationError
                   (Fmt ''Unable to generate absolute_time for next payment with error Overflow adding duration'' []))
               | Some absolute_time \<Rightarrow>
                   gen_bind (gen_map_err DestinationGenerationError
                              (choose_destination (network_generator (executor tracker))
                                 (pubkey (source_info (executor tracker)))))
                     (\<lambda>(destination, capacity).
                        gen_bind (gen_map_err PaymentGenerationError
                                   (payment_amount (kit_payment_generator (executor tracker)) capacity))
                          (\<lambda>amount. gen_ok (heap_push
                             \<lparr>ev_source = pk, ev_time = absolute_time, ev_destination = destination,
                              ev_amount = amount\<rparr> heap)))))"

text \<open>The loop of \<open>setup_payment_events\<close> over the sorted executors.\<close>

fun setup_loop ::
  "system_time \<Rightarrow> 'r executor_kit list \<Rightarrow> event_heap \<Rightarrow> 'r trackers \<Rightarrow>
   ('r, simulation_error, event_heap \<times> 'r trackers) gen" where
  "setup_loop now [] heap trackers = gen_ok (heap, trackers)"
| "setup_loop now (ex # exs) heap trackers =
     (let source = pubkey (source_info ex);
          trackers' = hm_insert source \<lparr>executor = ex, payments_completed = 0\<rparr> trackers
      in gen_bind (generate_payment heap source trackers' now)
           (\<lambda>heap'. setup_loop now exs heap' trackers'))"

definition setup_payment_events ::
  "system_time \<Rightarrow> 'r executor_kit list \<Rightarrow> ('r, simulation_error, event_heap \<times> 'r trackers) gen" where
  "setup_payment_events now executors =
     setup_loop now (sort_key (\<lambda>ex. pubkey (source_info ex)) executors) [] hm_new"

subsection \<open>The loop\<close>

record tick =
  stop_signalled :: bool
  pop_now :: system_time
  skip_now :: system_time
  stop_during_wait :: bool
  fire_now :: system_time
  dispatch_now :: system_time

record dispatch =
  dp_source :: pubkey
  dp_destination :: node_info
  dp_amount :: u64
  dp_time :: system_time

text \<open>
  The wait before an event. \<open>round_secs\<close> is \<open>d.as_secs_f64().round() as u64\<close>, a rounding of \<open>f64\<close>.
\<close>

definition event_wait :: "(duration \<Rightarrow> nat) \<Rightarrow> system_time \<Rightarrow> system_time \<Rightarrow> duration" where
  "event_wait round_secs execution_time now =
     (if now \<le> execution_time then duration_from_secs (round_secs (execution_time - now))
      else duration_from_secs 0)"

datatype 'r iteration = Next event_heap "'r trackers" "dispatch list" | Finished

definition produce_iteration ::
  "(pubkey \<Rightarrow> bool) \<Rightarrow> tick \<Rightarrow> event_heap \<Rightarrow> 'r trackers \<Rightarrow> ('r, simulation_error, 'r iteration) gen" where
  "produce_iteration has_node tick heap trackers =
     (if stop_signalled tick then gen_ok Finished
      else case heap_pop heap of
        None \<Rightarrow> gen_ok Finished
      | Some (ev, heap') \<Rightarrow>
          (case hm_get trackers (ev_source ev) of
             None \<Rightarrow> gen_err (executor_not_found (ev_source ev))
           | Some tracker \<Rightarrow>
               if payment_count (kit_payment_generator (executor tracker)) = Some (payments_completed tracker)
               then gen_ok (Next heap' trackers [])
               else if \<not> has_node (ev_source ev)
               then gen_err (MissingNodeError (Fmt ''Source node not found, {}'' [ArgPk (ev_source ev)]))
               else if ev_amount ev = 0
               then gen_bind (generate_payment heap' (ev_source ev) trackers (skip_now tick))
                      (\<lambda>heap''. gen_ok (Next heap'' trackers []))
               else
                 (let trackers' = hm_insert (ev_source ev)
                        (tracker\<lparr>payments_completed := payments_completed tracker + 1\<rparr>) trackers
                  in if stop_during_wait tick then gen_ok Finished
                     else gen_bind (generate_payment heap' (ev_source ev) trackers' (fire_now tick))
                            (\<lambda>heap''. gen_ok (Next heap'' trackers'
                               [\<lparr>dp_source = ev_source ev, dp_destination = ev_destination ev,
                                 dp_amount = ev_amount ev, dp_time = dispatch_now tick\<rparr>])))))"

datatype run_end = StillRunning | Ended "simulation_error + unit"

text \<open>One tick per iteration; when the ticks run out the loop is still running.\<close>

record 'r run =
  run_end :: run_end
  run_dispatches :: "dispatch list"
  run_heap :: event_heap
  run_trackers :: "'r trackers"

fun produce_payment_events ::
  "(pubkey \<Rightarrow> bool) \<Rightarrow> tick list \<Rightarrow> event_heap \<Rightarrow> 'r trackers \<Rightarrow> 'r \<Rightarrow> ('r run \<times> 'r) option" where
  "produce_payment_events has_node [] heap trackers r =
     Some (\<lparr>run_end = StillRunning, run_dispatches = [], run_heap = heap, run_trackers = trackers\<rparr>, r)"
| "produce_payment_events has_node (tick # ticks) heap trackers r =
     (case produce_iteration has_node tick heap trackers r of
        None \<Rightarrow> None
      | Some (Inl e, r') \<Rightarrow>
          Some (\<lparr>run_end = Ended (Inl e), run_dispatches = [], run_heap = heap, run_trackers = trackers\<rparr>, r')
      | Some (Inr Finished, r') \<Rightarrow>
          Some (\<lparr>run_end = Ended (Inr ()), run_dispatches = [], run_heap = heap, run_trackers = trackers\<rparr>, r')
      | Some (Inr (Next heap' trackers' ds), r') \<Rightarrow>
          map_option (\<lambda>(run, r''). (run\<lparr>run_dispatches := ds @ run_dispatches run\<rparr>, r''))
            (produce_payment_events has_node ticks heap' trackers' r'))"

end
