(* ===== verification/Event_Properties.thy ===== *)
theory Event_Properties
  imports Events
begin

section \<open>Properties of the event queue\<close>

text \<open>
  The invariant of \<open>produce_payment_events\<close>: every event has a tracker, and as long as the payment count
  of a source is not met the heap holds an event of it. Executors may share a source: the tracker of
  the source is then that of the last of them, its \<open>owner\<close>.
\<close>

lemma heap_push_set [simp]: "set (heap_push e h) = insert e (set h)"
  by (simp add: heap_push_def set_insort_key)

text \<open>An event is what the two generators of its executor made, at some state of the random numbers.\<close>

definition made_by :: "'r executor_kit \<Rightarrow> payment_event \<Rightarrow> bool" where
  "made_by kit ev \<longleftrightarrow> (\<exists>cap s1 s2 s3 s4.
     choose_destination (network_generator kit) (pubkey (source_info kit)) s1 = Some (Inr (ev_destination ev, cap), s2) \<and>
     payment_amount (kit_payment_generator kit) cap s3 = Some (Inr (ev_amount ev), s4))"

lemma made_by_amount:
  "made_by kit ev \<Longrightarrow> \<exists>cap s s'. payment_amount (kit_payment_generator kit) cap s = Some (Inr (ev_amount ev), s')"
  unfolding made_by_def by blast

lemma generate_payment_pushes:
  assumes "generate_payment h pk t base r = Some (Inr h', r')"
  obtains ev tr where "ev_source ev = pk" "h' = heap_push ev h" "hm_get t pk = Some tr" "made_by (executor tr) ev"
proof -
  have "\<exists>ev. h' = heap_push ev h \<and> ev_source ev = pk \<and> (\<exists>tr. hm_get t pk = Some tr \<and> made_by (executor tr) ev)"
    using assms unfolding made_by_def
    by (auto simp: generate_payment_def gen_bind_Inr gen_map_err_Inr split: option.splits prod.splits)
      (rule exI, rule conjI, rule refl, auto)
  then show thesis using that by blast
qed

lemma gen_bind_gen_ok:
  "gen_bind m (\<lambda>x. gen_ok (f x)) r = Some (Inr y, r') \<longleftrightarrow> (\<exists>x. m r = Some (Inr x, r') \<and> f x = y)"
  by (auto simp: gen_bind_Inr)

subsection \<open>One iteration\<close>

definition completed :: "'r trackers \<Rightarrow> pubkey \<Rightarrow> u64" where
  "completed t src = (case hm_get t src of None \<Rightarrow> 0 | Some tr \<Rightarrow> payments_completed tr)"

definition count_of :: "'r trackers \<Rightarrow> pubkey \<Rightarrow> u64 option" where
  "count_of t src = Option.bind (hm_get t src) (\<lambda>tr. payment_count (kit_payment_generator (executor tr)))"

definition dispatched_from :: "pubkey \<Rightarrow> dispatch list \<Rightarrow> nat" where
  "dispatched_from src ds = length (filter (\<lambda>d. dp_source d = src) ds)"

lemma dispatched_from_simps [simp]:
  "dispatched_from src [] = 0"
  "dispatched_from src (d # ds) = (if dp_source d = src then 1 else 0) + dispatched_from src ds"
  "dispatched_from src (ds @ ds') = dispatched_from src ds + dispatched_from src ds'"
  by (simp_all add: dispatched_from_def)

definition events_inv :: "event_heap \<Rightarrow> 'r trackers \<Rightarrow> bool" where
  "events_inv h t \<longleftrightarrow> heap_wf h \<and>
     (\<forall>e \<in> set h. hm_get t (ev_source e) \<noteq> None) \<and>
     (\<forall>src c. count_of t src = Some c \<longrightarrow> completed t src \<le> c \<and>
        (completed t src < c \<longrightarrow> src \<in> ev_source ` set h))"

text \<open>The three ways an iteration goes on: the count is met, the amount is zero, a payment goes out.\<close>

lemma produce_iteration_cases:
  assumes "produce_iteration has_node tick h t r = Some (Inr (Next h' t' ds), r')"
  obtains (met) ev where "h = ev # h'" "t' = t" "ds = []" "count_of t (ev_source ev) = Some (completed t (ev_source ev))"
  | (skipped) ev h1 ev' where "h = ev # h1" "t' = t" "ds = []" "ev_amount ev = 0"
      "ev_source ev' = ev_source ev" "h' = heap_push ev' h1"
      "count_of t (ev_source ev) \<noteq> Some (completed t (ev_source ev))"
      "\<exists>tr. hm_get t (ev_source ev) = Some tr \<and> made_by (executor tr) ev'"
  | (sent) ev h1 ev' tr where "h = ev # h1" "hm_get t (ev_source ev) = Some tr" "ev_amount ev \<noteq> 0"
      "t' = hm_insert (ev_source ev) (tr\<lparr>payments_completed := payments_completed tr + 1\<rparr>) t"
      "ev_source ev' = ev_source ev" "h' = heap_push ev' h1"
      "ds = [\<lparr>dp_source = ev_source ev, dp_destination = ev_destination ev, dp_amount = ev_amount ev,
              dp_time = dispatch_now tick\<rparr>]"
      "count_of t (ev_source ev) \<noteq> Some (completed t (ev_source ev))" "has_node (ev_source ev)"
      "made_by (executor tr) ev'"
proof -
  from assms have running: "\<not> stop_signalled tick"
    by (auto simp: produce_iteration_def)
  from assms running obtain ev h1 where h: "h = ev # h1"
    by (cases h) (auto simp: produce_iteration_def)
  from assms running h obtain tr where tr: "hm_get t (ev_source ev) = Some tr"
    by (auto simp: produce_iteration_def split: option.splits)
  have cnt: "count_of t (ev_source ev) = payment_count (kit_payment_generator (executor tr))"
    "completed t (ev_source ev) = payments_completed tr"
    by (simp_all add: count_of_def completed_def tr)
  show thesis
  proof (cases "payment_count (kit_payment_generator (executor tr)) = Some (payments_completed tr)")
    case True
    with assms running h tr cnt show thesis by (intro met [of ev]) (auto simp: produce_iteration_def)
  next
    case False
    with assms running h tr have node: "has_node (ev_source ev)"
      by (auto simp: produce_iteration_def split: if_splits)
    show thesis
    proof (cases "ev_amount ev = 0")
      case True
      with running h tr False node have step: "produce_iteration has_node tick h t r =
          gen_bind (generate_payment h1 (ev_source ev) t (skip_now tick)) (\<lambda>h2. gen_ok (Next h2 t [])) r"
        by (simp add: produce_iteration_def)
      have "gen_bind (generate_payment h1 (ev_source ev) t (skip_now tick))
          (\<lambda>h2. gen_ok (Next h2 t [])) r = Some (Inr (Next h' t' ds), r')"
        using assms unfolding step .
      then obtain h2 where
        gen: "generate_payment h1 (ev_source ev) t (skip_now tick) r = Some (Inr h2, r')"
        and "Next h2 t [] = Next h' t' ds"
        unfolding gen_bind_gen_ok by blast
      from this(2) have eq: "h' = h2" "t' = t" "ds = []" by simp_all
      from gen obtain ev' tr' where "ev_source ev' = ev_source ev" "h2 = heap_push ev' h1"
        "hm_get t (ev_source ev) = Some tr'" "made_by (executor tr') ev'"
        by (rule generate_payment_pushes)
      with h eq True cnt False show thesis
        by (intro skipped [of ev h1 ev']) simp_all
    next
      case nonzero: False
      let ?t = "hm_insert (ev_source ev) (tr\<lparr>payments_completed := payments_completed tr + 1\<rparr>) t"
      let ?d = "\<lparr>dp_source = ev_source ev, dp_destination = ev_destination ev, dp_amount = ev_amount ev,
        dp_time = dispatch_now tick\<rparr>"
      from running h tr False node nonzero have step: "produce_iteration has_node tick h t r =
          (if stop_during_wait tick then gen_ok Finished
           else gen_bind (generate_payment h1 (ev_source ev) ?t (fire_now tick)) (\<lambda>h2. gen_ok (Next h2 ?t [?d]))) r"
        by (simp add: produce_iteration_def Let_def)
      have "gen_bind (generate_payment h1 (ev_source ev) ?t (fire_now tick))
          (\<lambda>h2. gen_ok (Next h2 ?t [?d])) r = Some (Inr (Next h' t' ds), r')"
        using assms unfolding step by (cases "stop_during_wait tick") simp_all
      then obtain h2 where
        gen: "generate_payment h1 (ev_source ev) ?t (fire_now tick) r = Some (Inr h2, r')"
        and "Next h2 ?t [?d] = Next h' t' ds"
        unfolding gen_bind_gen_ok by blast
      from this(2) have eq: "h' = h2" "t' = ?t" "ds = [?d]" by simp_all
      from gen obtain ev' tr' where "ev_source ev' = ev_source ev" "h2 = heap_push ev' h1"
        "hm_get ?t (ev_source ev) = Some tr'" "made_by (executor tr') ev'"
        by (rule generate_payment_pushes)
      moreover from this(3) have "executor tr' = executor tr" by (auto simp: hm_get_insert)
      ultimately have "ev_source ev' = ev_source ev" "h2 = heap_push ev' h1"
        "made_by (executor tr) ev'"
        by auto
      with h eq nonzero cnt False tr node show thesis
        by (intro sent [of ev h1 tr ev']) simp_all
    qed
  qed
qed

lemma completed_insert:
  "completed (hm_insert src tr t) s = (if s = src then payments_completed tr else completed t s)"
  by (simp add: completed_def hm_get_insert)

lemma count_of_insert:
  "count_of (hm_insert src tr t) s =
     (if s = src then payment_count (kit_payment_generator (executor tr)) else count_of t s)"
  by (simp add: count_of_def hm_get_insert)

text \<open>Replacing the popped event by one of the same source keeps the heap part of the invariant.\<close>

lemma replace_event:
  assumes "heap_wf (ev # h1)" and "ev_source ev' = ev_source ev"
  shows "heap_wf (heap_push ev' h1)"
    and "ev_source ` set (heap_push ev' h1) = ev_source ` set (ev # h1)"
proof -
  have "heap_wf h1" using assms(1) by (simp add: heap_wf_def)
  then show "heap_wf (heap_push ev' h1)" by (rule heap.wf_push)
  show "ev_source ` set (heap_push ev' h1) = ev_source ` set (ev # h1)"
    using assms(2) by simp
qed

lemma less_imp_plus_one_le: "a < b \<Longrightarrow> a + 1 \<le> b \<and> unat (a + 1) = unat a + 1" for a b :: u64
proof -
  assume "a < b"
  then have lt: "unat a < unat b" by (simp add: word_less_nat_alt)
  then have "unat a + 1 < 2 ^ 64" using unat_u64_less [of b] by (simp del: unat_u64_less)
  then have "unat (a + 1) = unat a + 1" using unat_add_bounded [of a 1] by simp
  with lt show ?thesis by (simp add: word_le_nat_alt)
qed

lemma produce_iteration_inv:
  assumes "produce_iteration has_node tick h t r = Some (Inr (Next h' t' ds), r')" and "events_inv h t"
  shows "events_inv h' t'" and "count_of t' src = count_of t src"
    and "count_of t src \<noteq> None \<Longrightarrow> unat (completed t' src) = unat (completed t src) + dispatched_from src ds"
    and "\<forall>d \<in> set ds. dp_amount d \<noteq> 0 \<and> has_node (dp_source d)"
proof -
  note inv = assms(2) [unfolded events_inv_def]
  have le: "count_of t s = Some c \<Longrightarrow> completed t s \<le> c" for s c using inv by blast
  show "events_inv h' t'"
    using assms(1)
  proof (cases rule: produce_iteration_cases)
    case (met ev)
    have "s \<in> ev_source ` set h'" if "count_of t s = Some c" "completed t s < c" for s c
    proof -
      have "s \<in> ev_source ` set (ev # h')" using inv that met(1) by blast
      moreover have "s \<noteq> ev_source ev" using met(4) that by auto
      ultimately show ?thesis by simp
    qed
    with inv le met(1,2) show ?thesis by (simp add: events_inv_def heap_wf_def)
  next
    case (skipped ev h1 ev')
    with inv replace_event [of ev h1 ev'] show ?thesis
      unfolding events_inv_def by (auto simp: image_iff)
  next
    case (sent ev h1 ev' tr)
    note new = replace_event [of ev h1 ev', OF _ sent(5)]
    have bound: "completed t (ev_source ev) + 1 \<le> c" if "count_of t (ev_source ev) = Some c" for c
    proof -
      have "completed t (ev_source ev) < c" using le [OF that] sent(8) that by (simp add: order.strict_iff_order)
      then show ?thesis using less_imp_plus_one_le by blast
    qed
    have counts: "count_of t' s = count_of t s"
      "completed t' s = (if s = ev_source ev then completed t s + 1 else completed t s)" for s
      unfolding sent(4) count_of_insert completed_insert
      using sent(2) by (auto simp: count_of_def completed_def)
    have "hm_get t' (ev_source e) \<noteq> None" if "e \<in> set h'" for e
      using that inv sent(1,4,5,6) by (auto simp: hm_get_insert)
    moreover have "completed t' s \<le> c \<and> (completed t' s < c \<longrightarrow> s \<in> ev_source ` set h')"
      if "count_of t' s = Some c" for s c
      using that inv bound new(2) sent(1,6) unfolding counts by (cases "s = ev_source ev") auto
    ultimately show ?thesis
      using inv new sent(1,6) unfolding events_inv_def by blast
  qed
  show "count_of t' src = count_of t src"
    using assms(1)
  proof (cases rule: produce_iteration_cases)
    case (sent ev h1 ev' tr)
    show ?thesis unfolding sent(4) count_of_insert using sent(2) by (simp add: count_of_def)
  qed simp_all
  show "\<forall>d \<in> set ds. dp_amount d \<noteq> 0 \<and> has_node (dp_source d)"
    using assms(1) by (cases rule: produce_iteration_cases) auto
  show "unat (completed t' src) = unat (completed t src) + dispatched_from src ds" if counted: "count_of t src \<noteq> None"
    using assms(1)
  proof (cases rule: produce_iteration_cases)
    case (sent ev h1 ev' tr)
    show ?thesis
    proof (cases "src = ev_source ev")
      case True
      from counted obtain c where c: "count_of t src = Some c" by blast
      have "completed t src < c" using le [OF c] sent(8) c True by (simp add: order.strict_iff_order)
      from less_imp_plus_one_le [OF this] sent(2,4,7) True show ?thesis
        by (simp add: completed_insert) (simp add: completed_def)
    qed (use sent in \<open>simp add: completed_insert\<close>)
  qed auto
qed

lemma iteration_result:
  "(\<exists>h t ds. res = Inr (Next h t ds)) \<or> (\<exists>e. res = Inl e) \<or> res = Inr Finished"
proof (cases res)
  case (Inr it)
  then show ?thesis by (cases it) auto
qed simp

subsection \<open>The whole loop\<close>

definition no_stop :: "tick list \<Rightarrow> bool" where
  "no_stop ticks \<longleftrightarrow> (\<forall>tick \<in> set ticks. \<not> stop_signalled tick \<and> \<not> stop_during_wait tick)"

lemma iteration_finished:
  assumes "produce_iteration has_node tick h t r = Some (Inr Finished, r')"
    and "\<not> stop_signalled tick" and "\<not> stop_during_wait tick"
  shows "h = []"
proof (cases h)
  case (Cons ev h1)
  with assms show ?thesis
    by (auto simp: produce_iteration_def Let_def gen_bind_gen_ok split: option.splits if_splits)
qed simp

lemma run_inv:
  "produce_payment_events has_node ticks h t r = Some (run, r') \<Longrightarrow> events_inv h t \<Longrightarrow>
   events_inv (run_heap run) (run_trackers run) \<and> count_of (run_trackers run) src = count_of t src \<and>
   (count_of t src \<noteq> None \<longrightarrow>
      unat (completed (run_trackers run) src) = unat (completed t src) + dispatched_from src (run_dispatches run)) \<and>
   (\<forall>d \<in> set (run_dispatches run). dp_amount d \<noteq> 0 \<and> has_node (dp_source d)) \<and>
   (run_end run = Ended (Inr ()) \<and> no_stop ticks \<longrightarrow> run_heap run = [])"
proof (induction ticks arbitrary: h t r run)
  case Nil
  then show ?case by auto
next
  case (Cons tick ticks)
  obtain res r1 where it: "produce_iteration has_node tick h t r = Some (res, r1)"
    using Cons.prems(1) by (auto split: option.splits)
  show ?case
  proof (cases "\<exists>h1 t1 ds. res = Inr (Next h1 t1 ds)")
    case False
    with iteration_result [of res] consider e where "res = Inl e" | "res = Inr Finished" by blast
    then show ?thesis
    proof cases
      case 1
      with Cons.prems it show ?thesis by auto
    next
      case 2
      with Cons.prems it iteration_finished [of has_node tick h t r r1] show ?thesis
        by (auto simp: no_stop_def)
    qed
  next
    case True
    then obtain h1 t1 ds where go: "produce_iteration has_node tick h t r = Some (Inr (Next h1 t1 ds), r1)"
      using it by auto
    from Cons.prems(1) go obtain run1 where
      rest: "produce_payment_events has_node ticks h1 t1 r1 = Some (run1, r')"
      and run: "run = run1\<lparr>run_dispatches := ds @ run_dispatches run1\<rparr>"
      by auto
    note step = produce_iteration_inv [OF go Cons.prems(2)]
    from Cons.IH [OF rest step(1)] step(2) [of src] step(3) [of src] step(4) run show ?thesis
      by (auto simp: no_stop_def)
  qed
qed

lemma run_count_exact:
  assumes "produce_payment_events has_node ticks h t r = Some (run, r')" and "events_inv h t"
    and "count_of t src = Some c" and "completed t src = 0"
  shows "dispatched_from src (run_dispatches run) \<le> unat c \<and>
    (run_end run = Ended (Inr ()) \<and> no_stop ticks \<longrightarrow> dispatched_from src (run_dispatches run) = unat c)"
proof -
  note run = run_inv [OF assms(1,2), of src]
  have total: "unat (completed (run_trackers run) src) = dispatched_from src (run_dispatches run)"
    using run assms(3,4) by simp
  have "events_inv (run_heap run) (run_trackers run)" "count_of (run_trackers run) src = Some c"
    using run assms(3) by simp_all
  then have le: "completed (run_trackers run) src \<le> c"
    and pending: "completed (run_trackers run) src < c \<longrightarrow> src \<in> ev_source ` set (run_heap run)"
    by (simp_all add: events_inv_def)
  have "completed (run_trackers run) src = c" if "run_end run = Ended (Inr ()) \<and> no_stop ticks"
  proof -
    have "run_heap run = []" using run that by blast
    with pending le show ?thesis by (simp add: order.order_iff_strict)
  qed
  with total le show ?thesis by (auto simp: word_le_nat_alt)
qed

subsection \<open>Who owns a source\<close>

text \<open>The trackers are keyed by source and the executors are entered in order (the sort is stable), so the
  last executor of a source replaces the others.\<close>

fun owner :: "'r executor_kit list \<Rightarrow> pubkey \<Rightarrow> 'r executor_kit option" where
  "owner [] src = None"
| "owner (ex # exs) src =
     (case owner exs src of
        Some kit \<Rightarrow> Some kit
      | None \<Rightarrow> if pubkey (source_info ex) = src then Some ex else None)"

definition of_source :: "pubkey \<Rightarrow> 'r executor_kit list \<Rightarrow> 'r executor_kit list" where
  "of_source src exs = filter (\<lambda>ex. pubkey (source_info ex) = src) exs"

lemma owner_last: "owner exs src = (if of_source src exs = [] then None else Some (last (of_source src exs)))"
  by (induction exs) (auto simp: of_source_def split: option.splits)

lemma owner_SomeD: "owner exs src = Some kit \<Longrightarrow> kit \<in> set exs \<and> pubkey (source_info kit) = src"
  by (induction exs) (auto split: option.splits if_splits)

lemma owner_None_iff: "owner exs src = None \<longleftrightarrow> src \<notin> (\<lambda>ex. pubkey (source_info ex)) ` set exs"
  by (induction exs) (auto split: option.splits)

lemma of_source_sorted [simp]:
  "of_source src (sort_key (\<lambda>ex. pubkey (source_info ex)) exs) = of_source src exs"
  unfolding of_source_def by (rule sort_key_stable)

lemma owner_sorted [simp]: "owner (sort_key (\<lambda>ex. pubkey (source_info ex)) exs) src = owner exs src"
  by (simp add: owner_last)

lemma owner_distinct:
  "distinct (map (\<lambda>ex. pubkey (source_info ex)) exs) \<Longrightarrow> ex \<in> set exs \<Longrightarrow> owner exs (pubkey (source_info ex)) = Some ex"
proof (induction exs)
  case (Cons e exs)
  then show ?case
    using owner_None_iff [of exs "pubkey (source_info e)"] by (auto split: option.split)
qed simp

lemma setup_loop_step:
  assumes "setup_loop now (ex # exs) h t r = Some (Inr (h', t'), r')"
  obtains ev r1 where "ev_source ev = pubkey (source_info ex)" "made_by ex ev"
    "setup_loop now exs (heap_push ev h) (hm_insert (pubkey (source_info ex)) \<lparr>executor = ex, payments_completed = 0\<rparr> t) r1 =
       Some (Inr (h', t'), r')"
proof -
  let ?t = "hm_insert (pubkey (source_info ex)) \<lparr>executor = ex, payments_completed = 0\<rparr> t"
  from assms obtain h1 r1 where gen: "generate_payment h (pubkey (source_info ex)) ?t now r = Some (Inr h1, r1)"
    and rest: "setup_loop now exs h1 ?t r1 = Some (Inr (h', t'), r')"
    by (auto simp: Let_def gen_bind_Inr)
  from gen obtain ev tr where "ev_source ev = pubkey (source_info ex)" "h1 = heap_push ev h"
    "hm_get ?t (pubkey (source_info ex)) = Some tr" "made_by (executor tr) ev"
    by (rule generate_payment_pushes)
  with rest that show thesis by (auto simp: hm_get_insert)
qed

lemma setup_loop_inv:
  "setup_loop now exs h t r = Some (Inr (h', t'), r') \<Longrightarrow> events_inv h t \<Longrightarrow>
   events_inv h' t' \<and> length h' = length h + length exs \<and>
   (\<forall>src. hm_get t' src =
      (case owner exs src of Some ex \<Rightarrow> Some \<lparr>executor = ex, payments_completed = 0\<rparr> | None \<Rightarrow> hm_get t src))"
proof (induction exs arbitrary: h t r)
  case (Cons ex exs)
  let ?src = "pubkey (source_info ex)"
  let ?t = "hm_insert ?src \<lparr>executor = ex, payments_completed = 0\<rparr> t"
  from Cons.prems(1) obtain ev r1 where ev: "ev_source ev = ?src"
    and rest: "setup_loop now exs (heap_push ev h) ?t r1 = Some (Inr (h', t'), r')"
    by (rule setup_loop_step)
  have "events_inv (heap_push ev h) ?t"
    unfolding events_inv_def
  proof (intro conjI allI ballI impI)
    show "heap_wf (heap_push ev h)" using Cons.prems(2) by (simp add: events_inv_def heap.wf_push)
    show "hm_get ?t (ev_source e) \<noteq> None" if "e \<in> set (heap_push ev h)" for e
      using that Cons.prems(2) ev by (auto simp: hm_get_insert events_inv_def)
    show "completed ?t s \<le> c" if "count_of ?t s = Some c" for s c
      using that Cons.prems(2) by (auto simp: completed_insert count_of_insert events_inv_def split: if_splits)
    show "s \<in> ev_source ` set (heap_push ev h)" if "count_of ?t s = Some c" "completed ?t s < c" for s c
      using that Cons.prems(2) ev by (auto simp: completed_insert count_of_insert events_inv_def split: if_splits)
  qed
  from Cons.IH [OF rest this] show ?case
    by (auto simp: heap_push_def hm_get_insert split: option.splits)
qed simp

lemma setup_inv:
  assumes "setup_payment_events now exs r = Some (Inr (h, t), r')"
  shows "events_inv h t" and "length h = length exs"
    and "hm_get t src = map_option (\<lambda>ex. \<lparr>executor = ex, payments_completed = 0\<rparr>) (owner exs src)"
proof -
  have "events_inv [] hm_new" by (simp add: events_inv_def heap_wf_def count_of_def)
  from setup_loop_inv [OF assms [unfolded setup_payment_events_def] this]
  show "events_inv h t" "length h = length exs"
    "hm_get t src = map_option (\<lambda>ex. \<lparr>executor = ex, payments_completed = 0\<rparr>) (owner exs src)"
    by (auto split: option.splits)
qed

subsection \<open>Who made the payments\<close>

definition executor_of :: "'r trackers \<Rightarrow> pubkey \<Rightarrow> 'r executor_kit option" where
  "executor_of t src = map_option executor (hm_get t src)"

lemma executor_of_insert: "executor_of (hm_insert src tr t) s = (if s = src then Some (executor tr) else executor_of t s)"
  by (simp add: executor_of_def hm_get_insert)

lemma setup_executors:
  "setup_payment_events now exs r = Some (Inr (h, t), r') \<Longrightarrow> executor_of t src = owner exs src"
  by (simp add: executor_of_def setup_inv(3) option.map_comp comp_def option.map_ident)

definition paid_by :: "'r executor_kit \<Rightarrow> dispatch \<Rightarrow> bool" where
  "paid_by kit d \<longleftrightarrow> made_by kit \<lparr>ev_source = dp_source d, ev_time = dp_time d, ev_destination = dp_destination d,
     ev_amount = dp_amount d\<rparr>"

lemma paid_by_event:
  "dp_destination d = ev_destination ev \<Longrightarrow> dp_amount d = ev_amount ev \<Longrightarrow> paid_by kit d \<longleftrightarrow> made_by kit ev"
  by (simp add: paid_by_def made_by_def)

text \<open>Every event was made by an executor of its source.\<close>

definition events_from :: "'r executor_kit set \<Rightarrow> event_heap \<Rightarrow> 'r trackers \<Rightarrow> bool" where
  "events_from K h t \<longleftrightarrow>
     (\<forall>e \<in> set h. \<exists>kit \<in> K. pubkey (source_info kit) = ev_source e \<and> made_by kit e) \<and>
     (\<forall>src kit. executor_of t src = Some kit \<longrightarrow> kit \<in> K \<and> pubkey (source_info kit) = src)"

text \<open>Payments of a source that its owner did not make: they were made before it took the source over.\<close>

definition stray_events :: "'r executor_kit \<Rightarrow> pubkey \<Rightarrow> event_heap \<Rightarrow> nat" where
  "stray_events kit src h = size (filter_mset (\<lambda>e. ev_source e = src \<and> \<not> made_by kit e) (mset h))"

definition stray_payments :: "'r executor_kit \<Rightarrow> pubkey \<Rightarrow> dispatch list \<Rightarrow> nat" where
  "stray_payments kit src ds = length (filter (\<lambda>d. dp_source d = src \<and> \<not> paid_by kit d) ds)"

lemma stray_events_simps [simp]:
  "stray_events kit src (e # h) = (if ev_source e = src \<and> \<not> made_by kit e then 1 else 0) + stray_events kit src h"
  "stray_events kit src (heap_push e h) = (if ev_source e = src \<and> \<not> made_by kit e then 1 else 0) + stray_events kit src h"
  by (simp_all add: stray_events_def heap_push_def)

lemma stray_payments_simps [simp]:
  "stray_payments kit src [] = 0" "stray_payments kit src (ds @ ds') = stray_payments kit src ds + stray_payments kit src ds'"
  by (simp_all add: stray_payments_def)

lemma iteration_executors:
  assumes "produce_iteration has_node tick h t r = Some (Inr (Next h' t' ds), r')"
  shows "executor_of t' = executor_of t"
  using assms
proof (cases rule: produce_iteration_cases)
  case (sent ev h1 ev' tr)
  then show ?thesis by (auto simp: executor_of_insert fun_eq_iff) (simp add: executor_of_def)
qed simp_all

lemma iteration_from:
  assumes "produce_iteration has_node tick h t r = Some (Inr (Next h' t' ds), r')" and "events_from K h t"
  shows "events_from K h' t'" and "\<forall>d \<in> set ds. \<exists>kit \<in> K. pubkey (source_info kit) = dp_source d \<and> paid_by kit d"
proof -
  have tracked: "kit \<in> K \<and> pubkey (source_info kit) = src" if "executor_of t src = Some kit" for src kit
    using assms(2) that by (simp add: events_from_def)
  have mine: "\<exists>kit \<in> K. pubkey (source_info kit) = ev_source ev' \<and> made_by kit ev'"
    if "hm_get t (ev_source ev') = Some tr" "made_by (executor tr) ev'" for ev' tr
    using that tracked [of "ev_source ev'" "executor tr"] by (auto simp: executor_of_def)
  show "events_from K h' t'"
    using assms(1)
  proof (cases rule: produce_iteration_cases)
    case (met ev)
    with assms(2) show ?thesis by (simp add: events_from_def)
  next
    case (skipped ev h1 ev')
    then obtain tr where "hm_get t (ev_source ev') = Some tr" "made_by (executor tr) ev'" by auto
    with assms(2) skipped mine [of ev' tr] show ?thesis by (simp add: events_from_def)
  next
    case (sent ev h1 ev' tr)
    with assms(2) mine [of ev' tr] show ?thesis
      unfolding events_from_def iteration_executors [OF assms(1)] by simp
  qed
  show "\<forall>d \<in> set ds. \<exists>kit \<in> K. pubkey (source_info kit) = dp_source d \<and> paid_by kit d"
    using assms(1)
  proof (cases rule: produce_iteration_cases)
    case (sent ev h1 ev' tr)
    with assms(2) show ?thesis by (auto simp: events_from_def paid_by_event)
  qed simp_all
qed

lemma iteration_strays:
  assumes "produce_iteration has_node tick h t r = Some (Inr (Next h' t' ds), r')" and "executor_of t src = Some kit"
  shows "stray_payments kit src ds + stray_events kit src h' \<le> stray_events kit src h"
  using assms(1)
proof (cases rule: produce_iteration_cases)
  case (sent ev h1 ev' tr)
  have "paid_by kit \<lparr>dp_source = ev_source ev, dp_destination = ev_destination ev, dp_amount = ev_amount ev,
      dp_time = dispatch_now tick\<rparr> \<longleftrightarrow> made_by kit ev" by (rule paid_by_event) simp_all
  with sent assms(2) show ?thesis by (auto simp: executor_of_def stray_payments_def)
qed (use assms(2) in \<open>auto simp: executor_of_def\<close>)

lemma run_strays:
  "produce_payment_events has_node ticks h t r = Some (run, r') \<Longrightarrow> executor_of t src = Some kit \<Longrightarrow>
   stray_payments kit src (run_dispatches run) \<le> stray_events kit src h"
proof (induction ticks arbitrary: h t r run)
  case (Cons tick ticks)
  obtain res r1 where it: "produce_iteration has_node tick h t r = Some (res, r1)"
    using Cons.prems(1) by (auto split: option.splits)
  show ?case
  proof (cases "\<exists>h1 t1 ds. res = Inr (Next h1 t1 ds)")
    case False
    with iteration_result [of res] consider e where "res = Inl e" | "res = Inr Finished" by blast
    then show ?thesis using Cons.prems(1) it by cases auto
  next
    case True
    then obtain h1 t1 ds where go: "produce_iteration has_node tick h t r = Some (Inr (Next h1 t1 ds), r1)"
      using it by auto
    from Cons.prems(1) go obtain run1 where
      rest: "produce_payment_events has_node ticks h1 t1 r1 = Some (run1, r')"
      and run: "run = run1\<lparr>run_dispatches := ds @ run_dispatches run1\<rparr>" by auto
    have "executor_of t1 src = Some kit" using iteration_executors [OF go] Cons.prems(2) by simp
    from Cons.IH [OF rest this] iteration_strays [OF go Cons.prems(2)] run show ?thesis by simp
  qed
qed auto

lemma run_from:
  "produce_payment_events has_node ticks h t r = Some (run, r') \<Longrightarrow> events_from K h t \<Longrightarrow>
   \<forall>d \<in> set (run_dispatches run). \<exists>kit \<in> K. pubkey (source_info kit) = dp_source d \<and> paid_by kit d"
proof (induction ticks arbitrary: h t r run)
  case (Cons tick ticks)
  obtain res r1 where it: "produce_iteration has_node tick h t r = Some (res, r1)"
    using Cons.prems(1) by (auto split: option.splits)
  show ?case
  proof (cases "\<exists>h1 t1 ds. res = Inr (Next h1 t1 ds)")
    case False
    with iteration_result [of res] consider e where "res = Inl e" | "res = Inr Finished" by blast
    then show ?thesis using Cons.prems(1) it by cases auto
  next
    case True
    then obtain h1 t1 ds where go: "produce_iteration has_node tick h t r = Some (Inr (Next h1 t1 ds), r1)"
      using it by auto
    from Cons.prems(1) go obtain run1 where
      rest: "produce_payment_events has_node ticks h1 t1 r1 = Some (run1, r')"
      and run: "run = run1\<lparr>run_dispatches := ds @ run_dispatches run1\<rparr>" by auto
    note step = iteration_from [OF go Cons.prems(2)]
    from Cons.IH [OF rest step(1)] step(2) run show ?thesis by auto
  qed
qed auto

lemma setup_loop_from:
  "setup_loop now exs h t r = Some (Inr (h', t'), r') \<Longrightarrow> events_from K h t \<Longrightarrow> set exs \<subseteq> K \<Longrightarrow> events_from K h' t'"
proof (induction exs arbitrary: h t r)
  case (Cons ex exs)
  from Cons.prems(1) obtain ev r1 where ev: "ev_source ev = pubkey (source_info ex)" "made_by ex ev"
    and rest: "setup_loop now exs (heap_push ev h)
      (hm_insert (pubkey (source_info ex)) \<lparr>executor = ex, payments_completed = 0\<rparr> t) r1 = Some (Inr (h', t'), r')"
    by (rule setup_loop_step)
  have "events_from K (heap_push ev h) (hm_insert (pubkey (source_info ex)) \<lparr>executor = ex, payments_completed = 0\<rparr> t)"
    using Cons.prems(2,3) ev by (auto simp: events_from_def executor_of_insert)
  with Cons.IH [OF rest] Cons.prems(3) show ?case by simp
qed simp

lemma setup_loop_strays:
  "setup_loop now exs h t r = Some (Inr (h', t'), r') \<Longrightarrow>
   stray_events kit src h' \<le> stray_events kit src h + length (of_source src exs) \<and>
   (owner exs src = Some kit \<longrightarrow> stray_events kit src h' < stray_events kit src h + length (of_source src exs))"
proof (induction exs arbitrary: h t r)
  case (Cons ex exs)
  from Cons.prems obtain ev r1 where ev: "ev_source ev = pubkey (source_info ex)" "made_by ex ev"
    and rest: "setup_loop now exs (heap_push ev h)
      (hm_insert (pubkey (source_info ex)) \<lparr>executor = ex, payments_completed = 0\<rparr> t) r1 = Some (Inr (h', t'), r')"
    by (rule setup_loop_step)
  from Cons.IH [OF rest] ev show ?case by (auto simp: of_source_def split: option.splits if_splits)
qed (simp add: of_source_def)

lemma setup_from:
  assumes "setup_payment_events now exs r = Some (Inr (h, t), r')"
  shows "events_from (set exs) h t"
    and "owner exs src = Some kit \<Longrightarrow> stray_events kit src h < length (of_source src exs)"
proof -
  note loop = assms [unfolded setup_payment_events_def]
  have "events_from (set exs) [] hm_new" by (simp add: events_from_def executor_of_def)
  then show "events_from (set exs) h t" by (rule setup_loop_from [OF loop]) simp
  show "stray_events kit src h < length (of_source src exs)" if "owner exs src = Some kit"
    using setup_loop_strays [OF loop, of kit src] that by (simp add: stray_events_def)
qed

subsection \<open>The loop ends\<close>

definition remaining :: "'r trackers \<Rightarrow> pubkey \<Rightarrow> nat" where
  "remaining t src = (case count_of t src of None \<Rightarrow> 0 | Some c \<Rightarrow> unat c - unat (completed t src))"

definition work_left :: "event_heap \<Rightarrow> 'r trackers \<Rightarrow> nat" where
  "work_left h t = sum_list (map (\<lambda>e. Suc (remaining t (ev_source e))) h)"

definition counted :: "event_heap \<Rightarrow> 'r trackers \<Rightarrow> bool" where
  "counted h t \<longleftrightarrow> (\<forall>e \<in> set h. count_of t (ev_source e) \<noteq> None \<and> ev_amount e \<noteq> 0) \<and>
     (\<forall>src tr cap s s'. hm_get t src = Some tr \<longrightarrow>
        payment_amount (kit_payment_generator (executor tr)) cap s \<noteq> Some (Inr 0, s'))"

lemma work_left_push: "work_left (heap_push e h) t = Suc (remaining t (ev_source e)) + work_left h t"
proof -
  have "mset (map (\<lambda>e. Suc (remaining t (ev_source e))) (heap_push e h))
      = mset (map (\<lambda>e. Suc (remaining t (ev_source e))) (e # h))"
    by (simp add: heap_push_def)
  from arg_cong [OF this, of sum_mset] show ?thesis
    unfolding sum_mset_sum_list by (simp add: work_left_def)
qed

lemma iteration_progress:
  assumes "produce_iteration has_node tick h t r = Some (Inr (Next h' t' ds), r')"
    and "events_inv h t" and "counted h t"
  shows "work_left h' t' < work_left h t" and "counted h' t'"
proof -
  have "work_left h' t' < work_left h t \<and> counted h' t'"
    using assms(1)
  proof (cases rule: produce_iteration_cases)
    case (met ev)
    with assms(3) show ?thesis by (simp add: work_left_def counted_def)
  next
    case (skipped ev h1 ev')
    with assms(3) show ?thesis by (simp add: counted_def)
  next
    case (sent ev h1 ev' tr)
    note inv = assms(2) [unfolded events_inv_def]
    obtain c where c: "count_of t (ev_source ev) = Some c"
      using assms(3) sent(1) by (auto simp: counted_def)
    have "completed t (ev_source ev) < c"
      using inv sent(8) c by (force simp: order.strict_iff_order)
    from less_imp_plus_one_le [OF this] have plus: "unat (completed t (ev_source ev) + 1) = Suc (unat (completed t (ev_source ev)))"
      and lt: "unat (completed t (ev_source ev)) < unat c"
      using \<open>completed t (ev_source ev) < c\<close> by (simp_all add: word_less_nat_alt)
    have counts: "count_of t' s = count_of t s"
      "completed t' s = (if s = ev_source ev then completed t s + 1 else completed t s)" for s
      unfolding sent(4) count_of_insert completed_insert
      using sent(2) by (auto simp: count_of_def completed_def)
    have rem: "Suc (remaining t' (ev_source ev)) = remaining t (ev_source ev)"
      unfolding remaining_def counts using c plus lt by simp
    have "remaining t' s \<le> remaining t s" for s
      using rem unfolding remaining_def counts by (cases "s = ev_source ev") (auto split: option.splits)
    then have rest: "work_left h1 t' \<le> work_left h1 t"
      unfolding work_left_def by (intro sum_list_mono) simp
    have "work_left h' t' < work_left h t"
      unfolding sent(6) work_left_push sent(5) using rem rest by (simp add: work_left_def sent(1))
    moreover have "ev_amount ev' \<noteq> 0"
      using made_by_amount [OF sent(10)] sent(2) assms(3) by (metis counted_def)
    then have "counted h' t'"
      using assms(3) c sent(1,2,5,6) unfolding counted_def counts
      by (auto simp: sent(4) hm_get_insert)
    ultimately show ?thesis ..
  qed
  then show "work_left h' t' < work_left h t" "counted h' t'" by simp_all
qed

lemma run_terminates:
  "produce_payment_events has_node ticks h t r = Some (run, r') \<Longrightarrow> events_inv h t \<Longrightarrow> counted h t \<Longrightarrow>
   work_left h t < length ticks \<Longrightarrow> run_end run \<noteq> StillRunning"
proof (induction ticks arbitrary: h t r run)
  case (Cons tick ticks)
  obtain res r1 where it: "produce_iteration has_node tick h t r = Some (res, r1)"
    using Cons.prems(1) by (auto split: option.splits)
  show ?case
  proof (cases "\<exists>h1 t1 ds. res = Inr (Next h1 t1 ds)")
    case False
    with iteration_result [of res] consider e where "res = Inl e" | "res = Inr Finished" by blast
    then show ?thesis
      using Cons.prems(1) it by cases auto
  next
    case True
    then obtain h1 t1 ds where go: "produce_iteration has_node tick h t r = Some (Inr (Next h1 t1 ds), r1)"
      using it by auto
    from Cons.prems(1) go obtain run1 where
      rest: "produce_payment_events has_node ticks h1 t1 r1 = Some (run1, r')"
      and run: "run = run1\<lparr>run_dispatches := ds @ run_dispatches run1\<rparr>"
      by auto
    note progress = iteration_progress [OF go Cons.prems(2,3)]
    have "run_end run1 \<noteq> StillRunning"
      using progress Cons.prems(4)
      by (intro Cons.IH [OF rest produce_iteration_inv(1) [OF go Cons.prems(2)]]) auto
    with run show ?thesis by simp
  qed
qed simp

lemma work_left_setup:
  assumes "setup_payment_events now exs r = Some (Inr (h, t), r')"
    and "\<forall>ex \<in> set exs. \<exists>c. payment_count (kit_payment_generator ex) = Some c \<and> unat c \<le> n"
  shows "work_left h t \<le> length exs * Suc n" and "\<forall>e \<in> set h. count_of t (ev_source e) \<noteq> None"
proof -
  note start = setup_inv [OF assms(1)]
  have each: "count_of t (ev_source e) \<noteq> None \<and> remaining t (ev_source e) \<le> n" if "e \<in> set h" for e
  proof -
    have "hm_get t (ev_source e) \<noteq> None"
      using start(1) [unfolded events_inv_def] that by simp
    then obtain ex where ex: "owner exs (ev_source e) = Some ex" by (auto simp: start(3))
    with owner_SomeD [OF ex] assms(2) obtain c where "payment_count (kit_payment_generator ex) = Some c" "unat c \<le> n"
      by blast
    then show ?thesis
      by (simp add: remaining_def count_of_def start(3) ex)
  qed
  then show "\<forall>e \<in> set h. count_of t (ev_source e) \<noteq> None" by blast
  have "sum_list (map (\<lambda>e. Suc (remaining t (ev_source e))) h) \<le> sum_list (map (\<lambda>e. Suc n) h)"
    using each by (intro sum_list_mono) simp
  then show "work_left h t \<le> length exs * Suc n"
    by (simp add: work_left_def sum_list_triv start(2))
qed

subsection \<open>A worked example\<close>

definition demo_ranges :: "unit range_ops" where
  "demo_ranges = \<lparr>gen_range_u16 = (\<lambda>x y r. (x, r)), gen_range_u64 = (\<lambda>x y r. (x, r))\<rparr>"

text \<open>Payments of 5 msat from one node to another: the first after \<open>start\<close> seconds, then one a second.\<close>

definition demo_kit :: "nat \<Rightarrow> nat \<Rightarrow> nat \<Rightarrow> u64 \<Rightarrow> unit executor_kit" where
  "demo_kit source destination start cnt =
     (let da = defined_activity_new (demo_info destination) (Some (duration_from_secs start)) (Some cnt) (Value 1) (Value 5)
      in \<lparr>source_info = demo_info source, network_generator = defined_destination_generator da,
          kit_payment_generator = defined_payment_generator demo_ranges da\<rparr>)"

definition demo_tick :: tick where
  "demo_tick = \<lparr>stop_signalled = False, pop_now = 0, skip_now = 0, stop_during_wait = False, fire_now = 0,
     dispatch_now = 0\<rparr>"

definition demo_ticks :: "tick list" where
  "demo_ticks = [demo_tick, demo_tick, demo_tick, demo_tick, demo_tick, demo_tick, demo_tick, demo_tick]"

lemmas demo_kit_eval = demo_ticks_def demo_kit_def demo_ranges_def demo_info_def demo_tick_def defined_activity_new_def
  defined_destination_generator_def defined_payment_generator_def defined_choose_destination_def
  defined_next_payment_wait_def defined_payment_amount_def duration_from_secs_def Let_def

lemmas event_eval = setup_payment_events_def generate_payment_def get_payment_delay_def gen_bind_def gen_map_err_def
  system_time_checked_add_def heap_push_def event_key_def hm_get_def hm_new_def produce_iteration_def demo_kit_eval

definition demo_exs :: "unit executor_kit list" where
  "demo_exs = [demo_kit 2 1 1 1, demo_kit 1 2 3 2]"

lemma demo_exs_distinct: "distinct (map (\<lambda>ex. pubkey (source_info ex)) demo_exs)"
  by (simp add: demo_exs_def demo_kit_def demo_info_def Let_def)

definition demo_setup :: "event_heap \<times> unit trackers" where
  "demo_setup = (case setup_payment_events 0 demo_exs () of Some (Inr s, _) \<Rightarrow> s)"

lemma demo_setup_ok: "setup_payment_events 0 demo_exs () = Some (Inr (fst demo_setup, snd demo_setup), ())"
  by (simp add: demo_setup_def demo_exs_def event_eval)

definition demo_run :: "unit run" where
  "demo_run = fst (the (produce_payment_events (\<lambda>_. True) demo_ticks (fst demo_setup) (snd demo_setup) ()))"

lemma demo_run_ok: "produce_payment_events (\<lambda>_. True) demo_ticks (fst demo_setup) (snd demo_setup) () =
    Some (demo_run, ())"
  by (simp add: demo_run_def demo_setup_def demo_exs_def event_eval)

lemma demo_run_end: "run_end demo_run = Ended (Inr ())"
  by (simp add: demo_run_def demo_setup_def demo_exs_def event_eval)

subsection \<open>The properties\<close>

text \<open>C16. Payment counts are exact. When the generator of the executor that owns a source has a payment
  count, no more payments than its count are ever dispatched from the source, whatever the clock
  reads, and when the loop runs until it has no more events (no shutdown, no generator error) exactly
  that many were. The owner of a source is its last executor: with one executor per source, each of
  them. No payment of amount zero is ever dispatched, and only nodes of the simulation send.\<close>

theorem payments_match_count:
  assumes "setup_payment_events now exs r = Some (Inr (h, t), r1)"
    and "produce_payment_events has_node ticks h t r1 = Some (run, r2)"
    and "owner exs src = Some ex" and "payment_count (kit_payment_generator ex) = Some c"
  shows "dispatched_from src (run_dispatches run) \<le> unat c \<and>
    (run_end run = Ended (Inr ()) \<and> no_stop ticks \<longrightarrow> dispatched_from src (run_dispatches run) = unat c) \<and>
    (\<forall>d \<in> set (run_dispatches run). dp_amount d \<noteq> 0 \<and> has_node (dp_source d))"
proof -
  note start = setup_inv [OF assms(1)]
  have at: "count_of t src = Some c" "completed t src = 0"
    using start(3) [of src] assms(3,4) by (simp_all add: count_of_def completed_def)
  from run_count_exact [OF assms(2) start(1) at] run_inv [OF assms(2) start(1), of src]
  show ?thesis by blast
qed

theorem payments_match_count_witness:
  "dispatched_from (PublicKey 1) (run_dispatches demo_run) = 2"
proof -
  have own: "owner demo_exs (PublicKey 1) = Some (demo_kit 1 2 3 2)" by (simp add: demo_exs_def demo_kit_def demo_info_def Let_def)
  have cnt: "payment_count (kit_payment_generator (demo_kit 1 2 3 2)) = Some 2"
    by (simp add: demo_kit_eval)
  have "no_stop demo_ticks" by (simp add: no_stop_def demo_ticks_def demo_tick_def)
  with payments_match_count [OF demo_setup_ok demo_run_ok own cnt] demo_run_end
  show ?thesis by simp
qed

text \<open>C34. The simulation runs out of payments. When every generator has a count of at most \<open>n\<close> and
  never produces a zero amount, the loop has ended after at most \<open>executors * (n + 1) + 1\<close>
  iterations: each of them either dispatches a payment that is still owed or retires an executor.\<close>

theorem payment_events_terminate:
  assumes "setup_payment_events now exs r = Some (Inr (h, t), r1)"
    and "produce_payment_events has_node ticks h t r1 = Some (run, r2)"
    and "\<forall>ex \<in> set exs. \<exists>c. payment_count (kit_payment_generator ex) = Some c \<and> unat c \<le> n"
    and "\<forall>ex \<in> set exs. \<forall>cap s s'. payment_amount (kit_payment_generator ex) cap s \<noteq> Some (Inr 0, s')"
    and "\<forall>e \<in> set h. ev_amount e \<noteq> 0"
    and "length exs * Suc n < length ticks"
  shows "run_end run \<noteq> StillRunning"
proof -
  note start = setup_inv [OF assms(1)] and work = work_left_setup [OF assms(1,3)]
  have "payment_amount (kit_payment_generator (executor tr)) cap s \<noteq> Some (Inr 0, s')"
    if "hm_get t src = Some tr" for src tr cap s s'
    using that assms(4) by (auto simp: start(3) dest: owner_SomeD)
  then have "counted h t"
    using work(2) assms(5) by (simp add: counted_def)
  from run_terminates [OF assms(2) start(1) this] work(1) assms(6) show ?thesis by simp
qed

theorem payment_events_terminate_witness: "run_end demo_run \<noteq> StillRunning"
proof (rule payment_events_terminate [OF demo_setup_ok demo_run_ok, where n = 2])
  show "\<forall>ex \<in> set demo_exs. \<exists>c. payment_count (kit_payment_generator ex) = Some c \<and> unat c \<le> 2"
    by (simp add: demo_exs_def demo_kit_eval)
  show "\<forall>ex \<in> set demo_exs. \<forall>cap s s'. payment_amount (kit_payment_generator ex) cap s \<noteq> Some (Inr 0, s')"
    by (auto simp: demo_exs_def demo_kit_eval)
  show "\<forall>e \<in> set (fst demo_setup). ev_amount e \<noteq> 0"
    by (simp add: demo_setup_def demo_exs_def event_eval)
  show "length demo_exs * Suc 2 < length demo_ticks"
    by (simp add: demo_exs_def demo_ticks_def)
qed

text \<open>Runs do not depend on the order in which the executors are listed (for random activity: the
  iteration order of a hash map). With one executor per source node, any permutation of them sets up
  the same heap and trackers and draws the same random numbers.\<close>

theorem setup_order_independent:
  assumes "mset exs = mset exs'" and "distinct (map (\<lambda>ex. pubkey (source_info ex)) exs)"
  shows "setup_payment_events now exs = setup_payment_events now exs'"
proof -
  have "sort_key (\<lambda>ex. pubkey (source_info ex)) exs = sort_key (\<lambda>ex. pubkey (source_info ex)) exs'"
    using assms by (intro sort_key_inj_key_eq) (auto simp: distinct_map)
  then show ?thesis by (simp add: setup_payment_events_def)
qed

theorem setup_order_independent_witness:
  "setup_payment_events 0 [demo_kit 2 1 1 1, demo_kit 1 2 3 2] = setup_payment_events 0 [demo_kit 1 2 3 2, demo_kit 2 1 1 1]"
  by (rule setup_order_independent) (simp_all add: demo_kit_def demo_info_def Let_def)

text \<open>The loop dispatches events in the order of their time, ties broken by source: what is
  dispatched is a least event of the heap, and the event pushed in its place has the same source.\<close>

theorem earliest_event_first:
  assumes "heap_wf h" and "produce_iteration has_node tick h t r = Some (Inr (Next h' t' [d]), r')"
  shows "\<exists>ev ev'. ev \<in> set h \<and> (\<forall>e \<in> set h. event_key ev \<le> event_key e) \<and>
    d = \<lparr>dp_source = ev_source ev, dp_destination = ev_destination ev, dp_amount = ev_amount ev,
         dp_time = dispatch_now tick\<rparr> \<and>
    ev_source ev' = ev_source ev \<and> mset h' = add_mset ev' (mset h - {#ev#})"
  using assms(2)
proof (cases rule: produce_iteration_cases)
  case (sent ev h1 ev' tr)
  with assms(1) have "\<forall>e \<in> set h. event_key ev \<le> event_key e" by (auto simp: heap_wf_def)
  with sent show ?thesis by (intro exI [of _ ev] exI [of _ ev']) (simp add: heap_push_def)
qed simp_all

theorem earliest_event_first_witness:
  "\<exists>ev. ev \<in> set (fst demo_setup) \<and> (\<forall>e \<in> set (fst demo_setup). event_key ev \<le> event_key e) \<and>
     ev_source ev = PublicKey 2"
proof -
  have inv: "heap_wf (fst demo_setup)"
    using setup_inv(1) [OF demo_setup_ok] by (simp add: events_inv_def)
  obtain h' t' d r' where "produce_iteration (\<lambda>_. True) demo_tick (fst demo_setup) (snd demo_setup) ()
      = Some (Inr (Next h' t' [d]), r')" "dp_source d = PublicKey 2"
    by (simp add: demo_setup_def demo_exs_def event_eval)
  with earliest_event_first [OF inv, of "\<lambda>_. True" demo_tick "snd demo_setup" "()" h' t' d r'] show ?thesis by auto
qed

text \<open>C40. Activities that share a source starve. When several executors have the same source, the tracker
  of the last one replaces those of the others while each keeps an event in the heap. All payments from
  the source but at most one for each other executor (the one made during the set-up) are of the last
  executor; and when that one has a count, the payments of all of them together are no more than its
  count, and exactly as many when the loop has run out of events.\<close>

theorem duplicate_source_loses_payments:
  assumes "setup_payment_events now exs r = Some (Inr (h, t), r1)"
    and "produce_payment_events has_node ticks h t r1 = Some (run, r2)"
    and "owner exs src = Some ex"
  shows "stray_payments ex src (run_dispatches run) < length (of_source src exs) \<and>
    (\<forall>d \<in> set (run_dispatches run). \<exists>kit \<in> set (of_source (dp_source d) exs). paid_by kit d) \<and>
    (\<forall>c. payment_count (kit_payment_generator ex) = Some c \<longrightarrow>
       dispatched_from src (run_dispatches run) \<le> unat c \<and>
       (run_end run = Ended (Inr ()) \<and> no_stop ticks \<longrightarrow> dispatched_from src (run_dispatches run) = unat c))"
proof -
  note start = setup_inv [OF assms(1)] and made = setup_from [OF assms(1)]
  have "executor_of t src = Some ex" using setup_executors [OF assms(1)] assms(3) by simp
  from run_strays [OF assms(2) this] made(2) [OF assms(3)]
  have "stray_payments ex src (run_dispatches run) < length (of_source src exs)" by simp
  moreover have "dispatched_from src (run_dispatches run) \<le> unat c \<and>
      (run_end run = Ended (Inr ()) \<and> no_stop ticks \<longrightarrow> dispatched_from src (run_dispatches run) = unat c)"
    if "payment_count (kit_payment_generator ex) = Some c" for c
    using run_count_exact [OF assms(2) start(1), of src c] start(3) [of src] assms(3) that
    by (simp add: count_of_def completed_def)
  ultimately show ?thesis using run_from [OF assms(2) made(1)] by (fastforce simp: of_source_def)
qed

text \<open>Two activities of two payments each, from node 1 to node 2 and from node 1 to node 3: one payment goes
  to each, and the loop ends two payments short.\<close>

definition twice_exs :: "unit executor_kit list" where
  "twice_exs = [demo_kit 1 2 1 2, demo_kit 1 3 5 2]"

definition twice_setup :: "event_heap \<times> unit trackers" where
  "twice_setup = (case setup_payment_events 0 twice_exs () of Some (Inr s, _) \<Rightarrow> s)"

lemma twice_setup_ok: "setup_payment_events 0 twice_exs () = Some (Inr (fst twice_setup, snd twice_setup), ())"
  by (simp add: twice_setup_def twice_exs_def event_eval)

definition twice_run :: "unit run" where
  "twice_run = fst (the (produce_payment_events (\<lambda>_. True) demo_ticks (fst twice_setup) (snd twice_setup) ()))"

lemma twice_run_ok:
  "produce_payment_events (\<lambda>_. True) demo_ticks (fst twice_setup) (snd twice_setup) () = Some (twice_run, ())"
  by (simp add: twice_run_def twice_setup_def twice_exs_def event_eval)

lemma twice_run_value: "run_end twice_run = Ended (Inr ())"
  "map (\<lambda>d. pubkey (dp_destination d)) (run_dispatches twice_run) = [PublicKey 2, PublicKey 3]"
  by (simp_all add: twice_run_def twice_setup_def twice_exs_def event_eval)

theorem duplicate_source_loses_payments_witness:
  "dispatched_from (PublicKey 1) (run_dispatches twice_run) = 2 \<and>
   stray_payments (demo_kit 1 3 5 2) (PublicKey 1) (run_dispatches twice_run) \<le> 1 \<and>
   sum_list (map (\<lambda>ex. case payment_count (kit_payment_generator ex) of Some c \<Rightarrow> unat c | None \<Rightarrow> 0) twice_exs) = 4"
proof -
  have own: "owner twice_exs (PublicKey 1) = Some (demo_kit 1 3 5 2)"
    and two: "length (of_source (PublicKey 1) twice_exs) = 2"
    by (simp_all add: twice_exs_def of_source_def demo_kit_def demo_info_def Let_def)
  have "payment_count (kit_payment_generator (demo_kit 1 3 5 2)) = Some 2"
    "sum_list (map (\<lambda>ex. case payment_count (kit_payment_generator ex) of Some c \<Rightarrow> unat c | None \<Rightarrow> 0) twice_exs) = 4"
    by (simp_all add: demo_kit_eval twice_exs_def)
  moreover have "no_stop demo_ticks" by (simp add: no_stop_def demo_ticks_def demo_tick_def)
  ultimately show ?thesis
    using duplicate_source_loses_payments [OF twice_setup_ok twice_run_ok own] twice_run_value(1) two by simp
qed

text \<open>The wait before a payment. If the clock advances by exactly the wait, a payment whose time
  has passed goes out at once, one that lies whole seconds ahead goes out exactly on time, and any
  other at most half a second early or late: the wait is rounded to the nearest second.\<close>

theorem event_wait_accuracy:
  assumes "\<forall>d < 2 ^ 52 * nanos_per_sec. 2 * round_secs d * nanos_per_sec \<le> 2 * d + nanos_per_sec \<and>
      2 * d \<le> 2 * round_secs d * nanos_per_sec + nanos_per_sec"
    and "time < now + 2 ^ 52 * nanos_per_sec"
  shows "(time \<le> now \<longrightarrow> now + event_wait round_secs time now \<le> now + nanos_per_sec div 2) \<and>
    (now \<le> time \<longrightarrow>
       2 * (now + event_wait round_secs time now) \<le> 2 * time + nanos_per_sec \<and>
       2 * time \<le> 2 * (now + event_wait round_secs time now) + nanos_per_sec) \<and>
    (now \<le> time \<and> nanos_per_sec dvd time - now \<longrightarrow> now + event_wait round_secs time now = time)"
proof (cases "now \<le> time")
  case True
  define d where "d = time - now"
  then have d: "time = now + d" "d < 2 ^ 52 * nanos_per_sec" using True assms(2) by simp_all
  from assms(1) d(2) have r: "2 * round_secs d * nanos_per_sec \<le> 2 * d + nanos_per_sec"
    "2 * d \<le> 2 * round_secs d * nanos_per_sec + nanos_per_sec" by blast+
  have wait: "event_wait round_secs time now = round_secs d * nanos_per_sec"
    by (simp add: event_wait_def duration_from_secs_def d(1))
  have exact: "round_secs d * nanos_per_sec = d" if dvd: "nanos_per_sec dvd d"
  proof -
    from dvd obtain k where k: "d = nanos_per_sec * k" ..
    then have "2 * round_secs d \<le> 2 * k + 1" "2 * k \<le> 2 * round_secs d + 1" using r by simp_all
    then have "round_secs d = k" by presburger
    with k show ?thesis by simp
  qed
  show ?thesis
    using r exact unfolding wait unfolding d(1) by (cases "d = 0") auto
qed (simp add: event_wait_def duration_from_secs_def)

theorem event_wait_accuracy_witness:
  "3 + event_wait (\<lambda>d. (d + 500000000) div 1000000000) 7000000003 3 = 7000000003"
proof -
  have round: "\<forall>d < 2 ^ 52 * nanos_per_sec.
      2 * ((d + 500000000) div 1000000000) * nanos_per_sec \<le> 2 * d + nanos_per_sec \<and>
      2 * d \<le> 2 * ((d + 500000000) div 1000000000) * nanos_per_sec + nanos_per_sec"
  proof (intro allI impI)
    fix d :: nat
    have "(d + 500000000) div 1000000000 * 1000000000 \<le> d + 500000000"
      by (rule div_times_less_eq_dividend)
    moreover have "d + 500000000 < 1000000000 + (d + 500000000) div 1000000000 * 1000000000"
      by (rule dividend_less_div_times) simp
    ultimately show "2 * ((d + 500000000) div 1000000000) * nanos_per_sec \<le> 2 * d + nanos_per_sec \<and>
      2 * d \<le> 2 * ((d + 500000000) div 1000000000) * nanos_per_sec + nanos_per_sec"
      by linarith
  qed
  have "(3 :: nat) \<le> 7000000003 \<and> nanos_per_sec dvd 7000000003 - 3" by simp
  with event_wait_accuracy [OF round, of 7000000003 3] show ?thesis by simp
qed

end
