(* ===== verification/Simulation.thy ===== *)
theory Simulation
  imports Events
begin

section \<open>The simulation: configuration, validation, set-up (simln-lib/src/lib.rs)\<close>

text \<open>
  \<open>SimulationCfg\<close>, \<open>MutRng\<close> and the methods of \<open>Simulation\<close> that check the configuration and build
  the executors: \<open>validate_activity\<close>, \<open>validate_node_network\<close>, \<open>activity_executors\<close>,
  \<open>random_activity_nodes\<close>, \<open>internal_run\<close> and \<open>run\<close>.

  A \<open>LightningNode\<close> is a record of its methods. \<open>send_payment\<close> and \<open>track_payment\<close> act on a world
  of type \<open>'s\<close>; the other calls are made once, during the set-up, and are their answers (a call of
  \<open>get_graph\<close> may panic: \<open>None\<close>). The tasks
  that \<open>internal_run\<close> spawns are returned as a list.
\<close>

subsection \<open>Nodes\<close>

record 's lightning_node =
  ln_info :: node_info
  ln_network :: network
  ln_send_payment :: "pubkey \<Rightarrow> u64 \<Rightarrow> 's \<Rightarrow> (lightning_error + payment_hash) \<times> 's"
  ln_track_payment :: "payment_hash \<Rightarrow> 's \<Rightarrow> (lightning_error + payment_result) \<times> 's"
  ln_get_node_info :: "pubkey \<Rightarrow> lightning_error + node_info"
  ln_channel_capacities :: "lightning_error + u64"
  ln_get_graph :: "(lightning_error + (pubkey, node_info) hmap) option"

type_synonym 's nodes = "(pubkey, 's lightning_node) hmap"

text \<open>What the display of a node is made of.\<close>

definition node_args :: "node_info \<Rightarrow> msg_arg list" where
  "node_args n = [ArgStr (node_alias n), ArgPk (pubkey n)]"

subsection \<open>Configuration\<close>

record write_results =
  results_dir :: string
  batch_size :: u32

record 'f simulation_cfg =
  total_time :: "duration option"
  expected_payment_msat :: u64
  activity_multiplier :: 'f
  cfg_write_results :: "write_results option"
  cfg_seed :: "u64 option"

definition simulation_cfg_new ::
  "u32 option \<Rightarrow> u64 \<Rightarrow> 'f \<Rightarrow> write_results option \<Rightarrow> u64 option \<Rightarrow> 'f simulation_cfg" where
  "simulation_cfg_new total_secs expected multiplier results seed =
     \<lparr>total_time = map_option (\<lambda>x. duration_from_secs (unat x)) total_secs,
      expected_payment_msat = expected, activity_multiplier = multiplier,
      cfg_write_results = results, cfg_seed = seed\<rparr>"

subsection \<open>Random number generators\<close>

text \<open>
  A \<open>MutRng\<close> is known by its seed and by whom it is made for, an active node or (\<open>None\<close>) the view of the
  network: each of them has one, and two generators made from the same seed are two objects. The
  hasher, the serialisation of keys and the entropy that each generator draws without a seed are parameters.
\<close>

record mut_rng =
  rng_owner :: "pubkey option"
  rng_seed :: u64

record rng_env =
  default_hash :: "u8 list \<Rightarrow> u64"
  serialize_pubkey :: "pubkey \<Rightarrow> u8 list"
  random_u64 :: "pubkey option \<Rightarrow> u64"

definition to_le_bytes :: "u64 \<Rightarrow> u8 list" where
  "to_le_bytes x = map (\<lambda>i. ucast (drop_bit (8 * i) x)) [0, 1, 2, 3, 4, 5, 6, 7]"

definition mut_rng_new :: "rng_env \<Rightarrow> pubkey option \<Rightarrow> (u64 \<times> pubkey option) option \<Rightarrow> mut_rng" where
  "mut_rng_new env owner seed_opt =
     \<lparr>rng_owner = owner,
      rng_seed =
        (case seed_opt of
           Some (seed, Some pk) \<Rightarrow> default_hash env (serialize_pubkey env pk @ to_le_bytes seed)
         | Some (seed, None) \<Rightarrow> seed
         | None \<Rightarrow> random_u64 env owner)\<rparr>"

subsection \<open>Validation\<close>

fun check_keysend :: "(node_features \<Rightarrow> bool) \<Rightarrow> node_info list \<Rightarrow> lightning_error + unit" where
  "check_keysend supports_keysend [] = Inr ()"
| "check_keysend supports_keysend (n # ns) =
     (if \<not> supports_keysend (features n)
      then Inl (ValidationError
             (Fmt ''All nodes eligible for random activity generation must support keysend, {} does not''
                (node_args n)))
      else check_keysend supports_keysend ns)"

fun validate_flows ::
  "(node_features \<Rightarrow> bool) \<Rightarrow> ('r, u64) range_sampler \<Rightarrow> 's nodes \<Rightarrow> activity_definition list \<Rightarrow>
   ('r, lightning_error, unit) gen" where
  "validate_flows supports_keysend sample nodes [] = gen_ok ()"
| "validate_flows supports_keysend sample nodes (flow # flows) =
     gen_bind (\<lambda>r. map_option (\<lambda>(v, r'). (Inr v, r')) (value_or_range_value sample (act_amount_msat flow) r))
       (\<lambda>amount.
          if amount = 0
          then gen_err (ValidationError
                 (Fmt ''We do not allow defined activity amount_msat with zero values'' []))
          else if \<not> hm_contains nodes (pubkey (act_source flow))
          then gen_err (ValidationError (Fmt ''Source node not found, {}'' (node_args (act_source flow))))
          else if \<not> supports_keysend (features (act_destination flow))
          then gen_err (ValidationError
                 (Fmt ''Destination node does not support keysend, {}'' (node_args (act_destination flow))))
          else validate_flows supports_keysend sample nodes flows)"

definition validate_activity ::
  "(node_features \<Rightarrow> bool) \<Rightarrow> ('r, u64) range_sampler \<Rightarrow> 's nodes \<Rightarrow> activity_definition list \<Rightarrow>
   ('r, lightning_error, unit) gen" where
  "validate_activity supports_keysend sample nodes activity =
     gen_bind
       (gen_lift
          (if activity = []
           then if hm_len nodes \<le> 1
                then Inl (ValidationError
                       (Fmt ''At least two nodes required for random activity generation.'' []))
                else check_keysend supports_keysend (map ln_info (hm_values nodes))
           else Inr ()))
       (\<lambda>_. validate_flows supports_keysend sample nodes activity)"

fun network_loop :: "network option \<Rightarrow> network list \<Rightarrow> lightning_error + network option" where
  "network_loop running_network [] = Inr running_network"
| "network_loop running_network (network # networks) =
     (if network = Bitcoin then Inl (ValidationError (Fmt ''mainnet is not supported'' []))
      else
        (let running = (case running_network of None \<Rightarrow> Some network | Some n \<Rightarrow> Some n) in
         if running \<noteq> Some network
         then Inl (ValidationError (Fmt ''nodes are not on the same network {}.'' [ArgNet network]))
         else network_loop running networks))"

definition validate_node_network :: "'s nodes \<Rightarrow> lightning_error + unit" where
  "validate_node_network nodes =
     (if nodes = []
      then Inl (ValidationError
             (Fmt ''we don't control any nodes. Specify at least one node in your config file'' []))
      else res_bind (network_loop None (map ln_network (hm_values nodes))) (\<lambda>_. Inr ()))"

subsection \<open>Executors\<close>

text \<open>
  What the set-up takes from the crates: the arithmetic of \<open>f64\<close>, the samplers of each generator,
  the ranges drawn from the thread's generator.
\<close>

record ('f, 'd, 'w, 'r) random_env =
  env_float :: "'f float_ops"
  env_rand :: "mut_rng \<Rightarrow> ('f, 'd, 'r) rand_ops"
  env_picker :: "mut_rng \<Rightarrow> ('w, 'r) picker_ops"
  env_range :: "'r range_ops"
  env_rng :: rng_env

definition defined_kit :: "'r range_ops \<Rightarrow> activity_definition \<Rightarrow> 'r executor_kit" where
  "defined_kit ops description =
     (let activity_generator = defined_activity_new (act_destination description)
            (map_option (\<lambda>start. duration_from_secs (unat start)) (act_start_secs description))
            (act_count description) (act_interval_secs description) (act_amount_msat description)
      in \<lparr>source_info = act_source description,
          network_generator = defined_destination_generator activity_generator,
          kit_payment_generator = defined_payment_generator ops activity_generator\<rparr>)"

text \<open>The first pass: the nodes with capacity for the expected payment, and half their capacity.\<close>

fun active_nodes_loop ::
  "u64 \<Rightarrow> (pubkey \<times> 's lightning_node) list \<Rightarrow> (pubkey, node_info \<times> u64) hmap \<Rightarrow>
   simulation_error + (pubkey, node_info \<times> u64) hmap" where
  "active_nodes_loop expected [] active = Inr active"
| "active_nodes_loop expected ((pk, node) # nodes) active =
     (case ln_channel_capacities node of
        Inl e \<Rightarrow> Inl (LightningError e)
      | Inr chan_capacity \<Rightarrow>
          if \<not> is_ok (validate_capacity chan_capacity expected)
          then active_nodes_loop expected nodes active
          else
            (let capacity = chan_capacity div 2 in
             case ln_get_node_info node pk of
               Inl e \<Rightarrow> Inl (LightningError e)
             | Inr ni \<Rightarrow> active_nodes_loop expected nodes (hm_insert (pubkey ni) (ni, capacity) active)))"

text \<open>The second pass: one generator per active node.\<close>

fun random_kits_loop ::
  "('f, 'd, 'w, 'r) random_env \<Rightarrow> 'f simulation_cfg \<Rightarrow> 'r destination_generator \<Rightarrow>
   (node_info \<times> u64) list \<Rightarrow> simulation_error + 'r executor_kit list" where
  "random_kits_loop env cfg view [] = Inr []"
| "random_kits_loop env cfg view ((ni, capacity) # rest) =
     (let salted_rng = mut_rng_new (env_rng env) (Some (pubkey ni))
            (map_option (\<lambda>seed. (seed, Some (pubkey ni))) (cfg_seed cfg))
      in case random_activity_new (env_float env) (env_rand env salted_rng) capacity
                (expected_payment_msat cfg) (activity_multiplier cfg) of
           Inl e \<Rightarrow> Inl (RandomActivityError e)
         | Inr ra \<Rightarrow>
             res_bind (random_kits_loop env cfg view rest)
               (\<lambda>kits. Inr (\<lparr>source_info = ni, network_generator = view,
                    kit_payment_generator = random_payment_generator (env_float env) (env_rand env salted_rng) ra\<rparr>
                  # kits)))"

definition random_activity_nodes ::
  "('f, 'd, 'w, 'r) random_env \<Rightarrow> 'f simulation_cfg \<Rightarrow> 's nodes \<Rightarrow> simulation_error + 'r executor_kit list" where
  "random_activity_nodes env cfg nodes =
     res_bind (active_nodes_loop (expected_payment_msat cfg) nodes hm_new)
       (\<lambda>active_nodes.
          let view_rng = mut_rng_new (env_rng env) None (map_option (\<lambda>seed. (seed, None)) (cfg_seed cfg)) in
          case network_graph_view_new (env_picker env view_rng) (hm_values active_nodes) of
            Inl e \<Rightarrow> Inl (RandomActivityError e)
          | Inr view \<Rightarrow>
              random_kits_loop env cfg
                (view_destination_generator (env_picker env view_rng) (rng_poisoned (env_rand env view_rng)) view)
                (hm_values active_nodes))"

definition activity_executors ::
  "('f, 'd, 'w, 'r) random_env \<Rightarrow> 'f simulation_cfg \<Rightarrow> 's nodes \<Rightarrow> activity_definition list \<Rightarrow>
   simulation_error + 'r executor_kit list" where
  "activity_executors env cfg nodes activity =
     (if activity \<noteq> [] then Inr (map (defined_kit (env_range env)) activity)
      else random_activity_nodes env cfg nodes)"

subsection \<open>Running\<close>

datatype 'r spawned =
    ResultsProducer
  | ResultsLogger duration
  | ResultsConsumer "write_results option"
  | EventsTask event_heap "'r trackers"
  | TimeoutTask duration

text \<open>
  What the wrapper around each task does when the task's function returns: the producer and the
  consumer of results trigger the shutdown on an error only, the events task always, the timeout when
  its sleep (and not the listener) ended it, the logger of results never.
\<close>

datatype task_end = TaskReturned "simulation_error + unit" | SleepElapsed

fun shutdown_by :: "'r spawned \<Rightarrow> task_end \<Rightarrow> bool" where
  "shutdown_by ResultsProducer e = (case e of TaskReturned res \<Rightarrow> \<not> is_ok res | SleepElapsed \<Rightarrow> False)"
| "shutdown_by (ResultsConsumer w) e = (case e of TaskReturned res \<Rightarrow> \<not> is_ok res | SleepElapsed \<Rightarrow> False)"
| "shutdown_by (ResultsLogger interval) e = False"
| "shutdown_by (EventsTask heap trackers) e = True"
| "shutdown_by (TimeoutTask limit) e = (e = SleepElapsed)"

record 'r run_outcome =
  outcome :: "simulation_error + unit"
  spawned_tasks :: "'r spawned list"
  shutdown_triggered :: bool
  waited_for_tasks :: bool

definition run_data_collection :: "'f simulation_cfg \<Rightarrow> 'r spawned list" where
  "run_data_collection cfg =
     [ResultsProducer, ResultsLogger (duration_from_secs 60), ResultsConsumer (cfg_write_results cfg)]"

definition internal_run ::
  "('f, 'd, 'w, 'r) random_env \<Rightarrow> 'f simulation_cfg \<Rightarrow> (node_features \<Rightarrow> bool) \<Rightarrow> 's nodes \<Rightarrow> system_time \<Rightarrow>
   activity_definition list \<Rightarrow> 'r \<Rightarrow> ('r run_outcome \<times> 'r) option" where
  "internal_run env cfg supports_keysend nodes now activity r =
     (let refused = (\<lambda>e. \<lparr>outcome = Inl (LightningError e), spawned_tasks = [],
                         shutdown_triggered = False, waited_for_tasks = False\<rparr>);
          aborted = (\<lambda>e. \<lparr>outcome = Inl e, spawned_tasks = run_data_collection cfg,
                         shutdown_triggered = True, waited_for_tasks = False\<rparr>)
      in case validate_node_network nodes of
        Inl e \<Rightarrow> Some (refused e, r)
      | Inr _ \<Rightarrow>
          (case validate_activity supports_keysend (gen_range_u64 (env_range env)) nodes activity r of
             None \<Rightarrow> None
           | Some (Inl e, r1) \<Rightarrow> Some (refused e, r1)
           | Some (Inr _, r1) \<Rightarrow>
               (case activity_executors env cfg nodes activity of
                  Inl e \<Rightarrow> Some (aborted e, r1)
                | Inr activities \<Rightarrow>
                    (case setup_payment_events now activities r1 of
                       None \<Rightarrow> None
                     | Some (Inl e, r2) \<Rightarrow> Some (aborted e, r2)
                     | Some (Inr (heap, trackers), r2) \<Rightarrow>
                         Some (\<lparr>outcome = Inr (),
                                spawned_tasks = run_data_collection cfg @ [EventsTask heap trackers] @
                                  (case total_time cfg of None \<Rightarrow> [] | Some t \<Rightarrow> [TimeoutTask t]),
                                shutdown_triggered = False, waited_for_tasks = False\<rparr>, r2)))))"

definition run_simulation ::
  "('f, 'd, 'w, 'r) random_env \<Rightarrow> 'f simulation_cfg \<Rightarrow> (node_features \<Rightarrow> bool) \<Rightarrow> 's nodes \<Rightarrow> system_time \<Rightarrow>
   activity_definition list \<Rightarrow> 'r \<Rightarrow> ('r run_outcome \<times> 'r) option" where
  "run_simulation env cfg supports_keysend nodes now activity r =
     map_option
       (\<lambda>(o1, r'). if is_ok (outcome o1) then (o1\<lparr>waited_for_tasks := True\<rparr>, r') else (o1, r'))
       (internal_run env cfg supports_keysend nodes now activity r)"

end
