(* ===== verification/Simulation_Properties.thy ===== *)
theory Simulation_Properties
  imports Simulation Event_Properties
begin

section \<open>Properties of the set-up\<close>

text \<open>
  What validation accepts, what becomes of an error, which executors random activity gets and why
  they never fail to make a payment, and what a run of defined activities pays.
\<close>

subsection \<open>Validation\<close>

lemma network_loop_ok:
  "is_ok (network_loop running ns) \<longleftrightarrow>
     (case running of
        Some n \<Rightarrow> \<forall>m \<in> set ns. m = n \<and> m \<noteq> Bitcoin
      | None \<Rightarrow> \<exists>n. \<forall>m \<in> set ns. m = n \<and> m \<noteq> Bitcoin)"
proof (induction running ns rule: network_loop.induct)
  case (2 running n ns)
  then show ?case by (cases running) (auto simp: Let_def)
qed (auto split: option.splits)

lemma validate_node_network_ok:
  "is_ok (validate_node_network nodes) \<longleftrightarrow>
     nodes \<noteq> [] \<and> (\<exists>n. n \<noteq> Bitcoin \<and> (\<forall>node \<in> set (hm_values nodes). ln_network node = n))"
proof (cases "nodes = []")
  case False
  then obtain node where "node \<in> set (hm_values nodes)"
    by (cases nodes) (auto simp: hm_values_def)
  moreover have "is_ok (validate_node_network nodes) = is_ok (network_loop None (map ln_network (hm_values nodes)))"
    using False by (simp add: validate_node_network_def is_ok_def res_bind_def split: sum.split)
  ultimately show ?thesis
    using False by (auto simp: network_loop_ok)
qed (simp add: validate_node_network_def)

lemma check_keysend_ok: "is_ok (check_keysend sk ns) \<longleftrightarrow> (\<forall>n \<in> set ns. sk (features n))"
  by (induction sk ns rule: check_keysend.induct) auto

text \<open>A flow that validation lets through, when \<open>amount\<close> is what its amount sampled.\<close>

definition flow_ok :: "(node_features \<Rightarrow> bool) \<Rightarrow> 's nodes \<Rightarrow> activity_definition \<Rightarrow> bool" where
  "flow_ok sk nodes flow \<longleftrightarrow> hm_contains nodes (pubkey (act_source flow)) \<and> sk (features (act_destination flow))"

fun never_zero :: "u64 value_or_range \<Rightarrow> bool" where
  "never_zero (Value x) = (x \<noteq> 0)"
| "never_zero (Range x y) = (0 < x \<and> x < y)"

lemma validate_flows_accepts:
  assumes "gen_range_ok sample"
  shows "\<forall>flow \<in> set flows. flow_ok sk nodes flow \<and> never_zero (act_amount_msat flow) \<Longrightarrow>
    \<exists>r'. validate_flows sk sample nodes flows r = Some (Inr (), r')"
proof (induction flows arbitrary: r)
  case (Cons flow flows)
  then have nz: "never_zero (act_amount_msat flow)" by simp
  then have "range_valid (act_amount_msat flow)" by (cases "act_amount_msat flow") auto
  from value_or_range_value_total [OF this, of sample r] obtain v r1 where
    v: "value_or_range_value sample (act_amount_msat flow) r = Some (v, r1)" by blast
  have "in_range (act_amount_msat flow) v" by (rule value_or_range_value_in_range [OF assms v])
  with nz have "v \<noteq> 0" by (cases "act_amount_msat flow") auto
  moreover obtain r2 where "validate_flows sk sample nodes flows r1 = Some (Inr (), r2)"
    using Cons.IH [of r1] Cons.prems by auto
  ultimately show ?case
    using Cons.prems v by (simp add: gen_bind_def flow_ok_def)
qed simp

lemma validate_flows_sound:
  "validate_flows sk sample nodes flows r = Some (Inr (), r') \<Longrightarrow> flow \<in> set flows \<Longrightarrow>
   flow_ok sk nodes flow \<and> act_amount_msat flow \<noteq> Value 0"
proof (induction flows arbitrary: r)
  case (Cons f flows)
  from Cons.prems(1) obtain v r1 where v: "value_or_range_value sample (act_amount_msat f) r = Some (v, r1)"
    by (auto simp: gen_bind_Inr split: option.splits)
  with Cons.prems(1) have step: "v \<noteq> 0" "flow_ok sk nodes f"
    "validate_flows sk sample nodes flows r1 = Some (Inr (), r')"
    by (auto simp: gen_bind_def flow_ok_def split: if_splits)
  show ?case
  proof (cases "flow = f")
    case True
    with step v show ?thesis by (cases "act_amount_msat f") auto
  next
    case False
    with Cons.IH [OF step(3)] Cons.prems(2) show ?thesis by simp
  qed
qed simp

lemma validate_activity_sound:
  assumes "validate_activity sk sample nodes activity r = Some (Inr (), r')"
  shows "activity = [] \<Longrightarrow> 2 \<le> hm_len nodes \<and> (\<forall>node \<in> set (hm_values nodes). sk (features (ln_info node)))"
    and "flow \<in> set activity \<Longrightarrow> flow_ok sk nodes flow \<and> act_amount_msat flow \<noteq> Value 0"
proof -
  from assms have flows: "validate_flows sk sample nodes activity r = Some (Inr (), r')"
    and empty: "activity = [] \<longrightarrow> 1 < hm_len nodes \<and> is_ok (check_keysend sk (map ln_info (hm_values nodes)))"
    unfolding validate_activity_def gen_bind_Inr by (auto split: if_splits simp: is_ok_def)
  show "activity = [] \<Longrightarrow> 2 \<le> hm_len nodes \<and> (\<forall>node \<in> set (hm_values nodes). sk (features (ln_info node)))"
    using empty by (auto simp: check_keysend_ok)
  show "flow \<in> set activity \<Longrightarrow> flow_ok sk nodes flow \<and> act_amount_msat flow \<noteq> Value 0"
    by (rule validate_flows_sound [OF flows])
qed

subsection \<open>Random executors\<close>

text \<open>What makes a node active, and what is kept of it.\<close>

definition active_entry :: "u64 \<Rightarrow> pubkey \<times> 's lightning_node \<Rightarrow> node_info \<times> u64 \<Rightarrow> bool" where
  "active_entry expected entry v \<longleftrightarrow>
     (\<exists>c. ln_channel_capacities (snd entry) = Inr c \<and> is_ok (validate_capacity c expected) \<and> snd v = c div 2 \<and>
        ln_get_node_info (snd entry) (fst entry) = Inr (fst v))"

lemma active_nodes_loop_values:
  "active_nodes_loop e nodes active0 = Inr active \<Longrightarrow> hm_wf active0 \<Longrightarrow>
   (\<forall>(k, v) \<in> set active0. k = pubkey (fst v)) \<Longrightarrow>
   hm_wf active \<and> (\<forall>(k, v) \<in> set active. k = pubkey (fst v)) \<and>
   (\<forall>kv \<in> set active. kv \<in> set active0 \<or> (\<exists>entry \<in> set nodes. active_entry e entry (snd kv)))"
proof (induction e nodes active0 rule: active_nodes_loop.induct)
  case (2 e pk node nodes active0)
  show ?case
  proof (cases "ln_channel_capacities node")
    case (Inr c)
    show ?thesis
    proof (cases "is_ok (validate_capacity c e)")
      case True
      with 2(3) Inr obtain ni where ni: "ln_get_node_info node pk = Inr ni"
        by (auto simp: Let_def split: sum.splits)
      let ?active = "hm_insert (pubkey ni) (ni, c div 2) active0"
      from 2(3) Inr True ni have rest: "active_nodes_loop e nodes ?active = Inr active" by simp
      have sub: "set ?active \<subseteq> insert (pubkey ni, ni, c div 2) (set active0)" by (rule set_hm_insert)
      have "\<forall>(k, v) \<in> set ?active. k = pubkey (fst v)" using sub 2(5) by auto
      from 2(2) [OF Inr _ refl ni rest hm_wf_insert [OF 2(4)] this] True
      have ih: "hm_wf active" "\<forall>(k, v) \<in> set active. k = pubkey (fst v)"
        "\<forall>kv \<in> set active. kv \<in> set ?active \<or> (\<exists>entry \<in> set nodes. active_entry e entry (snd kv))"
        by simp_all
      have "active_entry e (pk, node) (ni, c div 2)"
        using Inr True ni by (simp add: active_entry_def)
      with ih sub show ?thesis by fastforce
    qed (use 2 Inr in force)
  qed (use 2 in simp)
qed auto

lemma active_nodes_loop_complete:
  "active_nodes_loop e nodes active0 = Inr active \<Longrightarrow>
   (\<forall>(pk, node) \<in> set nodes. \<forall>ni. ln_get_node_info node pk = Inr ni \<longrightarrow> pubkey ni = pk) \<Longrightarrow>
   distinct (map fst nodes) \<Longrightarrow>
   (\<forall>(pk, node) \<in> set nodes. \<exists>c. ln_channel_capacities node = Inr c \<and>
      (is_ok (validate_capacity c e) \<longrightarrow> (\<exists>ni. hm_get active pk = Some (ni, c div 2)))) \<and>
   (\<forall>pk. pk \<notin> fst ` set nodes \<longrightarrow> hm_get active pk = hm_get active0 pk)"
proof (induction e nodes active0 rule: active_nodes_loop.induct)
  case (2 e pk node nodes active0)
  have dist: "distinct (map fst nodes)" "pk \<notin> fst ` set nodes" using 2(5) by auto
  have keys: "\<forall>(pk, node) \<in> set nodes. \<forall>ni. ln_get_node_info node pk = Inr ni \<longrightarrow> pubkey ni = pk"
    using 2(4) by simp
  show ?case
  proof (cases "ln_channel_capacities node")
    case (Inr c)
    show ?thesis
    proof (cases "is_ok (validate_capacity c e)")
      case True
      with 2(3) Inr obtain ni where ni: "ln_get_node_info node pk = Inr ni"
        by (auto simp: Let_def split: sum.splits)
      let ?active = "hm_insert (pubkey ni) (ni, c div 2) active0"
      from 2(3) Inr True ni have rest: "active_nodes_loop e nodes ?active = Inr active" by simp
      have pk: "pubkey ni = pk" using 2(4) ni by simp
      from 2(2) [OF Inr _ refl ni rest keys dist(1)] True
      have ih: "\<forall>(pk, node) \<in> set nodes. \<exists>c. ln_channel_capacities node = Inr c \<and>
          (is_ok (validate_capacity c e) \<longrightarrow> (\<exists>ni. hm_get active pk = Some (ni, c div 2)))"
        "\<forall>k. k \<notin> fst ` set nodes \<longrightarrow> hm_get active k = hm_get ?active k"
        by blast+
      have "hm_get active pk = Some (ni, c div 2)"
        using ih(2) dist(2) pk by (simp add: hm_get_insert)
      with ih Inr pk show ?thesis by (auto simp: hm_get_insert)
    next
      case False
      with 2(1) [OF Inr False] 2(3) Inr keys dist show ?thesis by auto
    qed
  qed (use 2 in simp)
qed auto

lemma random_activity_new_ok:
  assumes "random_activity_new fl rops capacity e m = Inr ra"
  shows "e \<noteq> 0" and "is_ok (validate_capacity capacity e)"
    and "ra_source_capacity ra = capacity" and "ra_expected_payment_amt ra = e"
proof -
  have "e \<noteq> 0 \<and> is_ok (validate_capacity capacity e) \<and> ra_source_capacity ra = capacity \<and>
      ra_expected_payment_amt ra = e"
    using assms by (cases "validate_capacity capacity e")
      (auto simp: random_activity_new_def Let_def split: if_splits sum.splits)
  then show "e \<noteq> 0" "is_ok (validate_capacity capacity e)"
    "ra_source_capacity ra = capacity" "ra_expected_payment_amt ra = e" by simp_all
qed

lemma random_kits_loop_ok:
  "random_kits_loop env cfg view rest = Inr kits \<Longrightarrow>
   map source_info kits = map fst rest \<and>
   (\<forall>kit \<in> set kits. network_generator kit = view \<and>
      (\<exists>rng ra m. \<exists>(ni, capacity) \<in> set rest. source_info kit = ni \<and>
         random_activity_new (env_float env) (env_rand env rng) capacity (expected_payment_msat cfg) m = Inr ra \<and>
         kit_payment_generator kit = random_payment_generator (env_float env) (env_rand env rng) ra)) \<and>
   (\<forall>(ni, capacity) \<in> set rest. is_ok (validate_capacity capacity (expected_payment_msat cfg)) \<and>
      expected_payment_msat cfg \<noteq> 0)"
proof (induction rest arbitrary: kits)
  case (Cons info rest)
  obtain ni capacity where info: "info = (ni, capacity)" by (cases info)
  note prems = Cons.prems [unfolded info]
  let ?rng = "mut_rng_new (env_rng env) (Some (pubkey ni)) (map_option (\<lambda>seed. (seed, Some (pubkey ni))) (cfg_seed cfg))"
  from prems obtain ra where
    ra: "random_activity_new (env_float env) (env_rand env ?rng) capacity (expected_payment_msat cfg)
        (activity_multiplier cfg) = Inr ra"
    by (auto simp: Let_def split: sum.splits)
  let ?kit = "\<lparr>source_info = ni, network_generator = view,
      kit_payment_generator = random_payment_generator (env_float env) (env_rand env ?rng) ra\<rparr>"
  from prems ra obtain kits' where rest: "random_kits_loop env cfg view rest = Inr kits'"
    and kits: "kits = ?kit # kits'"
    by (auto simp: Let_def res_bind_Inr_iff)
  note ih = Cons.IH [OF rest]
  have "\<exists>rng ra m. \<exists>(ni', capacity') \<in> set ((ni, capacity) # rest). source_info ?kit = ni' \<and>
      random_activity_new (env_float env) (env_rand env rng) capacity' (expected_payment_msat cfg) m = Inr ra \<and>
      kit_payment_generator ?kit = random_payment_generator (env_float env) (env_rand env rng) ra"
    using ra by (intro exI [of _ ?rng] exI [of _ ra] exI [of _ "activity_multiplier cfg"]) simp
  with ih random_activity_new_ok [OF ra] show ?case
    unfolding kits info by fastforce
qed simp

lemma validate_capacity_ok:
  assumes "2 * unat e < 2 ^ 64"
  shows "is_ok (validate_capacity c e) \<longleftrightarrow> 2 * unat e \<le> unat c"
proof -
  have "unat (2 * e) = 2 * unat e"
    using assms by (simp add: unat_word_ariths)
  then show ?thesis
    by (simp add: validate_capacity_def Let_def word_less_nat_alt not_less)
qed

text \<open>What the environment provides: the arithmetic of \<open>float_monotone\<close>, a log-normal distribution for any
  standard deviation that is a number, and generators whose lock is not poisoned.\<close>

definition env_documented :: "('f, 'd, 'w, 'r) random_env \<Rightarrow> bool" where
  "env_documented env \<longleftrightarrow> float_monotone (env_float env) \<and>
     (\<forall>rng. log_normal_documented (env_float env) (env_rand env rng) \<and> rng_poisoned (env_rand env rng) = None)"

lemma network_graph_view_new_nodes:
  "network_graph_view_new wops ns = Inr view \<Longrightarrow> set (view_nodes view) = set ns \<and> 2 \<le> length ns"
  by (auto simp: network_graph_view_new_def Let_def split: if_splits sum.splits)

lemma random_activity_nodes_kits:
  fixes env :: "('f, 'd, 'w, 'r) random_env"
  assumes "random_activity_nodes env cfg nodes = Inr kits"
  obtains active and view :: "'w network_graph_view" and wops poisoned where
    "active_nodes_loop (expected_payment_msat cfg) nodes hm_new = Inr active"
    "set (view_nodes view) = set (hm_values active)"
    "map source_info kits = map fst (hm_values active)"
    "\<exists>rng. poisoned = rng_poisoned (env_rand env rng)"
    "\<forall>kit \<in> set kits. network_generator kit = view_destination_generator wops poisoned view \<and>
      (\<exists>rng ra m. \<exists>(ni, capacity) \<in> set (hm_values active). source_info kit = ni \<and>
         random_activity_new (env_float env) (env_rand env rng) capacity (expected_payment_msat cfg) m = Inr ra \<and>
         kit_payment_generator kit = random_payment_generator (env_float env) (env_rand env rng) ra)"
    "\<forall>(ni, capacity) \<in> set (hm_values active).
       is_ok (validate_capacity capacity (expected_payment_msat cfg)) \<and> expected_payment_msat cfg \<noteq> 0"
proof -
  let ?rng = "mut_rng_new (env_rng env) None (map_option (\<lambda>seed. (seed, None)) (cfg_seed cfg))"
  from assms obtain active where active: "active_nodes_loop (expected_payment_msat cfg) nodes hm_new = Inr active"
    unfolding random_activity_nodes_def res_bind_Inr_iff by blast
  with assms obtain view where view: "network_graph_view_new (env_picker env ?rng) (hm_values active) = Inr view"
    and kits: "random_kits_loop env cfg
      (view_destination_generator (env_picker env ?rng) (rng_poisoned (env_rand env ?rng)) view)
      (hm_values active) = Inr kits"
    unfolding random_activity_nodes_def Let_def by (auto split: sum.splits)
  have nodes: "set (view_nodes view) = set (hm_values active)"
    using network_graph_view_new_nodes [OF view] by simp
  have poisoned: "\<exists>rng. rng_poisoned (env_rand env ?rng) = rng_poisoned (env_rand env rng)" by (rule exI, rule refl)
  show thesis
    by (rule that [OF active nodes _ poisoned]) (use random_kits_loop_ok [OF kits] in auto)
qed

text \<open>So every executor's generators keep the contract of a pair of generators.\<close>

lemma random_kit_env:
  fixes env :: "('f, 'd, 'w, 'r) random_env"
  assumes "random_activity_nodes env cfg nodes = Inr kits" and "env_documented env"
    and "2 * unat (expected_payment_msat cfg) < 2 ^ 64" and "kit \<in> set kits"
  obtains rops :: "('f, 'd, 'r) rand_ops" and ra wops poisoned and view :: "'w network_graph_view" where
    "kit_payment_generator kit = random_payment_generator (env_float env) rops ra"
    "network_generator kit = view_destination_generator wops poisoned view"
    "random_env_ok (env_float env) rops ra poisoned view"
    "fst ` set (view_nodes view) = source_info ` set kits"
proof -
  obtain active and view :: "'w network_graph_view" and wops poisoned where
    "active_nodes_loop (expected_payment_msat cfg) nodes hm_new = Inr active"
    and view: "set (view_nodes view) = set (hm_values active)"
    and sources: "map source_info kits = map fst (hm_values active)"
    and poisoned: "\<exists>rng. poisoned = rng_poisoned (env_rand env rng)"
    and each: "\<forall>kit \<in> set kits. network_generator kit = view_destination_generator wops poisoned view \<and>
      (\<exists>rng ra m. \<exists>(ni, capacity) \<in> set (hm_values active). source_info kit = ni \<and>
         random_activity_new (env_float env) (env_rand env rng) capacity (expected_payment_msat cfg) m = Inr ra \<and>
         kit_payment_generator kit = random_payment_generator (env_float env) (env_rand env rng) ra)"
    and enough: "\<forall>(ni, capacity) \<in> set (hm_values active).
       is_ok (validate_capacity capacity (expected_payment_msat cfg)) \<and> expected_payment_msat cfg \<noteq> 0"
    by (rule random_activity_nodes_kits [OF assms(1)])
  from each assms(4) obtain rng ra m ni capacity where kit:
    "network_generator kit = view_destination_generator wops poisoned view"
    "(ni, capacity) \<in> set (hm_values active)"
    "random_activity_new (env_float env) (env_rand env rng) capacity (expected_payment_msat cfg) m = Inr ra"
    "kit_payment_generator kit = random_payment_generator (env_float env) (env_rand env rng) ra"
    by auto
  note ra = random_activity_new_ok [OF kit(3)]
  have suff: "enough_capacity c (expected_payment_msat cfg)" if "(n, c) \<in> set (hm_values active)" for n c
    using enough that validate_capacity_ok [OF assms(3)] by (auto simp: enough_capacity_def unat_gt_0)
  have "random_env_ok (env_float env) (env_rand env rng) ra poisoned view"
    unfolding random_env_ok_def ra(3,4) view
    using assms(2) poisoned suff kit(2) by (auto simp: env_documented_def)
  moreover have "fst ` set (view_nodes view) = source_info ` set kits"
    using arg_cong [OF sources, of set] by (simp add: view)
  ultimately show thesis by (intro that [OF kit(4,1)])
qed


subsection \<open>Runs of random activity\<close>

definition time_overflow :: simulation_error where
  "time_overflow = PaymentGenerationError
     (Fmt ''Unable to generate absolute_time for next payment with error Overflow adding duration'' [])"

text \<open>Executors whose generators never refuse: what the contract of the pair gives for one payment.\<close>

definition kit_never_refuses :: "'r executor_kit \<Rightarrow> bool" where
  "kit_never_refuses kit \<longleftrightarrow>
     (\<forall>r w r'. next_payment_wait (kit_payment_generator kit) r = Some (w, r') \<longrightarrow> is_ok w) \<and>
     (\<forall>src r c r'. choose_destination (network_generator kit) src r = Some (c, r') \<longrightarrow>
        (\<exists>d cap. c = Inr (d, cap) \<and>
          (\<forall>s a s'. payment_amount (kit_payment_generator kit) cap s = Some (a, s') \<longrightarrow> is_ok a)))"

lemma random_kit_never_refuses:
  fixes env :: "('f, 'd, 'w, 'r) random_env"
  assumes "random_activity_nodes env cfg nodes = Inr kits" and "env_documented env"
    and "2 * unat (expected_payment_msat cfg) < 2 ^ 64" and "kit \<in> set kits"
  shows "kit_never_refuses kit"
proof -
  obtain rops :: "('f, 'd, 'r) rand_ops" and ra wops poisoned and view :: "'w network_graph_view" where kit:
    "kit_payment_generator kit = random_payment_generator (env_float env) rops ra"
    "network_generator kit = view_destination_generator wops poisoned view"
    and env: "random_env_ok (env_float env) rops ra poisoned view"
    and "fst ` set (view_nodes view) = source_info ` set kits"
    by (rule random_kit_env [OF assms])
  have all: "src \<in> {src. random_env_ok (env_float env) rops ra poisoned view}" for src :: pubkey
    using env by simp
  show ?thesis
    unfolding kit_never_refuses_def kit
    using random_pair.wait_no_error [OF all] random_pair.choice_then_amount [OF all] by fastforce
qed

lemma generate_payment_error:
  assumes "generate_payment h pk t base r = Some (Inl e, r')" and "hm_get t pk = Some tr"
    and "kit_never_refuses (executor tr)"
  shows "e = time_overflow"
proof -
  let ?g = "kit_payment_generator (executor tr)" and ?d = "network_generator (executor tr)"
  note contract = assms(3) [unfolded kit_never_refuses_def]
  have "next_payment_wait ?g s \<noteq> Some (Inl x, s')" for s x s'
    using contract by force
  then have wait: "is_ok w" if "get_payment_delay c ?g s = Some (w, s')" for c s w s'
    using that by (auto simp: get_payment_delay_def gen_map_err_def
        split: if_splits option.splits sum.splits)
  have "e = time_overflow" if w: "get_payment_delay (payments_completed tr) ?g r = Some (Inr w, r1)" for w r1
  proof (cases "system_time_checked_add base w")
    case None
    with assms(1,2) w show ?thesis by (simp add: generate_payment_def gen_bind_def time_overflow_def)
  next
    case (Some at)
    let ?c = "choose_destination ?d (pubkey (source_info (executor tr)))"
    from assms(1,2) w Some obtain c r2 where c: "?c r1 = Some (c, r2)"
      by (auto simp: generate_payment_def gen_bind_def gen_map_err_def split: option.splits)
    with contract obtain d cap where d: "c = Inr (d, cap)"
      and amount: "\<forall>s a s'. payment_amount ?g cap s = Some (a, s') \<longrightarrow> is_ok a" by blast
    from assms(1,2) w Some c d obtain a r3 where a: "payment_amount ?g cap r2 = Some (a, r3)"
      by (auto simp: generate_payment_def gen_bind_def gen_map_err_def split: option.splits)
    with amount obtain v where "a = Inr v" by (auto simp: is_ok_iff)
    with assms(1,2) w Some c d a show ?thesis
      by (simp add: generate_payment_def gen_bind_def gen_map_err_def)
  qed
  moreover from assms(1,2) obtain w r1 where w: "get_payment_delay (payments_completed tr) ?g r = Some (w, r1)"
    by (auto simp: generate_payment_def gen_bind_def split: option.splits)
  moreover from wait [OF w] obtain w' where "w = Inr w'" by (auto simp: is_ok_iff)
  ultimately show ?thesis by blast
qed

subsection \<open>Where events come from\<close>

text \<open>Every event in the heap was made by the executor its source is tracked with.\<close>

lemma iteration_error:
  assumes "produce_iteration has_node tick h t r = Some (Inl e, r')" and "events_inv h t"
    and "\<forall>src kit. executor_of t src = Some kit \<longrightarrow> has_node src \<and> kit_never_refuses kit"
  shows "e = time_overflow"
proof -
  from assms(1) obtain ev h1 where h: "\<not> stop_signalled tick" "h = ev # h1"
    by (cases h) (auto simp: produce_iteration_def split: if_splits)
  with assms(2) obtain tr where tr: "hm_get t (ev_source ev) = Some tr" by (auto simp: events_inv_def)
  with assms(3) have ok: "has_node (ev_source ev)" "kit_never_refuses (executor tr)"
    by (auto simp: executor_of_def)
  let ?t = "hm_insert (ev_source ev) (tr\<lparr>payments_completed := payments_completed tr + 1\<rparr>) t"
  from assms(1) h tr ok(1) have
    "(\<exists>base. generate_payment h1 (ev_source ev) t base r = Some (Inl e, r')) \<or>
     (\<exists>base. generate_payment h1 (ev_source ev) ?t base r = Some (Inl e, r'))"
    by (auto simp: produce_iteration_def Let_def gen_bind_def split: if_splits option.splits sum.splits)
  then show ?thesis
    using generate_payment_error [of h1 "ev_source ev" t _ r e r' tr]
      generate_payment_error [of h1 "ev_source ev" ?t _ r e r'] tr ok(2)
    by (auto simp: hm_get_insert)
qed

lemma run_error:
  "produce_payment_events has_node ticks h t r = Some (run, r') \<Longrightarrow> events_inv h t \<Longrightarrow>
   \<forall>src kit. executor_of t src = Some kit \<longrightarrow> has_node src \<and> kit_never_refuses kit \<Longrightarrow>
   run_end run = Ended (Inl e) \<Longrightarrow> e = time_overflow"
proof (induction ticks arbitrary: h t r run)
  case (Cons tick ticks)
  obtain res r1 where it: "produce_iteration has_node tick h t r = Some (res, r1)"
    using Cons.prems(1) by (auto split: option.splits)
  show ?case
  proof (cases "\<exists>h1 t1 ds. res = Inr (Next h1 t1 ds)")
    case False
    with iteration_result [of res] consider e where "res = Inl e" | "res = Inr Finished" by blast
    then show ?thesis
      using Cons.prems it iteration_error [of has_node tick h t r _ r1] by cases auto
  next
    case True
    then obtain h1 t1 ds where go: "produce_iteration has_node tick h t r = Some (Inr (Next h1 t1 ds), r1)"
      using it by auto
    from Cons.prems(1) go obtain run1 where
      rest: "produce_payment_events has_node ticks h1 t1 r1 = Some (run1, r')"
      and run: "run = run1\<lparr>run_dispatches := ds @ run_dispatches run1\<rparr>"
      by auto
    show ?thesis
      using Cons.IH [OF rest produce_iteration_inv(1) [OF go Cons.prems(2)]] Cons.prems(3,4) iteration_executors [OF go] run
      by simp
  qed
qed auto

lemma setup_loop_error:
  "setup_loop now exs h t r = Some (Inl e, r') \<Longrightarrow> \<forall>ex \<in> set exs. kit_never_refuses ex \<Longrightarrow> e = time_overflow"
proof (induction exs arbitrary: h t r)
  case (Cons ex exs)
  let ?src = "pubkey (source_info ex)"
  let ?t = "hm_insert ?src \<lparr>executor = ex, payments_completed = 0\<rparr> t"
  from Cons.prems(1) consider r1 where "generate_payment h ?src ?t now r = Some (Inl e, r1)"
    | h1 r1 where "setup_loop now exs h1 ?t r1 = Some (Inl e, r')"
    by (auto simp: Let_def gen_bind_def split: option.splits sum.splits)
  then show ?case
  proof cases
    case 1
    from generate_payment_error [OF this, of "\<lparr>executor = ex, payments_completed = 0\<rparr>"] Cons.prems(2)
    show ?thesis by (simp add: hm_get_insert)
  next
    case 2
    from Cons.IH [OF this] Cons.prems(2) show ?thesis by simp
  qed
qed simp

subsection \<open>Executors of defined activities\<close>

lemma defined_kit_never_refuses: "kit_never_refuses (defined_kit ops act)"
proof -
  obtain da where kit: "kit_payment_generator (defined_kit ops act) = defined_payment_generator ops da"
    "network_generator (defined_kit ops act) = defined_destination_generator da"
    by (simp add: defined_kit_def Let_def)
  show ?thesis
    unfolding kit_never_refuses_def kit
    using defined_pair.wait_no_error [OF UNIV_I] defined_pair.choice_then_amount [OF UNIV_I] by fastforce
qed

lemma defined_kit_fields:
  "source_info (defined_kit ops act) = act_source act"
  "payment_count (kit_payment_generator (defined_kit ops act)) = act_count act"
  by (simp_all add: defined_kit_def Let_def defined_payment_generator_def defined_activity_new_def)

lemma defined_kit_made:
  fixes ops :: "'r range_ops"
  assumes "range_ops_ok ops" and "made_by (defined_kit ops act) ev"
  shows "ev_destination ev = act_destination act" and "in_range (act_amount_msat act) (ev_amount ev)"
proof -
  let ?da = "defined_activity_new (act_destination act)
      (map_option (\<lambda>start. duration_from_secs (unat start)) (act_start_secs act))
      (act_count act) (act_interval_secs act) (act_amount_msat act)"
  from assms(2) obtain cap and s1 s2 s3 s4 :: 'r where
    "defined_choose_destination ?da (pubkey (act_source act)) s1 = Some (Inr (ev_destination ev, cap), s2)"
    and amount: "defined_payment_amount ops ?da cap s3 = Some (Inr (ev_amount ev), s4)"
    by (auto simp: made_by_def defined_kit_def Let_def defined_destination_generator_def defined_payment_generator_def)
  then have "cap = None" and dest: "ev_destination ev = act_destination act"
    by (auto simp: defined_choose_destination_def defined_activity_new_def)
  with defined_amount_in_range [OF assms(1)] amount
  show "ev_destination ev = act_destination act" "in_range (act_amount_msat act) (ev_amount ev)"
    by (fastforce simp: defined_activity_new_def)+
qed

subsection \<open>Runs\<close>

lemma internal_run_ok:
  assumes "internal_run env cfg sk nodes now activity r = Some (out, r')" and "outcome out = Inr ()"
  obtains kits h t r1 r2 where "is_ok (validate_node_network nodes)"
    "validate_activity sk (gen_range_u64 (env_range env)) nodes activity r = Some (Inr (), r1)"
    "activity_executors env cfg nodes activity = Inr kits"
    "setup_payment_events now kits r1 = Some (Inr (h, t), r')"
    "spawned_tasks out = run_data_collection cfg @ [EventsTask h t] @
       (case total_time cfg of None \<Rightarrow> [] | Some d \<Rightarrow> [TimeoutTask d])"
    "\<not> shutdown_triggered out"
proof -
  from assms obtain r1 where 1: "is_ok (validate_node_network nodes)"
    "validate_activity sk (gen_range_u64 (env_range env)) nodes activity r = Some (Inr (), r1)"
    by (auto simp: internal_run_def Let_def split: sum.splits option.splits)
  from 1(1) have net: "validate_node_network nodes = Inr ()" by (simp add: is_ok_iff)
  from assms net 1(2) obtain kits where 2: "activity_executors env cfg nodes activity = Inr kits"
    by (auto simp: internal_run_def Let_def split: sum.splits)
  from assms net 1(2) 2 obtain h t where 3: "setup_payment_events now kits r1 = Some (Inr (h, t), r')"
    by (auto simp: internal_run_def Let_def split: sum.splits option.splits)
  show thesis
    by (rule that [OF 1 2 3]) (use assms net 1(2) 2 3 in \<open>auto simp: internal_run_def Let_def\<close>)
qed

lemma spawned_events:
  "EventsTask h t \<in> set (run_data_collection cfg @ [EventsTask h1 t1] @
     (case total_time cfg of None \<Rightarrow> [] | Some d \<Rightarrow> [TimeoutTask d])) \<longleftrightarrow> h = h1 \<and> t = t1"
  by (auto simp: run_data_collection_def split: option.splits)

lemma random_sources:
  assumes "random_activity_nodes env cfg nodes = Inr kits" and "hm_wf nodes"
    and "\<forall>(pk, node) \<in> set nodes. \<forall>ni. ln_get_node_info node pk = Inr ni \<longrightarrow> pubkey ni = pk"
    and "2 * unat (expected_payment_msat cfg) < 2 ^ 64"
  shows "distinct (map (\<lambda>kit. pubkey (source_info kit)) kits)"
    and "kit \<in> set kits \<Longrightarrow> \<exists>node c. (pubkey (source_info kit), node) \<in> set nodes \<and>
      ln_channel_capacities node = Inr c \<and> 4 * unat (expected_payment_msat cfg) \<le> unat c"
    and "(pk, node) \<in> set nodes \<Longrightarrow> \<exists>c. ln_channel_capacities node = Inr c \<and>
      (2 * unat (expected_payment_msat cfg) \<le> unat c \<longrightarrow>
         4 * unat (expected_payment_msat cfg) \<le> unat c \<and> (\<exists>kit \<in> set kits. pubkey (source_info kit) = pk))"
proof -
  let ?e = "expected_payment_msat cfg"
  obtain active where active: "active_nodes_loop ?e nodes hm_new = Inr active"
    and sources: "map source_info kits = map fst (hm_values active)"
    and enough: "\<forall>(ni, capacity) \<in> set (hm_values active). is_ok (validate_capacity capacity ?e) \<and> ?e \<noteq> 0"
    by (rule random_activity_nodes_kits [OF assms(1)])
  have "hm_wf active" "\<forall>(k, v) \<in> set active. k = pubkey (fst v)"
    and entries: "\<forall>kv \<in> set active. \<exists>entry \<in> set nodes. active_entry ?e entry (snd kv)"
    using active_nodes_loop_values [OF active hm_wf_new] by (auto simp: hm_new_def)
  then have keys: "map (\<lambda>v. pubkey (fst v)) (hm_values active) = map fst active"
    by (auto simp: hm_values_def)
  have pks: "map (\<lambda>kit. pubkey (source_info kit)) kits = map (\<lambda>v. pubkey (fst v)) (hm_values active)"
    using arg_cong [OF sources, of "map pubkey"] by (simp add: comp_def)
  show "distinct (map (\<lambda>kit. pubkey (source_info kit)) kits)"
    unfolding pks keys using \<open>hm_wf active\<close> by (simp add: hm_wf_def)
  have half: "4 * unat ?e \<le> unat c" if "is_ok (validate_capacity (c div 2) ?e)" for c
    using that by (simp add: validate_capacity_ok [OF assms(4)] unat_half)
  show "\<exists>node c. (pubkey (source_info kit), node) \<in> set nodes \<and> ln_channel_capacities node = Inr c \<and>
      4 * unat ?e \<le> unat c" if "kit \<in> set kits"
  proof -
    have "source_info kit \<in> set (map fst (hm_values active))"
      using that unfolding sources [symmetric] by simp
    then obtain v where v: "v \<in> set (hm_values active)" "source_info kit = fst v" by auto
    then obtain k where "(k, v) \<in> set active" by (auto simp: hm_values_def)
    with entries obtain entry where entry: "entry \<in> set nodes" "active_entry ?e entry v" by fastforce
    obtain n node where e2: "entry = (n, node)" by (cases entry)
    from entry(2) obtain c where c: "ln_channel_capacities node = Inr c" "snd v = c div 2"
      "ln_get_node_info node n = Inr (fst v)"
      unfolding active_entry_def e2 by auto
    moreover have "pubkey (fst v) = n" using assms(3) entry(1) e2 c(3) by auto
    moreover have "is_ok (validate_capacity (snd v) ?e)" using enough v(1) by (cases v) auto
    ultimately show ?thesis using entry(1) e2 v(2) half by metis
  qed
  show "\<exists>c. ln_channel_capacities node = Inr c \<and> (2 * unat ?e \<le> unat c \<longrightarrow>
      4 * unat ?e \<le> unat c \<and> (\<exists>kit \<in> set kits. pubkey (source_info kit) = pk))" if "(pk, node) \<in> set nodes"
  proof -
    from active_nodes_loop_complete [OF active assms(3)] assms(2) that obtain c where
      c: "ln_channel_capacities node = Inr c"
      and in_active: "is_ok (validate_capacity c ?e) \<longrightarrow> (\<exists>ni. hm_get active pk = Some (ni, c div 2))"
      by (fastforce simp: hm_wf_def)
    have "4 * unat ?e \<le> unat c \<and> (\<exists>kit \<in> set kits. pubkey (source_info kit) = pk)" if "2 * unat ?e \<le> unat c"
    proof -
      from in_active that obtain ni where ni: "hm_get active pk = Some (ni, c div 2)"
        by (auto simp: validate_capacity_ok [OF assms(4)])
      then have mem: "(pk, ni, c div 2) \<in> set active"
        unfolding hm_get_def by (rule map_of_SomeD)
      then have val: "(ni, c div 2) \<in> set (hm_values active)" by (force simp: hm_values_def)
      have "pk \<in> set (map fst active)" using mem by force
      then have "pk \<in> set (map (\<lambda>kit. pubkey (source_info kit)) kits)" unfolding pks keys .
      moreover have "is_ok (validate_capacity (c div 2) ?e)" using enough val by auto
      ultimately show ?thesis using half by auto
    qed
    with c show ?thesis by blast
  qed
qed

lemma random_kit_destination:
  fixes env :: "('f, 'd, 'w, 'r) random_env"
  assumes "random_activity_nodes env cfg nodes = Inr kits" and "env_documented env"
    and "2 * unat (expected_payment_msat cfg) < 2 ^ 64" and "kit \<in> set kits" and "made_by kit ev"
  shows "ev_destination ev \<in> source_info ` set kits" and "pubkey (ev_destination ev) \<noteq> pubkey (source_info kit)"
proof -
  obtain rops :: "('f, 'd, 'r) rand_ops" and ra wops poisoned and view :: "'w network_graph_view" where
    "kit_payment_generator kit = random_payment_generator (env_float env) rops ra"
    and view: "network_generator kit = view_destination_generator wops poisoned view"
    and "random_env_ok (env_float env) rops ra poisoned view"
    and nodes: "fst ` set (view_nodes view) = source_info ` set kits"
    by (rule random_kit_env [OF assms(1-4)])
  from assms(5) obtain cap s1 s2 where
    "view_choose_destination wops poisoned view (pubkey (source_info kit)) s1 = Some (Inr (ev_destination ev, cap), s2)"
    unfolding made_by_def view by (auto simp: view_destination_generator_def)
  from view_choose_result [OF this] nodes
  show "ev_destination ev \<in> source_info ` set kits" "pubkey (ev_destination ev) \<noteq> pubkey (source_info kit)"
    by force+
qed

subsection \<open>What defined activities pay\<close>

text \<open>The last activity with a source decides how many payments it makes; the others with that source
  only have the payments that were made for them during the set-up.\<close>

definition activities_of :: "pubkey \<Rightarrow> activity_definition list \<Rightarrow> activity_definition list" where
  "activities_of src activity = filter (\<lambda>act. pubkey (act_source act) = src) activity"

definition pays_for :: "activity_definition \<Rightarrow> dispatch \<Rightarrow> bool" where
  "pays_for act d \<longleftrightarrow> dp_destination d = act_destination act \<and> in_range (act_amount_msat act) (dp_amount d)"

lemma activities_of_kits:
  "of_source src (map (defined_kit ops) activity) = map (defined_kit ops) (activities_of src activity)"
  by (simp add: of_source_def activities_of_def filter_map comp_def defined_kit_fields)

lemma defined_kit_paid:
  "range_ops_ok ops \<Longrightarrow> paid_by (defined_kit ops act) d \<Longrightarrow> pays_for act d"
  using defined_kit_made [of ops act] by (fastforce simp: paid_by_def pays_for_def)

lemma filter_length_mono: "(\<And>x. x \<in> set xs \<Longrightarrow> P x \<Longrightarrow> Q x) \<Longrightarrow> length (filter P xs) \<le> length (filter Q xs)"
  by (induction xs) (auto intro: le_SucI)

lemma defined_run_pays:
  assumes "internal_run env cfg supports_keysend nodes now activity r = Some (out, r1)" and "outcome out = Inr ()"
    and "EventsTask heap trackers \<in> set (spawned_tasks out)"
    and "produce_payment_events (hm_contains nodes) ticks heap trackers r1 = Some (run, r2)"
    and "range_ops_ok (env_range env)" and "activities_of src activity = acts @ [act]"
  shows "(\<forall>e. run_end run = Ended (Inl e) \<longrightarrow> e = time_overflow) \<and>
    (\<forall>d \<in> set (run_dispatches run). dp_source d = src \<longrightarrow> dp_amount d \<noteq> 0 \<and>
       (\<exists>act' \<in> set (acts @ [act]). pays_for act' d)) \<and>
    length (filter (\<lambda>d. dp_source d = src \<and> \<not> pays_for act d)
      (run_dispatches run)) \<le> length acts \<and>
    (\<forall>c. act_count act = Some c \<longrightarrow>
       dispatched_from src (run_dispatches run) \<le> unat c \<and>
       (run_end run = Ended (Inr ()) \<and> no_stop ticks \<longrightarrow> dispatched_from src (run_dispatches run) = unat c))"
proof -
  from internal_run_ok [OF assms(1,2)] obtain kits r0 h t where
    valid: "validate_activity supports_keysend (gen_range_u64 (env_range env)) nodes activity r = Some (Inr (), r0)"
    and kits: "activity_executors env cfg nodes activity = Inr kits"
    and set_up: "setup_payment_events now kits r0 = Some (Inr (h, t), r1)"
    and spawned: "spawned_tasks out = run_data_collection cfg @ [EventsTask h t] @
       (case total_time cfg of None \<Rightarrow> [] | Some d \<Rightarrow> [TimeoutTask d])" by metis
  have eq: "heap = h" "trackers = t" using assms(3) unfolding spawned spawned_events by simp_all
  have "activity \<noteq> []" using assms(6) by (auto simp: activities_of_def)
  then have kits_eq: "kits = map (defined_kit (env_range env)) activity"
    using kits by (simp add: activity_executors_def)
  let ?kit = "defined_kit (env_range env) act"
  have mine: "of_source src kits = map (defined_kit (env_range env)) (acts @ [act])"
    by (simp add: kits_eq activities_of_kits assms(6))
  then have own: "owner kits src = Some ?kit" by (simp add: owner_last)
  note start = setup_inv [OF set_up] and made = setup_from [OF set_up] and run = assms(4) [unfolded eq]
  have "hm_contains nodes s \<and> kit_never_refuses kit" if "executor_of t s = Some kit" for s kit
    using owner_SomeD [OF that [unfolded setup_executors [OF set_up]]] validate_activity_sound(2) [OF valid]
    by (auto simp: kits_eq defined_kit_fields defined_kit_never_refuses flow_ok_def)
  then have ends: "e = time_overflow" if "run_end run = Ended (Inl e)" for e
    using run_error [OF run start(1) _ that] by blast
  have counts: "count_of t src = act_count act" "completed t src = 0"
    using start(3) [of src] own by (simp_all add: count_of_def completed_def defined_kit_fields)
  note inv = run_inv [OF run start(1), of src]
  have pays: "dp_amount d \<noteq> 0 \<and> (\<exists>act' \<in> set (acts @ [act]). pays_for act' d)"
    if d: "d \<in> set (run_dispatches run)" "dp_source d = src" for d
  proof -
    from run_from [OF run made(1)] d obtain kit where "kit \<in> set (of_source src kits)" "paid_by kit d"
      by (auto simp: of_source_def)
    then obtain act' where "act' \<in> set (acts @ [act])" "paid_by (defined_kit (env_range env) act') d"
      unfolding mine by auto
    with defined_kit_paid [OF assms(5)] inv d(1) show ?thesis by blast
  qed
  have "length (filter (\<lambda>d. dp_source d = src \<and> \<not> pays_for act d) (run_dispatches run))
      \<le> stray_payments ?kit src (run_dispatches run)"
    unfolding stray_payments_def using defined_kit_paid [OF assms(5), of act] by (intro filter_length_mono) blast
  moreover have "stray_payments ?kit src (run_dispatches run) < Suc (length acts)"
    using run_strays [OF run, of src ?kit] made(2) [OF own] own by (simp add: setup_executors [OF set_up] mine)
  moreover have "dispatched_from src (run_dispatches run) \<le> unat c \<and>
      (run_end run = Ended (Inr ()) \<and> no_stop ticks \<longrightarrow> dispatched_from src (run_dispatches run) = unat c)"
    if "act_count act = Some c" for c
    using that counts run_count_exact [OF run start(1)] by simp
  ultimately show ?thesis using ends pays by (intro conjI) (blast, blast, linarith, blast)
qed

subsection \<open>A worked example\<close>

text \<open>An environment over integers, whose samplers are constant and whose picks alternate.\<close>

definition demo_env :: "(int, int, unit, nat) random_env" where
  "demo_env =
     \<lparr>env_float = \<lparr>f64_of_u64 = (\<lambda>x. int (unat x)), f64_const = int, f64_ln = (\<lambda>x. x), f64_sqrt = (\<lambda>x. x),
        f64_mul = (*), f64_div = (div), f64_sub = (-), f64_less = (<), f64_eq = (=), f64_to_u64 = word_of_int\<rparr>,
      env_rand = (\<lambda>rng. \<lparr>exp_new = Inr, exp_sample = (\<lambda>d r. (1, r)), log_normal_new = (\<lambda>mu s. Inr mu),
        log_normal_sample = (\<lambda>d r. (3, r)), rng_poisoned = None\<rparr>),
      env_picker = (\<lambda>rng. \<lparr>weighted_new = (\<lambda>ws. Inr ()), weighted_sample = (\<lambda>w r. (r mod 2, r + 1))\<rparr>),
      env_range = \<lparr>gen_range_u16 = (\<lambda>x y r. (x, r)), gen_range_u64 = (\<lambda>x y r. (x, r))\<rparr>,
      env_rng = \<lparr>default_hash = (\<lambda>bs. of_nat (length bs)), serialize_pubkey = (\<lambda>pk. []), random_u64 = (\<lambda>_. 3)\<rparr>\<rparr>"

definition demo_lightning_node :: "nat \<Rightarrow> u64 \<Rightarrow> unit lightning_node" where
  "demo_lightning_node n capacity =
     \<lparr>ln_info = demo_info n, ln_network = Regtest,
      ln_send_payment = (\<lambda>pk amt s. (Inl InvalidPaymentHash, s)),
      ln_track_payment = (\<lambda>hash s. (Inl InvalidPaymentHash, s)),
      ln_get_node_info = (\<lambda>pk. Inr \<lparr>pubkey = pk, node_alias = [], features = NodeFeatures []\<rparr>),
      ln_channel_capacities = Inr capacity, ln_get_graph = Some (Inr hm_new)\<rparr>"

definition demo_nodes :: "unit nodes" where
  "demo_nodes = [(PublicKey 1, demo_lightning_node 1 40), (PublicKey 2, demo_lightning_node 2 80),
     (PublicKey 3, demo_lightning_node 3 10)]"

definition demo_cfg :: "int simulation_cfg" where
  "demo_cfg = simulation_cfg_new (Some 60) 10 2 None (Some 7)"

lemmas demo_setting = demo_env_def demo_lightning_node_def demo_nodes_def demo_cfg_def simulation_cfg_new_def
  demo_info_def

lemma demo_env_documented: "env_documented demo_env"
  by (auto simp: env_documented_def demo_env_def float_monotone_def log_normal_documented_def word_le_def)

definition demo_kits :: "nat executor_kit list" where
  "demo_kits = (case random_activity_nodes demo_env demo_cfg demo_nodes of Inr kits \<Rightarrow> kits | _ \<Rightarrow> [])"

lemmas random_setup_eval = random_activity_nodes_def demo_setting Let_def mut_rng_new_def validate_capacity_def
  network_graph_view_new_def hm_values_def hm_new_def random_activity_new_def events_per_month_def

lemmas random_kit_eval = random_payment_generator_def random_next_payment_wait_def lock_rng_def gen_bind_def
  view_destination_generator_def view_choose_destination_def choose_loop.simps random_payment_amount_def
  sigma_square_def

lemma demo_kits_ok: "random_activity_nodes demo_env demo_cfg demo_nodes = Inr demo_kits"
  by (simp add: demo_kits_def random_setup_eval)

definition demo_random :: "(event_heap \<times> nat trackers) \<times> nat" where
  "demo_random = (case setup_payment_events 0 demo_kits 0 of Some (Inr s, r) \<Rightarrow> (s, r))"

lemma demo_random_ok:
  "setup_payment_events 0 demo_kits 0 = Some (Inr (fst (fst demo_random), snd (fst demo_random)), snd demo_random)"
  by (simp add: demo_random_def demo_kits_def random_setup_eval random_kit_eval event_eval)

definition demo_random_run :: "nat run" where
  "demo_random_run = fst (the (produce_payment_events (hm_contains demo_nodes) [demo_tick, demo_tick, demo_tick]
     (fst (fst demo_random)) (snd (fst demo_random)) (snd demo_random)))"

lemma demo_random_run_ok: "\<exists>r. produce_payment_events (hm_contains demo_nodes) [demo_tick, demo_tick, demo_tick]
    (fst (fst demo_random)) (snd (fst demo_random)) (snd demo_random) = Some (demo_random_run, r)"
  by (simp add: demo_random_run_def demo_random_def demo_kits_def random_setup_eval random_kit_eval event_eval
      hm_contains_def)

lemma demo_random_sent: "map (\<lambda>d. (dp_source d, pubkey (dp_destination d))) (run_dispatches demo_random_run) =
    [(PublicKey 1, PublicKey 2), (PublicKey 1, PublicKey 2), (PublicKey 1, PublicKey 2)]"
  by (simp add: demo_random_run_def demo_random_def demo_kits_def random_setup_eval random_kit_eval event_eval
      hm_contains_def)

definition demo_activity :: activity_definition where
  "demo_activity = \<lparr>act_source = demo_info 1, act_destination = demo_info 2, act_start_secs = Some 3,
     act_count = Some 2, act_interval_secs = Value 1, act_amount_msat = Range 5 9\<rparr>"

definition demo_outcome :: "nat run_outcome" where
  "demo_outcome = fst (the (internal_run demo_env demo_cfg (\<lambda>_. True) demo_nodes 0 [demo_activity] 0))"

definition demo_events :: "event_heap \<times> nat trackers" where
  "demo_events = (case spawned_tasks demo_outcome ! 3 of EventsTask h t \<Rightarrow> (h, t))"

lemmas internal_run_eval = internal_run_def validate_node_network_def validate_activity_def gen_bind_def
  activity_executors_def defined_kit_def run_data_collection_def demo_setting demo_activity_def hm_values_def
  hm_contains_def hm_len_def

lemma demo_internal_run: "internal_run demo_env demo_cfg (\<lambda>_. True) demo_nodes 0 [demo_activity] 0 = Some (demo_outcome, 0)"
  by (simp add: demo_outcome_def internal_run_eval event_eval)

lemma demo_outcome_ok: "outcome demo_outcome = Inr ()"
  by (simp add: demo_outcome_def internal_run_eval event_eval)

lemma demo_spawned: "EventsTask (fst demo_events) (snd demo_events) \<in> set (spawned_tasks demo_outcome)"
  by (simp add: demo_events_def demo_outcome_def internal_run_eval event_eval)

definition demo_defined_run :: "nat run" where
  "demo_defined_run = fst (the (produce_payment_events (hm_contains demo_nodes) [demo_tick, demo_tick, demo_tick, demo_tick]
     (fst demo_events) (snd demo_events) 0))"

lemma demo_defined_run_ok: "produce_payment_events (hm_contains demo_nodes)
    [demo_tick, demo_tick, demo_tick, demo_tick] (fst demo_events) (snd demo_events) 0 = Some (demo_defined_run, 0)"
  by (simp add: demo_defined_run_def demo_events_def demo_outcome_def internal_run_eval event_eval)

lemma demo_defined_run_end: "run_end demo_defined_run = Ended (Inr ())"
  by (simp add: demo_defined_run_def demo_events_def demo_outcome_def internal_run_eval event_eval)

subsection \<open>The properties\<close>

text \<open>C9. What a simulation of defined activities pays. When the set-up succeeds, the events task it spawns
  never fails but on a time that overflows. For any source, let \<open>act\<close> be the last activity of
  the file with that source and \<open>acts\<close> the others (none, when the sources are distinct): every payment
  dispatched from the source goes to the destination of one of them with a non-zero amount of its
  range, and all but at most one for each of \<open>acts\<close> to that of \<open>act\<close>; the number of payments never
  exceeds the count of \<open>act\<close> and is exactly that count once the task has run out of events.\<close>

theorem defined_simulation_pays:
  assumes "internal_run env cfg supports_keysend nodes now activity r = Some (out, r1)" and "outcome out = Inr ()"
    and "EventsTask heap trackers \<in> set (spawned_tasks out)"
    and "produce_payment_events (hm_contains nodes) ticks heap trackers r1 = Some (run, r2)"
    and "range_ops_ok (env_range env)" and "activities_of src activity = acts @ [act]"
  shows "(\<forall>e. run_end run = Ended (Inl e) \<longrightarrow> e = time_overflow) \<and>
    (\<forall>d \<in> set (run_dispatches run). dp_source d = src \<longrightarrow> dp_amount d \<noteq> 0 \<and>
       (\<exists>act' \<in> set (acts @ [act]). pays_for act' d)) \<and>
    length (filter (\<lambda>d. dp_source d = src \<and> \<not> pays_for act d)
      (run_dispatches run)) \<le> length acts \<and>
    (\<forall>c. act_count act = Some c \<longrightarrow>
       dispatched_from src (run_dispatches run) \<le> unat c \<and>
       (run_end run = Ended (Inr ()) \<and> no_stop ticks \<longrightarrow> dispatched_from src (run_dispatches run) = unat c))"
  by (rule defined_run_pays [OF assms])

theorem defined_simulation_pays_witness:
  "dispatched_from (PublicKey 1) (run_dispatches demo_defined_run) = 2"
proof -
  have "activities_of (PublicKey 1) [demo_activity] = [] @ [demo_activity]" "range_ops_ok (env_range demo_env)"
    "act_count demo_activity = Some 2" "no_stop [demo_tick, demo_tick, demo_tick, demo_tick]"
    by (auto simp: activities_of_def demo_activity_def demo_info_def range_ops_ok_def gen_range_ok_def demo_env_def no_stop_def demo_tick_def)
  then show ?thesis
    using defined_simulation_pays [OF demo_internal_run demo_outcome_ok demo_spawned demo_defined_run_ok]
      demo_defined_run_end by simp
qed

text \<open>C21. Random activity never fails. When \<open>random_activity_nodes\<close> returned its executors, neither
  the set-up of the events nor the loop ever stops with an error, other than a time that overflows:
  the capacity checks made once per node are enough for every later draw of a destination and an
  amount. Every payment goes from one active node to another.\<close>

theorem random_simulation_never_fails:
  assumes "random_activity_nodes env cfg nodes = Inr kits" and "env_documented env"
    and "2 * unat (expected_payment_msat cfg) < 2 ^ 64" and "hm_wf nodes"
    and "\<forall>(pk, node) \<in> set nodes. \<forall>ni. ln_get_node_info node pk = Inr ni \<longrightarrow> pubkey ni = pk"
  shows "(\<forall>e r1. setup_payment_events now kits r = Some (Inl e, r1) \<longrightarrow> e = time_overflow) \<and>
    (\<forall>heap trackers r1 run r2. setup_payment_events now kits r = Some (Inr (heap, trackers), r1) \<longrightarrow>
       produce_payment_events (hm_contains nodes) ticks heap trackers r1 = Some (run, r2) \<longrightarrow>
       (\<forall>e. run_end run = Ended (Inl e) \<longrightarrow> e = time_overflow) \<and>
       (\<forall>d \<in> set (run_dispatches run).
          dp_source d \<in> (\<lambda>kit. pubkey (source_info kit)) ` set kits \<and>
          dp_destination d \<in> source_info ` set kits \<and> pubkey (dp_destination d) \<noteq> dp_source d))"
proof (intro conjI allI impI ballI)
  show "e = time_overflow" if "setup_payment_events now kits r = Some (Inl e, r1)" for e r1
    using setup_loop_error [OF that [unfolded setup_payment_events_def]]
      random_kit_never_refuses [OF assms(1-3)] by simp
  fix heap trackers r1 run r2
  assume set_up: "setup_payment_events now kits r = Some (Inr (heap, trackers), r1)"
    and run: "produce_payment_events (hm_contains nodes) ticks heap trackers r1 = Some (run, r2)"
  note sources = random_sources [OF assms(1,4,5,3)]
  note start = setup_inv [OF set_up] and made = setup_from [OF set_up]
  have never: "hm_contains nodes s \<and> kit_never_refuses kit" if "executor_of trackers s = Some kit" for s kit
  proof -
    from owner_SomeD [OF that [unfolded setup_executors [OF set_up]]]
    have kit: "kit \<in> set kits" "pubkey (source_info kit) = s" by simp_all
    from sources(2) [OF kit(1)] obtain node where "(s, node) \<in> set nodes" unfolding kit(2) by blast
    then have "hm_contains nodes s" by (force simp: hm_contains_iff)
    with random_kit_never_refuses [OF assms(1-3) kit(1)] show ?thesis by blast
  qed
  then show "e = time_overflow" if "run_end run = Ended (Inl e)" for e
    using run_error [OF run start(1) _ that] by blast
  fix d
  assume "d \<in> set (run_dispatches run)"
  with run_from [OF run made(1)] obtain kit where mem: "kit \<in> set kits" "pubkey (source_info kit) = dp_source d"
    and paid: "paid_by kit d" by blast
  show "dp_source d \<in> (\<lambda>kit. pubkey (source_info kit)) ` set kits"
    unfolding mem(2) [symmetric] by (intro imageI mem(1))
  from random_kit_destination [OF assms(1-3) mem(1) paid [unfolded paid_by_def]] mem
  show "dp_destination d \<in> source_info ` set kits" "pubkey (dp_destination d) \<noteq> dp_source d" by auto
qed

theorem random_simulation_never_fails_witness:
  "run_end demo_random_run \<noteq> Ended (Inl TaskError) \<and>
   list_all (\<lambda>d. pubkey (dp_destination d) \<noteq> dp_source d) (run_dispatches demo_random_run)"
proof -
  have "2 * unat (expected_payment_msat demo_cfg) < 2 ^ 64" "hm_wf demo_nodes"
    "\<forall>(pk, node) \<in> set demo_nodes. \<forall>ni. ln_get_node_info node pk = Inr ni \<longrightarrow> pubkey ni = pk"
    by (auto simp: demo_setting hm_wf_def)
  note all = random_simulation_never_fails [OF demo_kits_ok demo_env_documented this,
      THEN conjunct2, rule_format, OF demo_random_ok]
  from demo_random_run_ok obtain r2 where "produce_payment_events (hm_contains demo_nodes)
      [demo_tick, demo_tick, demo_tick] (fst (fst demo_random)) (snd (fst demo_random)) (snd demo_random)
    = Some (demo_random_run, r2)" ..
  note conj = all [OF this]
  then have "run_end demo_random_run \<noteq> Ended (Inl TaskError)"
    by (auto simp: time_overflow_def simp del: produce_payment_events.simps)
  with conj show ?thesis unfolding list_all_iff by blast
qed

text \<open>C32. Which nodes take part. The executors of random activity have distinct sources, exactly the
  nodes whose capacity is at least four times the expected payment. A node with less than twice the
  payment is skipped; one in between (which the check on the full capacity admits and the check on
  the halved one refuses) makes the whole set-up fail, so when it succeeds there is none.\<close>

theorem random_activity_sources:
  assumes "random_activity_nodes env cfg nodes = Inr kits" and "hm_wf nodes"
    and "\<forall>(pk, node) \<in> set nodes. \<forall>ni. ln_get_node_info node pk = Inr ni \<longrightarrow> pubkey ni = pk"
    and "2 * unat (expected_payment_msat cfg) < 2 ^ 64"
  shows "distinct (map (\<lambda>kit. pubkey (source_info kit)) kits) \<and>
    (\<forall>(pk, node) \<in> set nodes. \<exists>c. ln_channel_capacities node = Inr c \<and>
       (pk \<in> (\<lambda>kit. pubkey (source_info kit)) ` set kits \<longleftrightarrow> 4 * unat (expected_payment_msat cfg) \<le> unat c) \<and>
       (unat c < 2 * unat (expected_payment_msat cfg) \<or> 4 * unat (expected_payment_msat cfg) \<le> unat c))"
proof (intro conjI ballI)
  note sources = random_sources [OF assms]
  show "distinct (map (\<lambda>kit. pubkey (source_info kit)) kits)" by (rule sources(1))
  fix entry
  assume entry: "entry \<in> set nodes"
  obtain pk node where eq: "entry = (pk, node)" by (cases entry)
  from sources(3) entry eq obtain c where c: "ln_channel_capacities node = Inr c"
    "2 * unat (expected_payment_msat cfg) \<le> unat c \<longrightarrow> 4 * unat (expected_payment_msat cfg) \<le> unat c \<and>
       (\<exists>kit \<in> set kits. pubkey (source_info kit) = pk)" by blast
  have "4 * unat (expected_payment_msat cfg) \<le> unat c"
    if kit: "kit \<in> set kits" "pubkey (source_info kit) = pk" for kit
  proof -
    from sources(2) [OF kit(1)] obtain node' c' where other: "(pk, node') \<in> set nodes"
      "ln_channel_capacities node' = Inr c'" "4 * unat (expected_payment_msat cfg) \<le> unat c'"
      unfolding kit(2) by blast
    have "node' = node" using assms(2) other(1) entry eq eq_key_imp_eq_value unfolding hm_wf_def by fast
    with other c(1) show ?thesis by simp
  qed
  with c show "case entry of (pk, node) \<Rightarrow> \<exists>c. ln_channel_capacities node = Inr c \<and>
      (pk \<in> (\<lambda>kit. pubkey (source_info kit)) ` set kits \<longleftrightarrow> 4 * unat (expected_payment_msat cfg) \<le> unat c) \<and>
      (unat c < 2 * unat (expected_payment_msat cfg) \<or> 4 * unat (expected_payment_msat cfg) \<le> unat c)"
    unfolding eq by (auto intro!: exI [of _ c])
qed

theorem random_activity_sources_witness:
  "PublicKey 3 \<notin> (\<lambda>kit. pubkey (source_info kit)) ` set demo_kits \<and>
   PublicKey 1 \<in> (\<lambda>kit. pubkey (source_info kit)) ` set demo_kits"
proof -
  have "hm_wf demo_nodes" "2 * unat (expected_payment_msat demo_cfg) < 2 ^ 64"
    "\<forall>(pk, node) \<in> set demo_nodes. \<forall>ni. ln_get_node_info node pk = Inr ni \<longrightarrow> pubkey ni = pk"
    by (auto simp: demo_setting hm_wf_def)
  note random_activity_sources [OF demo_kits_ok this(1,3,2)]
  moreover have "(PublicKey 1, demo_lightning_node 1 40) \<in> set demo_nodes"
    "(PublicKey 3, demo_lightning_node 3 10) \<in> set demo_nodes"
    by (simp_all add: demo_nodes_def)
  ultimately show ?thesis
    by (auto simp: demo_lightning_node_def demo_cfg_def simulation_cfg_new_def)
qed

text \<open>C19. What a run needs and what an error leaves. When \<open>internal_run\<close> succeeds, all nodes are on
  one network other than mainnet, every activity has its source among the nodes and a destination
  that takes keysend (without activities: there are two nodes and all take keysend), and the events
  task was spawned with nothing shut down. When it fails, either validation refused it and no task
  was spawned, or the shutdown was triggered for the tasks already running.\<close>

theorem internal_run_outcome:
  assumes "internal_run env cfg supports_keysend nodes now activity r = Some (out, r1)"
  shows "case outcome out of
      Inr _ \<Rightarrow>
        (\<exists>n. n \<noteq> Bitcoin \<and> (\<forall>node \<in> set (hm_values nodes). ln_network node = n)) \<and>
        (\<forall>act \<in> set activity. hm_contains nodes (pubkey (act_source act)) \<and>
           supports_keysend (features (act_destination act)) \<and> act_amount_msat act \<noteq> Value 0) \<and>
        (activity = [] \<longrightarrow> 2 \<le> hm_len nodes \<and>
           (\<forall>node \<in> set (hm_values nodes). supports_keysend (features (ln_info node)))) \<and>
        (\<exists>heap trackers. EventsTask heap trackers \<in> set (spawned_tasks out)) \<and> \<not> shutdown_triggered out
    | Inl e \<Rightarrow> if shutdown_triggered out then spawned_tasks out = run_data_collection cfg
               else spawned_tasks out = [] \<and> (\<exists>le. e = LightningError le)"
proof (cases "outcome out")
  case (Inl e)
  with assms show ?thesis
    by (auto simp: internal_run_def Let_def split: sum.splits option.splits)
next
  case (Inr u)
  then have ok: "outcome out = Inr ()" by simp
  obtain h t r0 where
    net: "is_ok (validate_node_network nodes)"
    and valid: "validate_activity supports_keysend (gen_range_u64 (env_range env)) nodes activity r = Some (Inr (), r0)"
    and spawned: "spawned_tasks out = run_data_collection cfg @ [EventsTask h t] @
       (case total_time cfg of None \<Rightarrow> [] | Some d \<Rightarrow> [TimeoutTask d])"
    and running: "\<not> shutdown_triggered out" by (rule internal_run_ok [OF assms ok])
  have "EventsTask h t \<in> set (spawned_tasks out)" unfolding spawned spawned_events by simp
  with Inr running validate_activity_sound [OF valid] net [unfolded validate_node_network_ok] show ?thesis
    by (auto simp: flow_ok_def)
qed

theorem internal_run_outcome_witness:
  "hm_contains demo_nodes (pubkey (act_source demo_activity)) \<and> \<not> shutdown_triggered demo_outcome"
  using internal_run_outcome [OF demo_internal_run] demo_outcome_ok by simp

end
