(* ===== verification/Results.thy ===== *)
theory Results
  imports Simulation
begin

section \<open>Sending payments and collecting results (simln-lib/src/lib.rs, batched_writer.rs)\<close>

text \<open>
  What happens to a payment that the event loop dispatches: \<open>send_payment\<close> hands it to its node and
  reports an output, \<open>produce_simulation_results\<close> turns outputs into results, with one
  \<open>track_payment_result\<close> task per payment sent, and \<open>consume_simulation_results\<close> counts the results
  in a \<open>PaymentResultLogger\<close> and writes them with a \<open>BatchedWriter\<close>.

  The writer of the \<open>csv\<close> crate is a parameter: \<open>csv_ops\<close>. The channels and the shutdown listener
  are given by what each \<open>recv\<close>, \<open>send\<close> or \<open>select!\<close> meets.
\<close>

subsection \<open>Counting results\<close>

record payment_result_logger =
  success_payment :: u64
  failed_payment :: u64
  total_sent :: u64

definition payment_result_logger_new :: payment_result_logger where
  "payment_result_logger_new = \<lparr>success_payment = 0, failed_payment = 0, total_sent = 0\<rparr>"

definition report_result :: "payment \<Rightarrow> payment_result \<Rightarrow> payment_result_logger \<Rightarrow> payment_result_logger" where
  "report_result details result logger =
     (let logger' = (case payment_outcome result of
                       Success \<Rightarrow> logger\<lparr>success_payment := success_payment logger + 1\<rparr>
                     | _ \<Rightarrow> logger\<lparr>failed_payment := failed_payment logger + 1\<rparr>)
      in logger'\<lparr>total_sent := total_sent logger' + pay_amount_msat details\<rparr>)"

definition total_attempts :: "payment_result_logger \<Rightarrow> u64" where
  "total_attempts logger = success_payment logger + failed_payment logger"

definition success_rate :: "'f float_ops \<Rightarrow> payment_result_logger \<Rightarrow> 'f" where
  "success_rate fl logger =
     f64_mul fl (f64_div fl (f64_of_u64 fl (success_payment logger)) (f64_of_u64 fl (total_attempts logger)))
       (f64_const fl 100)"

subsection \<open>Writing results in batches\<close>

text \<open>
  The operations of the \<open>csv\<close> crate's writer on its own state. \<open>Err\<close> of \<open>csv_open\<close> is an error of
  the file system; each of the others returns whether it succeeded.
\<close>

type_synonym result_row = "payment \<times> payment_result"

record 'w csv_ops =
  csv_open :: "string \<Rightarrow> message \<Rightarrow> 'w option"
  csv_serialize :: "result_row \<Rightarrow> 'w \<Rightarrow> bool \<times> 'w"
  csv_flush :: "'w \<Rightarrow> bool \<times> 'w"

record 'w batched_writer =
  bw_batch_size :: u32
  bw_counter :: u32
  bw_writer :: 'w

definition batched_writer_new ::
  "'w csv_ops \<Rightarrow> string \<Rightarrow> message \<Rightarrow> u32 \<Rightarrow> simulation_error + 'w batched_writer" where
  "batched_writer_new csv directory file_name batch =
     (if batch = 0 then Inl FileError
      else case csv_open csv directory file_name of
             None \<Rightarrow> Inl CsvError
           | Some w \<Rightarrow> Inr \<lparr>bw_batch_size = batch, bw_counter = 0, bw_writer = w\<rparr>)"

definition batched_write ::
  "'w csv_ops \<Rightarrow> bool \<Rightarrow> 'w batched_writer \<Rightarrow> (simulation_error + unit) \<times> 'w batched_writer" where
  "batched_write csv force bw =
     (if force \<or> bw_batch_size bw = bw_counter bw
      then (let (ok, w) = csv_flush csv (bw_writer bw) in
            (if ok then Inr () else Inl CsvError, bw\<lparr>bw_counter := 0, bw_writer := w\<rparr>))
      else (Inr (), bw))"

definition batched_queue ::
  "'w csv_ops \<Rightarrow> result_row \<Rightarrow> 'w batched_writer \<Rightarrow> (simulation_error + unit) \<times> 'w batched_writer" where
  "batched_queue csv row bw =
     (let (ok, w) = csv_serialize csv row (bw_writer bw);
          bw' = bw\<lparr>bw_writer := w\<rparr>
      in if \<not> ok then (Inl CsvError, snd (batched_write csv True bw'))
         else batched_write csv False (bw'\<lparr>bw_counter := bw_counter bw' mod bw_batch_size bw' + 1\<rparr>))"

subsection \<open>Consuming results\<close>

datatype consume_event =
    ConsumerStopped
  | ResultReceived payment payment_result
  | ResultsClosed

record 'w consumer =
  cn_logger :: payment_result_logger
  cn_writer :: "'w batched_writer option"

text \<open>\<open>None\<close> as a result says that the consumer is still waiting when the events run out.\<close>

definition consumer_exit ::
  "'w csv_ops \<Rightarrow> 'w consumer \<Rightarrow> (simulation_error + unit) option \<times> 'w consumer" where
  "consumer_exit csv c =
     (case cn_writer c of
        None \<Rightarrow> (Some (Inr ()), c)
      | Some w \<Rightarrow>
          (let (res, w') = batched_write csv True w in (Some res, c\<lparr>cn_writer := Some w'\<rparr>)))"

fun consume_loop ::
  "'w csv_ops \<Rightarrow> consume_event list \<Rightarrow> 'w consumer \<Rightarrow> (simulation_error + unit) option \<times> 'w consumer" where
  "consume_loop csv [] c = (None, c)"
| "consume_loop csv (ConsumerStopped # es) c = consumer_exit csv c"
| "consume_loop csv (ResultsClosed # es) c = consumer_exit csv c"
| "consume_loop csv (ResultReceived details result # es) c =
     (let c' = c\<lparr>cn_logger := report_result details result (cn_logger c)\<rparr> in
      case cn_writer c' of
        None \<Rightarrow> consume_loop csv es c'
      | Some w \<Rightarrow>
          (case batched_queue csv (details, result) w of
             (Inl e, w') \<Rightarrow> (Some (Inl e), c'\<lparr>cn_writer := Some w'\<rparr>)
           | (Inr _, w') \<Rightarrow> consume_loop csv es (c'\<lparr>cn_writer := Some w'\<rparr>)))"

definition results_file_name :: "system_time \<Rightarrow> message" where
  "results_file_name now = Fmt ''simulation_{:?}.csv'' [ArgNum (now div nanos_per_sec)]"

definition consume_simulation_results ::
  "'w csv_ops \<Rightarrow> payment_result_logger \<Rightarrow> system_time \<Rightarrow> write_results option \<Rightarrow> consume_event list \<Rightarrow>
   (simulation_error + unit) option \<times> 'w consumer" where
  "consume_simulation_results csv logger now results es =
     (case results of
        None \<Rightarrow> consume_loop csv es \<lparr>cn_logger = logger, cn_writer = None\<rparr>
      | Some w \<Rightarrow>
          (case batched_writer_new csv (results_dir w) (results_file_name now) (batch_size w) of
             Inl e \<Rightarrow> (Some (Inl e), \<lparr>cn_logger = logger, cn_writer = None\<rparr>)
           | Inr bw \<Rightarrow> consume_loop csv es \<lparr>cn_logger = logger, cn_writer = Some bw\<rparr>))"

subsection \<open>Sending a payment\<close>

text \<open>The output that was passed to the channel, if any, comes with the result; \<open>send_ok\<close> says that
  the channel took it.\<close>

definition node_send_payment ::
  "'s lightning_node \<Rightarrow> simulation_event \<Rightarrow> system_time \<Rightarrow> bool \<Rightarrow> 's \<Rightarrow>
   (simulation_error + unit) \<times> simulation_output option \<times> 's" where
  "node_send_payment node event dispatch_time send_ok s =
     (case event of SendPayment dest amt_msat \<Rightarrow>
       (let payment = \<lparr>pay_source = pubkey (ln_info node), pay_destination = pubkey dest,
                       pay_amount_msat = amt_msat, pay_hash = None, pay_dispatch_time = dispatch_time\<rparr>;
            deliver = (\<lambda>out s'. (if send_ok then Inr () else Inl (MpscChannelError
                        (Fmt ''Error sending simulation output {outcome:?}: {e}.'' [])), Some out, s'))
        in case ln_send_payment node (pubkey dest) amt_msat s of
             (Inr hash, s') \<Rightarrow> deliver (SendPaymentSuccess (payment\<lparr>pay_hash := Some hash\<rparr>)) s'
           | (Inl (PermanentError msg), s') \<Rightarrow> (Inl (LightningError (PermanentError msg)), None, s')
           | (Inl e, s') \<Rightarrow> deliver (SendPaymentFailure payment not_dispatched) s'))"

subsection \<open>Tracking a payment\<close>

text \<open>What the final \<open>select!\<close> of a producer of results meets when it sends one.\<close>

datatype send_event = SendInterrupted | SendDone | SendRefused

definition track_payment_result ::
  "'s lightning_node \<Rightarrow> payment \<Rightarrow> send_event \<Rightarrow> 's \<Rightarrow>
   (simulation_error + unit) \<times> result_row option \<times> 's" where
  "track_payment_result node payment sending s =
     (let (res, s') =
        (case pay_hash payment of
           Some hash \<Rightarrow>
             (case ln_track_payment node hash s of
                (Inr res, s') \<Rightarrow> (res, s')
              | (Inl e, s') \<Rightarrow> (track_payment_failed, s'))
         | None \<Rightarrow> (not_dispatched, s))
      in case sending of
           SendInterrupted \<Rightarrow> (Inr (), None, s')
         | SendDone \<Rightarrow> (Inr (), Some (payment, res), s')
         | SendRefused \<Rightarrow> (Inl (MpscChannelError
             (Fmt ''Failed to send payment result {res} for payment {payment}.'' [])), None, s'))"

text \<open>
  \<open>produce_simulation_results\<close> over the outputs it receives, each with what sending a failure at
  once meets. It returns the payments handed to tracking tasks and the results sent directly, in
  order; \<open>None\<close> says that it is still waiting.
\<close>

datatype produced = Tracking payment | Direct payment payment_result

definition mpsc_result_error :: "payment \<Rightarrow> simulation_error" where
  "mpsc_result_error payment = MpscChannelError
     (Fmt ''Failed to send payment result: {result} for payment {:?} dispatched at {:?}.''
        [ArgHex (case pay_hash payment of Some (PaymentHash bs) \<Rightarrow> bs | None \<Rightarrow> []),
         ArgNum (pay_dispatch_time payment)])"

datatype output_event = OutputReceived simulation_output send_event | OutputsClosed

fun produce_simulation_results ::
  "'s nodes \<Rightarrow> output_event list \<Rightarrow> (simulation_error + unit) option \<times> produced list" where
  "produce_simulation_results nodes [] = (None, [])"
| "produce_simulation_results nodes (OutputsClosed # es) = (Some (Inr ()), [])"
| "produce_simulation_results nodes (OutputReceived (SendPaymentSuccess payment) sending # es) =
     (if hm_contains nodes (pay_source payment)
      then map_prod id (Cons (Tracking payment)) (produce_simulation_results nodes es)
      else (Some (Inl (MissingNodeError
              (Fmt ''Source node with public key: {} unavailable.'' [ArgPk (pay_source payment)]))), []))"
| "produce_simulation_results nodes (OutputReceived (SendPaymentFailure payment result) sending # es) =
     (case sending of
        SendInterrupted \<Rightarrow> (Some (Inr ()), [])
      | SendDone \<Rightarrow> map_prod id (Cons (Direct payment result)) (produce_simulation_results nodes es)
      | SendRefused \<Rightarrow> (Some (Inl (mpsc_result_error payment)), []))"

end
