(* ===== verification/Result_Properties.thy ===== *)
theory Result_Properties
  imports Results
begin

section \<open>Properties of the results\<close>

text \<open>
  No result is lost: the consumer counts and writes every result it receives, the batches bound what
  a crash can lose, and every payment sent by the loop ends in one result or stops the simulation.
\<close>

subsection \<open>The documented behaviour of the csv writer\<close>

text \<open>
  \<open>disk\<close> are the rows in the file and \<open>pending\<close> those in the writer's buffer. Serialising appends a
  row and may move rows to the file, flushing moves all of them.
\<close>

definition csv_documented :: "'w csv_ops \<Rightarrow> ('w \<Rightarrow> result_row list) \<Rightarrow> ('w \<Rightarrow> result_row list) \<Rightarrow> bool" where
  "csv_documented csv disk pending \<longleftrightarrow>
     (\<forall>dir name w. csv_open csv dir name = Some w \<longrightarrow> disk w = [] \<and> pending w = []) \<and>
     (\<forall>row w w'. csv_serialize csv row w = (True, w') \<longrightarrow>
        disk w' @ pending w' = disk w @ pending w @ [row] \<and> length (pending w') \<le> Suc (length (pending w))) \<and>
     (\<forall>w w'. csv_flush csv w = (True, w') \<longrightarrow> disk w' = disk w @ pending w \<and> pending w' = [])"

subsection \<open>The batched writer\<close>

text \<open>
  \<open>rows\<close> were queued: they are in the file or in the buffer, in order, and the counter bounds what
  is in the buffer.
\<close>

definition bw_inv ::
  "('w \<Rightarrow> result_row list) \<Rightarrow> ('w \<Rightarrow> result_row list) \<Rightarrow> result_row list \<Rightarrow> 'w batched_writer \<Rightarrow> bool" where
  "bw_inv disk pending rows bw \<longleftrightarrow>
     bw_counter bw < bw_batch_size bw \<and> disk (bw_writer bw) @ pending (bw_writer bw) = rows \<and>
     length (pending (bw_writer bw)) \<le> unat (bw_counter bw)"

lemma bw_inv_new:
  "csv_documented csv disk pending \<Longrightarrow> batched_writer_new csv dir name batch = Inr bw \<Longrightarrow>
   bw_inv disk pending [] bw \<and> bw_batch_size bw = batch"
  by (auto simp: batched_writer_new_def csv_documented_def bw_inv_def word_gt_0 split: if_splits option.splits)

lemma bw_inv_write:
  assumes "csv_documented csv disk pending" and "batched_write csv force bw = (Inr (), bw')"
    and "bw_counter bw \<le> bw_batch_size bw" and "0 < bw_batch_size bw"
    and "disk (bw_writer bw) @ pending (bw_writer bw) = rows"
    and "length (pending (bw_writer bw)) \<le> unat (bw_counter bw)"
  shows "bw_inv disk pending rows bw'" and "bw_batch_size bw' = bw_batch_size bw"
    and "force \<Longrightarrow> pending (bw_writer bw') = []"
proof -
  have "bw_inv disk pending rows bw' \<and> bw_batch_size bw' = bw_batch_size bw \<and>
      (force \<longrightarrow> pending (bw_writer bw') = [])"
  proof (cases "force \<or> bw_batch_size bw = bw_counter bw")
    case True
    with assms(2) obtain w where "csv_flush csv (bw_writer bw) = (True, w)"
      and "bw' = bw\<lparr>bw_counter := 0, bw_writer := w\<rparr>"
      by (auto simp: batched_write_def Let_def split: prod.splits if_splits)
    with assms(1,4,5) show ?thesis by (auto simp: csv_documented_def bw_inv_def)
  next
    case False
    with assms show ?thesis by (auto simp: batched_write_def bw_inv_def order.order_iff_strict)
  qed
  then show "bw_inv disk pending rows bw'" "bw_batch_size bw' = bw_batch_size bw"
    "force \<Longrightarrow> pending (bw_writer bw') = []" by simp_all
qed

lemma mod_less_word: "a < b \<Longrightarrow> a mod b = a" for a b :: "'a::len word"
  by (simp add: word_less_nat_alt unat_mod word_unat_eq_iff)

lemma bw_inv_queue:
  assumes "csv_documented csv disk pending" and "batched_queue csv row bw = (Inr (), bw')"
    and "bw_inv disk pending rows bw"
  shows "bw_inv disk pending (rows @ [row]) bw'" and "bw_batch_size bw' = bw_batch_size bw"
proof -
  from assms(2) obtain w where w: "csv_serialize csv row (bw_writer bw) = (True, w)"
    and step: "batched_write csv False
      (bw\<lparr>bw_writer := w, bw_counter := bw_counter bw mod bw_batch_size bw + 1\<rparr>) = (Inr (), bw')"
    by (auto simp: batched_queue_def Let_def split: prod.splits if_splits)
  note inv = assms(3) [unfolded bw_inv_def]
  have less: "unat (bw_counter bw) < unat (bw_batch_size bw)" using inv by (simp add: word_less_nat_alt)
  have "unat (bw_batch_size bw) < 2 ^ 32"
    using unsigned_less [of "bw_batch_size bw"] by simp
  with less have plus: "unat (bw_counter bw + 1) = Suc (unat (bw_counter bw))"
    using unat_add_bounded [of "bw_counter bw" 1] by simp
  have "disk w @ pending w = rows @ [row]" "length (pending w) \<le> Suc (length (pending (bw_writer bw)))"
    using assms(1) w inv by (cases row, auto simp: csv_documented_def)+
  moreover have "bw_batch_size bw \<noteq> 0" using less by auto
  ultimately
  show "bw_inv disk pending (rows @ [row]) bw'" "bw_batch_size bw' = bw_batch_size bw"
    using bw_inv_write [OF assms(1) step, of "rows @ [row]"] inv less plus
    by (auto simp: mod_less_word word_le_nat_alt word_gt_0)
qed

subsection \<open>The consumer\<close>

fun received :: "consume_event list \<Rightarrow> result_row list" where
  "received [] = []"
| "received (ResultReceived details result # es) = (details, result) # received es"
| "received (_ # es) = []"

definition logged :: "result_row list \<Rightarrow> payment_result_logger \<Rightarrow> payment_result_logger" where
  "logged rows logger =
     \<lparr>success_payment = success_payment logger + of_nat (length (filter (\<lambda>r. payment_outcome (snd r) = Success) rows)),
      failed_payment = failed_payment logger + of_nat (length (filter (\<lambda>r. payment_outcome (snd r) \<noteq> Success) rows)),
      total_sent = total_sent logger + sum_list (map (\<lambda>r. pay_amount_msat (fst r)) rows)\<rparr>"

lemma report_result_eq:
  "report_result details result logger =
     \<lparr>success_payment = success_payment logger + (if payment_outcome result = Success then 1 else 0),
      failed_payment = failed_payment logger + (if payment_outcome result = Success then 0 else 1),
      total_sent = total_sent logger + pay_amount_msat details\<rparr>"
  by (cases "payment_outcome result") (simp_all add: report_result_def Let_def)

lemma logged_Cons: "logged rows (report_result details result logger) = logged ((details, result) # rows) logger"
  by (simp add: logged_def report_result_eq)

lemma consumer_exit_ok:
  assumes "consumer_exit csv c = (res, c')" and "csv_documented csv disk pending" and "\<And>e. res \<noteq> Some (Inl e)"
    and "\<And>w. cn_writer c = Some w \<Longrightarrow> bw_inv disk pending rows w \<and> bw_batch_size w = batch"
  shows "cn_logger c' = cn_logger c \<and> (cn_writer c' = None \<longleftrightarrow> cn_writer c = None) \<and>
    (\<forall>w. cn_writer c' = Some w \<longrightarrow> bw_inv disk pending rows w \<and> bw_batch_size w = batch \<and>
       (res = Some (Inr ()) \<longrightarrow> pending (bw_writer w) = []))"
proof (cases "cn_writer c")
  case None
  with assms(1) show ?thesis by (auto simp: consumer_exit_def)
next
  case (Some w)
  obtain q w' where q: "batched_write csv True w = (q, w')" by (cases "batched_write csv True w")
  with assms(1) Some have res: "res = Some q" and c': "c' = c\<lparr>cn_writer := Some w'\<rparr>"
    by (simp_all add: consumer_exit_def)
  from res assms(3) have "q = Inr ()" by (cases q) simp_all
  with q have w': "batched_write csv True w = (Inr (), w')" by simp
  note inv = assms(4) [OF Some, unfolded bw_inv_def]
  have "0 < bw_batch_size w" using inv by (auto simp: word_less_nat_alt)
  with bw_inv_write [OF assms(2) w', of rows] inv Some c' show ?thesis by auto
qed

lemma consume_loop_accounts:
  "consume_loop csv es c = (res, c') \<Longrightarrow> csv_documented csv disk pending \<Longrightarrow> (\<And>e. res \<noteq> Some (Inl e)) \<Longrightarrow>
   (\<And>w. cn_writer c = Some w \<Longrightarrow> bw_inv disk pending rows w \<and> bw_batch_size w = batch) \<Longrightarrow>
   cn_logger c' = logged (received es) (cn_logger c) \<and> (cn_writer c' = None \<longleftrightarrow> cn_writer c = None) \<and>
   (\<forall>w. cn_writer c' = Some w \<longrightarrow> bw_inv disk pending (rows @ received es) w \<and> bw_batch_size w = batch \<and>
      (res = Some (Inr ()) \<longrightarrow> pending (bw_writer w) = []))"
proof (induction csv es c arbitrary: rows rule: consume_loop.induct)
  case (1 csv c)
  then show ?case by (auto simp: logged_def)
next
  case (2 csv es c)
  then have exit: "consumer_exit csv c = (res, c')" by simp
  from consumer_exit_ok [OF exit 2(2,3,4)] show ?case by (simp add: logged_def)
next
  case (3 csv es c)
  then have exit: "consumer_exit csv c = (res, c')" by simp
  from consumer_exit_ok [OF exit 3(2,3,4)] show ?case by (simp add: logged_def)
next
  case (4 csv details result es c)
  let ?c = "c\<lparr>cn_logger := report_result details result (cn_logger c)\<rparr>"
  show ?case
  proof (cases "cn_writer c")
    case None
    then have w: "cn_writer ?c = None" by simp
    with 4(3) have rest: "consume_loop csv es ?c = (res, c')" by (simp add: Let_def)
    from 4(1) [OF refl w rest 4(4,5), of "[]"] w None show ?thesis by (simp add: logged_Cons)
  next
    case (Some w)
    then have w: "cn_writer ?c = Some w" by simp
    obtain q w' where q: "batched_queue csv (details, result) w = (q, w')"
      by (cases "batched_queue csv (details, result) w")
    have "q = Inr ()"
      using 4(3) 4(5) w q by (cases q) (auto simp: Let_def)
    with q have ok: "batched_queue csv (details, result) w = (Inr (), w')" by simp
    let ?d = "?c\<lparr>cn_writer := Some w'\<rparr>"
    from 4(3) w ok have rest: "consume_loop csv es ?d = (res, c')" by (simp add: Let_def)
    have inv: "bw_inv disk pending (rows @ [(details, result)]) w' \<and> bw_batch_size w' = batch"
      using bw_inv_queue [OF 4(4) ok, of rows] 4(6) [OF Some] by simp
    show ?thesis
      using 4(2) [OF refl w ok [symmetric] refl rest 4(4,5), of "rows @ [(details, result)]"] inv Some
      by (simp add: logged_Cons)
  qed
qed

subsection \<open>The producer\<close>

text \<open>The outputs up to the close of the channel, and what each is turned into.\<close>

fun outputs :: "output_event list \<Rightarrow> simulation_output list" where
  "outputs [] = []"
| "outputs (OutputsClosed # es) = []"
| "outputs (OutputReceived out sending # es) = out # outputs es"

fun produced_of :: "simulation_output \<Rightarrow> produced" where
  "produced_of (SendPaymentSuccess payment) = Tracking payment"
| "produced_of (SendPaymentFailure payment result) = Direct payment result"

definition all_sent :: "output_event list \<Rightarrow> bool" where
  "all_sent es \<longleftrightarrow> (\<forall>out sending. OutputReceived out sending \<in> set es \<longrightarrow> sending = SendDone)"

lemma produce_prefix:
  "produce_simulation_results nodes es = (res, ps) \<Longrightarrow>
   ps = map produced_of (take (length ps) (outputs es)) \<and> length ps \<le> length (outputs es) \<and>
   (all_sent es \<and> (\<forall>e. res \<noteq> Some (Inl e)) \<longrightarrow> length ps = length (outputs es))"
proof (induction nodes es arbitrary: res ps rule: produce_simulation_results.induct)
  case (3 nodes payment sending es)
  then show ?case
    by (cases "produce_simulation_results nodes es") (auto simp: all_sent_def split: if_splits)
next
  case (4 nodes payment result sending es)
  then show ?case
    by (cases "produce_simulation_results nodes es"; cases sending) (auto simp: all_sent_def)
qed (auto simp: all_sent_def)

subsection \<open>A worked example\<close>

definition demo_csv :: "(result_row list \<times> result_row list) csv_ops" where
  "demo_csv =
     \<lparr>csv_open = (\<lambda>dir name. Some ([], [])), csv_serialize = (\<lambda>row w. (True, (fst w, snd w @ [row]))),
      csv_flush = (\<lambda>w. (True, (fst w @ snd w, [])))\<rparr>"

lemma demo_csv_documented: "csv_documented demo_csv fst snd"
  by (simp add: csv_documented_def demo_csv_def)

definition demo_details :: "u64 \<Rightarrow> payment" where
  "demo_details amt = \<lparr>pay_source = PublicKey 1, pay_destination = PublicKey 2, pay_amount_msat = amt,
     pay_hash = Some (PaymentHash [1]), pay_dispatch_time = 0\<rparr>"

definition demo_consume :: "consume_event list" where
  "demo_consume = [ResultReceived (demo_details 5) \<lparr>htlc_count = 1, payment_outcome = Success\<rparr>,
     ResultReceived (demo_details 7) \<lparr>htlc_count = 0, payment_outcome = IndexFailure 1\<rparr>,
     ResultReceived (demo_details 2) \<lparr>htlc_count = 1, payment_outcome = Success\<rparr>, ConsumerStopped]"

subsection \<open>The properties\<close>

text \<open>C14. Every result is counted and written. When the consumer ends without an error (on the
  shutdown or the close of its channel) or is still waiting, the logger holds the numbers of
  successes and failures and the total amount of all results received up to there (in 64 bits), and
  the csv file followed by the writer's buffer holds their rows in order. While it runs fewer rows
  than a batch are in the buffer; once it has ended none is.\<close>

theorem results_accounted:
  assumes "consume_simulation_results csv payment_result_logger_new now (Some results) es = (res, c)"
    and "csv_documented csv disk pending" and "\<forall>e. res \<noteq> Some (Inl e)"
  defines "rows \<equiv> received es"
  shows "success_payment (cn_logger c) = of_nat (length (filter (\<lambda>r. payment_outcome (snd r) = Success) rows)) \<and>
    total_attempts (cn_logger c) = of_nat (length rows) \<and>
    total_sent (cn_logger c) = sum_list (map (\<lambda>r. pay_amount_msat (fst r)) rows) \<and>
    (\<exists>bw. cn_writer c = Some bw \<and> disk (bw_writer bw) @ pending (bw_writer bw) = rows \<and>
       length (pending (bw_writer bw)) < unat (batch_size results) \<and>
       (res = Some (Inr ()) \<longrightarrow> disk (bw_writer bw) = rows))"
proof -
  from assms(1,3) obtain bw where bw: "batched_writer_new csv (results_dir results) (results_file_name now)
      (batch_size results) = Inr bw"
    by (cases "batched_writer_new csv (results_dir results) (results_file_name now) (batch_size results)")
      (auto simp: consume_simulation_results_def)
  let ?c = "\<lparr>cn_logger = payment_result_logger_new, cn_writer = Some bw\<rparr>"
  from assms(1) bw have loop: "consume_loop csv es ?c = (res, c)"
    by (simp add: consume_simulation_results_def)
  have start: "bw_inv disk pending [] w \<and> bw_batch_size w = batch_size results" if "cn_writer ?c = Some w" for w
    using bw_inv_new [OF assms(2) bw] that by simp
  have ok: "res \<noteq> Some (Inl e)" for e using assms(3) by simp
  from consume_loop_accounts [OF loop assms(2) ok start]
  have logger: "cn_logger c = logged rows payment_result_logger_new" and "cn_writer c \<noteq> None"
    and writer: "\<forall>w. cn_writer c = Some w \<longrightarrow> bw_inv disk pending rows w \<and>
      bw_batch_size w = batch_size results \<and> (res = Some (Inr ()) \<longrightarrow> pending (bw_writer w) = [])"
    by (simp_all add: rows_def)
  from this(2) obtain w where w: "cn_writer c = Some w" by auto
  with writer have inv: "bw_inv disk pending rows w" "bw_batch_size w = batch_size results"
    "res = Some (Inr ()) \<longrightarrow> pending (bw_writer w) = []" by simp_all
  have "length (pending (bw_writer w)) < unat (batch_size results)"
    using inv(1,2) by (auto simp: bw_inv_def word_less_nat_alt)
  moreover have "of_nat (length (filter (\<lambda>r. payment_outcome (snd r) = Success) rows)) +
      of_nat (length (filter (\<lambda>r. payment_outcome (snd r) \<noteq> Success) rows)) = (of_nat (length rows) :: u64)"
    unfolding of_nat_add [symmetric] sum_length_filter_compl ..
  ultimately show ?thesis
    using w inv unfolding logger
    by (auto simp: logged_def payment_result_logger_new_def total_attempts_def bw_inv_def)
qed

theorem results_accounted_witness:
  "success_payment (cn_logger (snd (consume_simulation_results demo_csv payment_result_logger_new 0
     (Some \<lparr>results_dir = [], batch_size = 2\<rparr>) demo_consume))) = 2"
proof -
  let ?run = "consume_simulation_results demo_csv payment_result_logger_new 0
     (Some \<lparr>results_dir = [], batch_size = 2\<rparr>) demo_consume"
  have "\<forall>e. fst ?run \<noteq> Some (Inl e)"
    by (simp add: consume_simulation_results_def batched_writer_new_def demo_csv_def demo_consume_def Let_def
        batched_queue_def batched_write_def consumer_exit_def)
  from results_accounted [OF prod.collapse [symmetric] demo_csv_documented this] show ?thesis
    by (simp add: demo_consume_def)
qed

text \<open>The rows that the result tasks send for one output, when no channel is closed: the producer's
  own, or that of the tracking task it spawns.\<close>

definition results_of :: "'s nodes \<Rightarrow> simulation_output \<Rightarrow> 's \<Rightarrow> result_row list" where
  "results_of nodes out s =
     concat (map (\<lambda>p. case p of
         Direct payment result \<Rightarrow> [(payment, result)]
       | Tracking payment \<Rightarrow>
           (case hm_get nodes (pay_source payment) of
              None \<Rightarrow> []
            | Some node \<Rightarrow> (case track_payment_result node payment SendDone s of
                (_, Some row, _) \<Rightarrow> [row] | _ \<Rightarrow> [])))
       (snd (produce_simulation_results nodes [OutputReceived out SendDone, OutputsClosed])))"

text \<open>Every payment sent ends in exactly one result. Unless its node reports a permanent error,
  which stops the simulation and reports nothing, a payment that the loop sends gives one row with
  its own source, destination, amount and dispatch time: what tracking its hash says if the node
  took it (\<open>TrackPaymentFailed\<close> if tracking fails), \<open>NotDispatched\<close> without a hash if it did not.\<close>

theorem sent_payment_reported:
  assumes "hm_get nodes (pubkey (ln_info node)) = Some node"
  shows "case node_send_payment node (SendPayment dest amt) t True s of
      (Inl e, out, s') \<Rightarrow> out = None \<and> (\<exists>msg. e = LightningError (PermanentError msg) \<and>
        ln_send_payment node (pubkey dest) amt s = (Inl (PermanentError msg), s'))
    | (Inr _, out, s') \<Rightarrow> \<exists>o1 row. out = Some o1 \<and> results_of nodes o1 s' = [row] \<and>
        pay_source (fst row) = pubkey (ln_info node) \<and> pay_destination (fst row) = pubkey dest \<and>
        pay_amount_msat (fst row) = amt \<and> pay_dispatch_time (fst row) = t \<and>
        (case fst (ln_send_payment node (pubkey dest) amt s) of
           Inr hash \<Rightarrow> pay_hash (fst row) = Some hash \<and> snd row =
             (case fst (ln_track_payment node hash s') of Inr r \<Rightarrow> r | Inl _ \<Rightarrow> track_payment_failed)
         | Inl _ \<Rightarrow> pay_hash (fst row) = None \<and> snd row = not_dispatched)"
proof -
  obtain sent s1 where sent: "ln_send_payment node (pubkey dest) amt s = (sent, s1)"
    by (cases "ln_send_payment node (pubkey dest) amt s")
  show ?thesis
  proof (cases sent)
    case (Inl e)
    with sent assms show ?thesis
      by (cases e) (simp_all add: node_send_payment_def Let_def results_of_def)
  next
    case (Inr hash)
    obtain tracked s2 where tracked: "ln_track_payment node hash s1 = (tracked, s2)"
      by (cases "ln_track_payment node hash s1")
    with sent Inr assms show ?thesis
      by (cases tracked)
        (simp_all add: node_send_payment_def Let_def results_of_def hm_contains_def track_payment_result_def)
  qed
qed

text \<open>A node whose state numbers the payments it takes, and whose tracking always succeeds.\<close>

definition demo_payer :: "nat lightning_node" where
  "demo_payer =
     \<lparr>ln_info = \<lparr>pubkey = PublicKey 1, node_alias = [], features = NodeFeatures []\<rparr>, ln_network = Regtest,
      ln_send_payment = (\<lambda>pk amt s. (Inr (PaymentHash [of_nat s]), s + 1)),
      ln_track_payment = (\<lambda>hash s. (Inr \<lparr>htlc_count = 1, payment_outcome = Success\<rparr>, s)),
      ln_get_node_info = (\<lambda>pk. Inl InvalidPaymentHash), ln_channel_capacities = Inr 0,
      ln_get_graph = None\<rparr>"

theorem sent_payment_reported_witness:
  "fst (node_send_payment demo_payer (SendPayment (ln_info demo_payer) 5) 9 True 3) = Inr ()"
proof -
  have "hm_get [(PublicKey 1, demo_payer)] (pubkey (ln_info demo_payer)) = Some demo_payer"
    by (simp add: hm_get_def demo_payer_def)
  from sent_payment_reported [OF this, of "ln_info demo_payer" 5 9 3] show ?thesis
    by (simp add: node_send_payment_def demo_payer_def Let_def)
qed

end
