(* ===== verification/Schedules.thy ===== *)
theory Schedules
  imports Interleaving
begin

section \<open>Schedules: concurrent payments finish\<close>

text \<open>
  The safety theorems of \<open>Interleaving\<close> hold in every state that tasks can reach. Here is the liveness
  side: a schedule says which task runs next (and what its interceptors answer), each turn brings a
  task closer to its report, and so every schedule that gives each task as many turns as its route
  needs ends with all payments reported and the network settled.
\<close>

fun run_schedule ::
  "payment_request list \<Rightarrow> (nat \<times> joins) list \<Rightarrow> task list \<times> channels \<Rightarrow> task list \<times> channels" where
  "run_schedule reqs [] s = s"
| "run_schedule reqs ((j, joins) # turns) (ts, nodes) =
     (if j < length ts
      then (case task_step (reqs ! j) joins (ts ! j) nodes of
              (t, nodes') \<Rightarrow> run_schedule reqs turns (ts[j := t], nodes'))
      else run_schedule reqs turns (ts, nodes))"

definition turns_of :: "nat \<Rightarrow> (nat \<times> joins) list \<Rightarrow> nat" where
  "turns_of j turns = length (filter (\<lambda>turn. fst turn = j) turns)"

lemma run_schedule_steps: "(net_step reqs)\<^sup>*\<^sup>* s (run_schedule reqs turns s)"
proof (induction reqs turns s rule: run_schedule.induct)
  case (2 reqs j joins turns ts nodes)
  show ?case
  proof (cases "j < length ts")
    case True
    obtain t nodes' where t: "task_step (reqs ! j) joins (ts ! j) nodes = (t, nodes')"
      by (cases "task_step (reqs ! j) joins (ts ! j) nodes")
    from True t have "net_step reqs (ts, nodes) (ts[j := t], nodes')" by (rule net_step)
    with 2(1) [OF True t [symmetric]] True t show ?thesis
      by (simp add: converse_rtranclp_into_rtranclp)
  qed (use 2(2) in simp)
qed simp

text \<open>What is left to do for a task, in turns.\<close>

fun work :: "payment_request \<Rightarrow> task \<Rightarrow> nat" where
  "work req (Adding i hs st) = length (hops (pr_route req)) + 2 + length hs"
| "work req (Removing success ihs outgoing result) = Suc (length ihs)"
| "work req (Reported sd result) = 0"

lemma work_start: "work req (start_task req) = 2 * length (hops (pr_route req)) + 2"
  by (simp add: start_task_def)

lemma work_begin_removal: "work req (begin_removal req success i result) \<le> Suc (length (hops (pr_route req)))"
  by (simp add: begin_removal_def)

lemma work_after_add:
  "work req (add_failed req failed_at) \<le> Suc (length (hops (pr_route req)))"
  "work req (add_done req) \<le> Suc (length (hops (pr_route req)))"
  "work req crashed = 0"
  using work_begin_removal by (auto simp: add_failed_def add_done_def crashed_def Let_def split: option.split)

lemma task_step_work:
  assumes "task_step req joins t nodes = (t', nodes')"
  shows "work req t' \<le> work req t - 1"
  using assms
proof (induction req joins t nodes rule: task_step.induct)
  case (1 req joins i st nodes)
  then show ?case using work_after_add(2) [of req] by auto
next
  case (2 req joins i hop rest st nodes)
  have "work req (add_failed req f) \<le> Suc (Suc (length (hops (pr_route req)) + length rest))" for f
    using work_after_add(1) [of req f] by simp
  with 2 show ?case
    using work_after_add(3) [of req] by (auto simp: Let_def split: prod.splits sum.splits)
next
  case (4 req joins success i hop rest outgoing result nodes)
  then show ?case by (auto simp: Let_def split: prod.splits sum.splits)
qed auto

lemma run_schedule_work:
  "j < length ts \<Longrightarrow>
   work (reqs ! j) (fst (run_schedule reqs turns (ts, nodes)) ! j) \<le> work (reqs ! j) (ts ! j) - turns_of j turns"
proof (induction turns arbitrary: ts nodes)
  case (Cons turn turns)
  obtain k joins where turn: "turn = (k, joins)" by (cases turn)
  show ?case
  proof (cases "k < length ts")
    case True
    obtain t nodes' where t: "task_step (reqs ! k) joins (ts ! k) nodes = (t, nodes')"
      by (cases "task_step (reqs ! k) joins (ts ! k) nodes")
    from Cons.IH [of "ts[k := t]" nodes'] Cons.prems task_step_work [OF t] True t show ?thesis
      by (cases "k = j") (auto simp: turn turns_of_def)
  next
    case False
    with Cons show ?thesis by (auto simp: turn turns_of_def)
  qed
qed (simp add: turns_of_def)

lemma run_schedule_length: "length (fst (run_schedule reqs turns s)) = length (fst s)"
  by (induction reqs turns s rule: run_schedule.induct) (auto split: prod.split)

lemma no_work: "work req t = 0 \<Longrightarrow> \<exists>sd r. t = Reported sd r"
  by (cases t) auto

lemma run_schedule_reports:
  assumes "\<forall>j < length reqs. 2 * length (hops (pr_route (reqs ! j))) + 2 \<le> turns_of j turns"
    and "t \<in> set (fst (run_schedule reqs turns (map start_task reqs, nodes)))"
  shows "\<exists>sd r. t = Reported sd r"
proof -
  let ?ts = "fst (run_schedule reqs turns (map start_task reqs, nodes))"
  from assms(2) obtain j where j: "j < length ?ts" "t = ?ts ! j" by (auto simp: in_set_conv_nth)
  have "length ?ts = length reqs"
    by (simp add: run_schedule_length)
  with j have less: "j < length reqs" by simp
  with run_schedule_work [of j "map start_task reqs" reqs turns nodes] assms(1)
  have "work (reqs ! j) (?ts ! j) = 0" by (auto simp: work_start)
  with j(2) no_work show ?thesis by blast
qed

subsection \<open>The property\<close>

lemma demo_schedule_reports:
  "\<forall>j < length demo_reqs. 2 * length (hops (pr_route (demo_reqs ! j))) + 2 \<le>
     turns_of j (concat (replicate 6 [(0, demo_joins), (1, demo_joins)]))"
  by (auto simp: demo_reqs_def demo_payment_def demo_route_def turns_of_def less_Suc_eq numeral_eq_Suc)

text \<open>C24. Every fair schedule settles. Start any payments on an idle network and let their lock
  sections run in any order, whatever the interceptors answer, as long as each task gets
  \<open>2 * hops + 2\<close> turns. Then every task has reported, and unless one met a critical error no HTLC
  is pending and every channel's funds add up to its capacity.\<close>

theorem fair_schedules_settle:
  assumes "net_inv nodes0" and "\<forall>a k. acct_pending nodes0 a k = None"
    and "\<forall>req \<in> set reqs. notify_ok (pr_interceptors req)"
    and "\<forall>j < length reqs. 2 * length (hops (pr_route (reqs ! j))) + 2 \<le> turns_of j turns"
  shows "case run_schedule reqs turns (map start_task reqs, nodes0) of
      (ts, nodes) \<Rightarrow> (\<forall>t \<in> set ts. \<exists>sd r. t = Reported sd r) \<and>
        ((\<forall>t \<in> set ts. \<forall>r. t \<noteq> Reported True r) \<longrightarrow>
           net_inv nodes \<and> (\<forall>a k. acct_pending nodes a k = None))"
proof -
  obtain ts nodes where run: "run_schedule reqs turns (map start_task reqs, nodes0) = (ts, nodes)"
    by (cases "run_schedule reqs turns (map start_task reqs, nodes0)")
  have reported: "\<forall>t \<in> set ts. \<exists>sd r. t = Reported sd r"
    using run_schedule_reports [OF assms(4), of _ nodes0] by (simp add: run)
  have "tasks_init reqs nodes0 (map start_task reqs, nodes0)"
    using assms(1-3) by (simp add: tasks_init_def)
  from tasks.invar_reachable [OF this run_schedule_steps, of turns]
  have inv: "tasks_inv reqs nodes0 (ts, nodes)" by (simp add: run)
  have "net_inv nodes \<and> (\<forall>a k. acct_pending nodes a k = None)" if "\<forall>t \<in> set ts. \<forall>r. t \<noteq> Reported True r"
  proof -
    have "all_reported ts" using reported that unfolding all_reported_def by (metis (full_types))
    with settled_network [OF inv] show ?thesis by blast
  qed
  with reported show ?thesis by (simp add: run)
qed

theorem fair_schedules_settle_witness:
  "list_all (\<lambda>t. \<exists>sd r. t = Reported sd r) (fst (run_schedule demo_reqs
     (concat (replicate 6 [(0, demo_joins), (1, demo_joins)])) (map start_task demo_reqs, demo_net)))"
  unfolding list_all_iff using fair_schedules_settle [OF demo_net_inv demo_idle demo_notify demo_schedule_reports]
  by (auto simp: case_prod_beta simp del: run_schedule.simps)

end
