(* ===== verification/Serializers.thy ===== *)
theory Serializers
  imports Sim_Types
begin

section \<open>Serializers of the configuration and the results (simln-lib/src/serializers.rs)\<close>

text \<open>
  The modules that \<open>serde\<close> is given for single fields. What a serializer writes is the value passed
  to \<open>serialize_str\<close>, or the JSON value of a range; a deserializer starts from the string or value
  that \<open>serde\<close> read. The text form of a public key, \<open>hex\<close> and \<open>expanduser\<close> belong to other crates
  and are parameters.
\<close>

subsection \<open>Hashes and node ids\<close>

definition serialize_option_payment_hash :: "(u8 list \<Rightarrow> string) \<Rightarrow> payment_hash option \<Rightarrow> string" where
  "serialize_option_payment_hash hex_encode hash =
     (case hash of
        Some (PaymentHash bytes) \<Rightarrow> hex_encode bytes
      | None \<Rightarrow> ''Unknown'')"

definition serialize_node_id :: "(pubkey \<Rightarrow> string) \<Rightarrow> node_id \<Rightarrow> string" where
  "serialize_node_id pk_to_string n =
     (case n of NodeIdPublicKey p \<Rightarrow> pk_to_string p | NodeIdAlias s \<Rightarrow> s)"

definition deserialize_node_id :: "(string \<Rightarrow> pubkey option) \<Rightarrow> string \<Rightarrow> node_id" where
  "deserialize_node_id pk_from_str s =
     (case pk_from_str s of Some pk \<Rightarrow> NodeIdPublicKey pk | None \<Rightarrow> NodeIdAlias s)"

subsection \<open>Addresses\<close>

definition starts_with :: "string \<Rightarrow> string \<Rightarrow> bool" where
  "starts_with s p = (take (length p) s = p)"

definition serialize_address :: "string \<Rightarrow> string" where
  "serialize_address address = address"

definition deserialize_address :: "string \<Rightarrow> string" where
  "deserialize_address s =
     (if starts_with s ''https://'' \<or> starts_with s ''http://'' then s else ''https://'' @ s)"

subsection \<open>Values and ranges\<close>

text \<open>The JSON forms of \<open>ValueOrRange\<close>, an untagged enum: a number or a pair of numbers.\<close>

datatype 'a json_value = JsonNumber 'a | JsonPair 'a 'a | JsonOther

fun serialize_value_or_range :: "'a value_or_range \<Rightarrow> 'a json_value" where
  "serialize_value_or_range (Value p) = JsonNumber p"
| "serialize_value_or_range (Range x y) = JsonPair x y"

datatype parse_error = NoVariantMatches | NotIncreasing

fun read_value_or_range :: "'a json_value \<Rightarrow> parse_error + 'a value_or_range" where
  "read_value_or_range (JsonNumber p) = Inr (Value p)"
| "read_value_or_range (JsonPair x y) = Inr (Range x y)"
| "read_value_or_range JsonOther = Inl NoVariantMatches"

definition deserialize_value_or_range ::
  "'a::linorder json_value \<Rightarrow> parse_error + 'a value_or_range" where
  "deserialize_value_or_range json =
     res_bind (read_value_or_range json)
       (\<lambda>a. case a of
              Range x y \<Rightarrow> if y \<le> x then Inl NotIncreasing else Inr a
            | Value _ \<Rightarrow> Inr a)"

definition deserialize_path :: "(string \<Rightarrow> 'e + string) \<Rightarrow> string \<Rightarrow> 'e + string" where
  "deserialize_path expanduser s = expanduser s"

subsection \<open>Properties\<close>

text \<open>What a range read from the configuration is good for: sampling it never panics.\<close>

lemma deserialized_range_valid:
  "deserialize_value_or_range json = Inr vr \<Longrightarrow> range_valid vr"
  by (cases json) (auto simp: deserialize_value_or_range_def split: if_splits)

lemma deserialize_serialize_range:
  "deserialize_value_or_range (serialize_value_or_range vr) = (if range_valid vr then Inr vr else Inl NotIncreasing)"
  by (cases vr) (auto simp: deserialize_value_or_range_def)

lemma deserialize_address_idem: "deserialize_address (deserialize_address s) = deserialize_address s"
  by (simp add: deserialize_address_def starts_with_def)

lemma deserialize_address_scheme:
  "starts_with (deserialize_address s) ''https://'' \<or> starts_with (deserialize_address s) ''http://''"
  by (auto simp: deserialize_address_def starts_with_def)

lemma deserialize_serialize_node_id:
  assumes "\<forall>pk. pk_from_str (pk_to_string pk) = Some pk"
  shows "deserialize_node_id pk_from_str (serialize_node_id pk_to_string n) = n \<longleftrightarrow>
    (case n of NodeIdPublicKey _ \<Rightarrow> True | NodeIdAlias a \<Rightarrow> pk_from_str a = None)"
  using assms by (cases n) (auto simp: deserialize_node_id_def serialize_node_id_def split: option.split)

lemma serialize_deserialize_node_id:
  assumes "\<forall>s pk. pk_from_str s = Some pk \<longrightarrow> pk_to_string pk = s"
  shows "serialize_node_id pk_to_string (deserialize_node_id pk_from_str s) = s"
  using assms by (auto simp: deserialize_node_id_def serialize_node_id_def split: option.split)

text \<open>C39. Round trips. A node id, an address and an amount or interval that were written by the
  serializers are read back as they were: every public key, every alias that is not itself a key,
  every address that already has a scheme, every range that is increasing. Conversely what is read is
  well formed: a range never makes the sampler panic, an address has a scheme and reading it again
  changes nothing.\<close>

theorem serializers_round_trip:
  assumes "\<forall>pk. pk_from_str (pk_to_string pk) = Some pk"
  shows "deserialize_node_id pk_from_str (serialize_node_id pk_to_string (NodeIdPublicKey pk)) = NodeIdPublicKey pk \<and>
    (deserialize_node_id pk_from_str (serialize_node_id pk_to_string (NodeIdAlias a)) = NodeIdAlias a
       \<longleftrightarrow> pk_from_str a = None) \<and>
    deserialize_address (serialize_address (deserialize_address s)) = deserialize_address s \<and>
    (deserialize_value_or_range (serialize_value_or_range vr) = Inr vr \<longleftrightarrow> range_valid vr) \<and>
    (\<forall>vr'. deserialize_value_or_range json = Inr vr' \<longrightarrow>
       serialize_value_or_range vr' = json \<and> (\<forall>g r. value_or_range_value g vr' r \<noteq> None))"
proof (intro conjI allI impI)
  show "deserialize_node_id pk_from_str (serialize_node_id pk_to_string (NodeIdPublicKey pk)) = NodeIdPublicKey pk"
    using deserialize_serialize_node_id [OF assms, of "NodeIdPublicKey pk"] by simp
  show "deserialize_node_id pk_from_str (serialize_node_id pk_to_string (NodeIdAlias a)) = NodeIdAlias a
       \<longleftrightarrow> pk_from_str a = None"
    using deserialize_serialize_node_id [OF assms, of "NodeIdAlias a"] by simp
  show "deserialize_address (serialize_address (deserialize_address s)) = deserialize_address s"
    by (simp add: serialize_address_def deserialize_address_idem)
  show "deserialize_value_or_range (serialize_value_or_range vr) = Inr vr \<longleftrightarrow> range_valid vr"
    by (simp add: deserialize_serialize_range)
  fix vr' g r
  assume read: "deserialize_value_or_range json = Inr vr'"
  then show "serialize_value_or_range vr' = json"
    by (cases json) (auto simp: deserialize_value_or_range_def split: if_splits)
  from value_or_range_value_total [OF deserialized_range_valid [OF read], of g r]
  show "value_or_range_value g vr' r \<noteq> None" by auto
qed

theorem serializers_round_trip_witness:
  "deserialize_node_id (\<lambda>s. if s = [] then None else Some (PublicKey (length s - 1)))
     (serialize_node_id (\<lambda>pk. replicate (Suc (pubkey_ord pk)) CHR ''k'') (NodeIdPublicKey (PublicKey 2)))
   = NodeIdPublicKey (PublicKey 2)"
proof -
  have "\<forall>pk. (\<lambda>s. if s = [] then None else Some (PublicKey (length s - 1)))
      ((\<lambda>pk. replicate (Suc (pubkey_ord pk)) CHR ''k'') pk) = Some pk"
  proof
    fix pk
    show "(\<lambda>s. if s = [] then None else Some (PublicKey (length s - 1)))
      ((\<lambda>pk. replicate (Suc (pubkey_ord pk)) CHR ''k'') pk) = Some pk"
      by (cases pk) simp
  qed
  from serializers_round_trip [OF this] show ?thesis by blast
qed

end
