(* ===== verification/Backend_Common.thy ===== *)
theory Backend_Common
  imports Sim_Types
begin

section \<open>What the backends share (simln-lib/src/lnd.rs, cln.rs, eclair.rs, ldk_server.rs)\<close>

text \<open>
  The four implementations of \<open>LightningNode\<close> for real nodes. Their RPC clients are parameters: a call
  is its answer, an error (its text) or a reply with the fields the code reads. Shared here: payment
  hashes in hex, feature bits in bytes, and the loop that polls a node until a payment is final.
\<close>

definition err_string :: "string \<Rightarrow> message" where
  "err_string s = Fmt ''{}'' [ArgStr s]"

text \<open>\<open>Result::map_err\<close>.\<close>

definition map_error :: "('e \<Rightarrow> 'f) \<Rightarrow> 'e + 'a \<Rightarrow> 'f + 'a" where
  "map_error f r = (case r of Inl e \<Rightarrow> Inl (f e) | Inr x \<Rightarrow> Inr x)"

lemma map_error_Inr [simp]: "map_error f r = Inr x \<longleftrightarrow> r = Inr x" "map_error f (Inr x) = Inr x"
  by (auto simp: map_error_def split: sum.split)

abbreviation track_error :: "string \<Rightarrow> lightning_error" where
  "track_error s \<equiv> TrackPaymentError (Fmt s [])"

subsection \<open>Payment hashes\<close>

text \<open>\<open>hex_decode\<close> is that of the \<open>hex\<close> crate; \<open>try_into\<close> an array needs exactly 32 bytes.\<close>

definition bytes_to_payment_hash :: "u8 list \<Rightarrow> lightning_error + payment_hash" where
  "bytes_to_payment_hash bytes =
     (if length bytes = 32 then Inr (PaymentHash bytes) else Inl InvalidPaymentHash)"

definition string_to_payment_hash ::
  "(string \<Rightarrow> u8 list option) \<Rightarrow> string \<Rightarrow> lightning_error + payment_hash" where
  "string_to_payment_hash hex_decode hash =
     (case hex_decode hash of
        None \<Rightarrow> Inl InvalidPaymentHash
      | Some bytes \<Rightarrow> bytes_to_payment_hash bytes)"

fun hash_bytes :: "payment_hash \<Rightarrow> u8 list" where
  "hash_bytes (PaymentHash bs) = bs"

lemma bytes_to_payment_hash_Inr:
  "bytes_to_payment_hash bytes = Inr h \<longleftrightarrow> h = PaymentHash bytes \<and> length bytes = 32"
  by (auto simp: bytes_to_payment_hash_def)

lemma string_to_payment_hash_length:
  "string_to_payment_hash d s = Inr h \<Longrightarrow> length (hash_bytes h) = 32"
  by (auto simp: string_to_payment_hash_def bytes_to_payment_hash_def split: option.splits if_splits)

subsection \<open>Feature bits\<close>

text \<open>
  \<open>NodeFeatures::from_le_bytes\<close> keeps the bytes it is given: feature \<open>i\<close> is bit \<open>i mod 8\<close> of byte
  \<open>i div 8\<close>. \<open>Vec::resize\<close> with zeros pads on the right.
\<close>

definition feature_bits :: "u8 list \<Rightarrow> nat set" where
  "feature_bits flags = {i. i div 8 < length flags \<and> bit (flags ! (i div 8)) (i mod 8)}"

definition pad_flags :: "nat \<Rightarrow> u8 list \<Rightarrow> u8 list" where
  "pad_flags n flags = flags @ replicate (n - length flags) 0"

fun parsed_flags :: "node_features \<Rightarrow> u8 list" where
  "parsed_flags (NodeFeatures flags) = flags"

lemma length_pad_flags [simp]: "length (pad_flags n flags) = max n (length flags)"
  by (simp add: pad_flags_def)

lemma feature_bits_pad [simp]: "feature_bits (pad_flags n flags) = feature_bits flags"
proof -
  have "i \<in> feature_bits (pad_flags n flags) \<longleftrightarrow> i \<in> feature_bits flags" for i
    by (cases "i div 8 < length flags") (auto simp: feature_bits_def pad_flags_def nth_append)
  then show ?thesis by blast
qed

lemma feature_bits_zeros [simp]: "feature_bits (replicate n 0) = {}" "feature_bits [] = {}"
  by (auto simp: feature_bits_def)

definition set_feature :: "nat \<Rightarrow> u8 list \<Rightarrow> u8 list" where
  "set_feature b flags = flags[b div 8 := flags ! (b div 8) OR push_bit (b mod 8) 1]"

lemma length_set_feature [simp]: "length (set_feature b flags) = length flags"
  by (simp add: set_feature_def)

lemma feature_bits_set:
  assumes "b div 8 < length flags"
  shows "feature_bits (set_feature b flags) = insert b (feature_bits flags)"
proof (intro set_eqI)
  fix i
  have less: "i mod 8 < LENGTH(8)" by simp
  have eq: "i = b \<longleftrightarrow> i div 8 = b div 8 \<and> i mod 8 = b mod 8"
    by (metis div_mult_mod_eq)
  show "i \<in> feature_bits (set_feature b flags) \<longleftrightarrow> i \<in> insert b (feature_bits flags)"
  proof (cases "i div 8 = b div 8")
    case True
    with assms less eq show ?thesis
      by (auto simp: feature_bits_def set_feature_def bit_or_iff bit_exp_iff nth_list_update)
  next
    case False
    with eq show ?thesis by (auto simp: feature_bits_def set_feature_def nth_list_update)
  qed
qed

lemma set_feature_padded:
  assumes "b div 8 < n"
  shows "feature_bits (set_feature b (pad_flags n flags)) = insert b (feature_bits flags)"
  using assms feature_bits_set [of b "pad_flags n flags"] by simp

subsection \<open>The graph a node knows\<close>

text \<open>
  The loop of \<open>get_graph\<close> in lnd.rs, cln.rs and eclair.rs: the key of each announced node is parsed
  (\<open>expect\<close> panics on one that is no key) and its information is inserted under it.
\<close>

fun announced_graph ::
  "('n \<Rightarrow> pubkey option) \<Rightarrow> ('n \<Rightarrow> string) \<Rightarrow> ('n \<Rightarrow> node_features) \<Rightarrow> 'n list \<Rightarrow>
   (pubkey, node_info) hmap \<Rightarrow> (pubkey, node_info) hmap option" where
  "announced_graph key nm feats [] m = Some m"
| "announced_graph key nm feats (n # ns) m =
     (case key n of
        None \<Rightarrow> None
      | Some pk \<Rightarrow>
          announced_graph key nm feats ns
            (hm_insert pk \<lparr>pubkey = pk, node_alias = nm n, features = feats n\<rparr> m))"

definition keyed_by_pubkey :: "(pubkey, node_info) hmap \<Rightarrow> bool" where
  "keyed_by_pubkey m \<longleftrightarrow> hm_wf m \<and> (\<forall>pk info. hm_get m pk = Some info \<longrightarrow> pubkey info = pk)"

lemma keyed_by_pubkey_new [simp]: "keyed_by_pubkey hm_new"
  by (simp add: keyed_by_pubkey_def hm_new_def hm_get_def hm_wf_def)

lemma keyed_by_pubkey_insert:
  "keyed_by_pubkey m \<Longrightarrow> pubkey info = pk \<Longrightarrow> keyed_by_pubkey (hm_insert pk info m)"
  by (auto simp: keyed_by_pubkey_def hm_get_insert hm_wf_insert)

text \<open>The last announcement of a key is the one kept.\<close>

lemma announced_graph_spec:
  "announced_graph key nm feats ns m = Some m' \<Longrightarrow> keyed_by_pubkey m \<Longrightarrow>
   keyed_by_pubkey m' \<and> (\<forall>n \<in> set ns. key n \<noteq> None) \<and>
   (\<forall>pk. hm_get m' pk = (case find (\<lambda>n. key n = Some pk) (rev ns) of
      Some n \<Rightarrow> Some \<lparr>pubkey = pk, node_alias = nm n, features = feats n\<rparr>
    | None \<Rightarrow> hm_get m pk))"
proof (induction key nm feats ns m rule: announced_graph.induct)
  case (2 key nm feats n ns m)
  then obtain pk where pk: "key n = Some pk" by (auto split: option.splits)
  have find_snoc: "find P (xs @ [x]) = (case find P xs of Some y \<Rightarrow> Some y | None \<Rightarrow> if P x then Some x else None)"
    for P :: "'a \<Rightarrow> bool" and xs x
    by (induction xs) auto
  from 2 pk show ?case
    by (auto simp: keyed_by_pubkey_insert find_snoc hm_get_insert split: option.split)
qed simp

lemma announced_graph_panics:
  "announced_graph key nm feats ns m = None \<longleftrightarrow> (\<exists>n \<in> set ns. key n = None)"
  by (induction ns arbitrary: m) (auto split: option.split)

subsection \<open>Networks by name\<close>

definition network_name :: "string \<Rightarrow> string option" where
  "network_name x =
     (if x = ''mainnet'' then Some ''bitcoin'' else if x = ''simnet'' then None else Some x)"

definition simnet_unsupported :: lightning_error where
  "simnet_unsupported = ValidationError (Fmt ''simnet is not supported'' [])"

subsection \<open>Polling a payment\<close>

text \<open>
  One iteration of a tracking loop: the listener was triggered (it is polled first), or the call after
  the pause was answered. \<open>poll\<close> looks at the answer: \<open>None\<close> is \<open>continue\<close>. The loop's value \<open>None\<close> says
  that it is still polling when the events run out.
\<close>

datatype 'a poll_event = PollShutdown | Polled 'a

definition shutdown_before_tracking :: lightning_error where
  "shutdown_before_tracking = TrackPaymentError (Fmt ''Shutdown before tracking results'' [])"

fun poll_loop ::
  "('a \<Rightarrow> (lightning_error + payment_result) option) \<Rightarrow> 'a poll_event list \<Rightarrow>
   (lightning_error + payment_result) option" where
  "poll_loop poll [] = None"
| "poll_loop poll (PollShutdown # es) = Some (Inl shutdown_before_tracking)"
| "poll_loop poll (Polled a # es) = (case poll a of None \<Rightarrow> poll_loop poll es | Some r \<Rightarrow> Some r)"

definition waits :: "('a \<Rightarrow> bool) \<Rightarrow> 'a poll_event \<Rightarrow> bool" where
  "waits pending e = (case e of PollShutdown \<Rightarrow> False | Polled a \<Rightarrow> pending a)"

definition first_final :: "('a \<Rightarrow> bool) \<Rightarrow> (nat \<Rightarrow> 'a poll_event) \<Rightarrow> nat \<Rightarrow> bool" where
  "first_final pending ev n \<longleftrightarrow> (\<forall>i < n. waits pending (ev i)) \<and> \<not> waits pending (ev n)"

definition decided ::
  "('a \<Rightarrow> (lightning_error + payment_result) option) \<Rightarrow> 'a poll_event \<Rightarrow>
   (lightning_error + payment_result) option" where
  "decided poll e = (case e of PollShutdown \<Rightarrow> Some (Inl shutdown_before_tracking) | Polled a \<Rightarrow> poll a)"

text \<open>The contract of a polling backend: it goes on exactly while the payment is pending, and a
  result it returns is final.\<close>

locale polling_backend =
  fixes poll :: "'a \<Rightarrow> (lightning_error + payment_result) option"
    and pending :: "'a \<Rightarrow> bool"
  assumes continue_iff: "poll a = None \<longleftrightarrow> pending a"
    and final_outcome: "poll a = Some (Inr r) \<Longrightarrow> payment_outcome r = Success \<or> payment_outcome r = UnexpectedError"
    and error_tracking: "poll a = Some (Inl e) \<Longrightarrow> \<exists>msg. e = TrackPaymentError msg"
begin

lemma loop_waits: "\<forall>e \<in> set es. \<exists>a. e = Polled a \<and> pending a \<Longrightarrow> poll_loop poll (es @ es') = poll_loop poll es'"
  by (induction es) (auto simp: continue_iff [THEN iffD2])

text \<open>The first event that is not a pending answer decides, whatever follows.\<close>

lemma loop_decides:
  assumes "\<forall>e \<in> set es. \<exists>a. e = Polled a \<and> pending a" and "\<not> pending a"
  shows "poll_loop poll (es @ Polled a # es') = poll a"
    and "poll_loop poll (es @ PollShutdown # es') = Some (Inl shutdown_before_tracking)"
  using assms continue_iff [of a] by (auto simp: loop_waits split: option.split)

lemma loop_result:
  "poll_loop poll es = Some r \<Longrightarrow>
   (case r of Inr res \<Rightarrow> payment_outcome res = Success \<or> payment_outcome res = UnexpectedError
    | Inl e \<Rightarrow> \<exists>msg. e = TrackPaymentError msg)"
proof (induction es)
  case (Cons e es)
  then show ?case
    by (cases e) (auto simp: shutdown_before_tracking_def
        split: option.splits sum.split dest: final_outcome error_tracking)
qed simp

text \<open>The same over rounds that are given by their number.\<close>

lemma rounds_wait:
  assumes "\<forall>i < n. waits pending (ev i)"
  shows "poll_loop poll (map ev [0..<n] @ es) = poll_loop poll es"
proof (rule loop_waits)
  show "\<forall>e \<in> set (map ev [0..<n]). \<exists>a. e = Polled a \<and> pending a"
  proof
    fix e
    assume "e \<in> set (map ev [0..<n])"
    then obtain i where "i < n" and e: "e = ev i" by auto
    with assms have "waits pending e" by simp
    then show "\<exists>a. e = Polled a \<and> pending a" by (cases e) (simp_all add: waits_def)
  qed
qed

lemma rounds_decide:
  assumes "first_final pending ev n" and "n < rounds"
  shows "poll_loop poll (map ev [0..<rounds]) = decided poll (ev n)"
    and "\<exists>r. decided poll (ev n) = Some r"
    and "poll_loop poll (map ev [0..<n]) = None"
proof -
  have all: "\<forall>i < n. waits pending (ev i)" and final: "\<not> waits pending (ev n)"
    using assms(1) by (auto simp: first_final_def)
  show "poll_loop poll (map ev [0..<n]) = None"
    using rounds_wait [OF all, of "[]"] by simp
  have decides: "poll_loop poll (ev n # es) = decided poll (ev n) \<and> (\<exists>r. decided poll (ev n) = Some r)" for es
  proof (cases "ev n")
    case (Polled a)
    with final continue_iff [of a] show ?thesis
      by (cases "poll a") (auto simp: waits_def decided_def)
  qed (simp add: decided_def)
  then show "\<exists>r. decided poll (ev n) = Some r" by blast
  have "[0..<rounds] = [0..<n] @ n # [Suc n..<rounds]"
    using assms(2) upt_add_eq_append [of 0 n "rounds - n"] by (simp add: upt_conv_Cons)
  then have "map ev [0..<rounds] = map ev [0..<n] @ ev n # map ev [Suc n..<rounds]" by simp
  with decides show "poll_loop poll (map ev [0..<rounds]) = decided poll (ev n)"
    by (simp only: rounds_wait [OF all])
qed

lemma loop_still_polling: "poll_loop poll es = None \<longleftrightarrow> (\<forall>e \<in> set es. \<exists>a. e = Polled a \<and> pending a)"
proof (induction es)
  case (Cons e es)
  show ?case
  proof (cases e)
    case (Polled a)
    with Cons continue_iff [of a] show ?thesis by (cases "poll a") auto
  qed simp
qed simp

end

end
