(* ===== verification/Lnd.thy ===== *)
theory Lnd
  imports Backend_Common
begin

section \<open>LND nodes (simln-lib/src/lnd.rs)\<close>

text \<open>
  \<open>LndNode\<close>: its construction and the methods of \<open>LightningNode\<close>. The gRPC client belongs to
  \<open>tonic_lnd\<close>; an answer is an error with its text, or the fields of the reply that are read. The
  conversions of \<open>prost\<close> from numbers to enums are parameters.
\<close>

record lnd_connection =
  lnd_id :: node_id
  lnd_address :: string
  lnd_macaroon :: string
  lnd_cert :: string

record lnd_node =
  lnd_info :: node_info
  lnd_network :: network

subsection \<open>Features\<close>

text \<open>The keys of the feature map, in the order the set yields them.\<close>

fun lnd_set_flags :: "u32 list \<Rightarrow> u8 list \<Rightarrow> u8 list" where
  "lnd_set_flags [] flags = flags"
| "lnd_set_flags (f # fs) flags =
     (let byte_offset = unat (f div 8);
          mask = push_bit (unat (f - 8 * of_nat byte_offset)) 1;
          flags = (if length flags \<le> byte_offset then pad_flags (byte_offset + 1) flags else flags)
      in lnd_set_flags fs (flags[byte_offset := flags ! byte_offset OR mask]))"

definition lnd_parse_node_features :: "u32 list \<Rightarrow> node_features" where
  "lnd_parse_node_features fs = NodeFeatures (lnd_set_flags fs (replicate 256 0))"

lemma word_div_8: "unat (f div 8) = unat f div 8" "unat (f - 8 * of_nat (unat f div 8)) = unat f mod 8"
  for f :: u32
proof -
  show d: "unat (f div 8) = unat f div 8" by (simp add: unat_div)
  have "f - 8 * of_nat (unat f div 8) = f - 8 * (f div 8)"
    by (simp flip: d)
  also have "\<dots> = f mod 8" by (simp add: minus_mult_div_eq_mod)
  finally show "unat (f - 8 * of_nat (unat f div 8)) = unat f mod 8" by (simp add: unat_mod)
qed

lemma lnd_set_flags_bits: "feature_bits (lnd_set_flags fs flags) = unat ` set fs \<union> feature_bits flags"
proof (induction fs arbitrary: flags)
  case (Cons f fs)
  have "f - 8 * of_nat (unat (f div 8)) = f - 8 * of_nat (unat f div 8)" by (simp only: word_div_8)
  then show ?case
    using set_feature_padded [of "unat f" "unat f div 8 + 1" flags] feature_bits_set [of "unat f" flags]
    by (auto simp: Let_def word_div_8 Cons.IH simp flip: set_feature_def push_bit_of_1)
qed simp

lemma lnd_parse_node_features_bits:
  "feature_bits (lnd_set_flags fs (replicate 256 0)) = unat ` set fs"
  by (simp add: lnd_set_flags_bits)

subsection \<open>Connecting\<close>

record lnd_info_reply =
  lir_alias :: string
  lir_identity_pubkey :: string
  lir_chains :: "(string \<times> string) list"
  lir_features :: "u32 list"

definition lnd_network_of ::
  "(string \<Rightarrow> string + network) \<Rightarrow> (string \<times> string) list \<Rightarrow> lightning_error + network" where
  "lnd_network_of network_from_str cs =
     (case cs of
        [] \<Rightarrow> Inl (GetInfoError (Fmt ''node is not connected any chain'' []))
      | [(chain, x)] \<Rightarrow>
          (case network_name x of
             None \<Rightarrow> Inl simnet_unsupported
           | Some name \<Rightarrow>
               (case network_from_str name of
                  Inl e \<Rightarrow> Inl (GetInfoError (err_string e))
                | Inr n \<Rightarrow> Inr n))
      | _ \<Rightarrow> Inl (GetInfoError (Fmt ''node is connected to more than one chain: {:?}''
               (map (\<lambda>c. ArgStr (fst c)) cs))))"

definition lnd_new ::
  "(string \<Rightarrow> string + pubkey) \<Rightarrow> (string \<Rightarrow> string + network) \<Rightarrow>
   (string \<Rightarrow> string \<Rightarrow> string \<Rightarrow> string + unit) \<Rightarrow> (string + lnd_info_reply) \<Rightarrow>
   lnd_connection \<Rightarrow> lightning_error + lnd_node" where
  "lnd_new pk_from_str network_from_str connect get_info connection =
     (case connect (lnd_address connection) (lnd_cert connection) (lnd_macaroon connection) of
        Inl e \<Rightarrow> Inl (ConnectionError (err_string e))
      | Inr _ \<Rightarrow>
     (case get_info of
        Inl e \<Rightarrow> Inl (GetInfoError (err_string e))
      | Inr info \<Rightarrow>
     (case pk_from_str (lir_identity_pubkey info) of
        Inl e \<Rightarrow> Inl (GetInfoError (err_string e))
      | Inr pk \<Rightarrow>
          res_bind (node_id_validate (lnd_id connection) pk (lir_alias info)) (\<lambda>alias'.
          res_bind (lnd_network_of network_from_str (lir_chains info)) (\<lambda>network.
          Inr \<lparr>lnd_info = \<lparr>pubkey = pk, node_alias = alias', features = lnd_parse_node_features (lir_features info)\<rparr>,
               lnd_network = network\<rparr>)))))"

subsection \<open>Sending\<close>

text \<open>A gRPC status: is its code \<open>Unavailable\<close>, and its message.\<close>

datatype grpc_status = GrpcStatus bool string

fun status_to_lightning_error :: "grpc_status \<Rightarrow> lightning_error" where
  "status_to_lightning_error (GrpcStatus unavailable msg) =
     (if unavailable then SendPaymentError (Fmt ''Node unavailable: {message}'' [ArgStr msg])
      else PermanentError (err_string msg))"

definition keysend_key :: u64 where
  "keysend_key = 5482373484"

record lnd_send_request =
  lsr_amt_msat :: int
  lsr_dest :: "u8 list"
  lsr_dest_custom_records :: "(u64, u8 list) hmap"
  lsr_payment_hash :: "u8 list"
  lsr_timeout_seconds :: int
  lsr_fee_limit_msat :: int

definition send_payment_timeout_secs :: int where
  "send_payment_timeout_secs = 300"

definition i64_try_from :: "u64 \<Rightarrow> int option" where
  "i64_try_from w = (if uint w < 2 ^ 63 then Some (uint w) else None)"

text \<open>
  \<open>router\<close> answers the request with a stream, known by its first message: the text of the payment's
  hash if there is one. The preimage is the one drawn.
\<close>

definition lnd_send_payment ::
  "(pubkey \<Rightarrow> u8 list) \<Rightarrow> (u8 list \<Rightarrow> u8 list) \<Rightarrow> (string \<Rightarrow> u8 list option) \<Rightarrow>
   (lnd_send_request \<Rightarrow> grpc_status + (grpc_status + string option)) \<Rightarrow> u8 list \<Rightarrow>
   pubkey \<Rightarrow> u64 \<Rightarrow> lightning_error + payment_hash" where
  "lnd_send_payment serialize sha256 hex_decode router preimage dest amount_msat =
     (case i64_try_from amount_msat of
        None \<Rightarrow> Inl (SendPaymentError (Fmt ''Invalid send amount'' []))
      | Some amt_msat \<Rightarrow>
     (case router \<lparr>lsr_amt_msat = amt_msat, lsr_dest = serialize dest,
                    lsr_dest_custom_records = hm_insert keysend_key preimage hm_new,
                    lsr_payment_hash = sha256 preimage,
                    lsr_timeout_seconds = send_payment_timeout_secs,
                    lsr_fee_limit_msat = 2 ^ 63 - 1\<rparr> of
        Inl s \<Rightarrow> Inl (status_to_lightning_error s)
      | Inr (Inl s) \<Rightarrow> Inl (status_to_lightning_error s)
      | Inr (Inr None) \<Rightarrow> Inl (SendPaymentError (Fmt ''No payment'' []))
      | Inr (Inr (Some hash)) \<Rightarrow> string_to_payment_hash hex_decode hash))"

subsection \<open>Tracking\<close>

datatype lnd_status = LndSucceeded | LndFailed | LndStatusOther

datatype lnd_failure =
    FailureReasonTimeout
  | FailureReasonNoRoute
  | FailureReasonError
  | FailureReasonIncorrectPaymentDetails
  | FailureReasonInsufficientBalance
  | FailureReasonOther

record lnd_payment =
  lp_status :: int
  lp_failure_reason :: int
  lp_htlcs :: nat

text \<open>What the biased \<open>select!\<close> on the stream meets: the listener, or the next message.\<close>

datatype lnd_track_event = LndShutdown | LndMessage "string + lnd_payment option"

fun lnd_failed_outcome :: "lnd_failure \<Rightarrow> lightning_error + payment_outcome" where
  "lnd_failed_outcome FailureReasonTimeout = Inr PaymentExpired"
| "lnd_failed_outcome FailureReasonNoRoute = Inr RouteNotFound"
| "lnd_failed_outcome FailureReasonError = Inr UnexpectedError"
| "lnd_failed_outcome FailureReasonIncorrectPaymentDetails = Inr IncorrectPaymentDetails"
| "lnd_failed_outcome FailureReasonInsufficientBalance = Inr OutcomeInsufficientBalance"
| "lnd_failed_outcome FailureReasonOther = Inl (track_error ''Unexpected failure reason'')"

definition lnd_outcome ::
  "(int \<Rightarrow> lnd_status option) \<Rightarrow> (int \<Rightarrow> lnd_failure option) \<Rightarrow> lnd_payment \<Rightarrow> lightning_error + payment_result" where
  "lnd_outcome status_from_i32 failure_from_i32 payment =
     (case status_from_i32 (lp_status payment) of
        None \<Rightarrow> Inl (track_error ''Invalid payment status'')
      | Some status \<Rightarrow>
     (case failure_from_i32 (lp_failure_reason payment) of
        None \<Rightarrow> Inl (track_error ''Invalid failure reason'')
      | Some reason \<Rightarrow>
          res_bind (case status of
                      LndSucceeded \<Rightarrow> Inr Success
                    | LndFailed \<Rightarrow> lnd_failed_outcome reason
                    | LndStatusOther \<Rightarrow> Inr Unknown)
            (\<lambda>outcome. Inr \<lparr>htlc_count = lp_htlcs payment, payment_outcome = outcome\<rparr>)))"

definition lnd_track_payment ::
  "(int \<Rightarrow> lnd_status option) \<Rightarrow> (int \<Rightarrow> lnd_failure option) \<Rightarrow>
   (u8 list \<Rightarrow> string + lnd_track_event) \<Rightarrow> payment_hash \<Rightarrow> lightning_error + payment_result" where
  "lnd_track_payment status_from_i32 failure_from_i32 router hash =
     (case router (hash_bytes hash) of
        Inl e \<Rightarrow> Inl (TrackPaymentError (err_string e))
      | Inr LndShutdown \<Rightarrow> Inl shutdown_before_tracking
      | Inr (LndMessage (Inl e)) \<Rightarrow> Inl (TrackPaymentError (err_string e))
      | Inr (LndMessage (Inr None)) \<Rightarrow> Inl (track_error ''No payment'')
      | Inr (LndMessage (Inr (Some payment))) \<Rightarrow> lnd_outcome status_from_i32 failure_from_i32 payment)"

subsection \<open>Queries\<close>

record lnd_graph_node =
  lgn_pub_key :: string
  lgn_alias :: string
  lgn_features :: "u32 list"

definition lnd_get_node_info ::
  "(pubkey \<Rightarrow> string + lnd_graph_node option) \<Rightarrow> pubkey \<Rightarrow> lightning_error + node_info" where
  "lnd_get_node_info lightning pk =
     (case lightning pk of
        Inl e \<Rightarrow> Inl (GetNodeInfoError (err_string e))
      | Inr (Some n) \<Rightarrow> Inr \<lparr>pubkey = pk, node_alias = lgn_alias n,
                             features = lnd_parse_node_features (lgn_features n)\<rparr>
      | Inr None \<Rightarrow> Inl (GetNodeInfoError (Fmt ''Node not found'' [])))"

text \<open>Capacities come in satoshis, signed.\<close>

definition lnd_channel_capacities :: "string + int list \<Rightarrow> lightning_error + u64" where
  "lnd_channel_capacities channels =
     (case channels of
        Inl e \<Rightarrow> Inl (ListChannelsError (err_string e))
      | Inr cs \<Rightarrow> Inr (sum_list (map (\<lambda>c. 1000 * of_int c) cs)))"

definition lnd_get_graph ::
  "(string \<Rightarrow> string + pubkey) \<Rightarrow> string + lnd_graph_node list \<Rightarrow>
   (lightning_error + (pubkey, node_info) hmap) option" where
  "lnd_get_graph pk_from_str nodes =
     (case nodes of
        Inl e \<Rightarrow> Some (Inl (GetNodeInfoError (err_string e)))
      | Inr ns \<Rightarrow>
          map_option Inr
            (announced_graph (\<lambda>n. case pk_from_str (lgn_pub_key n) of Inl _ \<Rightarrow> None | Inr pk \<Rightarrow> Some pk)
               lgn_alias (\<lambda>n. lnd_parse_node_features (lgn_features n)) ns hm_new))"

subsection \<open>Properties\<close>

text \<open>A node that connects is the one the configuration names, on the one chain it reports.\<close>

lemma lnd_new_ok:
  assumes "lnd_new pk_from_str network_from_str connect (Inr info) connection = Inr node"
  shows "pk_from_str (lir_identity_pubkey info) = Inr (pubkey (lnd_info node))"
    and "case lnd_id connection of
           NodeIdPublicKey pk \<Rightarrow> pk = pubkey (lnd_info node) \<and> node_alias (lnd_info node) = lir_alias info
         | NodeIdAlias a \<Rightarrow> node_alias (lnd_info node) = a"
    and "\<exists>chain x name. lir_chains info = [(chain, x)] \<and> network_name x = Some name \<and>
           network_from_str name = Inr (lnd_network node)"
  using assms
  by (cases "lnd_id connection"; auto simp: lnd_new_def lnd_network_of_def res_bind_Inr_iff
      split: sum.splits list.splits option.splits prod.splits if_splits)+

lemma lnd_send_payment_length:
  "lnd_send_payment ser sha hex router preimage dest amt = Inr h \<Longrightarrow> length (hash_bytes h) = 32"
  by (auto simp: lnd_send_payment_def split: option.splits sum.splits dest: string_to_payment_hash_length)

lemma lnd_outcome_final:
  "lnd_outcome sf ff p = Inr r \<Longrightarrow> payment_outcome r \<notin> {NotDispatched, TrackPaymentFailed} \<and> htlc_count r = lp_htlcs p"
  by (auto simp: lnd_outcome_def res_bind_Inr_iff split: option.splits lnd_status.splits
      elim!: lnd_failed_outcome.elims)

end
