(* ===== verification/Cln.thy ===== *)
theory Cln
  imports Backend_Common
begin

section \<open>Core Lightning nodes (simln-lib/src/cln.rs)\<close>

text \<open>
  \<open>ClnNode\<close>: its construction and the methods of \<open>LightningNode\<close>. The gRPC client of \<open>cln_grpc\<close>,
  the file system and the TLS set-up are parameters, by their answers: an error with its text, or the
  fields of the reply that are read.
\<close>

record cln_connection =
  cln_id :: node_id
  cln_address :: string
  cln_ca_cert :: string
  cln_client_cert :: string
  cln_client_key :: string

record cln_node =
  cln_info :: node_info
  cln_network :: network

subsection \<open>Connecting\<close>

text \<open>\<open>reader\<close> opens the file, then reads it to its end: each step may fail.\<close>

definition reader :: "(string \<Rightarrow> string + 'f) \<Rightarrow> ('f \<Rightarrow> string + u8 list) \<Rightarrow> string \<Rightarrow> string + u8 list" where
  "reader file_open read_to_end filename = res_bind (file_open filename) read_to_end"

record cln_info_reply =
  cir_id :: "u8 list"
  cir_alias :: "string option"
  cir_our_features :: "u8 list option"
  cir_network :: string

text \<open>Feature bytes come big-endian: \<open>from_be_bytes\<close> reverses them.\<close>

definition features_from_be_bytes :: "u8 list option \<Rightarrow> node_features" where
  "features_from_be_bytes bytes =
     (case bytes of Some bs \<Rightarrow> NodeFeatures (rev bs) | None \<Rightarrow> NodeFeatures [])"

definition connection_error :: "string \<Rightarrow> string \<Rightarrow> lightning_error" where
  "connection_error fmt e = ConnectionError (Fmt fmt [ArgStr e])"

text \<open>\<open>from_shared\<close> checks the address, \<open>tls_config\<close> takes certificate, key and CA, \<open>connect\<close> connects
  the channel that results.\<close>

definition cln_connect ::
  "(string \<Rightarrow> string + u8 list) \<Rightarrow> (string \<Rightarrow> string + 'u) \<Rightarrow>
   (u8 list \<Rightarrow> u8 list \<Rightarrow> u8 list \<Rightarrow> 'u \<Rightarrow> string + 'c) \<Rightarrow> ('c \<Rightarrow> string + unit) \<Rightarrow>
   cln_connection \<Rightarrow> lightning_error + unit" where
  "cln_connect read from_shared tls_config connect connection =
     res_bind (map_error (connection_error ''Cannot load client certificate: {}'') (read (cln_client_cert connection))) (\<lambda>cert.
     res_bind (map_error (connection_error ''Cannot load client key: {}'') (read (cln_client_key connection))) (\<lambda>key.
     res_bind (map_error (connection_error ''Cannot load CA certificate: {}'') (read (cln_ca_cert connection))) (\<lambda>ca.
     res_bind (map_error (\<lambda>e. ConnectionError (err_string e)) (from_shared (cln_address connection))) (\<lambda>channel.
     res_bind (map_error (connection_error ''Cannot establish tls connection: {}'') (tls_config cert key ca channel)) (\<lambda>channel.
     map_error (connection_error ''Cannot connect to gRPC server: {}'') (connect channel))))))"

definition cln_new ::
  "(u8 list \<Rightarrow> string + pubkey) \<Rightarrow> (string \<Rightarrow> string + network) \<Rightarrow>
   (cln_connection \<Rightarrow> lightning_error + unit) \<Rightarrow> (string + cln_info_reply) \<Rightarrow>
   cln_connection \<Rightarrow> lightning_error + cln_node" where
  "cln_new pk_from_slice from_core_arg connect getinfo connection =
     res_bind (connect connection) (\<lambda>_.
     res_bind (map_error (\<lambda>e. GetInfoError (err_string e)) getinfo) (\<lambda>info.
     res_bind (map_error (\<lambda>e. GetInfoError (err_string e)) (pk_from_slice (cir_id info))) (\<lambda>pk.
     res_bind (node_id_validate (cln_id connection) pk (case cir_alias info of None \<Rightarrow> [] | Some a \<Rightarrow> a)) (\<lambda>alias'.
     res_bind (map_error (\<lambda>e. GetInfoError (err_string e)) (from_core_arg (cir_network info))) (\<lambda>network.
     Inr \<lparr>cln_info = \<lparr>pubkey = pk, node_alias = alias', features = features_from_be_bytes (cir_our_features info)\<rparr>,
          cln_network = network\<rparr>)))))"

subsection \<open>Sending\<close>

definition str_contains :: "string \<Rightarrow> string \<Rightarrow> bool" where
  "str_contains s p = list_ex (\<lambda>n. take (length p) (drop n s) = p) [0..<Suc (length s)]"

definition keysend_error :: "string \<Rightarrow> lightning_error" where
  "keysend_error message =
     (if str_contains message ''Some(-1'' \<or> str_contains message ''Some(203''
      then PermanentError (Fmt ''{:?}'' [ArgStr message])
      else SendPaymentError (Fmt ''{:?}'' [ArgStr message]))"

record cln_keysend_request =
  ckr_destination :: "u8 list"
  ckr_amount_msat :: "u64 option"

definition cln_send_payment ::
  "(pubkey \<Rightarrow> u8 list) \<Rightarrow> (cln_keysend_request \<Rightarrow> string + u8 list) \<Rightarrow> pubkey \<Rightarrow> u64 \<Rightarrow>
   lightning_error + payment_hash" where
  "cln_send_payment serialize key_send dest amount_msat =
     res_bind (map_error keysend_error
         (key_send \<lparr>ckr_destination = serialize dest, ckr_amount_msat = Some amount_msat\<rparr>))
       bytes_to_payment_hash"

subsection \<open>Tracking\<close>

datatype cln_status = CpsPending | CpsComplete | CpsFailed

record cln_pay =
  cp_status :: int
  cp_number_of_parts :: "u64 option"

text \<open>
  One answer of \<open>list_pays\<close>. No payment or a pending one goes round the loop. The conversion of the
  number of parts to \<open>usize\<close> cannot fail at 64 bits.
\<close>

definition cln_poll ::
  "(int \<Rightarrow> cln_status option) \<Rightarrow> (string + cln_pay list) \<Rightarrow> (lightning_error + payment_result) option" where
  "cln_poll from_i32 answer =
     (case answer of
        Inl e \<Rightarrow> Some (Inl (TrackPaymentError (err_string e)))
      | Inr [] \<Rightarrow> None
      | Inr (pay # _) \<Rightarrow>
          (let done = (\<lambda>outcome. Some (Inr
                \<lparr>htlc_count = unat (case cp_number_of_parts pay of None \<Rightarrow> 1 | Some n \<Rightarrow> n),
                 payment_outcome = outcome\<rparr>))
           in case from_i32 (cp_status pay) of
                None \<Rightarrow> Some (Inl (TrackPaymentError (Fmt ''Invalid payment status'' [])))
              | Some CpsPending \<Rightarrow> None
              | Some CpsComplete \<Rightarrow> done Success
              | Some CpsFailed \<Rightarrow> done UnexpectedError))"

definition cln_track_payment ::
  "(int \<Rightarrow> cln_status option) \<Rightarrow> (nat \<Rightarrow> u8 list \<Rightarrow> (string + cln_pay list) poll_event) \<Rightarrow>
   payment_hash \<Rightarrow> nat \<Rightarrow> (lightning_error + payment_result) option" where
  "cln_track_payment from_i32 list_pays hash rounds =
     poll_loop (cln_poll from_i32) (map (\<lambda>n. list_pays n (hash_bytes hash)) [0..<rounds])"

definition cln_pending :: "(int \<Rightarrow> cln_status option) \<Rightarrow> (string + cln_pay list) \<Rightarrow> bool" where
  "cln_pending from_i32 answer \<longleftrightarrow>
     (case answer of
        Inl _ \<Rightarrow> False
      | Inr pays \<Rightarrow> pays = [] \<or> from_i32 (cp_status (hd pays)) = Some CpsPending)"

interpretation cln: polling_backend "cln_poll f" "cln_pending f" for f
  by unfold_locales
    (auto simp: cln_poll_def cln_pending_def Let_def
      split: sum.splits list.splits option.splits cln_status.splits)

subsection \<open>Queries\<close>

record cln_list_node =
  cl_nodeid :: "u8 list"
  cl_alias :: "string option"
  cl_features :: "u8 list option"

definition cln_alias :: "cln_list_node \<Rightarrow> string" where
  "cln_alias n = (case cl_alias n of None \<Rightarrow> [] | Some a \<Rightarrow> a)"

text \<open>\<open>pop\<close> takes the last node of the answer.\<close>

definition cln_get_node_info ::
  "(pubkey \<Rightarrow> string + cln_list_node list) \<Rightarrow> pubkey \<Rightarrow> lightning_error + node_info" where
  "cln_get_node_info list_nodes' pk =
     res_bind (map_error (\<lambda>e. GetNodeInfoError (err_string e)) (list_nodes' pk)) (\<lambda>nodes.
       case nodes of
         [] \<Rightarrow> Inl (GetNodeInfoError (Fmt ''Node not found'' []))
       | _ \<Rightarrow> Inr \<lparr>pubkey = pk, node_alias = cln_alias (last nodes),
                  features = features_from_be_bytes (cl_features (last nodes))\<rparr>)"

text \<open>The channels the node is the source of, then those it is the destination of; an amount may be
  missing.\<close>

definition cln_node_channels ::
  "(bool \<Rightarrow> string + u64 option list) \<Rightarrow> bool \<Rightarrow> lightning_error + u64 list" where
  "cln_node_channels list_channels is_source =
     res_bind (map_error (\<lambda>e. ListChannelsError (err_string e)) (list_channels is_source))
       (\<lambda>cs. Inr (map (\<lambda>c. case c of None \<Rightarrow> 0 | Some msat \<Rightarrow> msat) cs))"

definition cln_channel_capacities :: "(bool \<Rightarrow> string + u64 option list) \<Rightarrow> lightning_error + u64" where
  "cln_channel_capacities list_channels =
     res_bind (cln_node_channels list_channels True) (\<lambda>outgoing.
     res_bind (cln_node_channels list_channels False) (\<lambda>incoming.
     Inr (sum_list (outgoing @ incoming))))"

definition cln_get_graph ::
  "(u8 list \<Rightarrow> string + pubkey) \<Rightarrow> string + cln_list_node list \<Rightarrow>
   (lightning_error + (pubkey, node_info) hmap) option" where
  "cln_get_graph pk_from_slice nodes =
     (case nodes of
        Inl e \<Rightarrow> Some (Inl (GetNodeInfoError (err_string e)))
      | Inr ns \<Rightarrow>
          map_option Inr
            (announced_graph (\<lambda>n. case pk_from_slice (cl_nodeid n) of Inl _ \<Rightarrow> None | Inr pk \<Rightarrow> Some pk)
               cln_alias (\<lambda>n. features_from_be_bytes (cl_features n)) ns hm_new))"

subsection \<open>Properties\<close>

lemma cln_send_payment_length:
  "cln_send_payment ser key_send dest amt = Inr h \<Longrightarrow> length (hash_bytes h) = 32"
  by (auto simp: cln_send_payment_def res_bind_Inr_iff bytes_to_payment_hash_Inr)

lemma cln_new_ok:
  assumes "cln_new pk_from_slice from_core_arg connect (Inr info) connection = Inr node"
  shows "pk_from_slice (cir_id info) = Inr (pubkey (cln_info node))"
    and "case cln_id connection of NodeIdPublicKey pk \<Rightarrow> pk = pubkey (cln_info node)
         | NodeIdAlias a \<Rightarrow> node_alias (cln_info node) = a"
  using assms
  by (cases "cln_id connection"; auto simp: cln_new_def res_bind_Inr_iff split: if_splits)+

lemma str_contains_iff: "str_contains s p \<longleftrightarrow> (\<exists>xs ys. s = xs @ p @ ys)"
proof
  assume "str_contains s p"
  then obtain n where "take (length p) (drop n s) = p" by (auto simp: str_contains_def list_ex_iff)
  then have "s = take n s @ p @ drop (length p) (drop n s)"
    by (metis append_take_drop_id)
  then show "\<exists>xs ys. s = xs @ p @ ys" by blast
next
  assume "\<exists>xs ys. s = xs @ p @ ys"
  then obtain xs ys where "s = xs @ p @ ys" by blast
  then show "str_contains s p"
    by (auto simp: str_contains_def list_ex_iff intro!: bexI [of _ "length xs"])
qed

end
