(* ===== verification/Decimal.thy ===== *)
theory Decimal
  imports Prelude
begin

section \<open>Decimal numerals\<close>

text \<open>How unsigned integers are written by \<open>to_string\<close> and \<open>{}\<close>: decimal digits without leading zeros.
  Reading the digits gives the number back, so different numbers are written differently.\<close>

fun decimal :: "nat \<Rightarrow> string" where
  "decimal n =
     (if n < 10 then [char_of (48 + n)] else decimal (n div 10) @ [char_of (48 + n mod 10)])"

declare decimal.simps [simp del]

definition is_digit :: "char \<Rightarrow> bool" where
  "is_digit c \<longleftrightarrow> of_char c \<in> {48..<58 :: nat}"

definition read_decimal :: "string \<Rightarrow> nat" where
  "read_decimal s = foldl (\<lambda>n c. 10 * n + (of_char c - 48)) 0 s"

lemma of_char_digit: "d < 10 \<Longrightarrow> of_char (char_of (48 + d) :: char) = (48 + d :: nat)"
  by (simp add: of_char_of)

lemma read_decimal_snoc: "read_decimal (s @ [c]) = 10 * read_decimal s + (of_char c - 48)"
  by (simp add: read_decimal_def)

theorem read_decimal_decimal: "read_decimal (decimal n) = n"
proof (induction n rule: decimal.induct)
  case (1 n)
  then show ?case
    by (subst decimal.simps) (auto simp: read_decimal_snoc of_char_digit, simp add: read_decimal_def of_char_digit)
qed

lemma decimal_inject [simp]: "decimal m = decimal n \<longleftrightarrow> m = n"
  by (metis read_decimal_decimal)

lemma is_digit_char: "d < 10 \<Longrightarrow> is_digit (char_of (48 + d))" for d :: nat
  by (simp add: is_digit_def of_char_digit)

lemma decimal_digits: "list_all is_digit (decimal n)"
proof (induction n rule: decimal.induct)
  case (1 n)
  then show ?case
    by (subst decimal.simps) (auto simp: is_digit_char)
qed

lemma decimal_nonempty [simp]: "decimal n \<noteq> []"
  by (subst decimal.simps) simp

text \<open>Fields written one after another with a separator that is no digit can be told apart.\<close>

lemma digits_separated:
  assumes "list_all is_digit xs" and "list_all is_digit ys" and "\<not> is_digit c"
  shows "xs @ c # us = ys @ c # vs \<longleftrightarrow> xs = ys \<and> us = vs"
  using assms
proof (induction xs arbitrary: ys)
  case Nil
  then show ?case by (cases ys) auto
next
  case (Cons x xs)
  then show ?case by (cases ys) auto
qed

end
