(* ===== verification/Eclair.thy ===== *)
theory Eclair
  imports Backend_Common Decimal
begin

section \<open>Eclair nodes (simln-lib/src/eclair.rs)\<close>

text \<open>
  \<open>EclairNode\<close> talks JSON over HTTP. \<open>reqwest\<close> and \<open>serde_json\<close> are parameters: a request is built by
  the code and sent by a function that answers with an error's text or a response; what is read from
  the JSON are the fields of the code's response structs. The free-form \<open>features\<close> keep their JSON.
\<close>

record eclair_connection =
  ec_id :: node_id
  ec_base_url :: string
  ec_api_username :: string
  ec_api_password :: string

record 'u eclair_client =
  cl_base_url :: 'u
  cl_api_username :: string
  cl_api_password :: string

record eclair_node =
  eclair_info :: node_info
  eclair_network :: network

subsection \<open>Requests\<close>

record 'u http_request =
  hr_method :: string
  hr_url :: 'u
  hr_basic_auth :: "string \<times> string option"
  hr_form :: "(string \<times> string) list option"

type_synonym params = "(string, string) hmap"

definition eclair_request ::
  "('u \<Rightarrow> string \<Rightarrow> string + 'u) \<Rightarrow> ('u http_request \<Rightarrow> string + 'p) \<Rightarrow> ('p \<Rightarrow> string + 'p) \<Rightarrow>
   ('p \<Rightarrow> string + 't) \<Rightarrow> 'u eclair_client \<Rightarrow> string \<Rightarrow> params option \<Rightarrow> string + 't" where
  "eclair_request url_join send error_for_status json client endpoint ps =
     res_bind (url_join (cl_base_url client) endpoint) (\<lambda>url.
     res_bind (send \<lparr>hr_method = ''POST'', hr_url = url,
                     hr_basic_auth = (cl_api_username client, Some (cl_api_password client)),
                     hr_form = ps\<rparr>) (\<lambda>response.
     res_bind (error_for_status response) json))"

definition eclair_try_into ::
  "(string \<Rightarrow> string + 'u) \<Rightarrow> eclair_connection \<Rightarrow> lightning_error + 'u eclair_client" where
  "eclair_try_into url_parse connection =
     res_bind (map_error (\<lambda>e. GetInfoError (err_string e)) (url_parse (ec_base_url connection))) (\<lambda>url.
     Inr \<lparr>cl_base_url = url, cl_api_username = ec_api_username connection,
          cl_api_password = ec_api_password connection\<rparr>)"

subsection \<open>Features\<close>

datatype json = JsonNull | JsonString string | JsonObject "(string \<times> json) list" | JsonOtherValue nat

text \<open>Indexing by a name: anything that is missing is \<open>Null\<close>.\<close>

fun json_index :: "json \<Rightarrow> string \<Rightarrow> json" where
  "json_index (JsonObject kvs) name = (case map_of kvs name of None \<Rightarrow> JsonNull | Some v \<Rightarrow> v)"
| "json_index _ name = JsonNull"

fun json_as_object :: "json \<Rightarrow> (string \<times> json) list option" where
  "json_as_object (JsonObject kvs) = Some kvs"
| "json_as_object _ = None"

definition feature_mapping :: "(string \<times> nat) list" where
  "feature_mapping =
     [(''option_data_loss_protect'', 0),
      (''option_upfront_shutdown_script'', 4),
      (''gossip_queries'', 6),
      (''var_onion_optin'', 8),
      (''gossip_queries_ex'', 10),
      (''option_static_remotekey'', 12),
      (''payment_secret'', 14),
      (''basic_mpp'', 16),
      (''option_support_large_channel'', 18),
      (''option_anchors_zero_fee_htlc_tx'', 22),
      (''option_route_blinding'', 24),
      (''option_shutdown_anysegwit'', 26),
      (''option_dual_fund'', 28),
      (''option_quiesce'', 34),
      (''option_onion_messages'', 38),
      (''option_provide_storage'', 42),
      (''option_channel_type'', 44),
      (''option_scid_alias'', 46),
      (''option_payment_metadata'', 48),
      (''option_zeroconf'', 50),
      (''keysend'', 54),
      (''option_simple_close'', 60)]"

fun eclair_set_flags :: "(string \<times> json) list \<Rightarrow> u8 list \<Rightarrow> u8 list" where
  "eclair_set_flags [] flags = flags"
| "eclair_set_flags ((feature, level) # activated) flags =
     (case map_of feature_mapping feature of
        None \<Rightarrow> eclair_set_flags activated flags
      | Some bit_position \<Rightarrow>
          (let is_mandatory = (level = JsonString ''mandatory'');
               b = (if is_mandatory then bit_position else bit_position + 1);
               byte_index = b div 8;
               bit_offset = b mod 8
           in eclair_set_flags activated
                (flags[byte_index := flags ! byte_index OR push_bit bit_offset 1])))"

definition parse_json_to_node_features :: "json \<Rightarrow> node_features" where
  "parse_json_to_node_features json =
     NodeFeatures
       (case json_as_object (json_index json ''activated'') of
          Some activated \<Rightarrow> eclair_set_flags activated (replicate 8 0)
        | None \<Rightarrow> replicate 8 0)"

text \<open>The bit of one activated feature: the even one of its pair when it is mandatory.\<close>

definition feature_bit :: "string \<times> json \<Rightarrow> nat set" where
  "feature_bit f =
     (case map_of feature_mapping (fst f) of
        None \<Rightarrow> {}
      | Some b \<Rightarrow> {if snd f = JsonString ''mandatory'' then b else b + 1})"

lemma feature_mapping_bound: "map_of feature_mapping f = Some b \<Longrightarrow> b \<le> 60 \<and> even b"
  by (drule map_of_SomeD) (auto simp: feature_mapping_def)

lemma eclair_set_flags_bits:
  "length flags = 8 \<Longrightarrow>
   length (eclair_set_flags activated flags) = 8 \<and>
   feature_bits (eclair_set_flags activated flags) = (\<Union>f \<in> set activated. feature_bit f) \<union> feature_bits flags"
proof (induction activated arbitrary: flags)
  case (Cons f activated)
  obtain feature level where f: "f = (feature, level)" by (cases f)
  show ?case
  proof (cases "map_of feature_mapping feature")
    case None
    with Cons f show ?thesis by (simp add: feature_bit_def)
  next
    case (Some b)
    let ?b = "if level = JsonString ''mandatory'' then b else b + 1"
    have "?b < 64" using feature_mapping_bound [OF Some] by simp
    then have "?b div 8 < length flags"
      using Cons.prems by (simp only: div_less_iff_less_mult)
    from feature_bits_set [OF this] Cons.IH [of "set_feature ?b flags"] Cons.prems Some f show ?thesis
      by (simp add: Let_def feature_bit_def set_feature_def del: push_bit_of_1)
  qed
qed simp

lemma parse_json_to_node_features_bits:
  "feature_bits (parsed_flags (parse_json_to_node_features json)) =
   (case json_as_object (json_index json ''activated'') of
      None \<Rightarrow> {} | Some activated \<Rightarrow> \<Union>f \<in> set activated. feature_bit f)"
  using eclair_set_flags_bits [of "replicate 8 0"]
  by (auto simp: parse_json_to_node_features_def split: option.split)

subsection \<open>Connecting\<close>

record eclair_info_reply =
  eir_node_id :: string
  eir_alias :: string
  eir_network :: string
  eir_features :: json

text \<open>\<open>request\<close> is the request of the client that the connection gives.\<close>

definition eclair_new ::
  "(string \<Rightarrow> string + 'u) \<Rightarrow> (string \<Rightarrow> string + pubkey) \<Rightarrow> (string \<Rightarrow> string + network) \<Rightarrow>
   ('u eclair_client \<Rightarrow> string \<Rightarrow> params option \<Rightarrow> string + eclair_info_reply) \<Rightarrow>
   eclair_connection \<Rightarrow> lightning_error + eclair_node" where
  "eclair_new url_parse pk_from_str network_from_str request connection =
     res_bind (eclair_try_into url_parse connection) (\<lambda>client.
     res_bind (map_error (\<lambda>e. GetInfoError (err_string e)) (request client ''getinfo'' None)) (\<lambda>info.
     res_bind (map_error (\<lambda>e. GetInfoError (err_string e)) (pk_from_str (eir_node_id info))) (\<lambda>pk.
     res_bind (case network_name (eir_network info) of
                 None \<Rightarrow> Inl simnet_unsupported
               | Some name \<Rightarrow> map_error (\<lambda>e. ValidationError (err_string e)) (network_from_str name)) (\<lambda>network.
     Inr \<lparr>eclair_info = \<lparr>pubkey = pk, node_alias = eir_alias info,
                         features = parse_json_to_node_features (eir_features info)\<rparr>,
          eclair_network = network\<rparr>))))"

subsection \<open>Sending\<close>

datatype eclair_status = EclairPending | EclairFailed | EclairSent

record payment_part =
  pp_status :: eclair_status
  pp_payment_hash :: string

text \<open>
  Two requests: the payment, which is answered by its id, then its parts, whose first one gives the
  hash (indexing panics when there is none: \<open>None\<close>). The hex of the drawn preimage goes out as
  \<open>paymentHash\<close> in both.
\<close>

definition eclair_send_payment ::
  "(pubkey \<Rightarrow> u8 list) \<Rightarrow> (u8 list \<Rightarrow> string) \<Rightarrow> (string \<Rightarrow> u8 list option) \<Rightarrow>
   (string \<Rightarrow> params option \<Rightarrow> string + string) \<Rightarrow> (string \<Rightarrow> params option \<Rightarrow> string + payment_part list) \<Rightarrow>
   u8 list \<Rightarrow> pubkey \<Rightarrow> u64 \<Rightarrow> (lightning_error + payment_hash) option" where
  "eclair_send_payment serialize hex_encode hex_decode request_id request_parts preimage dest amount_msat =
     (let ps = hm_insert ''paymentHash'' (hex_encode preimage)
                (hm_insert ''amountMsat'' (decimal (unat amount_msat))
                  (hm_insert ''nodeId'' (hex_encode (serialize dest)) hm_new))
      in case request_id ''sendtonode'' (Some ps) of
           Inl e \<Rightarrow> Some (Inl (SendPaymentError (err_string e)))
         | Inr uuid \<Rightarrow>
             (let ps = hm_insert ''id'' uuid (hm_insert ''paymentHash'' (hex_encode preimage) hm_new)
              in case request_parts ''getsentinfo'' (Some ps) of
                   Inl e \<Rightarrow> Some (Inl InvalidPaymentHash)
                 | Inr [] \<Rightarrow> None
                 | Inr (part # _) \<Rightarrow> Some (string_to_payment_hash hex_decode (pp_payment_hash part))))"

subsection \<open>Tracking\<close>

text \<open>One answer to \<open>getsentinfo\<close>: the first part decides, all of them are counted.\<close>

definition eclair_poll :: "string + payment_part list \<Rightarrow> (lightning_error + payment_result) option" where
  "eclair_poll answer =
     (case answer of
        Inl e \<Rightarrow> Some (Inl (TrackPaymentError (err_string e)))
      | Inr [] \<Rightarrow> None
      | Inr (part # parts) \<Rightarrow>
          (let done = (\<lambda>outcome. Some (Inr \<lparr>htlc_count = length (part # parts), payment_outcome = outcome\<rparr>))
           in case pp_status part of
                EclairPending \<Rightarrow> None
              | EclairSent \<Rightarrow> done Success
              | EclairFailed \<Rightarrow> done UnexpectedError))"

definition eclair_track_payment ::
  "(u8 list \<Rightarrow> string) \<Rightarrow> (nat \<Rightarrow> string \<Rightarrow> params option \<Rightarrow> (string + payment_part list) poll_event) \<Rightarrow>
   payment_hash \<Rightarrow> nat \<Rightarrow> (lightning_error + payment_result) option" where
  "eclair_track_payment hex_encode request hash rounds =
     poll_loop eclair_poll
       (map (\<lambda>n. request n ''getsentinfo''
               (Some (hm_insert ''paymentHash'' (hex_encode (hash_bytes hash)) hm_new))) [0..<rounds])"

definition eclair_pending :: "string + payment_part list \<Rightarrow> bool" where
  "eclair_pending answer \<longleftrightarrow>
     (case answer of
        Inl _ \<Rightarrow> False
      | Inr parts \<Rightarrow> parts = [] \<or> pp_status (hd parts) = EclairPending)"

interpretation eclair: polling_backend eclair_poll eclair_pending
  by unfold_locales
    (auto simp: eclair_poll_def eclair_pending_def Let_def
      split: sum.splits list.splits eclair_status.splits)

subsection \<open>Queries\<close>

record announcement =
  an_alias :: string
  an_features :: json

record node_in_graph =
  nig_node_id :: string
  nig_alias :: string
  nig_features :: json

definition eclair_get_node_info ::
  "(pubkey \<Rightarrow> u8 list) \<Rightarrow> (u8 list \<Rightarrow> string) \<Rightarrow> (string \<Rightarrow> params option \<Rightarrow> string + announcement) \<Rightarrow>
   pubkey \<Rightarrow> lightning_error + node_info" where
  "eclair_get_node_info serialize hex_encode request pk =
     res_bind (map_error (\<lambda>e. GetNodeInfoError (err_string e))
         (request ''node'' (Some (hm_insert ''nodeId'' (hex_encode (serialize pk)) hm_new)))) (\<lambda>a.
     Inr \<lparr>pubkey = pk, node_alias = an_alias a, features = parse_json_to_node_features (an_features a)\<rparr>)"

text \<open>For each channel the local balances of its active commitments.\<close>

definition eclair_channel_capacities :: "string + u64 list list \<Rightarrow> lightning_error + u64" where
  "eclair_channel_capacities channels =
     res_bind (map_error (\<lambda>e. ListChannelsError (err_string e)) channels) (\<lambda>cs.
     Inr (sum_list (map (\<lambda>active. sum_list (map (\<lambda>to_local. to_local * 1000) active)) cs)))"

definition eclair_get_graph ::
  "(string \<Rightarrow> string + pubkey) \<Rightarrow> string + node_in_graph list \<Rightarrow>
   (lightning_error + (pubkey, node_info) hmap) option" where
  "eclair_get_graph pk_from_str nodes =
     (case nodes of
        Inl e \<Rightarrow> Some (Inl (GetNodeInfoError (err_string e)))
      | Inr ns \<Rightarrow>
          map_option Inr
            (announced_graph (\<lambda>n. case pk_from_str (nig_node_id n) of Inl _ \<Rightarrow> None | Inr pk \<Rightarrow> Some pk)
               nig_alias (\<lambda>n. parse_json_to_node_features (nig_features n)) ns hm_new))"

subsection \<open>Properties\<close>

lemma eclair_send_payment_length:
  "eclair_send_payment ser enc dec rid rp preimage dest amt = Some (Inr h) \<Longrightarrow> length (hash_bytes h) = 32"
  by (auto simp: eclair_send_payment_def Let_def split: sum.splits list.splits
      dest: string_to_payment_hash_length)

text \<open>The configured id plays no part in the construction.\<close>

lemma eclair_new_ignores_id:
  "eclair_new up pf nf request (connection\<lparr>ec_id := i\<rparr>) = eclair_new up pf nf request connection"
  by (simp add: eclair_new_def eclair_try_into_def)

end
