(* ===== verification/Ldk_Server.thy ===== *)
theory Ldk_Server
  imports Backend_Common
begin

section \<open>LDK Server nodes (simln-lib/src/ldk_server.rs)\<close>

text \<open>
  \<open>LdkServerNode\<close>: its construction, the methods of \<open>LightningNode\<close> and the conversions of what the
  server answers. The client of \<open>ldk_server_client\<close> is a parameter, by its answers.
\<close>

record ldk_server_connection =
  ls_address :: string
  ls_api_key :: string
  ls_cert :: string

record ldk_server_node =
  ls_info :: node_info
  ls_network :: network

subsection \<open>Conversions\<close>

definition network_from_proto :: "int \<Rightarrow> lightning_error + network" where
  "network_from_proto value =
     (if value = 0 then Inr Bitcoin
      else if value = 1 then Inr Testnet
      else if value = 2 then Inl (GetInfoError (Fmt ''testnet4 network is not supported'' []))
      else if value = 3 then Inr Signet
      else if value = 4 then Inr Regtest
      else Inl (GetInfoError (Fmt ''ldk-server returned unsupported network value: {other}'' [ArgInt value])))"

fun ldk_set_flags :: "u32 list \<Rightarrow> u8 list \<Rightarrow> u8 list" where
  "ldk_set_flags [] flags = flags"
| "ldk_set_flags (b # bits) flags =
     (let byte_offset = unat (b div 8);
          flags = (if length flags \<le> byte_offset then pad_flags (byte_offset + 1) flags else flags)
      in ldk_set_flags bits (flags[byte_offset := flags ! byte_offset OR push_bit (unat (b mod 8)) 1]))"

definition ldk_parse_node_features :: "u32 list \<Rightarrow> node_features" where
  "ldk_parse_node_features bits = NodeFeatures (ldk_set_flags bits [])"

lemma ldk_set_flags_bits: "feature_bits (ldk_set_flags bits flags) = unat ` set bits \<union> feature_bits flags"
proof (induction bits arbitrary: flags)
  case (Cons b bits)
  then show ?case
    using set_feature_padded [of "unat b" "unat b div 8 + 1" flags] feature_bits_set [of "unat b" flags]
    by (auto simp: Let_def unat_div unat_mod Cons.IH simp flip: set_feature_def push_bit_of_1)
qed simp

record graph_node_announcement =
  gna_alias :: string
  gna_features :: "u32 list"

definition parse_announcement_info :: "graph_node_announcement option \<Rightarrow> string \<times> node_features" where
  "parse_announcement_info a =
     (case a of
        None \<Rightarrow> ([], NodeFeatures [])
      | Some a \<Rightarrow> (gna_alias a, ldk_parse_node_features (gna_features a)))"

subsection \<open>Connecting\<close>

definition strip_prefix :: "string \<Rightarrow> string \<Rightarrow> string option" where
  "strip_prefix p s = (if take (length p) s = p then Some (drop (length p) s) else None)"

definition trim_end_matches :: "char \<Rightarrow> string \<Rightarrow> string" where
  "trim_end_matches c s = rev (dropWhile (\<lambda>x. x = c) (rev s))"

definition ldk_base_url :: "string \<Rightarrow> string" where
  "ldk_base_url address =
     trim_end_matches CHR ''/''
       (case strip_prefix ''https://'' address of
          Some s \<Rightarrow> s
        | None \<Rightarrow>
            (case strip_prefix ''http://'' address of
               Some s \<Rightarrow> s
             | None \<Rightarrow> address))"

record ldk_info_reply =
  lkr_node_id :: string
  lkr_node_alias :: "string option"
  lkr_network :: int
  lkr_features :: "u32 list"

definition ldk_new ::
  "(string \<Rightarrow> string + u8 list) \<Rightarrow> (string \<Rightarrow> string \<Rightarrow> u8 list \<Rightarrow> string + 'c) \<Rightarrow>
   ('c \<Rightarrow> string + ldk_info_reply) \<Rightarrow> (string \<Rightarrow> string + pubkey) \<Rightarrow>
   ldk_server_connection \<Rightarrow> lightning_error + ldk_server_node" where
  "ldk_new read client_new get_node_info pk_from_str connection =
     res_bind (map_error (\<lambda>e. ConnectionError (Fmt ''Cannot load TLS cert: {err}'' [ArgStr e])) (read (ls_cert connection))) (\<lambda>pem.
     res_bind (map_error (\<lambda>e. ConnectionError (err_string e))
         (client_new (ldk_base_url (ls_address connection)) (ls_api_key connection) pem)) (\<lambda>client.
     res_bind (map_error (\<lambda>e. GetInfoError (err_string e)) (get_node_info client)) (\<lambda>info.
     res_bind (map_error (\<lambda>e. GetInfoError (err_string e)) (pk_from_str (lkr_node_id info))) (\<lambda>pk.
     res_bind (network_from_proto (lkr_network info)) (\<lambda>network.
     Inr \<lparr>ls_info = \<lparr>pubkey = pk, node_alias = (case lkr_node_alias info of None \<Rightarrow> [] | Some a \<Rightarrow> a),
                     features = ldk_parse_node_features (lkr_features info)\<rparr>,
          ls_network = network\<rparr>)))))"

subsection \<open>Sending\<close>

datatype ldk_error_code =
    LdkLightningError
  | LdkInternalError
  | LdkInternalServerError
  | LdkAuthError
  | LdkInvalidRequestError

fun ldk_server_error_to_send_error :: "ldk_error_code \<times> string \<Rightarrow> lightning_error" where
  "ldk_server_error_to_send_error (LdkLightningError, msg) = SendPaymentError (err_string msg)"
| "ldk_server_error_to_send_error (LdkInternalError, msg) = SendPaymentError (err_string msg)"
| "ldk_server_error_to_send_error (LdkInternalServerError, msg) = SendPaymentError (err_string msg)"
| "ldk_server_error_to_send_error (LdkAuthError, msg) = PermanentError (err_string msg)"
| "ldk_server_error_to_send_error (LdkInvalidRequestError, msg) = PermanentError (err_string msg)"

text \<open>The request carries the amount and the key; the answer is the payment's id.\<close>

definition ldk_send_payment ::
  "(string \<Rightarrow> u8 list option) \<Rightarrow> (u64 \<Rightarrow> pubkey \<Rightarrow> (ldk_error_code \<times> string) + string) \<Rightarrow> pubkey \<Rightarrow> u64 \<Rightarrow>
   lightning_error + payment_hash" where
  "ldk_send_payment hex_decode spontaneous_send dest amount_msat =
     res_bind (map_error ldk_server_error_to_send_error (spontaneous_send amount_msat dest))
       (string_to_payment_hash hex_decode)"

subsection \<open>Tracking\<close>

datatype ldk_status = LdkPending | LdkSucceeded | LdkFailed

text \<open>One answer to \<open>get_payment_details\<close>: the number of the payment's status, if it is known.\<close>

definition ldk_poll ::
  "(int \<Rightarrow> ldk_status option) \<Rightarrow> (string + int option) \<Rightarrow> (lightning_error + payment_result) option" where
  "ldk_poll from_i32 answer =
     (case answer of
        Inl e \<Rightarrow> Some (Inl (TrackPaymentError (err_string e)))
      | Inr None \<Rightarrow> None
      | Inr (Some status) \<Rightarrow>
          (let done = (\<lambda>outcome. Some (Inr \<lparr>htlc_count = 1, payment_outcome = outcome\<rparr>))
           in case from_i32 status of
                None \<Rightarrow> Some (Inl (track_error ''Invalid payment status''))
              | Some LdkPending \<Rightarrow> None
              | Some LdkSucceeded \<Rightarrow> done Success
              | Some LdkFailed \<Rightarrow> done UnexpectedError))"

definition ldk_track_payment ::
  "(u8 list \<Rightarrow> string) \<Rightarrow> (int \<Rightarrow> ldk_status option) \<Rightarrow> (nat \<Rightarrow> string \<Rightarrow> (string + int option) poll_event) \<Rightarrow>
   payment_hash \<Rightarrow> nat \<Rightarrow> (lightning_error + payment_result) option" where
  "ldk_track_payment hex_encode from_i32 get_payment_details hash rounds =
     (let payment_id = hex_encode (hash_bytes hash) in
      poll_loop (ldk_poll from_i32) (map (\<lambda>n. get_payment_details n payment_id) [0..<rounds]))"

definition ldk_pending :: "(int \<Rightarrow> ldk_status option) \<Rightarrow> (string + int option) \<Rightarrow> bool" where
  "ldk_pending from_i32 answer \<longleftrightarrow>
     (case answer of
        Inl _ \<Rightarrow> False
      | Inr status \<Rightarrow> status = None \<or> from_i32 (the status) = Some LdkPending)"

interpretation ldk: polling_backend "ldk_poll f" "ldk_pending f" for f
  by unfold_locales
    (auto simp: ldk_poll_def ldk_pending_def Let_def
      split: sum.splits option.splits ldk_status.splits)

subsection \<open>Queries\<close>

text \<open>\<open>graph_get_node\<close> answers with a node, if it is known, and that with an announcement, if any.\<close>

definition ldk_get_node_info ::
  "(pubkey \<Rightarrow> string + graph_node_announcement option option) \<Rightarrow> ldk_server_node \<Rightarrow> pubkey \<Rightarrow>
   lightning_error + node_info" where
  "ldk_get_node_info graph_get_node node pk =
     (if pk = pubkey (ls_info node) then Inr (ls_info node)
      else
        res_bind (map_error (\<lambda>e. GetNodeInfoError (err_string e)) (graph_get_node pk)) (\<lambda>response.
        res_bind (ok_or response (GetNodeInfoError (Fmt ''Node not found'' []))) (\<lambda>a.
          (case parse_announcement_info a of (name, feats) \<Rightarrow>
             Inr \<lparr>pubkey = pk, node_alias = name, features = feats\<rparr>))))"

definition ldk_channel_capacities :: "string + (u64 \<times> u64) list \<Rightarrow> lightning_error + u64" where
  "ldk_channel_capacities channels =
     res_bind (map_error (\<lambda>e. ListChannelsError (err_string e)) channels) (\<lambda>cs.
     Inr (sum_list (map (\<lambda>(outbound, inbound). outbound + inbound) cs)))"

fun ldk_graph_loop ::
  "(string \<Rightarrow> string + pubkey) \<Rightarrow> (string \<Rightarrow> string + graph_node_announcement option option) \<Rightarrow>
   string list \<Rightarrow> (pubkey, node_info) hmap \<Rightarrow> lightning_error + (pubkey, node_info) hmap" where
  "ldk_graph_loop pk_from_str graph_get_node [] m = Inr m"
| "ldk_graph_loop pk_from_str graph_get_node (n # ns) m =
     res_bind (map_error (\<lambda>e. GetGraphError (err_string e)) (pk_from_str n)) (\<lambda>pk.
     res_bind (map_error (\<lambda>e. GetGraphError (err_string e)) (graph_get_node n)) (\<lambda>node.
       (case parse_announcement_info (Option.bind node (\<lambda>a. a)) of (name, feats) \<Rightarrow>
          ldk_graph_loop pk_from_str graph_get_node ns
            (hm_insert pk \<lparr>pubkey = pk, node_alias = name, features = feats\<rparr> m))))"

definition ldk_get_graph ::
  "(string \<Rightarrow> string + pubkey) \<Rightarrow> (string \<Rightarrow> string + graph_node_announcement option option) \<Rightarrow>
   string + string list \<Rightarrow> lightning_error + (pubkey, node_info) hmap" where
  "ldk_get_graph pk_from_str graph_get_node node_ids =
     res_bind (map_error (\<lambda>e. GetGraphError (err_string e)) node_ids) (\<lambda>ns.
       ldk_graph_loop pk_from_str graph_get_node ns hm_new)"

subsection \<open>Properties\<close>

lemma ldk_send_payment_length:
  "ldk_send_payment hex send dest amt = Inr h \<Longrightarrow> length (hash_bytes h) = 32"
  by (auto simp: ldk_send_payment_def res_bind_Inr_iff dest: string_to_payment_hash_length)

lemma trim_end_matches_last: "trim_end_matches c s = [] \<or> last (trim_end_matches c s) \<noteq> c"
  unfolding trim_end_matches_def using hd_dropWhile [of "\<lambda>x. x = c" "rev s"]
  by (auto simp: last_rev simp del: dropWhile_eq_Nil_conv)

lemma ldk_base_url_no_slash: "ldk_base_url address = [] \<or> last (ldk_base_url address) \<noteq> CHR ''/''"
  unfolding ldk_base_url_def by (rule trim_end_matches_last)

lemma ldk_graph_loop_keyed:
  "ldk_graph_loop pf g ns m = Inr m' \<Longrightarrow> keyed_by_pubkey m \<Longrightarrow> keyed_by_pubkey m'"
  by (induction ns arbitrary: m)
    (auto simp: res_bind_Inr_iff keyed_by_pubkey_insert case_prod_unfold)

end
