(* ===== verification/Backend_Properties.thy ===== *)
theory Backend_Properties
  imports Lnd Cln Eclair Ldk_Server
begin

section \<open>Properties of the backends\<close>

text \<open>
  What the simulator relies on whatever node it is connected to: features are read exactly, a payment
  that was sent has a hash of 32 bytes, and a payment that is tracked by polling gets the first final
  answer of its node.
\<close>

subsection \<open>Features\<close>

text \<open>C35. The features of a node are exactly those the backend reported, whatever the order of the
  map they come in: each reported bit is set and no other one. LND and LDK Server report numbers of
  bits; Eclair reports names with a level, and a name that the code knows sets the even bit of its pair
  when it is mandatory and the odd one otherwise.\<close>

theorem features_parsed_exactly:
  "feature_bits (parsed_flags (lnd_parse_node_features fs)) = unat ` set fs \<and>
   feature_bits (parsed_flags (ldk_parse_node_features fs)) = unat ` set fs \<and>
   feature_bits (parsed_flags (parse_json_to_node_features json)) =
     {b. \<exists>activated f. json_as_object (json_index json ''activated'') = Some activated \<and>
        f \<in> set activated \<and> b \<in> feature_bit f}"
  by (auto simp: lnd_parse_node_features_def ldk_parse_node_features_def lnd_set_flags_bits
      ldk_set_flags_bits parse_json_to_node_features_bits split: option.splits)

subsection \<open>Sending\<close>

text \<open>What a failed call can be turned into. Only Eclair never stops the simulation.\<close>

fun send_error :: "bool \<Rightarrow> lightning_error \<Rightarrow> bool" where
  "send_error permanent (SendPaymentError _) = True"
| "send_error permanent (PermanentError _) = permanent"
| "send_error permanent InvalidPaymentHash = True"
| "send_error permanent _ = False"

fun sent_ok :: "bool \<Rightarrow> lightning_error + payment_hash \<Rightarrow> bool" where
  "sent_ok permanent (Inr h) = (length (hash_bytes h) = 32)"
| "sent_ok permanent (Inl e) = send_error permanent e"

lemma string_to_payment_hash_ok: "sent_ok permanent (string_to_payment_hash d s)"
  by (simp add: string_to_payment_hash_def bytes_to_payment_hash_def split: option.split)

lemma send_errors:
  "send_error True (status_to_lightning_error s)"
  "send_error True (keysend_error m)"
  "send_error True (ldk_server_error_to_send_error e)"
    apply (cases s; simp)
   apply (simp add: keysend_error_def)
  apply (cases e rule: ldk_server_error_to_send_error.cases; simp)
  done

lemma sent_ok_lnd: "sent_ok True (lnd_send_payment ser sha hex router preimage dest amt)"
  by (auto simp: lnd_send_payment_def send_errors string_to_payment_hash_ok split: option.split sum.split)

lemma sent_ok_cln: "sent_ok True (cln_send_payment ser key_send dest amt)"
  by (auto simp: cln_send_payment_def map_error_def bytes_to_payment_hash_def send_errors split: sum.split)

lemma sent_ok_ldk: "sent_ok True (ldk_send_payment hex send dest amt)"
  by (auto simp: ldk_send_payment_def map_error_def send_errors string_to_payment_hash_ok split: sum.split)

lemma sent_ok_eclair:
  "(case eclair_send_payment ser enc dec rid rp preimage dest amt of None \<Rightarrow> True | Some r \<Rightarrow> sent_ok False r)"
  by (auto simp: eclair_send_payment_def Let_def string_to_payment_hash_ok split: sum.split list.split)

text \<open>C37. Whatever the node answers, a payment that a backend reports as sent is known by a hash of
  exactly 32 bytes, and an error is one of the three that sending may give: the payment failed, its
  hash is invalid, or (never for Eclair) the node will not send at all. LND is asked nothing when the
  amount does not fit its signed 64-bit field: the answer does not depend on the node then.\<close>

theorem sent_payment_hash_type:
  "sent_ok True (lnd_send_payment ser sha hex router preimage dest amt) \<and>
   sent_ok True (cln_send_payment ser key_send dest amt) \<and>
   sent_ok True (ldk_send_payment hex spontaneous_send dest amt) \<and>
   (case eclair_send_payment ser enc hex request_id request_parts preimage dest amt of
      None \<Rightarrow> (\<exists>ps. request_parts ''getsentinfo'' ps = Inr [])
    | Some r \<Rightarrow> sent_ok False r) \<and>
   (if uint amt < 2 ^ 63 then i64_try_from amt = Some (uint amt)
    else lnd_send_payment ser sha hex router preimage dest amt =
           Inl (SendPaymentError (Fmt ''Invalid send amount'' [])))"
  using sent_ok_lnd sent_ok_cln sent_ok_ldk sent_ok_eclair [of ser enc hex request_id request_parts preimage dest amt]
  by (auto simp: lnd_send_payment_def i64_try_from_def eclair_send_payment_def Let_def
      split: option.splits sum.splits list.splits)

subsection \<open>Tracking\<close>

definition tracked_ok :: "lightning_error + payment_result \<Rightarrow> bool" where
  "tracked_ok r \<longleftrightarrow>
     (case r of
        Inr res \<Rightarrow> payment_outcome res = Success \<or> payment_outcome res = UnexpectedError
      | Inl e \<Rightarrow> \<exists>msg. e = TrackPaymentError msg)"

text \<open>C33. Liveness of tracking by polling (Core Lightning, Eclair, LDK Server): the call returns in
  the first round in which the listener was triggered or the node's answer is not a pending payment,
  with what that round says, whatever a later round would say; until then it goes on polling. The
  result is a success or an unexpected error, never an intermediate state.\<close>

theorem tracking_takes_first_final_answer:
  fixes list_pays details request enc hash
  defines "bytes \<equiv> hash_bytes hash"
    and "ps \<equiv> Some [(''paymentHash'', enc (hash_bytes hash))]"
  assumes "first_final (cln_pending cs) (\<lambda>i. list_pays i bytes) n"
    and "first_final (ldk_pending ls) (\<lambda>i. details i (enc bytes)) n"
    and "first_final eclair_pending (\<lambda>i. request i ''getsentinfo'' ps) n"
    and "n < rounds"
  shows "cln_track_payment cs list_pays hash rounds = decided (cln_poll cs) (list_pays n bytes) \<and>
    ldk_track_payment enc ls details hash rounds = decided (ldk_poll ls) (details n (enc bytes)) \<and>
    eclair_track_payment enc request hash rounds = decided eclair_poll (request n ''getsentinfo'' ps) \<and>
    (\<exists>r1 r2 r3. cln_track_payment cs list_pays hash rounds = Some r1 \<and> tracked_ok r1 \<and>
       ldk_track_payment enc ls details hash rounds = Some r2 \<and> tracked_ok r2 \<and>
       eclair_track_payment enc request hash rounds = Some r3 \<and> tracked_ok r3) \<and>
    cln_track_payment cs list_pays hash n = None \<and> ldk_track_payment enc ls details hash n = None \<and>
    eclair_track_payment enc request hash n = None"
proof -
  note track = cln_track_payment_def ldk_track_payment_def eclair_track_payment_def Let_def
    bytes_def ps_def hm_insert.simps hm_new_def
  note c = cln.rounds_decide [OF assms(3,6)] cln.loop_result [folded tracked_ok_def]
  note l = ldk.rounds_decide [OF assms(4,6)] ldk.loop_result [folded tracked_ok_def]
  note e = eclair.rounds_decide [OF assms(5,6)] eclair.loop_result [folded tracked_ok_def]
  from c(2) obtain r1 where 1: "decided (cln_poll cs) (list_pays n bytes) = Some r1" ..
  from l(2) obtain r2 where 2: "decided (ldk_poll ls) (details n (enc bytes)) = Some r2" ..
  from e(2) obtain r3 where 3: "decided eclair_poll (request n ''getsentinfo'' ps) = Some r3" ..
  have "tracked_ok r1" "tracked_ok r2" "tracked_ok r3"
    using c(4) [OF c(1) [unfolded 1]] l(4) [OF l(1) [unfolded 2]] e(4) [OF e(1) [unfolded 3]]
    by simp_all
  then show ?thesis
    using c(1,3) l(1,3) e(1,3) 1 2 3 by (simp add: track)
qed

theorem tracking_takes_first_final_answer_witness:
  "cln_track_payment (\<lambda>s. if s = 0 then Some CpsPending else Some CpsComplete)
     (\<lambda>i bytes. Polled (Inr [\<lparr>cp_status = int i, cp_number_of_parts = Some 2\<rparr>])) (PaymentHash []) 5
   = Some (Inr \<lparr>htlc_count = 2, payment_outcome = Success\<rparr>)"
proof -
  let ?cs = "\<lambda>s. if s = 0 then Some CpsPending else Some CpsComplete"
  let ?pays = "\<lambda>i bytes. Polled (Inr [\<lparr>cp_status = int i, cp_number_of_parts = Some 2\<rparr>])"
  let ?ls = "\<lambda>s. if s = 0 then Some LdkPending else Some LdkFailed"
  let ?details = "\<lambda>i enc. Polled (Inr (Some (int i)))"
  let ?request = "\<lambda>i e ps. Polled (Inr [\<lparr>pp_status = (if i = 0 then EclairPending else EclairSent), pp_payment_hash = []\<rparr>])"
  have first: "first_final (cln_pending ?cs) (\<lambda>i. ?pays i (hash_bytes (PaymentHash []))) 1"
    "first_final (ldk_pending ?ls) (\<lambda>i. ?details i []) 1"
    "first_final eclair_pending (\<lambda>i. ?request i ''getsentinfo'' (Some [(''paymentHash'', [])])) 1"
    by (auto simp: first_final_def waits_def cln_pending_def ldk_pending_def eclair_pending_def)
  have "cln_track_payment ?cs ?pays (PaymentHash []) 5 = decided (cln_poll ?cs) (?pays 1 [])"
    using tracking_takes_first_final_answer [where hash = "PaymentHash []" and enc = "\<lambda>_. []" and rounds = 5,
        OF first(1) first(2) first(3)] by simp
  then show ?thesis by (simp add: decided_def cln_poll_def)
qed

end
