(* ===== verification/Cli.thy ===== *)
theory Cli
  imports Serializers Lnd Cln Eclair Ldk_Server Sim_Node Simulation
begin

section \<open>Command line and simulation file (sim-cli/src/parsing.rs)\<close>

text \<open>
  The options, the contents of the simulation file, the checks between the two, and the search for the
  file. \<open>clap\<close>, \<open>serde_json\<close>, \<open>dialoguer\<close> and the file system are parameters; paths are strings with
  \<open>/\<close> as separator. The log level is left out. Where the source breaks the line of a message, the
  message has one blank.
\<close>

subsection \<open>Errors\<close>

datatype anyhow_error =
    Anyhow message
  | AnyLightning lightning_error
  | AnySimulation simulation_error
  | AnyIo string

subsection \<open>Options\<close>

definition default_data_dir :: string where
  "default_data_dir = ''.''"

definition default_sim_file :: string where
  "default_sim_file = ''sim.json''"

definition default_expected_payment_amount :: u64 where
  "default_expected_payment_amount = 3800000"

definition default_print_batch_size :: u32 where
  "default_print_batch_size = 500"

definition deserialize_f64_greater_than_zero ::
  "(string \<Rightarrow> string + 'f) \<Rightarrow> ('f \<Rightarrow> bool) \<Rightarrow> ('f \<Rightarrow> string) \<Rightarrow> string \<Rightarrow> message + 'f" where
  "deserialize_f64_greater_than_zero parse_f64 greater_than_zero to_str x =
     (case parse_f64 x of
        Inr v \<Rightarrow>
          if greater_than_zero v then Inr v
          else Inl (Fmt ''capacity_multiplier must be higher than 0. {x} received.'' [ArgStr (to_str v)])
      | Inl e \<Rightarrow> Inl (err_string e))"

record 'f cli =
  data_dir :: string
  sim_file :: string
  cli_total_time :: "u32 option"
  print_batch_size :: u32
  expected_pmt_amt :: u64
  capacity_multiplier :: 'f
  no_results :: bool
  fix_seed :: "u64 option"
  latency_ms :: "u32 option"
  virtual_time :: bool

subsection \<open>The simulation file\<close>

datatype node_connection =
    ConnectLnd lnd_connection
  | ConnectCln cln_connection
  | ConnectEclair eclair_connection
  | ConnectLdkServer ldk_server_connection

record network_parser =
  np_scid :: short_channel_id
  np_capacity_msat :: u64
  np_node_1 :: channel_policy
  np_node_2 :: channel_policy

record activity_parser =
  ap_source :: node_id
  ap_destination :: node_id
  ap_start_secs :: "u16 option"
  ap_count :: "u64 option"
  ap_interval_secs :: "u16 value_or_range"
  ap_amount_msat :: "u64 value_or_range"

record sim_params =
  sp_nodes :: "node_connection list"
  sp_sim_network :: "network_parser list"
  sp_activity :: "activity_parser list"
  sp_exclude :: "pubkey list"

definition any_err :: "string \<Rightarrow> msg_arg list \<Rightarrow> anyhow_error + 'a" where
  "any_err fmt args = Inl (Anyhow (Fmt fmt args))"

definition cli_validate :: "'f cli \<Rightarrow> sim_params \<Rightarrow> anyhow_error + unit" where
  "cli_validate cli sp =
     (if sp_nodes sp \<noteq> [] \<and> sp_sim_network sp \<noteq> []
      then any_err ''Simulation file cannot contain {} nodes and {} sim_graph entries, simulation can only be run with real or simulated nodes not both.''
             [ArgNum (length (sp_nodes sp)), ArgNum (length (sp_sim_network sp))]
      else if sp_nodes sp = [] \<and> sp_sim_network sp = []
      then any_err ''Simulation file must contain nodes to run with real lightning nodes or sim_graph to run with simulated nodes'' []
      else if sp_nodes sp \<noteq> [] \<and> latency_ms cli \<noteq> None
      then any_err ''Latency for payments is only allowed when running on a simulated network'' []
      else if virtual_time cli \<and> sp_nodes sp \<noteq> []
      then any_err ''Virtual time is only allowed when running on a simulated network; real nodes run on wall time'' []
      else if virtual_time cli \<and> cli_total_time cli = None
      then any_err ''Virtual time requires --total-time, otherwise it advances forever'' []
      else if sp_exclude sp \<noteq> [] \<and> sp_sim_network sp = []
      then any_err ''List of nodes to exclude from sending/receiving in random activity is only allowed on a simulated network'' []
      else if sp_exclude sp \<noteq> [] \<and> sp_activity sp \<noteq> []
      then any_err ''List of nodes to exclude from sending/receiving is only allowed on random activity'' []
      else Inr ())"

subsection \<open>Paths\<close>

definition path_is_relative :: "string \<Rightarrow> bool" where
  "path_is_relative p = (take 1 p \<noteq> ''/'')"

definition path_join :: "string \<Rightarrow> string \<Rightarrow> string" where
  "path_join dir p =
     (if \<not> path_is_relative p then p
      else if dir = [] \<or> last dir = CHR ''/'' then dir @ p
      else dir @ ''/'' @ p)"

text \<open>\<open>Path::extension\<close> of a file name: what follows the last dot, unless that is the first character.\<close>

definition path_extension :: "string \<Rightarrow> string option" where
  "path_extension name =
     (let ext = rev (takeWhile (\<lambda>c. c \<noteq> CHR ''.'') (rev name)) in
      if name = ''..'' \<or> length name \<le> length ext + 1 then None else Some ext)"

text \<open>An entry of a directory: it could not be read, its name is no UTF-8, or its name.\<close>

datatype dir_entry = EntryFailed | EntryNotUtf8 | Entry string

record file_system =
  fs_exists :: "string \<Rightarrow> bool"
  fs_read_dir :: "string \<Rightarrow> string + dir_entry list"
  fs_canonicalize :: "string \<Rightarrow> string + string"
  fs_create_dir_all :: "string \<Rightarrow> string + unit"
  fs_read_to_string :: "string \<Rightarrow> string + string"
  dialog_select :: "string list \<Rightarrow> string + nat"

fun json_entry :: "dir_entry \<Rightarrow> string option" where
  "json_entry (Entry name) = (if path_extension name = Some ''json'' then Some name else None)"
| "json_entry _ = None"

text \<open>Indexing with the user's selection panics when it is out of range: \<open>None\<close>.\<close>

definition select_sim_file :: "file_system \<Rightarrow> string \<Rightarrow> (anyhow_error + string) option" where
  "select_sim_file fs dir =
     (case fs_read_dir fs dir of
        Inl e \<Rightarrow> Some (Inl (AnyIo e))
      | Inr entries \<Rightarrow>
          (let sim_files = List.map_filter json_entry entries in
           case fs_canonicalize fs dir of
             Inl e \<Rightarrow> Some (Inl (AnyIo e))
           | Inr shown \<Rightarrow>
               if sim_files = [] then Some (any_err ''no simulation files found in {}.'' [ArgStr shown])
               else
                 (case dialog_select fs sim_files of
                    Inl e \<Rightarrow> Some (Inl (AnyIo e))
                  | Inr selection \<Rightarrow>
                      if selection < length sim_files then Some (Inr (path_join dir (sim_files ! selection)))
                      else None)))"

definition read_sim_path :: "file_system \<Rightarrow> string \<Rightarrow> string \<Rightarrow> (anyhow_error + string) option" where
  "read_sim_path fs dir file =
     (if fs_exists fs file then Some (Inr file)
      else if path_is_relative file
      then
        (let sim_path = path_join dir file in
         if fs_exists fs sim_path then Some (Inr sim_path) else select_sim_file fs dir)
      else select_sim_file fs dir)"

definition mkdir :: "file_system \<Rightarrow> string \<Rightarrow> anyhow_error + string" where
  "mkdir fs dir = (case fs_create_dir_all fs dir of Inl e \<Rightarrow> Inl (AnyIo e) | Inr _ \<Rightarrow> Inr dir)"

text \<open>\<open>from_str\<close> fails with a line, a column and a text.\<close>

definition parse_sim_params ::
  "file_system \<Rightarrow> (string \<Rightarrow> (nat \<times> nat \<times> string) + sim_params) \<Rightarrow> 'f cli \<Rightarrow>
   (anyhow_error + sim_params) option" where
  "parse_sim_params fs from_str cli =
     (case read_sim_path fs (data_dir cli) (sim_file cli) of
        None \<Rightarrow> None
      | Some (Inl e) \<Rightarrow> Some (Inl e)
      | Some (Inr path) \<Rightarrow>
          (case fs_read_to_string fs path of
             Inl e \<Rightarrow> Some (Inl (AnyIo e))
           | Inr contents \<Rightarrow>
               (case from_str contents of
                  Inl (line, col, e) \<Rightarrow> Some (any_err ''Could not deserialize node connection data or activity description from simulation file (line {}, col {}, err: {}).''
                     [ArgNum line, ArgNum col, ArgStr e])
                | Inr sp \<Rightarrow> Some (Inr sp))))"

subsection \<open>The configuration of the simulation\<close>

definition simulation_cfg_try_from :: "file_system \<Rightarrow> 'f cli \<Rightarrow> anyhow_error + 'f simulation_cfg" where
  "simulation_cfg_try_from fs cli =
     res_bind
       (if \<not> no_results cli
        then res_bind (mkdir fs (path_join (data_dir cli) ''results'')) (\<lambda>dir.
               Inr (Some \<lparr>results_dir = dir, batch_size = print_batch_size cli\<rparr>))
        else Inr None)
       (\<lambda>results. Inr (simulation_cfg_new (cli_total_time cli) (expected_pmt_amt cli)
                         (capacity_multiplier cli) results (fix_seed cli)))"

subsection \<open>Properties\<close>

lemma cli_validate_ok_iff:
  "is_ok (cli_validate cli sp) \<longleftrightarrow>
   (sp_nodes sp = [] \<longleftrightarrow> sp_sim_network sp \<noteq> []) \<and>
   (sp_nodes sp \<noteq> [] \<longrightarrow> latency_ms cli = None) \<and>
   (virtual_time cli \<longrightarrow> sp_nodes sp = [] \<and> cli_total_time cli \<noteq> None) \<and>
   (sp_exclude sp \<noteq> [] \<longrightarrow> sp_sim_network sp \<noteq> [] \<and> sp_activity sp = [])"
  unfolding cli_validate_def any_err_def
  by (cases "sp_nodes sp = []"; cases "sp_sim_network sp = []"; cases "latency_ms cli = None";
      cases "virtual_time cli"; cases "cli_total_time cli = None"; cases "sp_exclude sp = []";
      cases "sp_activity sp = []") simp_all

text \<open>The simulation file that is read exists or was chosen among the JSON files of the directory.\<close>

lemma read_sim_path_source:
  assumes "read_sim_path fs dir file = Some (Inr path)"
  shows "fs_exists fs path \<and> (path = file \<or> path = path_join dir file \<and> path_is_relative file) \<or>
    \<not> fs_exists fs file \<and> (\<exists>entries name. fs_read_dir fs dir = Inr entries \<and> Entry name \<in> set entries \<and>
       path_extension name = Some ''json'' \<and> path = path_join dir name)"
proof -
  have json: "x \<in> set (List.map_filter json_entry es) \<Longrightarrow> Entry x \<in> set es \<and> path_extension x = Some ''json''"
    for x es
  proof (induction es)
    case (Cons e es)
    then show ?case by (cases e) (auto simp: List.map_filter_simps split: if_splits)
  qed (simp add: List.map_filter_simps)
  have "select_sim_file fs dir = Some (Inr path) \<Longrightarrow> \<exists>entries name. fs_read_dir fs dir = Inr entries \<and>
      Entry name \<in> set entries \<and> path_extension name = Some ''json'' \<and> path = path_join dir name"
    by (auto simp: select_sim_file_def any_err_def Let_def split: sum.splits if_splits dest!: json [OF nth_mem])
  with assms show ?thesis
    by (auto simp: read_sim_path_def Let_def split: if_splits)
qed

end
