(* ===== verification/Activities.thy ===== *)
theory Activities
  imports Cli
begin

section \<open>Resolving the activities of the simulation file (sim-cli/src/parsing.rs)\<close>

text \<open>
  An activity names its source and destination by key or by alias. \<open>add_node_to_maps\<close> indexes the
  nodes that are controlled, \<open>get_validated_activities\<close> the graph that the first of them knows, and
  \<open>validate_activities\<close> resolves the names. The specification is a relation on the sets of nodes.
\<close>

record node_mapping =
  nm_pk_node_map :: "(pubkey, node_info) hmap"
  nm_alias_node_map :: "(string, node_info) hmap"

record activity_validation_params =
  pk_node_map :: "(pubkey, node_info) hmap"
  alias_node_map :: "(string, node_info) hmap"
  graph_nodes_by_pk :: "(pubkey, node_info) hmap"
  graph_nodes_by_alias :: "(string, node_info list) hmap"

subsection \<open>Indexing the nodes\<close>

fun add_nodes_loop :: "node_info list \<Rightarrow> node_mapping \<Rightarrow> lightning_error + node_mapping" where
  "add_nodes_loop [] m = Inr m"
| "add_nodes_loop (n # ns) m =
     (if hm_contains (nm_pk_node_map m) (pubkey n)
      then Inl (ValidationError (Fmt ''duplicated node: {}.'' [ArgPk (pubkey n)]))
      else if node_alias n \<noteq> [] \<and> hm_contains (nm_alias_node_map m) (node_alias n)
      then Inl (ValidationError (Fmt ''duplicated alias: {}.'' [ArgStr (node_alias n)]))
      else add_nodes_loop ns
             \<lparr>nm_pk_node_map = hm_insert (pubkey n) n (nm_pk_node_map m),
              nm_alias_node_map =
                (if node_alias n \<noteq> [] then hm_insert (node_alias n) n (nm_alias_node_map m)
                 else nm_alias_node_map m)\<rparr>)"

definition add_node_to_maps :: "(pubkey, node_info) hmap \<Rightarrow> lightning_error + node_mapping" where
  "add_node_to_maps nodes =
     add_nodes_loop (hm_values nodes) \<lparr>nm_pk_node_map = hm_new, nm_alias_node_map = hm_new\<rparr>"

fun by_alias_loop ::
  "(pubkey \<times> node_info) list \<Rightarrow> (string, node_info list) hmap \<Rightarrow> (string, node_info list) hmap" where
  "by_alias_loop [] m = m"
| "by_alias_loop ((pk, n) # nodes) m =
     by_alias_loop nodes
       (hm_insert (node_alias n)
          ((case hm_get m (node_alias n) of None \<Rightarrow> [] | Some l \<Rightarrow> l) @ [n]) m)"

subsection \<open>Resolving one activity\<close>

fun node_id_arg :: "node_id \<Rightarrow> msg_arg" where
  "node_id_arg (NodeIdPublicKey pk) = ArgPk pk"
| "node_id_arg (NodeIdAlias a) = ArgStr a"

definition activity_source ::
  "activity_validation_params \<Rightarrow> activity_parser \<Rightarrow> lightning_error + node_info" where
  "activity_source params act =
     ok_or (case ap_source act of
              NodeIdPublicKey pk \<Rightarrow> hm_get (pk_node_map params) pk
            | NodeIdAlias a \<Rightarrow> hm_get (alias_node_map params) a)
       (ValidationError (Fmt ''activity source {} not found in nodes.'' [node_id_arg (ap_source act)]))"

text \<open>\<open>node_infos[0]\<close> would panic on an empty list: \<open>None\<close>.\<close>

definition activity_destination ::
  "activity_validation_params \<Rightarrow> activity_parser \<Rightarrow> (lightning_error + node_info) option" where
  "activity_destination params act =
     (let unknown = Inl (ValidationError
            (Fmt ''unknown activity destination: {}.'' [node_id_arg (ap_destination act)]))
      in case ap_destination act of
           NodeIdAlias a \<Rightarrow>
             (case hm_get (alias_node_map params) a of
                Some n \<Rightarrow> Some (Inr n)
              | None \<Rightarrow>
                  (case hm_get (graph_nodes_by_alias params) a of
                     Some node_infos \<Rightarrow>
                       if length node_infos > 1
                       then Some (Inl (ValidationError
                              (Fmt ''Multiple nodes in the graph have the same destination alias - {}. Use one of these public keys as the destination instead - {:?}''
                                 [ArgStr a, ArgPks (map pubkey node_infos)])))
                       else (case node_infos of [] \<Rightarrow> None | n # _ \<Rightarrow> Some (Inr n))
                   | None \<Rightarrow> Some unknown))
         | NodeIdPublicKey pk \<Rightarrow>
             (case hm_get (pk_node_map params) pk of
                Some n \<Rightarrow> Some (Inr n)
              | None \<Rightarrow>
                  (case hm_get (graph_nodes_by_pk params) pk of
                     Some n \<Rightarrow> Some (Inr n)
                   | None \<Rightarrow> Some unknown)))"

definition activity_of :: "activity_parser \<Rightarrow> node_info \<Rightarrow> node_info \<Rightarrow> activity_definition" where
  "activity_of act src dst =
     \<lparr>act_source = src, act_destination = dst, act_start_secs = ap_start_secs act,
      act_count = ap_count act, act_interval_secs = ap_interval_secs act,
      act_amount_msat = ap_amount_msat act\<rparr>"

fun validate_activities ::
  "activity_parser list \<Rightarrow> activity_validation_params \<Rightarrow>
   (lightning_error + activity_definition list) option" where
  "validate_activities [] params = Some (Inr [])"
| "validate_activities (act # acts) params =
     (case activity_source params act of
        Inl e \<Rightarrow> Some (Inl e)
      | Inr src \<Rightarrow>
          (case activity_destination params act of
             None \<Rightarrow> None
           | Some (Inl e) \<Rightarrow> Some (Inl e)
           | Some (Inr dst) \<Rightarrow>
               (case validate_activities acts params of
                  None \<Rightarrow> None
                | Some (Inl e) \<Rightarrow> Some (Inl e)
                | Some (Inr defs) \<Rightarrow> Some (Inr (activity_of act src dst # defs)))))"

subsection \<open>Resolving them all\<close>

definition graph_error :: "lightning_error \<Rightarrow> lightning_error" where
  "graph_error e = GetGraphError (Fmt ''Error getting graph {:?}''
     (case e of
        ConnectionError (Fmt s as) \<Rightarrow> ArgStr s # as
      | GetInfoError (Fmt s as) \<Rightarrow> ArgStr s # as
      | SendPaymentError (Fmt s as) \<Rightarrow> ArgStr s # as
      | TrackPaymentError (Fmt s as) \<Rightarrow> ArgStr s # as
      | InvalidPaymentHash \<Rightarrow> []
      | GetNodeInfoError (Fmt s as) \<Rightarrow> ArgStr s # as
      | ValidationError (Fmt s as) \<Rightarrow> ArgStr s # as
      | PermanentError (Fmt s as) \<Rightarrow> ArgStr s # as
      | ListChannelsError (Fmt s as) \<Rightarrow> ArgStr s # as
      | GetGraphError (Fmt s as) \<Rightarrow> ArgStr s # as
      | SystemTimeConversionError \<Rightarrow> []))"

text \<open>The first client the map yields is asked for the graph.\<close>

definition get_validated_activities ::
  "'s nodes \<Rightarrow> (pubkey, node_info) hmap \<Rightarrow> activity_parser list \<Rightarrow>
   (lightning_error + activity_definition list) option" where
  "get_validated_activities clients nodes_info activity =
     (case hm_values clients of
        [] \<Rightarrow> Some (Inl (GetGraphError (Fmt ''Graph is empty'' [])))
      | client # _ \<Rightarrow>
          (case ln_get_graph client of
             None \<Rightarrow> None
           | Some (Inl e) \<Rightarrow> Some (Inl (graph_error e))
           | Some (Inr graph) \<Rightarrow>
               (let by_alias = by_alias_loop graph hm_new in
                case add_node_to_maps nodes_info of
                  Inl e \<Rightarrow> Some (Inl e)
                | Inr m \<Rightarrow>
                    validate_activities activity
                      \<lparr>pk_node_map = nm_pk_node_map m, alias_node_map = nm_alias_node_map m,
                       graph_nodes_by_pk = graph, graph_nodes_by_alias = by_alias\<rparr>)))"

subsection \<open>What the indexes hold\<close>

definition distinct_aliases :: "node_info list \<Rightarrow> bool" where
  "distinct_aliases ns \<longleftrightarrow> distinct (filter (\<lambda>a. a \<noteq> []) (map node_alias ns))"

lemma find_none_iff: "find P xs = None \<longleftrightarrow> (\<forall>x \<in> set xs. \<not> P x)"
  by (auto simp: find_None_iff)

lemma add_nodes_loop_ok:
  assumes "distinct (map pubkey ns)" and "\<forall>n \<in> set ns. hm_get (nm_pk_node_map m) (pubkey n) = None"
  shows "is_ok (add_nodes_loop ns m) \<longleftrightarrow>
    distinct_aliases ns \<and> (\<forall>n \<in> set ns. node_alias n \<noteq> [] \<longrightarrow> hm_get (nm_alias_node_map m) (node_alias n) = None)"
  using assms
proof (induction ns arbitrary: m)
  case (Cons n ns)
  then have fresh: "hm_get (nm_pk_node_map m) (pubkey n) = None" "\<forall>x \<in> set ns. pubkey x \<noteq> pubkey n"
    by (auto simp: image_iff)
  show ?case
  proof (cases "node_alias n = []")
    case True
    with Cons fresh show ?thesis by (simp add: hm_contains_def hm_get_insert distinct_aliases_def)
  next
    case False
    with Cons fresh show ?thesis
      by (auto simp: hm_contains_def hm_get_insert distinct_aliases_def image_iff)
  qed
qed (simp add: distinct_aliases_def)

lemma add_nodes_loop_get:
  assumes "add_nodes_loop ns m = Inr m'"
  shows "hm_get (nm_pk_node_map m') pk =
      (case find (\<lambda>n. pubkey n = pk) ns of Some n \<Rightarrow> Some n | None \<Rightarrow> hm_get (nm_pk_node_map m) pk)"
    and "a \<noteq> [] \<Longrightarrow> hm_get (nm_alias_node_map m') a =
      (case find (\<lambda>n. node_alias n = a) ns of Some n \<Rightarrow> Some n | None \<Rightarrow> hm_get (nm_alias_node_map m) a)"
    and "hm_get (nm_alias_node_map m') [] = hm_get (nm_alias_node_map m) []"
proof -
  have kept: "add_nodes_loop ns m = Inr m' \<Longrightarrow>
      (\<forall>v. hm_get (nm_pk_node_map m) pk = Some v \<longrightarrow> find (\<lambda>n. pubkey n = pk) ns = None) \<and>
      (\<forall>v. a \<noteq> [] \<longrightarrow> hm_get (nm_alias_node_map m) a = Some v \<longrightarrow> find (\<lambda>n. node_alias n = a) ns = None)"
    for ns m
  proof (induction ns m rule: add_nodes_loop.induct)
    case (2 n ns m)
    then show ?case by (auto simp: hm_contains_def hm_get_insert split: if_splits)
  qed simp
  have gets: "add_nodes_loop ns m = Inr m' \<Longrightarrow>
      hm_get (nm_pk_node_map m') pk =
        (case find (\<lambda>n. pubkey n = pk) ns of Some n \<Rightarrow> Some n | None \<Rightarrow> hm_get (nm_pk_node_map m) pk) \<and>
      (a \<noteq> [] \<longrightarrow> hm_get (nm_alias_node_map m') a =
        (case find (\<lambda>n. node_alias n = a) ns of Some n \<Rightarrow> Some n | None \<Rightarrow> hm_get (nm_alias_node_map m) a)) \<and>
      hm_get (nm_alias_node_map m') [] = hm_get (nm_alias_node_map m) []" for ns m
  proof (induction ns m rule: add_nodes_loop.induct)
    case (2 n ns m)
    let ?m = "\<lparr>nm_pk_node_map = hm_insert (pubkey n) n (nm_pk_node_map m),
       nm_alias_node_map = (if node_alias n \<noteq> [] then hm_insert (node_alias n) n (nm_alias_node_map m)
          else nm_alias_node_map m)\<rparr>"
    from 2(2) have rest: "add_nodes_loop ns ?m = Inr m'"
      and new: "\<not> hm_contains (nm_pk_node_map m) (pubkey n)"
        "\<not> (node_alias n \<noteq> [] \<and> hm_contains (nm_alias_node_map m) (node_alias n))"
      by (auto split: if_splits)
    from 2(1) [OF new rest] kept [OF rest] show ?case
      by (auto simp: hm_get_insert split: option.splits if_splits)
  qed simp
  from gets [OF assms] show "hm_get (nm_pk_node_map m') pk =
      (case find (\<lambda>n. pubkey n = pk) ns of Some n \<Rightarrow> Some n | None \<Rightarrow> hm_get (nm_pk_node_map m) pk)"
    and "a \<noteq> [] \<Longrightarrow> hm_get (nm_alias_node_map m') a =
      (case find (\<lambda>n. node_alias n = a) ns of Some n \<Rightarrow> Some n | None \<Rightarrow> hm_get (nm_alias_node_map m) a)"
    and "hm_get (nm_alias_node_map m') [] = hm_get (nm_alias_node_map m) []" by blast+
qed

lemma by_alias_loop_get:
  "hm_get (by_alias_loop nodes m) a =
   (let ns = filter (\<lambda>n. node_alias n = a) (map snd nodes) in
    if ns = [] then hm_get m a else Some ((case hm_get m a of None \<Rightarrow> [] | Some l \<Rightarrow> l) @ ns))"
  by (induction nodes m rule: by_alias_loop.induct) (auto simp: hm_get_insert Let_def split: option.split)

subsection \<open>The specification\<close>

text \<open>
  \<open>controlled\<close> are the nodes of the configuration, \<open>known\<close> those of the graph. A controlled node can be
  named by its alias only when it has one; a node of the graph only when its alias is unique there, and
  when no controlled node answers to the name.
\<close>

fun named :: "node_id \<Rightarrow> node_info \<Rightarrow> bool" where
  "named (NodeIdPublicKey pk) n = (pubkey n = pk)"
| "named (NodeIdAlias a) n = (node_alias n = a)"

definition names_controlled :: "node_info set \<Rightarrow> node_id \<Rightarrow> node_info \<Rightarrow> bool" where
  "names_controlled controlled i n \<longleftrightarrow> n \<in> controlled \<and> named i n \<and> i \<noteq> NodeIdAlias []"

definition names_destination :: "node_info set \<Rightarrow> node_info set \<Rightarrow> node_id \<Rightarrow> node_info \<Rightarrow> bool" where
  "names_destination controlled known i n \<longleftrightarrow>
     names_controlled controlled i n \<or>
     (\<forall>x. \<not> names_controlled controlled i x) \<and> n \<in> known \<and> named i n \<and>
       (\<forall>x \<in> known. named i x \<longrightarrow> x = n)"

definition resolves ::
  "node_info set \<Rightarrow> node_info set \<Rightarrow> activity_parser \<Rightarrow> activity_definition \<Rightarrow> bool" where
  "resolves controlled known act d \<longleftrightarrow>
     names_controlled controlled (ap_source act) (act_source d) \<and>
     names_destination controlled known (ap_destination act) (act_destination d) \<and>
     d = activity_of act (act_source d) (act_destination d)"

definition indexes ::
  "activity_validation_params \<Rightarrow> node_info set \<Rightarrow> (pubkey, node_info) hmap \<Rightarrow> bool" where
  "indexes params controlled graph \<longleftrightarrow>
     (\<forall>pk n. hm_get (pk_node_map params) pk = Some n \<longleftrightarrow> n \<in> controlled \<and> pubkey n = pk) \<and>
     (\<forall>a n. hm_get (alias_node_map params) a = Some n \<longleftrightarrow> n \<in> controlled \<and> node_alias n = a \<and> a \<noteq> []) \<and>
     graph_nodes_by_pk params = graph \<and> graph_nodes_by_alias params = by_alias_loop graph hm_new"

lemma keyed_values:
  assumes "keyed_by_pubkey m"
  shows "n \<in> set (hm_values m) \<longleftrightarrow> hm_get m (pubkey n) = Some n"
    and "hm_get m pk = Some n \<longleftrightarrow> n \<in> set (hm_values m) \<and> pubkey n = pk"
    and "distinct (map pubkey (hm_values m))"
proof -
  have keyed: "\<And>pk n. hm_get m pk = Some n \<Longrightarrow> pubkey n = pk" and wf: "hm_wf m"
    using assms by (auto simp: keyed_by_pubkey_def)
  have entry: "(pk, n) \<in> set m \<longleftrightarrow> hm_get m pk = Some n" for pk n
    using wf by (auto simp: hm_get_def hm_wf_def dest: map_of_SomeD)
  show mem: "n \<in> set (hm_values m) \<longleftrightarrow> hm_get m (pubkey n) = Some n" for n
  proof
    assume "n \<in> set (hm_values m)"
    then obtain pk where "(pk, n) \<in> set m" by (auto simp: hm_values_def)
    with entry keyed [of pk n] show "hm_get m (pubkey n) = Some n" by simp
  next
    assume "hm_get m (pubkey n) = Some n"
    then show "n \<in> set (hm_values m)" by (force simp: hm_values_def simp flip: entry)
  qed
  then show "hm_get m pk = Some n \<longleftrightarrow> n \<in> set (hm_values m) \<and> pubkey n = pk"
    by (metis keyed)
  have "pubkey (snd e) = fst e" if "e \<in> set m" for e
    using that entry [of "fst e" "snd e"] keyed by simp
  then have "map pubkey (hm_values m) = map fst m" by (simp add: hm_values_def)
  with wf show "distinct (map pubkey (hm_values m))" by (simp add: hm_wf_def)
qed

lemma find_Some_unique:
  assumes "\<And>x y. x \<in> set ns \<Longrightarrow> y \<in> set ns \<Longrightarrow> P x \<Longrightarrow> P y \<Longrightarrow> x = y"
  shows "find P ns = Some n \<longleftrightarrow> n \<in> set ns \<and> P n"
proof
  assume "n \<in> set ns \<and> P n"
  then obtain y where y: "find P ns = Some y" by (cases "find P ns") (auto simp: find_None_iff)
  then have "y \<in> set ns" "P y" by (auto simp: find_Some_iff)
  with assms \<open>n \<in> set ns \<and> P n\<close> y show "find P ns = Some n" by blast
qed (auto simp: find_Some_iff)

lemma distinct_aliases_unique:
  assumes "distinct_aliases ns" and "distinct ns"
    and "x \<in> set ns" and "y \<in> set ns" and "node_alias x = node_alias y" and "node_alias x \<noteq> []"
  shows "x = y"
  using assms
proof (induction ns)
  case (Cons n ns)
  then show ?case by (auto simp: distinct_aliases_def image_iff split: if_splits)
qed simp

lemma add_node_to_maps_indexes:
  assumes keyed: "keyed_by_pubkey nodes" and m: "add_node_to_maps nodes = Inr m"
  shows "indexes \<lparr>pk_node_map = nm_pk_node_map m, alias_node_map = nm_alias_node_map m,
           graph_nodes_by_pk = graph, graph_nodes_by_alias = by_alias_loop graph hm_new\<rparr>
           (set (hm_values nodes)) graph"
proof -
  let ?ns = "hm_values nodes"
  note loop = m [unfolded add_node_to_maps_def]
  have dist: "distinct (map pubkey ?ns)" by (rule keyed_values(3) [OF keyed])
  then have aliases: "distinct_aliases ?ns"
    using add_nodes_loop_ok [OF dist, of "\<lparr>nm_pk_node_map = hm_new, nm_alias_node_map = hm_new\<rparr>"] loop
    by (simp add: hm_new_def hm_get_def)
  have pk: "find (\<lambda>n. pubkey n = pk) ?ns = Some n \<longleftrightarrow> n \<in> set ?ns \<and> pubkey n = pk" for pk n
    by (rule find_Some_unique) (use dist in \<open>auto simp: distinct_map inj_on_def\<close>)
  have al: "find (\<lambda>n. node_alias n = a) ?ns = Some n \<longleftrightarrow> n \<in> set ?ns \<and> node_alias n = a" if "a \<noteq> []" for a n
    by (rule find_Some_unique)
      (use distinct_aliases_unique [OF aliases dist [unfolded distinct_map, THEN conjunct1]] that in auto)
  have "hm_get (nm_pk_node_map m) pk = find (\<lambda>n. pubkey n = pk) ?ns" for pk
    using add_nodes_loop_get(1) [OF loop, of pk] by (simp add: hm_new_def hm_get_def split: option.splits)
  moreover have "hm_get (nm_alias_node_map m) a = (if a = [] then None else find (\<lambda>n. node_alias n = a) ?ns)" for a
    using add_nodes_loop_get(2) [OF loop, of a] add_nodes_loop_get(3) [OF loop] by (simp add: hm_new_def hm_get_def split: option.splits)
  ultimately show ?thesis
    by (auto simp: indexes_def pk al)
qed

lemma controlled_lookup:
  assumes "indexes params C graph"
  shows "(case i of NodeIdAlias a \<Rightarrow> hm_get (alias_node_map params) a
            | NodeIdPublicKey pk \<Rightarrow> hm_get (pk_node_map params) pk) = Some n \<longleftrightarrow> names_controlled C i n"
    and "(case i of NodeIdAlias a \<Rightarrow> hm_get (alias_node_map params) a
            | NodeIdPublicKey pk \<Rightarrow> hm_get (pk_node_map params) pk) = None \<longleftrightarrow> (\<forall>x. \<not> names_controlled C i x)"
proof -
  show 1: "(case i of NodeIdAlias a \<Rightarrow> hm_get (alias_node_map params) a
            | NodeIdPublicKey pk \<Rightarrow> hm_get (pk_node_map params) pk) = Some n \<longleftrightarrow> names_controlled C i n" for n
    using assms by (cases i) (auto simp: indexes_def names_controlled_def)
  show "(case i of NodeIdAlias a \<Rightarrow> hm_get (alias_node_map params) a
            | NodeIdPublicKey pk \<Rightarrow> hm_get (pk_node_map params) pk) = None \<longleftrightarrow> (\<forall>x. \<not> names_controlled C i x)"
    using 1 by (metis not_None_eq)
qed

lemma ok_or_Inr: "ok_or x e = Inr n \<longleftrightarrow> x = Some n"
  by (cases x) simp_all

lemma activity_source_spec:
  "indexes params C graph \<Longrightarrow>
   activity_source params act = Inr n \<longleftrightarrow> names_controlled C (ap_source act) n"
  unfolding activity_source_def ok_or_Inr by (rule controlled_lookup)

text \<open>The list kept for an alias has one node exactly when the alias is unique in the graph.\<close>

lemma unique_alias:
  assumes "distinct ns"
  shows "filter (\<lambda>n. node_alias n = a) ns = [n] \<longleftrightarrow>
    n \<in> set ns \<and> node_alias n = a \<and> (\<forall>x \<in> set ns. node_alias x = a \<longrightarrow> x = n)"
  using assms
proof (induction ns)
  case (Cons m ns)
  have "filter (\<lambda>n. node_alias n = a) ns = [] \<longleftrightarrow> (\<forall>x \<in> set ns. node_alias x \<noteq> a)"
    by (simp add: filter_empty_conv)
  with Cons show ?case by auto
qed simp

lemma activity_destination_spec:
  assumes ix: "indexes params C graph" and keyed: "keyed_by_pubkey graph"
  shows "activity_destination params act \<noteq> None"
    and "activity_destination params act = Some (Inr n) \<longleftrightarrow>
      names_destination C (set (hm_values graph)) (ap_destination act) n"
proof -
  let ?V = "hm_values graph"
  have dist: "distinct ?V"
    using keyed_values(3) [OF keyed] by (simp add: distinct_map)
  have by_alias: "hm_get (graph_nodes_by_alias params) a =
      (if filter (\<lambda>n. node_alias n = a) ?V = [] then None else Some (filter (\<lambda>n. node_alias n = a) ?V))" for a
    using ix by_alias_loop_get [of graph hm_new a]
    by (simp add: indexes_def hm_new_def hm_get_def hm_values_def Let_def)
  have by_pk: "hm_get (graph_nodes_by_pk params) pk = Some n \<longleftrightarrow> n \<in> set ?V \<and> pubkey n = pk" for pk n
    using ix keyed_values(2) [OF keyed] by (simp add: indexes_def)
  note look = controlled_lookup [OF ix, of "ap_destination act"]
  have "activity_destination params act \<noteq> None \<and>
    (activity_destination params act = Some (Inr n) \<longleftrightarrow> names_destination C (set ?V) (ap_destination act) n)"
  proof (cases "\<exists>x. names_controlled C (ap_destination act) x")
    case True
    then obtain x where x: "names_controlled C (ap_destination act) x" ..
    with look(1) [of x] have dest: "activity_destination params act = Some (Inr x)"
      by (cases "ap_destination act") (simp_all add: activity_destination_def)
    have "names_controlled C (ap_destination act) n \<longleftrightarrow> n = x"
      using look(1) [of x] look(1) [of n] x by auto
    with dest x show ?thesis by (auto simp: names_destination_def)
  next
    case False
    show ?thesis
    proof (cases "ap_destination act")
      case (NodeIdPublicKey pk)
      with False look(2) have "hm_get (pk_node_map params) pk = None" by simp
      then have eq: "activity_destination params act = Some (Inr x) \<longleftrightarrow> hm_get (graph_nodes_by_pk params) pk = Some x"
        and some: "activity_destination params act \<noteq> None" for x
        using NodeIdPublicKey by (auto simp: activity_destination_def split: option.split)
      have "(\<forall>x. \<not> names_controlled C (ap_destination act) x) \<and> n \<in> set ?V \<and> pubkey n = pk \<Longrightarrow>
          \<forall>x \<in> set ?V. pubkey x = pk \<longrightarrow> x = n"
        using by_pk [of pk] by (metis option.inject)
      with eq some False NodeIdPublicKey by_pk [of pk n] show ?thesis
        by (simp add: names_destination_def) blast
    next
      case (NodeIdAlias a)
      let ?f = "filter (\<lambda>n. node_alias n = a) ?V"
      from NodeIdAlias False look(2) have none: "hm_get (alias_node_map params) a = None" by simp
      have "activity_destination params act \<noteq> None \<and> (activity_destination params act = Some (Inr n) \<longleftrightarrow> ?f = [n])"
      proof (cases ?f)
        case (Cons x l)
        with none NodeIdAlias by_alias [of a] show ?thesis
          by (cases l) (auto simp: activity_destination_def)
      qed (use none NodeIdAlias by_alias [of a] in \<open>simp add: activity_destination_def\<close>)
      with False NodeIdAlias unique_alias [OF dist, of a n] show ?thesis
        by (auto simp: names_destination_def)
    qed
  qed
  then show "activity_destination params act \<noteq> None"
    and "activity_destination params act = Some (Inr n) \<longleftrightarrow>
      names_destination C (set ?V) (ap_destination act) n" by blast+
qed

lemma validate_activities_spec:
  assumes ix: "indexes params C graph" and keyed: "keyed_by_pubkey graph"
  shows "validate_activities acts params \<noteq> None \<and>
    (validate_activities acts params = Some (Inr defs) \<longleftrightarrow> list_all2 (resolves C (set (hm_values graph))) acts defs)"
proof (induction acts arbitrary: defs)
  case (Cons act acts)
  note src = activity_source_spec [OF ix, of act] and dst = activity_destination_spec [OF ix keyed, of act]
  have split_defs: "list_all2 R (act # acts) defs \<longleftrightarrow> (\<exists>d ds. defs = d # ds \<and> R act d \<and> list_all2 R acts ds)"
    for R :: "activity_parser \<Rightarrow> activity_definition \<Rightarrow> bool"
    by (cases defs) auto
  have eq: "resolves C V act d \<longleftrightarrow> (\<exists>s t. names_controlled C (ap_source act) s \<and>
      names_destination C V (ap_destination act) t \<and> d = activity_of act s t)" for V d
    by (auto simp: resolves_def activity_of_def)
  show ?case
  proof (cases "activity_source params act")
    case (Inl e)
    with src show ?thesis by (auto simp: split_defs eq)
  next
    case (Inr s)
    with src have s: "names_controlled C (ap_source act) s' \<longleftrightarrow> s' = s" for s' by (metis sum.inject(2))
    obtain r where r: "activity_destination params act = Some r" using dst(1) by auto
    show ?thesis
    proof (cases r)
      case (Inl e)
      with Inr r dst(2) show ?thesis by (auto simp: split_defs eq)
    next
      case (Inr t)
      with r dst(2) have t: "names_destination C (set (hm_values graph)) (ap_destination act) t' \<longleftrightarrow> t' = t" for t'
        by (metis option.inject sum.inject(2))
      from Cons.IH obtain v where v: "validate_activities acts params = Some v" by auto
      with Cons.IH show ?thesis
        using \<open>activity_source params act = Inr s\<close> r Inr
        by (cases v) (auto simp: split_defs eq s t)
    qed
  qed
qed (auto simp: list_all2_Nil)

text \<open>C22. Resolution of the activities. Given the graph of the first client, the activities of the
  file are accepted exactly when no two controlled nodes share a non-empty alias and every activity
  resolves: its source is a controlled node, by key or by its alias; its destination is the controlled
  node of that name if there is one, and otherwise the one node of the graph that has the name. The
  definitions that result name those nodes and keep start, count, interval and amount, in the order of
  the file. No lookup panics.\<close>

theorem activities_resolved:
  assumes "hm_values clients = client # others" and "ln_get_graph client = Some (Inr graph)"
    and "keyed_by_pubkey graph" and "keyed_by_pubkey nodes_info"
  shows "get_validated_activities clients nodes_info acts \<noteq> None \<and>
    (get_validated_activities clients nodes_info acts = Some (Inr defs) \<longleftrightarrow>
       distinct_aliases (hm_values nodes_info) \<and>
       list_all2 (resolves (set (hm_values nodes_info)) (set (hm_values graph))) acts defs)"
proof -
  have "is_ok (add_node_to_maps nodes_info) \<longleftrightarrow> distinct_aliases (hm_values nodes_info)"
    unfolding add_node_to_maps_def
    using add_nodes_loop_ok [OF keyed_values(3) [OF assms(4)], of "\<lparr>nm_pk_node_map = hm_new, nm_alias_node_map = hm_new\<rparr>"]
    by (simp add: hm_new_def hm_get_def)
  then show ?thesis
    using assms(1,2) validate_activities_spec [OF add_node_to_maps_indexes [OF assms(4)] assms(3)]
    by (cases "add_node_to_maps nodes_info") (simp_all add: get_validated_activities_def)
qed

subsection \<open>An example\<close>

definition demo_named_info :: "nat \<Rightarrow> string \<Rightarrow> node_info" where
  "demo_named_info i a = \<lparr>pubkey = PublicKey i, node_alias = a, features = NodeFeatures []\<rparr>"

definition demo_client :: "unit lightning_node" where
  "demo_client = \<lparr>ln_info = demo_named_info 1 ''alice'', ln_network = Regtest,
     ln_send_payment = (\<lambda>dest amt s. (Inl InvalidPaymentHash, s)),
     ln_track_payment = (\<lambda>hash s. (Inl InvalidPaymentHash, s)),
     ln_get_node_info = (\<lambda>pk. Inl InvalidPaymentHash), ln_channel_capacities = Inr 0,
     ln_get_graph = Some (Inr [(PublicKey 1, demo_named_info 1 ''alice''), (PublicKey 2, demo_named_info 2 ''bob'')])\<rparr>"

definition demo_named_activity :: activity_parser where
  "demo_named_activity = \<lparr>ap_source = NodeIdAlias ''alice'', ap_destination = NodeIdAlias ''bob'', ap_start_secs = None,
     ap_count = Some 3, ap_interval_secs = Value 5, ap_amount_msat = Range 10 20\<rparr>"

theorem activities_resolved_witness:
  "get_validated_activities [(PublicKey 1, demo_client)] [(PublicKey 1, demo_named_info 1 ''alice'')] [demo_named_activity] =
     Some (Inr [activity_of demo_named_activity (demo_named_info 1 ''alice'') (demo_named_info 2 ''bob'')])"
proof -
  let ?graph = "[(PublicKey 1, demo_named_info 1 ''alice''), (PublicKey 2, demo_named_info 2 ''bob'')]"
  have "hm_values [(PublicKey 1, demo_client)] = demo_client # []" and "ln_get_graph demo_client = Some (Inr ?graph)"
    by (simp_all add: hm_values_def demo_client_def)
  moreover have "keyed_by_pubkey ?graph" "keyed_by_pubkey [(PublicKey 1, demo_named_info 1 ''alice'')]"
    by (auto simp: keyed_by_pubkey_def hm_wf_def hm_get_def demo_named_info_def split: if_splits)
  ultimately have "get_validated_activities [(PublicKey 1, demo_client)] [(PublicKey 1, demo_named_info 1 ''alice'')] [demo_named_activity] =
      Some (Inr defs) \<longleftrightarrow> distinct_aliases [demo_named_info 1 ''alice''] \<and>
      list_all2 (resolves {demo_named_info 1 ''alice''} {demo_named_info 1 ''alice'', demo_named_info 2 ''bob''}) [demo_named_activity] defs" for defs
    using activities_resolved [of "[(PublicKey 1, demo_client)]" demo_client "[]" ?graph "[(PublicKey 1, demo_named_info 1 ''alice'')]" "[demo_named_activity]" defs]
    by (simp add: hm_values_def)
  moreover have "resolves {demo_named_info 1 ''alice''} {demo_named_info 1 ''alice'', demo_named_info 2 ''bob''} demo_named_activity
      (activity_of demo_named_activity (demo_named_info 1 ''alice'') (demo_named_info 2 ''bob''))"
    by (auto simp: resolves_def names_controlled_def names_destination_def demo_named_activity_def demo_named_info_def activity_of_def)
  ultimately show ?thesis by (simp add: distinct_aliases_def)
qed

end
