(* ===== verification/Latency.thy ===== *)
theory Latency
  imports Payment_Properties
begin

section \<open>Latency interceptor, clock and virtual time (latency_interceptor.rs, clock.rs, runtime.rs)\<close>

text \<open>
  The one interceptor the simulator ships: it delays an HTLC by a sampled time and attaches nothing.
  The distribution and the generator are those of \<open>rand_distr\<close> and \<open>rand\<close>: parameters, as are the
  arithmetic of \<open>f32\<close> and tokio's runtime. A clock's \<open>Instant\<close> is its nanoseconds.
\<close>

subsection \<open>The interceptor\<close>

record ('d, 'r) latency_interceptor =
  latency_dist :: 'd
  latency_rng :: 'r

definition seeded_rng :: "(u64 \<Rightarrow> 'r) \<Rightarrow> 'r \<Rightarrow> u64 option \<Rightarrow> 'r" where
  "seeded_rng seed_from_u64 entropy seed =
     (case seed of Some s \<Rightarrow> seed_from_u64 s | None \<Rightarrow> entropy)"

definition latency_new_poisson ::
  "('f \<Rightarrow> string + 'd) \<Rightarrow> (u64 \<Rightarrow> 'r) \<Rightarrow> 'r \<Rightarrow> 'f \<Rightarrow> u64 option \<Rightarrow>
   simulation_error + ('d, 'r) latency_interceptor" where
  "latency_new_poisson poisson_new seed_from_u64 entropy lambda_ms seed =
     (case poisson_new lambda_ms of
        Inl e \<Rightarrow> Inl (SimulatedNetworkError (Fmt ''Could not create possion: {e}'' [ArgStr e]))
      | Inr d \<Rightarrow> Inr \<lparr>latency_dist = d, latency_rng = seeded_rng seed_from_u64 entropy seed\<rparr>)"

text \<open>
  The result, the time the \<open>select!\<close> sleeps unless it is interrupted, and the interceptor with its
  generator advanced. A poisoned lock panics.
\<close>

definition latency_intercept_htlc ::
  "('d \<Rightarrow> 'r \<Rightarrow> 'f \<times> 'r) \<Rightarrow> ('f \<Rightarrow> u64) \<Rightarrow> bool \<Rightarrow> ('d, 'r) latency_interceptor \<Rightarrow> intercept_request \<Rightarrow>
   (custom_records forward \<times> duration \<times> ('d, 'r) latency_interceptor) option" where
  "latency_intercept_htlc sample as_u64 poisoned li req =
     (if poisoned then None
      else
        (case sample (latency_dist li) (latency_rng li) of
           (latency, rng) \<Rightarrow>
             Some (Inr (Inr hm_new), unat (as_u64 latency) * 1000000, li\<lparr>latency_rng := rng\<rparr>)))"

text \<open>To the network it is an interceptor whose answer is always the same.\<close>

definition latency_as_interceptor :: interceptor where
  "latency_as_interceptor =
     \<lparr>interceptor_name = ''Latency Interceptor'',
      intercept_htlc = (\<lambda>req. Inr (Inr hm_new)),
      notify_resolution = default_notify_resolution\<rparr>"

lemma latency_as_interceptor_faithful:
  "latency_intercept_htlc sample as_u64 poisoned li req = Some (r, wait, li') \<Longrightarrow>
   r = intercept_htlc latency_as_interceptor req"
  by (auto simp: latency_intercept_htlc_def latency_as_interceptor_def split: if_splits prod.splits)

subsection \<open>The clock\<close>

record simulation_clock =
  start_time :: system_time
  start_instant :: nat

definition simulation_clock_new :: "nat \<Rightarrow> system_time \<Rightarrow> simulation_clock" where
  "simulation_clock_new instant start = \<lparr>start_time = start, start_instant = instant\<rparr>"

text \<open>\<open>limit\<close> bounds what \<open>SystemTime\<close> represents; \<open>checked_add\<close> fails above it and \<open>expect\<close> panics.
  \<open>elapsed\<close> is zero rather than negative.\<close>

definition simulation_clock_now :: "system_time \<Rightarrow> nat \<Rightarrow> simulation_clock \<Rightarrow> system_time option" where
  "simulation_clock_now limit instant c =
     (let t = start_time c + (instant - start_instant c) in if t < limit then Some t else None)"

text \<open>While the runtime moves the instant by what a task slept, so does the clock.\<close>

lemma clock_after_sleep:
  assumes "simulation_clock_now limit instant c = Some t" and "start_instant c \<le> instant"
    and "t + wait < limit"
  shows "simulation_clock_now limit (instant + wait) c = Some (t + wait)"
  using assms by (auto simp: simulation_clock_now_def Let_def split: if_splits)

lemma clock_monotone:
  assumes "simulation_clock_now limit i c = Some t" and "simulation_clock_now limit j c = Some u" and "i \<le> j"
  shows "start_time c \<le> t \<and> t \<le> u"
  using assms by (auto simp: simulation_clock_now_def Let_def split: if_splits)

subsection \<open>Virtual time\<close>

text \<open>
  \<open>nested\<close> says that a runtime is running already; \<open>parallelism\<close> is what the platform reports, if it
  does. \<open>build_runtime\<close> makes the paused runtime for that many blocking threads, whose first instant
  it gives; \<open>build\<close> is the caller's future, run on it with the new clock.
\<close>

definition block_on_virtual_time ::
  "bool \<Rightarrow> nat option \<Rightarrow> (nat \<Rightarrow> string + nat) \<Rightarrow> system_time \<Rightarrow> (simulation_clock \<Rightarrow> 't) \<Rightarrow>
   simulation_error + 't" where
  "block_on_virtual_time nested parallelism build_runtime start build =
     (if nested
      then Inl (RuntimeError (Fmt ''block_on_virtual_time cannot be called from within a Tokio runtime; call it from a synchronous context so it can own a paused single-threaded runtime'' []))
      else
        (let blocking_threads = (case parallelism of Some n \<Rightarrow> n | None \<Rightarrow> 4) in
         case build_runtime blocking_threads of
           Inl e \<Rightarrow> Inl (RuntimeError (Fmt ''could not build virtual-time runtime: {e}'' [ArgStr e]))
         | Inr instant \<Rightarrow> Inr (build (simulation_clock_new instant start))))"

subsection \<open>Latency changes no payment\<close>

text \<open>What the join set may deliver for the one task: its answer, the shutdown, or both in any order.\<close>

definition latency_joins :: "joins \<Rightarrow> bool" where
  "latency_joins joins \<longleftrightarrow>
     (\<forall>req. set (joins req) \<subseteq> {Joined (intercept_htlc latency_as_interceptor req), ShutdownSignal})"

lemma get_resp_latency:
  "set es \<subseteq> {Joined (Inr (Inr hm_new)), ShutdownSignal} \<Longrightarrow> interceptor_failure g = None \<Longrightarrow>
   attached_custom_records g = hm_new \<Longrightarrow>
   \<exists>g'. get_resp es g = Inr g' \<and> interceptor_failure g' = None \<and> attached_custom_records g' = hm_new"
proof (induction es arbitrary: g)
  case (Cons e es)
  show ?case
  proof (cases "e = ShutdownSignal")
    case False
    with Cons.prems have "e = Joined (Inr (Inr []))" by (auto simp: hm_new_def)
    with Cons show ?thesis by (auto simp: hm_new_def)
  qed (use Cons.prems in simp)
qed simp

lemma latency_decision:
  assumes "latency_joins joins"
  shows "handle_intercepted_htlc req [latency_as_interceptor] (joins req) = Inr (Inr hm_new)"
proof -
  have "set (joins req) \<subseteq> {Joined (Inr (Inr hm_new)), ShutdownSignal}"
    using assms by (auto simp: latency_joins_def latency_as_interceptor_def)
  from get_resp_latency [OF this, of gather_start] show ?thesis
    by (auto simp: handle_intercepted_htlc_def gather_start_def)
qed

lemma no_interceptors: "handle_intercepted_htlc req [] es = Inr (Inr (incoming_custom_records req))"
  by (simp add: handle_intercepted_htlc_def)

lemma records_fields:
  "outgoing_node (st\<lparr>incoming_records := r\<rparr>) = outgoing_node st"
  "outgoing_amount (st\<lparr>incoming_records := r\<rparr>) = outgoing_amount st"
  "outgoing_cltv (st\<lparr>incoming_records := r\<rparr>) = outgoing_cltv st"
  "fail_idx (st\<lparr>incoming_records := r\<rparr>) = fail_idx st"
  by simp_all

lemma request_fields:
  "pr_source (req\<lparr>pr_interceptors := ics\<rparr>) = pr_source req"
  "pr_route (req\<lparr>pr_interceptors := ics\<rparr>) = pr_route req"
  "pr_payment_hash (req\<lparr>pr_interceptors := ics\<rparr>) = pr_payment_hash req"
  "pr_interceptors (req\<lparr>pr_interceptors := ics\<rparr>) = ics"
  "pr_custom_records (req\<lparr>pr_interceptors := ics\<rparr>) = pr_custom_records req"
  "pr_source (req\<lparr>pr_custom_records := records\<rparr>) = pr_source req"
  "pr_route (req\<lparr>pr_custom_records := records\<rparr>) = pr_route req"
  "pr_payment_hash (req\<lparr>pr_custom_records := records\<rparr>) = pr_payment_hash req"
  "pr_interceptors (req\<lparr>pr_custom_records := records\<rparr>) = pr_interceptors req"
  "pr_custom_records (req\<lparr>pr_custom_records := records\<rparr>) = records"
  by simp_all

lemma add_hop_records: "add_hop route hash i hop (st\<lparr>incoming_records := r\<rparr>) nodes = add_hop route hash i hop st nodes"
  unfolding add_hop_def records_fields ..

lemma add_htlcs_loop_latency:
  assumes "latency_joins joins"
  shows "add_htlcs_loop route hash [latency_as_interceptor] joins i hs (st\<lparr>incoming_records := r\<rparr>) nodes =
    add_htlcs_loop route hash [] joins' i hs st nodes"
proof (induction hs arbitrary: i st r nodes)
  case (Cons hop hs)
  have step: "add_htlcs_loop route hash [latency_as_interceptor] joins (Suc i) hs
      (add_state_next i hop hm_new (st\<lparr>incoming_records := r\<rparr>)) nodes' =
    add_htlcs_loop route hash [] joins' (Suc i) hs (add_state_next i hop r' st) nodes'" for nodes' r'
    using Cons.IH [of "Suc i" hm_new "add_state_next i hop r' st" nodes']
    by (simp add: add_state_next_def)
  show ?case
    by (cases "add_hop route hash i hop st nodes")
      (auto simp: add_hop_records latency_decision [OF assms] no_interceptors step Let_def
        split: sum.split prod.split)
qed simp

lemma notify_latency: "notify_all [latency_as_interceptor] res = Inr ()"
  by (simp add: latency_as_interceptor_def default_notify_resolution_def)

lemma remove_htlcs_loop_latency:
  "remove_htlcs_loop source route hash ok [latency_as_interceptor] hs out nodes =
   remove_htlcs_loop source route hash ok [] hs out nodes"
proof (induction hs arbitrary: out nodes)
  case (Cons h hs)
  obtain i hop where h: "h = (i, hop)" by (cases h)
  show ?case
    by (cases "remove_hop source route hash ok i hop nodes")
      (auto simp: h notify_latency Cons.IH Let_def simp del: notify_all.simps(2) split: sum.split)
qed simp

text \<open>C36. Latency is transparent. With the latency interceptor on every HTLC, whatever it samples and
  whenever a shutdown interrupts it, a payment ends exactly as it does with no interceptor: the same
  result, the same channels, the same decision to shut down. Only its custom records differ.\<close>

theorem latency_is_transparent:
  assumes "latency_joins joins"
  shows "propagate_payment nodes joins (req\<lparr>pr_interceptors := [latency_as_interceptor]\<rparr>) =
    propagate_payment nodes joins' (req\<lparr>pr_interceptors := [], pr_custom_records := records\<rparr>)"
proof -
  have "add_htlcs nodes source route hash [latency_as_interceptor] joins r =
      add_htlcs nodes source route hash [] joins' records" for source route hash r
  proof -
    have "add_state_start source route r = (add_state_start source route records)\<lparr>incoming_records := r\<rparr>"
      by (simp add: add_state_start_def)
    then show ?thesis
      by (simp add: add_htlcs_def add_htlcs_loop_latency [OF assms])
  qed
  note adds = this
  have removes: "remove_htlcs ns k source route hash ok [latency_as_interceptor] = remove_htlcs ns k source route hash ok []"
    for ns k source route hash ok
    by (simp add: remove_htlcs_def remove_htlcs_loop_latency)
  show ?thesis
    unfolding propagate_payment_def request_fields adds removes ..
qed

theorem latency_is_transparent_witness:
  "rep_result (propagate_payment demo_net (\<lambda>req. [Joined (Inr (Inr hm_new))])
     ((demo_payment 2)\<lparr>pr_interceptors := [latency_as_interceptor]\<rparr>)) =
   Some \<lparr>htlc_count = 1, payment_outcome = Success\<rparr>"
proof -
  have "latency_joins (\<lambda>req. [Joined (Inr (Inr hm_new))])"
    by (simp add: latency_joins_def latency_as_interceptor_def)
  from latency_is_transparent [OF this, of demo_net "demo_payment 2" demo_joins "[]"] demo_pays
  show ?thesis by (simp add: demo_payment_def)
qed

end
