(* ===== verification/Network_Setup.thy ===== *)
theory Network_Setup
  imports Activities Latency
begin

section \<open>Preparing a simulation (sim-cli/src/parsing.rs, main.rs)\<close>

text \<open>
  From the options and the simulation file to a simulation that can run: connecting to real nodes, or
  building a simulated network; resolving the activities; and the choice between the two in \<open>main\<close>.
  The shutdown trigger, the task tracker and the logger carry no data and are left out.
\<close>

subsection \<open>Real nodes\<close>

text \<open>How each backend is connected to: its constructor, and the node behind the trait.\<close>

record 's connectors =
  connect_lnd :: "lnd_connection \<Rightarrow> lightning_error + 's lightning_node"
  connect_cln :: "cln_connection \<Rightarrow> lightning_error + 's lightning_node"
  connect_eclair :: "eclair_connection \<Rightarrow> lightning_error + 's lightning_node"
  connect_ldk_server :: "ldk_server_connection \<Rightarrow> lightning_error + 's lightning_node"

fun connect_node :: "'s connectors \<Rightarrow> node_connection \<Rightarrow> lightning_error + 's lightning_node" where
  "connect_node cs (ConnectLnd c) = connect_lnd cs c"
| "connect_node cs (ConnectCln c) = connect_cln cs c"
| "connect_node cs (ConnectEclair c) = connect_eclair cs c"
| "connect_node cs (ConnectLdkServer c) = connect_ldk_server cs c"

fun get_clients_loop ::
  "'s connectors \<Rightarrow> node_connection list \<Rightarrow> 's nodes \<Rightarrow> (pubkey, node_info) hmap \<Rightarrow>
   lightning_error + ('s nodes \<times> (pubkey, node_info) hmap)" where
  "get_clients_loop cs [] clients infos = Inr (clients, infos)"
| "get_clients_loop cs (c # conns) clients infos =
     res_bind (connect_node cs c) (\<lambda>node.
       let node_info = ln_info node in
       get_clients_loop cs conns (hm_insert (pubkey node_info) node clients)
         (hm_insert (pubkey node_info) node_info infos))"

definition get_clients ::
  "'s connectors \<Rightarrow> node_connection list \<Rightarrow> lightning_error + ('s nodes \<times> (pubkey, node_info) hmap)" where
  "get_clients cs conns = get_clients_loop cs conns hm_new hm_new"

definition create_simulation ::
  "'s connectors \<Rightarrow> 'f simulation_cfg \<Rightarrow> sim_params \<Rightarrow>
   (anyhow_error + ('f simulation_cfg \<times> 's nodes \<times> activity_definition list)) option" where
  "create_simulation cs cfg sp =
     (case get_clients cs (sp_nodes sp) of
        Inl e \<Rightarrow> Some (Inl (AnyLightning e))
      | Inr (clients, infos) \<Rightarrow>
          (case get_validated_activities clients infos (sp_activity sp) of
             None \<Rightarrow> None
           | Some (Inl e) \<Rightarrow> Some (Inl (AnyLightning e))
           | Some (Inr defs) \<Rightarrow> Some (Inr (cfg, clients, defs))))"

subsection \<open>Simulated nodes behind the trait\<close>

text \<open>
  The world the simulated nodes act on: the state of each node, how many one-shot channels were made,
  what became of their senders, and what the scorer of each node was told. Pathfinding, preimages, the clock and
  what arrives on a channel come from outside.
\<close>

record sim_world =
  sw_node :: "pubkey \<Rightarrow> sim_node"
  sw_channels_made :: nat
  sw_fates :: "(nat \<times> sender_fate) list"
  sw_scores :: "(pubkey \<times> scorer_update) list"

record sim_env =
  find_route :: "pubkey \<Rightarrow> pubkey \<Rightarrow> u64 \<Rightarrow> sim_world \<Rightarrow> message + (simulation_error + route)"
  draw_hash :: "sim_world \<Rightarrow> payment_hash"
  unix_time :: "sim_world \<Rightarrow> lightning_error + duration"
  scorer_poisoned :: "sim_world \<Rightarrow> string option"
  receives :: "sim_world \<Rightarrow> nat \<Rightarrow> track_event"

definition sim_lightning_node :: "sim_env \<Rightarrow> sim_graph \<Rightarrow> sim_node \<Rightarrow> sim_world lightning_node" where
  "sim_lightning_node env g node =
     (let pk = pubkey (sn_info node) in
      \<lparr>ln_info = sn_info node,
       ln_network = sim_get_network,
       ln_send_payment = (\<lambda>dest amt s.
         case send_payment g (sw_node s pk) (sw_channels_made s) (draw_hash env s) (find_route env pk dest amt s) of
           (r, node', fate) \<Rightarrow>
             (r, s\<lparr>sw_node := (sw_node s)(pk := node'), sw_channels_made := Suc (sw_channels_made s),
                   sw_fates := sw_fates s @ [(sw_channels_made s, fate)]\<rparr>)),
       ln_track_payment = (\<lambda>hash s.
         case track_payment (sw_node s pk) hash (unix_time env s) (scorer_poisoned env s) (receives env s) of
           (r, node', updates) \<Rightarrow>
             (r, s\<lparr>sw_node := (sw_node s)(pk := node'), sw_scores := sw_scores s @ map (Pair pk) updates\<rparr>)),
       ln_get_node_info = sim_get_node_info g,
       ln_channel_capacities = sim_channel_capacities g node,
       ln_get_graph = Some (sim_get_graph g)\<rparr>)"

subsection \<open>A simulated network\<close>

definition network_channel :: "pubkey list \<Rightarrow> network_parser \<Rightarrow> simulated_channel" where
  "network_channel exclude c =
     (let exclude_capacity = pol_pubkey (np_node_1 c) \<in> set exclude \<or> pol_pubkey (np_node_2 c) \<in> set exclude
      in simulated_channel_new (np_capacity_msat c) (np_scid c) (np_node_1 c) (np_node_2 c) exclude_capacity)"

fun nodes_info_loop ::
  "(node_features \<Rightarrow> node_features) \<Rightarrow> simulated_channel list \<Rightarrow> (pubkey, node_info) hmap \<Rightarrow>
   (pubkey, node_info) hmap" where
  "nodes_info_loop set_keysend [] infos = infos"
| "nodes_info_loop set_keysend (c # cs) infos =
     (case create_simulated_nodes set_keysend c of
        (n1, n2) \<Rightarrow>
          nodes_info_loop set_keysend cs (hm_insert (pubkey n2) n2 (hm_insert (pubkey n1) n1 infos)))"

fun remove_all_keys :: "pubkey list \<Rightarrow> 's nodes \<Rightarrow> 's nodes" where
  "remove_all_keys [] m = m"
| "remove_all_keys (pk # pks) m = remove_all_keys pks (hm_remove pk m)"

fun simulation_error_args :: "simulation_error \<Rightarrow> msg_arg list" where
  "simulation_error_args (SimulatedNetworkError (Fmt s args)) = ArgStr s # args"
| "simulation_error_args _ = []"

text \<open>\<open>apply_gossip\<close>, \<open>clock\<close> and \<open>empty_graph\<close> stand for the routing graph, as in \<open>populate_network_graph\<close>.\<close>

definition create_simulation_with_network ::
  "(node_features \<Rightarrow> node_features) \<Rightarrow> (gossip \<Rightarrow> 'g \<Rightarrow> string + 'g) \<Rightarrow> (nat \<Rightarrow> system_time) \<Rightarrow> 'g \<Rightarrow> sim_env \<Rightarrow>
   'f simulation_cfg \<Rightarrow> sim_params \<Rightarrow> interceptor list \<Rightarrow> custom_records \<Rightarrow>
   (anyhow_error + ('f simulation_cfg \<times> sim_world nodes \<times> activity_definition list \<times> (pubkey, sim_node) hmap)) option" where
  "create_simulation_with_network set_keysend apply_gossip clock empty_graph env cfg sp interceptors records =
     (let channels = map (network_channel (sp_exclude sp)) (sp_sim_network sp);
          infos = nodes_info_loop set_keysend channels hm_new;
          network_error = (\<lambda>args. Some (Inl (AnySimulation (SimulatedNetworkError (Fmt ''{:?}'' args)))))
      in case sim_graph_new set_keysend channels interceptors records of
           Inl e \<Rightarrow> network_error (simulation_error_args e)
         | Inr g \<Rightarrow>
             (case populate_network_graph apply_gossip clock empty_graph channels of
                Inl e \<Rightarrow> network_error [ArgStr e]
              | Inr _ \<Rightarrow>
                  (case ln_node_from_graph g of
                     Inl e \<Rightarrow> Some (Inl (AnyLightning e))
                   | Inr sim_nodes \<Rightarrow>
                       (let nodes_dyn = remove_all_keys (sp_exclude sp)
                              (map (\<lambda>(pk, node). (pk, sim_lightning_node env g node)) sim_nodes)
                        in case get_validated_activities nodes_dyn infos (sp_activity sp) of
                             None \<Rightarrow> None
                           | Some (Inl e) \<Rightarrow> Some (Inl (AnyLightning e))
                           | Some (Inr defs) \<Rightarrow> Some (Inr (cfg, nodes_dyn, defs, sim_nodes))))))"

subsection \<open>The program\<close>

text \<open>A simulation that is ready to run: its configuration, nodes and activities.\<close>

datatype ('f, 's) prepared =
    OnRealNodes "'f simulation_cfg" "'s nodes" "activity_definition list"
  | OnNetwork "'f simulation_cfg" "sim_world nodes" "activity_definition list"

text \<open>\<open>as_f32\<close> is the conversion of the latency, \<open>new_poisson\<close> whether the distribution can be made.\<close>

definition latency_interceptors :: "(u32 \<Rightarrow> simulation_error + 'l) \<Rightarrow> u32 \<Rightarrow> simulation_error + interceptor list" where
  "latency_interceptors new_poisson latency =
     (if latency > 0 then res_bind (new_poisson latency) (\<lambda>_. Inr [latency_as_interceptor]) else Inr [])"

definition build_simulation ::
  "'s connectors \<Rightarrow> (u32 \<Rightarrow> simulation_error + 'l) \<Rightarrow>
   ('f simulation_cfg \<Rightarrow> interceptor list \<Rightarrow>
     (anyhow_error + ('f simulation_cfg \<times> sim_world nodes \<times> activity_definition list \<times> (pubkey, sim_node) hmap)) option) \<Rightarrow>
   'f cli \<Rightarrow> sim_params \<Rightarrow> 'f simulation_cfg \<Rightarrow> (anyhow_error + ('f, 's) prepared) option" where
  "build_simulation cs new_poisson with_network cli sp cfg =
     (if sp_sim_network sp = []
      then map_option (map_sum (\<lambda>e. e) (\<lambda>(cfg, nodes, defs). OnRealNodes cfg nodes defs)) (create_simulation cs cfg sp)
      else
        (case latency_interceptors new_poisson (case latency_ms cli of None \<Rightarrow> 0 | Some ms \<Rightarrow> ms) of
           Inl e \<Rightarrow> Some (Inl (AnySimulation e))
         | Inr interceptors \<Rightarrow>
             map_option (map_sum (\<lambda>e. e) (\<lambda>(cfg, nodes, defs, _). OnNetwork cfg nodes defs))
               (with_network cfg interceptors)))"

definition main_prepare ::
  "file_system \<Rightarrow> (string \<Rightarrow> (nat \<times> nat \<times> string) + sim_params) \<Rightarrow> 's connectors \<Rightarrow>
   (u32 \<Rightarrow> simulation_error + 'l) \<Rightarrow> (node_features \<Rightarrow> node_features) \<Rightarrow> (gossip \<Rightarrow> 'g \<Rightarrow> string + 'g) \<Rightarrow>
   (nat \<Rightarrow> system_time) \<Rightarrow> 'g \<Rightarrow> sim_env \<Rightarrow> 'f cli \<Rightarrow> (anyhow_error + ('f, 's) prepared) option" where
  "main_prepare fs from_str cs new_poisson set_keysend apply_gossip clock empty_graph env cli =
     (case parse_sim_params fs from_str cli of
        None \<Rightarrow> None
      | Some (Inl e) \<Rightarrow> Some (Inl e)
      | Some (Inr sp) \<Rightarrow>
          (case cli_validate cli sp of
             Inl e \<Rightarrow> Some (Inl e)
           | Inr _ \<Rightarrow>
               (case simulation_cfg_try_from fs cli of
                  Inl e \<Rightarrow> Some (Inl e)
                | Inr cfg \<Rightarrow>
                    build_simulation cs new_poisson
                      (\<lambda>cfg interceptors. create_simulation_with_network set_keysend apply_gossip clock
                         empty_graph env cfg sp interceptors hm_new)
                      cli sp cfg)))"

subsection \<open>The nodes of a simulated network\<close>

lemma created_pubkeys [simp]:
  "pubkey (fst (create_simulated_nodes f c)) = pk_1 c" "pubkey (snd (create_simulated_nodes f c)) = pk_2 c"
  by (simp_all add: create_simulated_nodes_def make_node_info_def)

lemma nodes_info_loop_keys:
  "hm_get (nodes_info_loop f cs m) pk = None \<longleftrightarrow> channels_of pk cs = [] \<and> hm_get m pk = None"
proof (induction f cs m rule: nodes_info_loop.induct)
  case (2 f c cs m)
  show ?case
    using 2 [OF prod.collapse]
    by (auto simp: case_prod_unfold hm_get_insert channels_of_def split: if_splits)
qed (simp add: channels_of_def)

lemma nodes_info_loop_keyed: "keyed_by_pubkey m \<Longrightarrow> keyed_by_pubkey (nodes_info_loop f cs m)"
proof (induction f cs m rule: nodes_info_loop.induct)
  case (2 f c cs m)
  show ?case
    using 2(1) [OF prod.collapse] 2(2)
    by (simp add: case_prod_unfold keyed_by_pubkey_insert)
qed simp

lemma ln_nodes_loop_get:
  "ln_nodes_loop gn m = Inr m' \<Longrightarrow> distinct (map fst gn) \<Longrightarrow>
   hm_get m' pk = (case map_of gn pk of
      Some (ni, scids) \<Rightarrow> Some \<lparr>sn_info = ni, sn_in_flight = hm_new\<rparr> | None \<Rightarrow> hm_get m pk)"
proof (induction gn m rule: ln_nodes_loop.induct)
  case (2 pk' ni scids rest m)
  then have "map_of rest pk' = None" by (simp add: map_of_eq_None_iff)
  with 2 show ?case
    by (auto simp: sim_node_new_def hm_get_insert split: option.split prod.split)
qed simp

lemma remove_all_keys_get:
  "hm_get (remove_all_keys pks m) pk = (if pk \<in> set pks then None else hm_get m pk)"
  by (induction pks m rule: remove_all_keys.induct) (auto simp: hm_get_remove)

lemma hm_get_map_values: "hm_get (map (\<lambda>(k, v). (k, f v)) m) k = map_option f (hm_get m k)"
  by (induction m) (auto simp: hm_get_def)

lemma channels_of_network:
  "channels_of pk (map (network_channel ex) net) =
   map (network_channel ex) (filter (\<lambda>c. pk = pol_pubkey (np_node_1 c) \<or> pk = pol_pubkey (np_node_2 c)) net)"
  by (simp add: channels_of_def filter_map comp_def network_channel_def simulated_channel_new_def
      channel_state_new_def pk_1_def pk_2_def Let_def)

text \<open>The channels of the file that a node counts: it is an end of them and no end is excluded.\<close>

definition counted_channels :: "pubkey list \<Rightarrow> network_parser list \<Rightarrow> pubkey \<Rightarrow> network_parser list" where
  "counted_channels exclude net pk =
     filter (\<lambda>c. (pk = pol_pubkey (np_node_1 c) \<or> pk = pol_pubkey (np_node_2 c)) \<and>
       pol_pubkey (np_node_1 c) \<notin> set exclude \<and> pol_pubkey (np_node_2 c) \<notin> set exclude) net"

lemma counted_capacities:
  "map capacity_msat (filter (\<lambda>c. \<not> exclude_capacity c) (channels_of pk (map (network_channel ex) net))) =
   map np_capacity_msat (counted_channels ex net pk)"
proof -
  have "exclude_capacity (network_channel ex c) \<longleftrightarrow> pol_pubkey (np_node_1 c) \<in> set ex \<or> pol_pubkey (np_node_2 c) \<in> set ex"
    and "capacity_msat (network_channel ex c) = np_capacity_msat c" for c
    by (simp_all add: network_channel_def simulated_channel_new_def Let_def)
  then show ?thesis
    unfolding channels_of_network counted_channels_def
    by (simp add: filter_map comp_def conj_ac)
qed

text \<open>What a network that was created is made of.\<close>

lemma network_created:
  assumes "create_simulation_with_network f ag clock g0 env cfg sp ics recs = Some (Inr (cfg', nodes, defs, sims))"
  obtains g where
    "sim_graph_new f (map (network_channel (sp_exclude sp)) (sp_sim_network sp)) ics recs = Inr g"
    "ln_node_from_graph g = Inr sims"
    "nodes = remove_all_keys (sp_exclude sp) (map (\<lambda>(pk, node). (pk, sim_lightning_node env g node)) sims)"
    "get_validated_activities nodes
       (nodes_info_loop f (map (network_channel (sp_exclude sp)) (sp_sim_network sp)) hm_new) (sp_activity sp) =
       Some (Inr defs)"
    "cfg' = cfg"
  using assms
  by (auto simp: create_simulation_with_network_def Let_def split: sum.splits option.splits)

lemma simulated_nodes_get:
  assumes "sim_graph_new f cs ics recs = Inr g" and "ln_node_from_graph g = Inr sims"
  shows "hm_get sims pk = None \<longleftrightarrow> channels_of pk cs = []"
    and "hm_get sims pk = Some node \<Longrightarrow> pubkey (sn_info node) = pk \<and> sn_in_flight node = hm_new"
proof -
  have keyed: "nodes_keyed (sg_nodes g)" by (rule sim_graph_nodes_keyed [OF assms(1)])
  then have get: "hm_get sims pk = (case map_of (sg_nodes g) pk of
      Some (ni, scids) \<Rightarrow> Some \<lparr>sn_info = ni, sn_in_flight = hm_new\<rparr> | None \<Rightarrow> None)"
    using ln_nodes_loop_get [OF assms(2) [unfolded ln_node_from_graph_def], of pk]
    by (simp add: nodes_keyed_def hm_wf_def split: option.split)
  show "hm_get sims pk = None \<longleftrightarrow> channels_of pk cs = []"
    using sim_graph_new_parts(5) [OF assms(1), of pk] get
    by (auto simp: hm_get_def split: option.splits if_splits)
  show "hm_get sims pk = Some node \<Longrightarrow> pubkey (sn_info node) = pk \<and> sn_in_flight node = hm_new"
    using keyed get by (auto simp: nodes_keyed_def split: option.splits dest!: map_of_SomeD)
qed

subsection \<open>The sources of activities\<close>

lemma validate_activities_sources:
  "validate_activities acts params = Some (Inr defs) \<Longrightarrow> d \<in> set defs \<Longrightarrow>
   \<exists>act. activity_source params act = Inr (act_source d)"
proof (induction acts arbitrary: defs)
  case (Cons act acts)
  then obtain src dst ds where "activity_source params act = Inr src"
    and "validate_activities acts params = Some (Inr ds)" and "defs = activity_of act src dst # ds"
    by (auto split: sum.splits option.splits)
  with Cons show ?case by (auto simp: activity_of_def)
qed simp

lemma activity_sources_in_infos:
  assumes "get_validated_activities clients infos acts = Some (Inr defs)" and "keyed_by_pubkey infos"
    and "d \<in> set defs"
  shows "hm_get infos (pubkey (act_source d)) = Some (act_source d)"
proof -
  from assms(1) obtain graph m where m: "add_node_to_maps infos = Inr m"
    and v: "validate_activities acts \<lparr>pk_node_map = nm_pk_node_map m, alias_node_map = nm_alias_node_map m,
      graph_nodes_by_pk = graph, graph_nodes_by_alias = by_alias_loop graph hm_new\<rparr> = Some (Inr defs)"
    by (auto simp: get_validated_activities_def Let_def split: list.splits option.splits sum.splits)
  from validate_activities_sources [OF v assms(3)] obtain act :: activity_parser where
    "names_controlled (set (hm_values infos)) (ap_source act) (act_source d)"
    by (auto simp: activity_source_spec [OF add_node_to_maps_indexes [OF assms(2) m]])
  then show ?thesis
    by (simp add: names_controlled_def keyed_values(1) [OF assms(2)])
qed

lemma get_clients_loop_keys:
  assumes "get_clients_loop cs conns clients infos = Inr (clients', infos')"
    and "\<forall>pk. hm_get infos pk = map_option ln_info (hm_get clients pk)" and "keyed_by_pubkey infos"
  shows "(\<forall>pk. hm_get infos' pk = map_option ln_info (hm_get clients' pk)) \<and> keyed_by_pubkey infos'"
  using assms
proof (induction cs conns clients infos rule: get_clients_loop.induct)
  case (2 cs c conns clients infos)
  from 2(2) obtain node where node: "connect_node cs c = Inr node"
    and rest: "get_clients_loop cs conns (hm_insert (pubkey (ln_info node)) node clients)
      (hm_insert (pubkey (ln_info node)) (ln_info node) infos) = Inr (clients', infos')"
    by (auto simp: res_bind_Inr_iff Let_def)
  from 2(1) [OF refl rest] 2(3,4) show ?case
    by (simp add: hm_get_insert keyed_by_pubkey_insert)
qed simp

lemma create_simulation_sources:
  assumes "create_simulation cs cfg sp = Some (Inr (cfg', nodes, defs))" and "d \<in> set defs"
  shows "hm_contains nodes (pubkey (act_source d))"
proof -
  from assms(1) obtain infos where clients: "get_clients_loop cs (sp_nodes sp) hm_new hm_new = Inr (nodes, infos)"
    and v: "get_validated_activities nodes infos (sp_activity sp) = Some (Inr defs)"
    by (auto simp: create_simulation_def get_clients_def split: sum.splits option.splits)
  from get_clients_loop_keys [OF clients] have keys: "\<forall>pk. hm_get infos pk = map_option ln_info (hm_get nodes pk)"
    and keyed: "keyed_by_pubkey infos" by simp_all
  from activity_sources_in_infos [OF v keyed assms(2)] keys show ?thesis
    by (auto simp: hm_contains_def)
qed

lemma create_network_sources:
  assumes "create_simulation_with_network f ag clock g0 env cfg sp ics recs = Some (Inr (cfg', nodes, defs, sims))"
    and "sp_exclude sp = [] \<or> sp_activity sp = []" and "d \<in> set defs"
  shows "hm_contains nodes (pubkey (act_source d))"
proof -
  let ?cs = "map (network_channel (sp_exclude sp)) (sp_sim_network sp)"
  let ?infos = "nodes_info_loop f ?cs hm_new"
  from network_created [OF assms(1)] obtain g where g: "sim_graph_new f ?cs ics recs = Inr g"
    "ln_node_from_graph g = Inr sims"
    and nodes: "nodes = remove_all_keys (sp_exclude sp) (map (\<lambda>(pk, node). (pk, sim_lightning_node env g node)) sims)"
    and v: "get_validated_activities nodes ?infos (sp_activity sp) = Some (Inr defs)" by blast
  have "defs = []" if "sp_activity sp = []"
    using v that by (auto simp: get_validated_activities_def Let_def split: list.splits option.splits sum.splits)
  with assms(2,3) have "sp_exclude sp = []" by auto
  moreover have "hm_get ?infos (pubkey (act_source d)) \<noteq> None"
    using activity_sources_in_infos [OF v _ assms(3)] nodes_info_loop_keyed [of hm_new f ?cs] by simp
  then have "hm_get sims (pubkey (act_source d)) \<noteq> None"
    by (simp add: simulated_nodes_get(1) [OF g] nodes_info_loop_keys)
  ultimately show ?thesis
    by (simp add: nodes hm_contains_def remove_all_keys_get hm_get_map_values)
qed

end
