(* ===== verification/Network_Properties.thy ===== *)
theory Network_Properties
  imports Network_Setup Simulation_Properties
begin

section \<open>Properties of the prepared simulation\<close>

text \<open>
  What holds of a simulation that \<open>main\<close> has prepared, whatever the file, the options, the nodes and
  the routing graph are.
\<close>

subsection \<open>Sources\<close>

fun sources_controlled :: "('f, 's) prepared \<Rightarrow> bool" where
  "sources_controlled (OnRealNodes cfg nodes defs) = list_all (\<lambda>d. hm_contains nodes (pubkey (act_source d))) defs"
| "sources_controlled (OnNetwork cfg nodes defs) = list_all (\<lambda>d. hm_contains nodes (pubkey (act_source d))) defs"

lemma main_prepared:
  assumes "main_prepare fs from_str cs new_poisson f ag clock g0 env cli = Some (Inr p)"
  obtains sp cfg where
    "cli_validate cli sp = Inr ()" "simulation_cfg_try_from fs cli = Inr cfg"
    "build_simulation cs new_poisson
       (\<lambda>cfg interceptors. create_simulation_with_network f ag clock g0 env cfg sp interceptors hm_new) cli sp cfg =
     Some (Inr p)" "parse_sim_params fs from_str cli = Some (Inr sp)"
  using assms by (auto simp: main_prepare_def split: option.splits sum.splits)

lemma map_option_map_sum_Inr:
  "map_option (map_sum g h) x = Some (Inr y) \<longleftrightarrow> (\<exists>z. x = Some (Inr z) \<and> h z = y)"
proof (cases x)
  case (Some r)
  then show ?thesis by (cases r) auto
qed simp

lemma prepared_cases:
  assumes "build_simulation cs new_poisson with_network cli sp cfg = Some (Inr p)"
  obtains (real) nodes defs where "sp_sim_network sp = []" "p = OnRealNodes cfg nodes defs"
      "create_simulation cs cfg sp = Some (Inr (cfg, nodes, defs))"
    | (network) cfg' interceptors nodes defs sims where "sp_sim_network sp \<noteq> []" "p = OnNetwork cfg' nodes defs"
      "with_network cfg interceptors = Some (Inr (cfg', nodes, defs, sims))"
      "latency_interceptors new_poisson (case latency_ms cli of None \<Rightarrow> 0 | Some ms \<Rightarrow> ms) = Inr interceptors"
proof (cases "sp_sim_network sp = []")
  case True
  with assms have "map_option (map_sum (\<lambda>e. e) (\<lambda>(cfg, nodes, defs). OnRealNodes cfg nodes defs))
      (create_simulation cs cfg sp) = Some (Inr p)"
    by (simp add: build_simulation_def)
  then obtain cfg' nodes defs where c: "create_simulation cs cfg sp = Some (Inr (cfg', nodes, defs))"
    and p: "p = OnRealNodes cfg' nodes defs"
    unfolding map_option_map_sum_Inr by auto
  from c have "cfg' = cfg" by (auto simp: create_simulation_def split: sum.splits option.splits)
  with c p True show ?thesis using real by blast
next
  case False
  with assms obtain ics where "latency_interceptors new_poisson (case latency_ms cli of None \<Rightarrow> 0 | Some ms \<Rightarrow> ms) = Inr ics"
    and "map_option (map_sum (\<lambda>e. e) (\<lambda>(cfg, nodes, defs, _). OnNetwork cfg nodes defs)) (with_network cfg ics) = Some (Inr p)"
    by (auto simp: build_simulation_def split: sum.splits)
  moreover from this(2) obtain cfg' nodes defs sims where "with_network cfg ics = Some (Inr (cfg', nodes, defs, sims))"
    and "p = OnNetwork cfg' nodes defs"
    unfolding map_option_map_sum_Inr by auto
  ultimately show ?thesis using False network by blast
qed

subsection \<open>A worked example\<close>

text \<open>Channels 1 -- 2 and 2 -- 3, where 3 is excluded, run on virtual time for a minute.\<close>

definition demo_params :: sim_params where
  "demo_params = \<lparr>sp_nodes = [],
     sp_sim_network = [\<lparr>np_scid = ShortChannelID 7, np_capacity_msat = 1000, np_node_1 = demo_policy 1, np_node_2 = demo_policy 2\<rparr>,
        \<lparr>np_scid = ShortChannelID 8, np_capacity_msat = 2000, np_node_1 = demo_policy 2, np_node_2 = demo_policy 3\<rparr>],
     sp_activity = [], sp_exclude = [PublicKey 3]\<rparr>"

definition demo_cli :: "int cli" where
  "demo_cli = \<lparr>data_dir = default_data_dir, sim_file = default_sim_file, cli_total_time = Some 60,
     print_batch_size = default_print_batch_size, expected_pmt_amt = default_expected_payment_amount,
     capacity_multiplier = 2, no_results = True, fix_seed = Some 1, latency_ms = None, virtual_time = True\<rparr>"

definition demo_files :: file_system where
  "demo_files = \<lparr>fs_exists = (\<lambda>p. p = ''./sim.json''), fs_read_dir = (\<lambda>p. Inr []), fs_canonicalize = Inr,
     fs_create_dir_all = (\<lambda>p. Inr ()), fs_read_to_string = (\<lambda>p. Inr p), dialog_select = (\<lambda>xs. Inr 0)\<rparr>"

definition demo_sim_env :: sim_env where
  "demo_sim_env = \<lparr>find_route = (\<lambda>src dst amt s. Inr (Inr [])), draw_hash = (\<lambda>s. PaymentHash []),
     unix_time = (\<lambda>s. Inr 0), scorer_poisoned = (\<lambda>s. None), receives = (\<lambda>s i. ListenerTriggered)\<rparr>"

definition demo_connectors :: "unit connectors" where
  "demo_connectors = \<lparr>connect_lnd = (\<lambda>c. Inl InvalidPaymentHash), connect_cln = (\<lambda>c. Inl InvalidPaymentHash),
     connect_eclair = (\<lambda>c. Inl InvalidPaymentHash), connect_ldk_server = (\<lambda>c. Inl InvalidPaymentHash)\<rparr>"

definition demo_prepared_cfg :: "int simulation_cfg" where
  "demo_prepared_cfg = simulation_cfg_new (Some 60) 3800000 2 None (Some 1)"

definition demo_nodes_in :: "sim_env \<Rightarrow> sim_world nodes" where
  "demo_nodes_in env =
     (case create_simulation_with_network (\<lambda>x. x) (\<lambda>m g. Inr g :: string + unit) (\<lambda>i. 0) () env
             demo_prepared_cfg demo_params [] hm_new of
        Some (Inr (cfg, nodes, defs, sims)) \<Rightarrow> nodes)"

definition demo_prepared_nodes :: "sim_world nodes" where
  "demo_prepared_nodes = demo_nodes_in demo_sim_env"

definition demo_prepared :: "(int, unit) prepared" where
  "demo_prepared = OnNetwork demo_prepared_cfg demo_prepared_nodes []"

lemmas network_eval = create_simulation_with_network_def network_channel_def demo_params_def Let_def
  sim_graph_new_def simulated_channel_validate_def channel_policy_validate_def demo_policy_def channel_eval
  add_graph_node_def make_node_info_def populate_network_graph_def channel_gossip_def ln_node_from_graph_def
  sim_node_new_def get_validated_activities_def sim_lightning_node_def sim_get_graph_def list_nodes_def
  add_node_to_maps_def create_simulated_nodes_def

lemma demo_network_in:
  "\<exists>sims. create_simulation_with_network (\<lambda>x. x) (\<lambda>m g. Inr g :: string + unit) (\<lambda>i. 0) () env
     demo_prepared_cfg demo_params [] hm_new = Some (Inr (demo_prepared_cfg, demo_nodes_in env, [], sims))"
  by (simp add: demo_nodes_in_def network_eval)

lemmas demo_network_ok = demo_network_in [of demo_sim_env, folded demo_prepared_nodes_def]

lemma demo_main_prepare_in:
  "main_prepare demo_files (\<lambda>contents. Inr demo_params) cs (\<lambda>ms. Inr ()) (\<lambda>x. x)
     (\<lambda>m g. Inr g :: string + unit) (\<lambda>i. 0) () env demo_cli =
   Some (Inr (OnNetwork demo_prepared_cfg (demo_nodes_in env) []))"
proof -
  have "parse_sim_params demo_files (\<lambda>contents. Inr demo_params) demo_cli = Some (Inr demo_params)"
    by (simp add: parse_sim_params_def read_sim_path_def demo_files_def demo_cli_def default_data_dir_def
        default_sim_file_def path_join_def path_is_relative_def)
  moreover have "cli_validate demo_cli demo_params = Inr ()"
    by (simp add: cli_validate_def demo_cli_def demo_params_def)
  moreover have "simulation_cfg_try_from demo_files demo_cli = Inr demo_prepared_cfg"
    by (simp add: simulation_cfg_try_from_def demo_cli_def demo_prepared_cfg_def
        default_expected_payment_amount_def)
  moreover have "sp_sim_network demo_params \<noteq> []" and "latency_ms demo_cli = None"
    by (simp_all add: demo_params_def demo_cli_def)
  moreover obtain sims where "create_simulation_with_network (\<lambda>x. x) (\<lambda>m g. Inr g :: string + unit) (\<lambda>i. 0) () env
     demo_prepared_cfg demo_params [] hm_new = Some (Inr (demo_prepared_cfg, demo_nodes_in env, [], sims))"
    using demo_network_in by blast
  ultimately show ?thesis
    by (simp add: main_prepare_def build_simulation_def latency_interceptors_def)
qed

lemma demo_main_prepare:
  "main_prepare demo_files (\<lambda>contents. Inr demo_params) demo_connectors (\<lambda>ms. Inr ()) (\<lambda>x. x)
     (\<lambda>m g. Inr g :: string + unit) (\<lambda>i. 0) () demo_sim_env demo_cli = Some (Inr demo_prepared)"
  by (simp add: demo_main_prepare_in demo_prepared_def demo_prepared_nodes_def)

subsection \<open>The properties\<close>

text \<open>C29. Whatever the simulation file says, every activity of a simulation that is ready to run starts
  at a node that the simulation controls, so the check of \<open>validate_activity\<close> for an unknown source
  cannot fail: on real nodes because sources are looked up among the clients, on a simulated network
  because nodes can be excluded only when there are no activities.\<close>

theorem activity_sources_controlled:
  assumes "main_prepare fs from_str cs new_poisson f ag clock g0 env cli = Some (Inr p)"
  shows "sources_controlled p"
proof -
  from main_prepared [OF assms] obtain sp cfg where valid: "cli_validate cli sp = Inr ()"
    and build: "build_simulation cs new_poisson
       (\<lambda>cfg interceptors. create_simulation_with_network f ag clock g0 env cfg sp interceptors hm_new) cli sp cfg =
     Some (Inr p)" by blast
  from cli_validate_ok_iff [of cli sp] valid have "sp_exclude sp = [] \<or> sp_activity sp = []" by auto
  with build show ?thesis
    by (cases rule: prepared_cases)
      (auto simp: list_all_iff intro: create_simulation_sources create_network_sources)
qed

subsection \<open>The network\<close>

text \<open>C31. The simulated network of the file. Its nodes are the ends of its channels; those that take
  part in the simulation are all of them but the excluded ones. Each reports its own key and regtest,
  and its capacity is the sum (modulo 2^64) of the capacities of its channels, where a channel with an
  excluded end does not count.\<close>

theorem simulated_network_nodes:
  assumes "create_simulation_with_network f ag clock g0 env cfg sp ics recs = Some (Inr (cfg', nodes, defs, sims))"
  shows "(hm_get sims pk \<noteq> None \<longleftrightarrow>
      (\<exists>c \<in> set (sp_sim_network sp). pk = pol_pubkey (np_node_1 c) \<or> pk = pol_pubkey (np_node_2 c))) \<and>
    (hm_get nodes pk \<noteq> None \<longleftrightarrow> hm_get sims pk \<noteq> None \<and> pk \<notin> set (sp_exclude sp)) \<and>
    (\<forall>node. hm_get nodes pk = Some node \<longrightarrow>
       pubkey (ln_info node) = pk \<and> ln_network node = Regtest \<and>
       ln_channel_capacities node =
         Inr (sum_list (map np_capacity_msat (counted_channels (sp_exclude sp) (sp_sim_network sp) pk))))"
proof -
  let ?cs = "map (network_channel (sp_exclude sp)) (sp_sim_network sp)"
  from network_created [OF assms] obtain g where g: "sim_graph_new f ?cs ics recs = Inr g"
      "ln_node_from_graph g = Inr sims"
    and nodes: "nodes = remove_all_keys (sp_exclude sp) (map (\<lambda>(pk, node). (pk, sim_lightning_node env g node)) sims)"
    by blast
  note sims = simulated_nodes_get [OF g, of pk]
  have get: "hm_get nodes pk =
      (if pk \<in> set (sp_exclude sp) then None else map_option (sim_lightning_node env g) (hm_get sims pk))"
    by (simp add: nodes remove_all_keys_get hm_get_map_values)
  have "sim_channel_capacities g node =
      Inr (sum_list (map np_capacity_msat (counted_channels (sp_exclude sp) (sp_sim_network sp) pk)))"
    if "hm_get sims pk = Some node" for node
  proof -
    from sims that have "channels_of pk ?cs \<noteq> []" and pk: "pubkey (sn_info node) = pk" by auto
    from lookup_capacities [OF g(1) this(1)] show ?thesis
      unfolding counted_capacities by (auto simp: sim_channel_capacities_def pk)
  qed
  moreover have "hm_get sims pk \<noteq> None \<longleftrightarrow>
      (\<exists>c \<in> set (sp_sim_network sp). pk = pol_pubkey (np_node_1 c) \<or> pk = pol_pubkey (np_node_2 c))"
    unfolding sims(1) channels_of_network by (simp add: filter_empty_conv)
  ultimately show ?thesis
    using sims(2) by (auto simp: get sim_lightning_node_def Let_def sim_get_network_def)
qed

theorem simulated_network_nodes_witness:
  "hm_get demo_prepared_nodes (PublicKey 3) = None \<and>
   map_option ln_channel_capacities (hm_get demo_prepared_nodes (PublicKey 2)) = Some (Inr 1000)"
proof -
  from demo_network_ok obtain sims where ok: "create_simulation_with_network (\<lambda>x. x) (\<lambda>m g. Inr g) (\<lambda>i. 0) ()
      demo_sim_env demo_prepared_cfg demo_params [] hm_new =
    Some (Inr (demo_prepared_cfg, demo_prepared_nodes, [], sims))" by blast
  from simulated_network_nodes [OF ok, of "PublicKey 3"] simulated_network_nodes [OF ok, of "PublicKey 2"]
  show ?thesis
    by (auto simp: demo_params_def counted_channels_def demo_policy_def)
qed

subsection \<open>Virtual time\<close>

text \<open>Virtual time is bounded. A simulation is prepared on virtual time only on a simulated network
  and with a total time, and when such a simulation starts, one of its tasks is a timeout of exactly
  that many seconds, which triggers the shutdown when it elapses: time does not advance forever.\<close>

theorem virtual_time_is_bounded:
  assumes "main_prepare fs from_str cs new_poisson f ag clock g0 env cli = Some (Inr p)" and "virtual_time cli"
  shows "\<exists>cfg nodes defs secs. p = OnNetwork cfg nodes defs \<and> cli_total_time cli = Some secs \<and>
    (\<forall>renv sk now r out r'. run_simulation renv cfg sk nodes now defs r = Some (out, r') \<longrightarrow> is_ok (outcome out) \<longrightarrow>
       TimeoutTask (duration_from_secs (unat secs)) \<in> set (spawned_tasks out)) \<and>
    shutdown_by (TimeoutTask (duration_from_secs (unat secs)) :: 'r spawned) SleepElapsed"
proof -
  from main_prepared [OF assms(1)] obtain sp cfg where valid: "cli_validate cli sp = Inr ()"
    and cfg: "simulation_cfg_try_from fs cli = Inr cfg"
    and build: "build_simulation cs new_poisson
       (\<lambda>cfg interceptors. create_simulation_with_network f ag clock g0 env cfg sp interceptors hm_new) cli sp cfg =
     Some (Inr p)" by blast
  from cli_validate_ok_iff [of cli sp] valid assms(2) obtain secs where
    sp: "sp_nodes sp = []" "sp_sim_network sp \<noteq> []" and secs: "cli_total_time cli = Some secs" by auto
  from build sp(2) obtain cfg' ics nodes defs sims where p: "p = OnNetwork cfg' nodes defs"
    and c: "create_simulation_with_network f ag clock g0 env cfg sp ics hm_new = Some (Inr (cfg', nodes, defs, sims))"
    by (cases rule: prepared_cases) auto
  from c have "cfg' = cfg" by (rule network_created)
  then have time: "total_time cfg' = Some (duration_from_secs (unat secs))"
    using cfg secs by (auto simp: simulation_cfg_try_from_def simulation_cfg_new_def res_bind_Inr_iff)
  have task: "TimeoutTask (duration_from_secs (unat secs)) \<in> set (spawned_tasks out)"
    if run: "run_simulation renv cfg' sk nodes now defs r = Some (out, r')" and ok: "is_ok (outcome out)"
    for renv sk now r out r'
  proof -
    obtain out0 where i: "internal_run renv cfg' sk nodes now defs r = Some (out0, r')"
      and out: "out = out0 \<or> out = out0\<lparr>waited_for_tasks := True\<rparr>"
      using run by (auto simp: run_simulation_def split: if_splits)
    have "outcome out0 = Inr ()"
      using ok out by (auto simp: is_ok_iff)
    from internal_run_ok [OF i this] obtain pre where
      "spawned_tasks out0 = pre @ (case total_time cfg' of None \<Rightarrow> [] | Some d \<Rightarrow> [TimeoutTask d])"
      by (metis append.assoc)
    with time have "TimeoutTask (duration_from_secs (unat secs)) \<in> set (spawned_tasks out0)" by simp
    with out show ?thesis by auto
  qed
  show ?thesis
    by (intro exI conjI allI impI, rule p, rule secs, rule task, assumption+) simp
qed

theorem virtual_time_is_bounded_witness:
  "\<exists>secs. cli_total_time demo_cli = Some secs \<and> shutdown_by (TimeoutTask (duration_from_secs (unat secs)) :: nat spawned) SleepElapsed"
  using virtual_time_is_bounded [OF demo_main_prepare] by (auto simp: demo_cli_def)

end
