(* ===== verification/Task_Lists.thy ===== *)
theory Task_Lists
  imports Main "HOL-Library.Multiset"
begin

section \<open>Tasks kept in a list\<close>

text \<open>
  A group of tasks of one kind is a list: a step replaces one, and a task that ends is taken out.
  The lemmas say what that does to sums and multisets over the tasks.
\<close>

definition remove_at :: "nat \<Rightarrow> 'a list \<Rightarrow> 'a list" where
  "remove_at i xs = take i xs @ drop (Suc i) xs"

lemma mset_remove_at:
  "i < length xs \<Longrightarrow> mset (map f xs) = add_mset (f (xs ! i)) (mset (map f (remove_at i xs)))"
  by (subst id_take_nth_drop [of i xs]) (simp_all add: remove_at_def)

lemma set_remove_at: "set (remove_at i xs) \<subseteq> set xs"
  by (auto simp: remove_at_def dest: in_set_takeD in_set_dropD)

lemma map_update_key: "i < length xs \<Longrightarrow> f v = f (xs ! i) \<Longrightarrow> map f (xs[i := v]) = map f xs"
  by (simp add: map_update list_update_same_conv)

lemma sum_remove_at:
  "i < length xs \<Longrightarrow> sum_list (map f xs) = f (xs ! i) + sum_list (map f (remove_at i xs))"
  for f :: "'a \<Rightarrow> nat"
  by (subst id_take_nth_drop [of i xs]) (simp_all add: remove_at_def)

lemma sum_update:
  "i < length xs \<Longrightarrow> sum_list (map f (xs[i := v])) + f (xs ! i) = sum_list (map f xs) + f v"
  for f :: "'a \<Rightarrow> nat"
  by (induction xs arbitrary: i) (auto split: nat.split simp: nth_Cons')

end
