(* ===== verification/Running.thy ===== *)
theory Running
  imports Result_Properties Task_Lists
begin

section \<open>The running simulation (simln-lib/src/lib.rs)\<close>

text \<open>
  \<open>internal_run\<close> leaves five kinds of tasks running: the events task, one task for each payment being
  sent, the producer of results, one task for each payment being tracked, and the consumer of results,
  besides the timeout and the logger. They share two channels of capacity one and the shutdown
  signal. This theory puts the functions of \<open>Events\<close> and \<open>Results\<close> together as one system:
  \<open>run_action\<close> lets one task go on to its next wait, and a run is any sequence of actions.

  A task that has returned may have its shutdown trigger still before it, so the triggers to come are
  counted. A task that panics ends without one. The fields \<open>past_\<close> are history: they are never read
  by an action, and record what was dispatched, counted and dropped, and the ticks of the events task.
\<close>

subsection \<open>Tasks\<close>

datatype 'r events_task =
    EventsIdle event_heap "'r trackers"
  | EventsBusy event_heap "'r trackers"
  | EventsOver "(simulation_error + unit) option"

datatype send_task = Dispatched dispatch | Sending simulation_output

datatype producer_task =
    ProducerReceiving
  | ProducerSending payment payment_result
  | ProducerOver "simulation_error + unit"

datatype track_task = TrackingPayment payment | SendingResult payment payment_result

text \<open>What a payment is known by on its way through the tasks: source, destination, amount and time.\<close>

type_synonym payment_key = "pubkey \<times> pubkey \<times> u64 \<times> system_time"

definition dispatch_key :: "dispatch \<Rightarrow> payment_key" where
  "dispatch_key d = (dp_source d, pubkey (dp_destination d), dp_amount d, dp_time d)"

definition payment_key_of :: "payment \<Rightarrow> payment_key" where
  "payment_key_of p = (pay_source p, pay_destination p, pay_amount_msat p, pay_dispatch_time p)"

fun output_key :: "simulation_output \<Rightarrow> payment_key" where
  "output_key (SendPaymentSuccess p) = payment_key_of p"
| "output_key (SendPaymentFailure p result) = payment_key_of p"

fun send_key :: "send_task \<Rightarrow> payment_key" where
  "send_key (Dispatched d) = dispatch_key d"
| "send_key (Sending out) = output_key out"

fun track_key :: "track_task \<Rightarrow> payment_key" where
  "track_key (TrackingPayment p) = payment_key_of p"
| "track_key (SendingResult p result) = payment_key_of p"

definition row_key :: "result_row \<Rightarrow> payment_key" where
  "row_key row = payment_key_of (fst row)"

record ('s, 'r, 'w) running =
  rn_world :: 's
  rn_rng :: 'r
  rn_stopped :: bool
  rn_triggers :: nat
  rn_events :: "'r events_task"
  rn_sends :: "send_task list"
  rn_output :: "simulation_output option"
  rn_producer :: producer_task
  rn_tracks :: "track_task list"
  rn_result :: "result_row option"
  rn_consumer :: "(simulation_error + unit) option \<times> 'w consumer"
  rn_timeout :: bool
  rn_logger :: bool
  past_ticks :: "tick list"
  past_dispatched :: "dispatch list"
  past_counted :: "result_row list"
  past_dropped :: "payment_key list"
  past_reports :: "payment_result_logger list"

subsection \<open>The start\<close>

text \<open>
  The tasks that \<open>internal_run\<close> spawned, started one after another on a state without tasks. The
  consumer opens its file first; on an error it ends at once and triggers the shutdown.
\<close>

fun spawn_task ::
  "'w csv_ops \<Rightarrow> system_time \<Rightarrow> 'r spawned \<Rightarrow> ('s, 'r, 'w) running \<Rightarrow> ('s, 'r, 'w) running" where
  "spawn_task csv now ResultsProducer s = s\<lparr>rn_producer := ProducerReceiving\<rparr>"
| "spawn_task csv now (ResultsLogger interval) s = s\<lparr>rn_logger := True\<rparr>"
| "spawn_task csv now (ResultsConsumer w) s =
     (let c = consume_simulation_results csv payment_result_logger_new now w []
      in s\<lparr>rn_consumer := c, rn_triggers := rn_triggers s + (if fst c = None then 0 else 1)\<rparr>)"
| "spawn_task csv now (EventsTask heap trackers) s = s\<lparr>rn_events := EventsIdle heap trackers\<rparr>"
| "spawn_task csv now (TimeoutTask limit) s = s\<lparr>rn_timeout := True\<rparr>"

definition no_tasks :: "'s \<Rightarrow> 'r \<Rightarrow> ('s, 'r, 'w) running" where
  "no_tasks world r =
     \<lparr>rn_world = world, rn_rng = r, rn_stopped = False, rn_triggers = 0, rn_events = EventsOver None,
      rn_sends = [], rn_output = None, rn_producer = ProducerOver (Inr ()), rn_tracks = [], rn_result = None,
      rn_consumer = (Some (Inr ()), \<lparr>cn_logger = payment_result_logger_new, cn_writer = None\<rparr>),
      rn_timeout = False, rn_logger = False, past_ticks = [], past_dispatched = [], past_counted = [],
      past_dropped = [], past_reports = []\<rparr>"

definition start_running ::
  "'w csv_ops \<Rightarrow> system_time \<Rightarrow> 's \<Rightarrow> 'r run_outcome \<Rightarrow> 'r \<Rightarrow> ('s, 'r, 'w) running" where
  "start_running csv now world out r =
     fold (spawn_task csv now) (spawned_tasks out) ((no_tasks world r)\<lparr>rn_stopped := shutdown_triggered out\<rparr>)"

subsection \<open>Actions\<close>

text \<open>
  An action names the task that goes on. The numbers choose among the tasks of a kind; a tick is what
  one iteration of the events task reads from the clock. \<open>TimeoutElapsed\<close> and \<open>LoggerTick\<close> are the
  ends of sleeps, \<open>ShutdownRequested\<close> is \<open>Simulation::shutdown\<close>, and \<open>WorldMoves\<close> says that the world
  behind the nodes has changed (payments go on in the network between two calls).
\<close>

datatype 's action =
    EventsPoll
  | EventsIterate tick
  | SendCall nat
  | SendPut nat
  | ProducerPoll
  | TrackCall nat
  | TrackPut nat
  | ConsumerPoll
  | RunTrigger
  | TimeoutPoll
  | TimeoutElapsed
  | LoggerPoll
  | LoggerTick
  | ShutdownRequested
  | WorldMoves 's

definition producer_over :: "('s, 'r, 'w) running \<Rightarrow> bool" where
  "producer_over s = (case rn_producer s of ProducerOver _ \<Rightarrow> True | _ \<Rightarrow> False)"

definition events_over :: "('s, 'r, 'w) running \<Rightarrow> bool" where
  "events_over s = (case rn_events s of EventsOver _ \<Rightarrow> True | _ \<Rightarrow> False)"

definition consumer_over :: "('s, 'r, 'w) running \<Rightarrow> bool" where
  "consumer_over s = (fst (rn_consumer s) \<noteq> None)"

text \<open>The events task returns: its shutdown trigger comes next.\<close>

definition end_events :: "simulation_error + unit \<Rightarrow> ('s, 'r, 'w) running \<Rightarrow> ('s, 'r, 'w) running" where
  "end_events res s = s\<lparr>rn_events := EventsOver (Some res), rn_triggers := rn_triggers s + 1\<rparr>"

text \<open>The producer returns: it drops the receiver with what is in the channel, and triggers the shutdown
  on an error.\<close>

definition end_producer ::
  "simulation_error + unit \<Rightarrow> payment_key list \<Rightarrow> ('s, 'r, 'w) running \<Rightarrow> ('s, 'r, 'w) running" where
  "end_producer res keys s =
     s\<lparr>rn_producer := ProducerOver res, rn_triggers := rn_triggers s + (if is_ok res then 0 else 1),
       rn_output := None,
       past_dropped := past_dropped s @ keys @ map output_key (case rn_output s of None \<Rightarrow> [] | Some out \<Rightarrow> [out])\<rparr>"

text \<open>The consumer meets an event; when it returns it drops the receiver, and triggers the shutdown on an
  error.\<close>

definition consume_one ::
  "'w csv_ops \<Rightarrow> consume_event \<Rightarrow> result_row option \<Rightarrow> ('s, 'r, 'w) running \<Rightarrow> ('s, 'r, 'w) running" where
  "consume_one csv event waiting s =
     (let c = consume_loop csv [event] (snd (rn_consumer s)) in
      case fst c of
        None \<Rightarrow> s\<lparr>rn_consumer := c, rn_result := waiting\<rparr>
      | Some res \<Rightarrow>
          s\<lparr>rn_consumer := c, rn_triggers := rn_triggers s + (if is_ok res then 0 else 1), rn_result := None,
            past_dropped := past_dropped s @ map row_key (case waiting of None \<Rightarrow> [] | Some row \<Rightarrow> [row])\<rparr>)"

text \<open>The events task starts an iteration, or sees the shutdown and returns.\<close>

definition events_poll ::
  "('s, 'r, 'w) running \<Rightarrow> ('s, 'r, 'w) running option" where
  "events_poll s =
     (case rn_events s of
        EventsIdle heap trackers \<Rightarrow>
          Some (if rn_stopped s then end_events (Inr ()) s else s\<lparr>rn_events := EventsBusy heap trackers\<rparr>)
      | _ \<Rightarrow> None)"

text \<open>The rest of an iteration, up to the dispatch: the wait inside it is where the tick meets the shutdown.\<close>

definition events_iterate ::
  "'s nodes \<Rightarrow> tick \<Rightarrow> ('s, 'r, 'w) running \<Rightarrow> ('s, 'r, 'w) running option" where
  "events_iterate nodes tick s =
     (case rn_events s of
        EventsBusy heap trackers \<Rightarrow>
          if stop_signalled tick \<or> stop_during_wait tick \<noteq> rn_stopped s then None
          else
            (let s' = s\<lparr>past_ticks := past_ticks s @ [tick]\<rparr> in
             case produce_iteration (hm_contains nodes) tick heap trackers (rn_rng s) of
               None \<Rightarrow> Some (s'\<lparr>rn_events := EventsOver None\<rparr>)
             | Some (Inl e, r) \<Rightarrow> Some (end_events (Inl e) (s'\<lparr>rn_rng := r\<rparr>))
             | Some (Inr Finished, r) \<Rightarrow> Some (end_events (Inr ()) (s'\<lparr>rn_rng := r\<rparr>))
             | Some (Inr (Next heap' trackers' ds), r) \<Rightarrow>
                 Some (s'\<lparr>rn_rng := r, rn_events := EventsIdle heap' trackers',
                          rn_sends := rn_sends s @ map Dispatched ds,
                          past_dispatched := past_dispatched s @ ds\<rparr>))
      | _ \<Rightarrow> None)"

text \<open>A dispatched payment is handed to its node; a permanent error ends the task, which triggers the shutdown.\<close>

definition send_call ::
  "'s nodes \<Rightarrow> nat \<Rightarrow> ('s, 'r, 'w) running \<Rightarrow> ('s, 'r, 'w) running option" where
  "send_call nodes i s =
     (if i < length (rn_sends s)
      then case rn_sends s ! i of
             Dispatched d \<Rightarrow>
               (case hm_get nodes (dp_source d) of
                  None \<Rightarrow> None
                | Some node \<Rightarrow>
                    (case node_send_payment node (SendPayment (dp_destination d) (dp_amount d)) (dp_time d) True
                            (rn_world s) of
                       (res, Some out, world) \<Rightarrow>
                         Some (s\<lparr>rn_world := world, rn_sends := (rn_sends s)[i := Sending out]\<rparr>)
                     | (res, None, world) \<Rightarrow>
                         Some (s\<lparr>rn_world := world, rn_sends := remove_at i (rn_sends s),
                                 rn_triggers := rn_triggers s + 1,
                                 past_dropped := past_dropped s @ [dispatch_key d]\<rparr>)))
           | Sending out \<Rightarrow> None
      else None)"

text \<open>The output goes into the channel if there is room, or is lost when the receiver is gone.\<close>

definition send_put ::
  "nat \<Rightarrow> ('s, 'r, 'w) running \<Rightarrow> ('s, 'r, 'w) running option" where
  "send_put i s =
     (if i < length (rn_sends s)
      then case rn_sends s ! i of
             Dispatched d \<Rightarrow> None
           | Sending out \<Rightarrow>
               if producer_over s
               then Some (s\<lparr>rn_sends := remove_at i (rn_sends s), rn_triggers := rn_triggers s + 1,
                            past_dropped := past_dropped s @ [output_key out]\<rparr>)
               else if rn_output s = None
               then Some (s\<lparr>rn_sends := remove_at i (rn_sends s), rn_output := Some out\<rparr>)
               else None
      else None)"

text \<open>The producer receives an output, or sends on the result of a payment that failed at once.\<close>

definition producer_poll ::
  "'s nodes \<Rightarrow> ('s, 'r, 'w) running \<Rightarrow> ('s, 'r, 'w) running option" where
  "producer_poll nodes s =
     (case rn_producer s of
        ProducerReceiving \<Rightarrow>
          (case rn_output s of
             Some (SendPaymentSuccess p) \<Rightarrow>
               if hm_contains nodes (pay_source p)
               then Some (s\<lparr>rn_output := None, rn_tracks := rn_tracks s @ [TrackingPayment p]\<rparr>)
               else Some (end_producer (Inl (MissingNodeError
                      (Fmt ''Source node with public key: {} unavailable.'' [ArgPk (pay_source p)]))) [] s)
           | Some (SendPaymentFailure p result) \<Rightarrow>
               Some (s\<lparr>rn_output := None, rn_producer := ProducerSending p result\<rparr>)
           | None \<Rightarrow>
               if events_over s \<and> rn_sends s = [] then Some (end_producer (Inr ()) [] s) else None)
      | ProducerSending p result \<Rightarrow>
          if rn_stopped s then Some (end_producer (Inr ()) [payment_key_of p] s)
          else if consumer_over s then Some (end_producer (Inl (mpsc_result_error p)) [payment_key_of p] s)
          else if rn_result s = None
          then Some (s\<lparr>rn_producer := ProducerReceiving, rn_result := Some (p, result)\<rparr>)
          else None
      | ProducerOver res \<Rightarrow> None)"

text \<open>A payment is tracked on its node.\<close>

definition track_call ::
  "'s nodes \<Rightarrow> nat \<Rightarrow> ('s, 'r, 'w) running \<Rightarrow> ('s, 'r, 'w) running option" where
  "track_call nodes i s =
     (if i < length (rn_tracks s)
      then case rn_tracks s ! i of
             TrackingPayment p \<Rightarrow>
               (case hm_get nodes (pay_source p) of
                  None \<Rightarrow> None
                | Some node \<Rightarrow>
                    (case track_payment_result node p SendDone (rn_world s) of
                       (res, Some (p', result), world) \<Rightarrow>
                         Some (s\<lparr>rn_world := world, rn_tracks := (rn_tracks s)[i := SendingResult p' result]\<rparr>)
                     | (res, None, world) \<Rightarrow> None))
           | SendingResult p result \<Rightarrow> None
      else None)"

text \<open>A tracked result goes into the channel; nobody looks at the error of this task.\<close>

definition track_put ::
  "nat \<Rightarrow> ('s, 'r, 'w) running \<Rightarrow> ('s, 'r, 'w) running option" where
  "track_put i s =
     (if i < length (rn_tracks s)
      then case rn_tracks s ! i of
             TrackingPayment p \<Rightarrow> None
           | SendingResult p result \<Rightarrow>
               if rn_stopped s \<or> consumer_over s
               then Some (s\<lparr>rn_tracks := remove_at i (rn_tracks s),
                            past_dropped := past_dropped s @ [payment_key_of p]\<rparr>)
               else if rn_result s = None
               then Some (s\<lparr>rn_tracks := remove_at i (rn_tracks s), rn_result := Some (p, result)\<rparr>)
               else None
      else None)"

text \<open>The consumer meets the shutdown, a result or the close of its channel.\<close>

definition consumer_poll ::
  "'w csv_ops \<Rightarrow> ('s, 'r, 'w) running \<Rightarrow> ('s, 'r, 'w) running option" where
  "consumer_poll csv s =
     (if consumer_over s then None
      else if rn_stopped s then Some (consume_one csv ConsumerStopped (rn_result s) s)
      else case rn_result s of
             Some (p, result) \<Rightarrow>
               Some (consume_one csv (ResultReceived p result) None
                       (s\<lparr>past_counted := past_counted s @ [(p, result)]\<rparr>))
           | None \<Rightarrow>
               if producer_over s \<and> rn_tracks s = [] then Some (consume_one csv ResultsClosed None s) else None)"

text \<open>A task that has returned triggers the shutdown.\<close>

definition run_trigger ::
  "('s, 'r, 'w) running \<Rightarrow> ('s, 'r, 'w) running option" where
  "run_trigger s =
     (case rn_triggers s of 0 \<Rightarrow> None | Suc n \<Rightarrow> Some (s\<lparr>rn_stopped := True, rn_triggers := n\<rparr>))"

text \<open>The timeout task sees the shutdown, or its sleep ends first.\<close>

definition timeout_poll ::
  "('s, 'r, 'w) running \<Rightarrow> ('s, 'r, 'w) running option" where
  "timeout_poll s =
     (if rn_timeout s \<and> rn_stopped s then Some (s\<lparr>rn_timeout := False\<rparr>) else None)"

definition timeout_elapsed ::
  "('s, 'r, 'w) running \<Rightarrow> ('s, 'r, 'w) running option" where
  "timeout_elapsed s =
     (if rn_timeout s \<and> \<not> rn_stopped s then Some (s\<lparr>rn_timeout := False, rn_stopped := True\<rparr>) else None)"

text \<open>The logger of results sees the shutdown, or reports after its sleep.\<close>

definition logger_poll ::
  "('s, 'r, 'w) running \<Rightarrow> ('s, 'r, 'w) running option" where
  "logger_poll s =
     (if rn_logger s \<and> rn_stopped s then Some (s\<lparr>rn_logger := False\<rparr>) else None)"

definition logger_tick ::
  "('s, 'r, 'w) running \<Rightarrow> ('s, 'r, 'w) running option" where
  "logger_tick s =
     (if rn_logger s \<and> \<not> rn_stopped s
      then Some (s\<lparr>past_reports := past_reports s @ [cn_logger (snd (rn_consumer s))]\<rparr>) else None)"

text \<open>\<open>Simulation::shutdown\<close>.\<close>

definition shutdown ::
  "('s, 'r, 'w) running \<Rightarrow> ('s, 'r, 'w) running option" where
  "shutdown s = Some (s\<lparr>rn_stopped := True\<rparr>)"

fun run_action ::
  "'w csv_ops \<Rightarrow> 's nodes \<Rightarrow> 's action \<Rightarrow> ('s, 'r, 'w) running \<Rightarrow> ('s, 'r, 'w) running option" where
  "run_action csv nodes EventsPoll s = events_poll s"
| "run_action csv nodes (EventsIterate tick) s = events_iterate nodes tick s"
| "run_action csv nodes (SendCall i) s = send_call nodes i s"
| "run_action csv nodes (SendPut i) s = send_put i s"
| "run_action csv nodes ProducerPoll s = producer_poll nodes s"
| "run_action csv nodes (TrackCall i) s = track_call nodes i s"
| "run_action csv nodes (TrackPut i) s = track_put i s"
| "run_action csv nodes ConsumerPoll s = consumer_poll csv s"
| "run_action csv nodes RunTrigger s = run_trigger s"
| "run_action csv nodes TimeoutPoll s = timeout_poll s"
| "run_action csv nodes TimeoutElapsed s = timeout_elapsed s"
| "run_action csv nodes LoggerPoll s = logger_poll s"
| "run_action csv nodes LoggerTick s = logger_tick s"
| "run_action csv nodes ShutdownRequested s = shutdown s"
| "run_action csv nodes (WorldMoves world) s = Some (s\<lparr>rn_world := world\<rparr>)"

lemmas action_defs [simp] = events_poll_def events_iterate_def send_call_def send_put_def
  producer_poll_def track_call_def track_put_def consumer_poll_def run_trigger_def timeout_poll_def
  timeout_elapsed_def logger_poll_def logger_tick_def shutdown_def

definition run_actions ::
  "'w csv_ops \<Rightarrow> 's nodes \<Rightarrow> 's action list \<Rightarrow> ('s, 'r, 'w) running \<Rightarrow> ('s, 'r, 'w) running option" where
  "run_actions csv nodes = fold_opt (run_action csv nodes)"

end
