(* ===== verification/Running_Laws.thy ===== *)
theory Running_Laws
  imports Running Simulation_Properties
begin

section \<open>Laws of the running simulation\<close>

text \<open>
  The invariant of the tasks together: every payment that was dispatched is in exactly one place,
  nothing is dropped before a shutdown is on its way, and a task that has ended early leaves nobody
  waiting for it. A measure shows that the tasks behind the events task come to rest.
\<close>

subsection \<open>Where the payments are\<close>

definition opt_list :: "'a option \<Rightarrow> 'a list" where
  "opt_list x = (case x of None \<Rightarrow> [] | Some y \<Rightarrow> [y])"

lemma opt_list_simps [simp]: "opt_list None = []" "opt_list (Some x) = [x]"
  by (simp_all add: opt_list_def)

fun producer_keys :: "producer_task \<Rightarrow> payment_key list" where
  "producer_keys (ProducerSending p result) = [payment_key_of p]"
| "producer_keys _ = []"

definition in_flight :: "('s, 'r, 'w) running \<Rightarrow> payment_key multiset" where
  "in_flight s =
     mset (map send_key (rn_sends s)) + mset (map output_key (opt_list (rn_output s))) +
     mset (producer_keys (rn_producer s)) + mset (map track_key (rn_tracks s)) +
     mset (map row_key (opt_list (rn_result s)))"

definition stopping :: "('s, 'r, 'w) running \<Rightarrow> bool" where
  "stopping s \<longleftrightarrow> rn_stopped s \<or> rn_triggers s > 0"

text \<open>The nodes are kept under their own keys.\<close>

definition nodes_named :: "'s nodes \<Rightarrow> bool" where
  "nodes_named nodes \<longleftrightarrow> (\<forall>pk node. hm_get nodes pk = Some node \<longrightarrow> pubkey (ln_info node) = pk)"

definition all_payments_kept :: "('s, 'r, 'w) running \<Rightarrow> bool" where
  "all_payments_kept s \<longleftrightarrow>
     mset (map dispatch_key (past_dispatched s)) =
       in_flight s + mset (map row_key (past_counted s)) + mset (past_dropped s)"

definition running_inv :: "'s nodes \<Rightarrow> ('s, 'r, 'w) running \<Rightarrow> bool" where
  "running_inv nodes s \<longleftrightarrow>
     all_payments_kept s \<and>
     (\<not> stopping s \<longrightarrow> past_dropped s = []) \<and>
     (producer_over s \<longrightarrow> rn_output s = None \<and> (stopping s \<or> events_over s \<and> rn_sends s = [])) \<and>
     (consumer_over s \<longrightarrow> rn_result s = None \<and> (stopping s \<or> producer_over s \<and> rn_tracks s = [])) \<and>
     (\<forall>d \<in> set (past_dispatched s). hm_contains nodes (dp_source d))"

lemma in_flight_source:
  assumes "running_inv nodes s" and "k \<in># in_flight s"
  shows "hm_contains nodes (fst k)"
proof -
  have "k \<in># mset (map dispatch_key (past_dispatched s))"
    using assms by (simp add: running_inv_def all_payments_kept_def)
  then obtain d where "d \<in> set (past_dispatched s)" "k = dispatch_key d" by auto
  with assms(1) show ?thesis by (simp add: running_inv_def dispatch_key_def)
qed

lemma send_source:
  "running_inv nodes s \<Longrightarrow> i < length (rn_sends s) \<Longrightarrow> hm_contains nodes (fst (send_key (rn_sends s ! i)))"
  by (rule in_flight_source) (auto simp: in_flight_def)

lemma track_source:
  "running_inv nodes s \<Longrightarrow> i < length (rn_tracks s) \<Longrightarrow> hm_contains nodes (fst (track_key (rn_tracks s ! i)))"
  by (rule in_flight_source) (auto simp: in_flight_def)

text \<open>A payment keeps its key when it is sent and when it is tracked.\<close>

lemma sent_key:
  assumes "node_send_payment node (SendPayment dest amt) time True world = (res, Some out, world')"
  shows "output_key out = (pubkey (ln_info node), pubkey dest, amt, time)"
  using assms
  by (auto simp: node_send_payment_def Let_def payment_key_of_def split: sum.splits lightning_error.splits prod.splits)

lemma tracked_key:
  assumes "track_payment_result node p SendDone world = (res, row, world')"
  obtains result where "row = Some (p, result)"
  using assms by (auto simp: track_payment_result_def Let_def split: prod.splits)

lemma iteration_dispatches:
  assumes "produce_iteration has tick heap trackers r = Some (Inr (Next heap' trackers' ds), r')"
  shows "\<forall>d \<in> set ds. has (dp_source d)" and "stop_during_wait tick \<Longrightarrow> ds = []"
  using assms
  by (auto simp: produce_iteration_def gen_bind_def gen_ok_def gen_err_def Let_def
      split: if_splits option.splits prod.splits sum.splits)

subsection \<open>What an action does\<close>

text \<open>The cases of each action, for the proofs below.\<close>

lemma iterate_cases:
  assumes "run_action csv nodes (EventsIterate tick) s = Some t"
  obtains (panics) heap trackers where "rn_events s = EventsBusy heap trackers"
      "produce_iteration (hm_contains nodes) tick heap trackers (rn_rng s) = None"
      "t = s\<lparr>past_ticks := past_ticks s @ [tick], rn_events := EventsOver None\<rparr>"
  | (ends) heap trackers res r where "rn_events s = EventsBusy heap trackers"
      "produce_iteration (hm_contains nodes) tick heap trackers (rn_rng s) =
         Some (case res of Inl e \<Rightarrow> Inl e | Inr _ \<Rightarrow> Inr Finished, r)"
      "t = end_events res (s\<lparr>past_ticks := past_ticks s @ [tick], rn_rng := r\<rparr>)"
  | (goes_on) heap trackers heap' trackers' ds r where "rn_events s = EventsBusy heap trackers"
      "produce_iteration (hm_contains nodes) tick heap trackers (rn_rng s) =
         Some (Inr (Next heap' trackers' ds), r)"
      "rn_stopped s \<Longrightarrow> ds = []"
      "t = s\<lparr>past_ticks := past_ticks s @ [tick], rn_rng := r, rn_events := EventsIdle heap' trackers',
         rn_sends := rn_sends s @ map Dispatched ds, past_dispatched := past_dispatched s @ ds\<rparr>"
proof -
  from assms obtain heap trackers where busy: "rn_events s = EventsBusy heap trackers"
    and stop: "stop_during_wait tick = rn_stopped s"
    by (auto split: events_task.splits if_splits)
  show thesis
  proof (cases "produce_iteration (hm_contains nodes) tick heap trackers (rn_rng s)")
    case None
    with assms busy panics show thesis by (simp split: if_splits)
  next
    case (Some out)
    obtain res r where out: "out = (res, r)" by (cases out)
    show thesis
    proof (cases res)
      case (Inl e)
      with assms busy Some out ends [of heap trackers "Inl e" r] show thesis by (simp split: if_splits)
    next
      case (Inr it)
      show thesis
      proof (cases it)
        case (Next heap' trackers' ds)
        note it = Some [unfolded out Inr Next]
        with iteration_dispatches(2) [OF it] stop have "rn_stopped s \<Longrightarrow> ds = []" by simp
        with assms busy it goes_on [OF busy it] show thesis by (simp split: if_splits)
      next
        case Finished
        with assms busy Some out Inr ends [of heap trackers "Inr ()" r] show thesis by (simp split: if_splits)
      qed
    qed
  qed
qed

lemma send_call_cases:
  assumes "run_action csv nodes (SendCall i) s = Some t"
  obtains (sent) d node res out world where "i < length (rn_sends s)" "rn_sends s ! i = Dispatched d"
      "hm_get nodes (dp_source d) = Some node"
      "node_send_payment node (SendPayment (dp_destination d) (dp_amount d)) (dp_time d) True (rn_world s) =
         (res, Some out, world)"
      "t = s\<lparr>rn_world := world, rn_sends := (rn_sends s)[i := Sending out]\<rparr>"
  | (refused) d world where "i < length (rn_sends s)" "rn_sends s ! i = Dispatched d"
      "t = s\<lparr>rn_world := world, rn_sends := remove_at i (rn_sends s), rn_triggers := rn_triggers s + 1,
           past_dropped := past_dropped s @ [dispatch_key d]\<rparr>"
  using assms by (auto split: if_splits send_task.splits option.splits prod.splits)

lemma send_put_cases:
  assumes "run_action csv nodes (SendPut i) s = Some t"
  obtains (closed) out where "i < length (rn_sends s)" "rn_sends s ! i = Sending out" "producer_over s"
      "t = s\<lparr>rn_sends := remove_at i (rn_sends s), rn_triggers := rn_triggers s + 1,
           past_dropped := past_dropped s @ [output_key out]\<rparr>"
  | (puts) out where "i < length (rn_sends s)" "rn_sends s ! i = Sending out" "\<not> producer_over s"
      "rn_output s = None" "t = s\<lparr>rn_sends := remove_at i (rn_sends s), rn_output := Some out\<rparr>"
  using assms by (auto split: if_splits send_task.splits)

lemma producer_cases:
  assumes "run_action csv nodes ProducerPoll s = Some t"
  obtains (tracks) p where "rn_producer s = ProducerReceiving" "rn_output s = Some (SendPaymentSuccess p)"
      "t = s\<lparr>rn_output := None, rn_tracks := rn_tracks s @ [TrackingPayment p]\<rparr>"
  | (unknown) p msg where "rn_producer s = ProducerReceiving" "rn_output s = Some (SendPaymentSuccess p)"
      "\<not> hm_contains nodes (pay_source p)" "t = end_producer (Inl (MissingNodeError msg)) [] s"
  | (failure) p result where "rn_producer s = ProducerReceiving" "rn_output s = Some (SendPaymentFailure p result)"
      "t = s\<lparr>rn_output := None, rn_producer := ProducerSending p result\<rparr>"
  | (closed) "rn_producer s = ProducerReceiving" "rn_output s = None" "events_over s" "rn_sends s = []"
      "t = end_producer (Inr ()) [] s"
  | (dropped) p result res where "rn_producer s = ProducerSending p result"
      "is_ok res \<Longrightarrow> rn_stopped s" "t = end_producer res [payment_key_of p] s"
  | (puts) p result where "rn_producer s = ProducerSending p result" "rn_result s = None" "\<not> consumer_over s"
      "t = s\<lparr>rn_producer := ProducerReceiving, rn_result := Some (p, result)\<rparr>"
proof (cases "rn_producer s")
  case ProducerReceiving
  with assms tracks unknown failure closed show thesis
    by (auto split: option.splits simulation_output.splits if_splits)
next
  case (ProducerSending p result)
  with assms dropped [of p result "Inr ()"] dropped [of p result "Inl (mpsc_result_error p)"] puts
  show thesis by (auto split: if_splits)
next
  case (ProducerOver res)
  with assms show thesis by simp
qed

lemma track_call_cases:
  assumes "run_action csv nodes (TrackCall i) s = Some t"
  obtains p result world where "i < length (rn_tracks s)" "rn_tracks s ! i = TrackingPayment p"
    "t = s\<lparr>rn_world := world, rn_tracks := (rn_tracks s)[i := SendingResult p result]\<rparr>"
  using assms by (auto split: if_splits track_task.splits option.splits prod.splits elim: tracked_key)

lemma track_put_cases:
  assumes "run_action csv nodes (TrackPut i) s = Some t"
  obtains (dropped) p result where "i < length (rn_tracks s)" "rn_tracks s ! i = SendingResult p result"
      "rn_stopped s \<or> consumer_over s"
      "t = s\<lparr>rn_tracks := remove_at i (rn_tracks s), past_dropped := past_dropped s @ [payment_key_of p]\<rparr>"
  | (puts) p result where "i < length (rn_tracks s)" "rn_tracks s ! i = SendingResult p result"
      "\<not> consumer_over s" "rn_result s = None"
      "t = s\<lparr>rn_tracks := remove_at i (rn_tracks s), rn_result := Some (p, result)\<rparr>"
  using assms by (auto split: if_splits track_task.splits)

lemma consumer_stops:
  "consume_loop csv [ConsumerStopped] c = (res, c') \<Longrightarrow> res \<noteq> None"
  "consume_loop csv [ResultsClosed] c = (res, c') \<Longrightarrow> res \<noteq> None"
  by (auto simp: consumer_exit_def Let_def split: option.splits prod.splits)

lemma consumer_counts_ok:
  "consume_loop csv [ResultReceived p result] c = (Some res, c') \<Longrightarrow> \<not> is_ok res"
  by (auto simp: Let_def split: option.splits prod.splits sum.splits)

lemma consumer_cases:
  assumes "run_action csv nodes ConsumerPoll s = Some t"
  obtains (counts) p result c where "\<not> consumer_over s" "rn_result s = Some (p, result)"
      "consume_loop csv [ResultReceived p result] (snd (rn_consumer s)) = (None, c)"
      "t = s\<lparr>past_counted := past_counted s @ [(p, result)], rn_consumer := (None, c), rn_result := None\<rparr>"
  | (fails) p result res c where "\<not> consumer_over s" "rn_result s = Some (p, result)" "\<not> is_ok res"
      "consume_loop csv [ResultReceived p result] (snd (rn_consumer s)) = (Some res, c)"
      "t = s\<lparr>past_counted := past_counted s @ [(p, result)], rn_consumer := (Some res, c),
           rn_triggers := rn_triggers s + 1, rn_result := None\<rparr>"
  | (ends) event res c where "\<not> consumer_over s" "event \<in> {ConsumerStopped, ResultsClosed}"
      "rn_stopped s \<or> rn_result s = None \<and> producer_over s \<and> rn_tracks s = []"
      "consume_loop csv [event] (snd (rn_consumer s)) = (Some res, c)"
      "t = s\<lparr>rn_consumer := (Some res, c), rn_triggers := rn_triggers s + (if is_ok res then 0 else 1),
           rn_result := None, past_dropped := past_dropped s @ map row_key (opt_list (rn_result s))\<rparr>"
proof -
  from assms have alive: "\<not> consumer_over s" by (simp split: if_splits)
  have quit: thesis if e: "event \<in> {ConsumerStopped, ResultsClosed}"
    and c: "rn_stopped s \<or> rn_result s = None \<and> producer_over s \<and> rn_tracks s = []"
    and t: "t = consume_one csv event (rn_result s) s" for event
  proof -
    obtain res d where "consume_loop csv [event] (snd (rn_consumer s)) = (Some res, d)"
      using e consumer_stops [of csv] by (cases "consume_loop csv [event] (snd (rn_consumer s))") blast
    with ends [OF alive e c] show thesis by (simp add: t consume_one_def opt_list_def)
  qed
  consider "rn_stopped s" "t = consume_one csv ConsumerStopped (rn_result s) s"
    | p result where "rn_result s = Some (p, result)"
      "t = consume_one csv (ResultReceived p result) None (s\<lparr>past_counted := past_counted s @ [(p, result)]\<rparr>)"
    | "rn_result s = None" "producer_over s" "rn_tracks s = []" "t = consume_one csv ResultsClosed (rn_result s) s"
    using assms by (auto split: if_splits option.splits)
  then show thesis
  proof cases
    case 2
    obtain o1 c where loop: "consume_loop csv [ResultReceived p result] (snd (rn_consumer s)) = (o1, c)"
      by (cases "consume_loop csv [ResultReceived p result] (snd (rn_consumer s))")
    show thesis
    proof (cases o1)
      case None
      with 2 loop counts [OF alive 2(1)] show thesis by (simp add: consume_one_def)
    next
      case (Some res)
      with 2 loop consumer_counts_ok [of csv p result] fails [OF alive 2(1)] show thesis
        by (fastforce simp: consume_one_def)
    qed
  qed (use quit in blast)+
qed

subsection \<open>Every action keeps the invariant\<close>

lemmas running_defs = running_inv_def all_payments_kept_def in_flight_def stopping_def producer_over_def
  consumer_over_def events_over_def

lemma inv_events_poll:
  "run_action csv nodes EventsPoll s = Some t \<Longrightarrow> running_inv nodes s \<Longrightarrow> running_inv nodes t"
  by (auto simp: running_defs end_events_def split: events_task.splits if_splits)

lemma inv_events_iterate:
  assumes "run_action csv nodes (EventsIterate tick) s = Some t" and "running_inv nodes s"
  shows "running_inv nodes t"
  using assms(1)
proof (cases rule: iterate_cases)
  case (goes_on heap trackers heap' trackers' ds r)
  with assms(2) iteration_dispatches(1) [OF goes_on(2)] show ?thesis
    by (auto simp: running_defs comp_def)
qed (use assms(2) in \<open>auto simp: running_defs end_events_def\<close>)

lemma inv_send_call:
  assumes "run_action csv nodes (SendCall i) s = Some t" and "running_inv nodes s" and "nodes_named nodes"
  shows "running_inv nodes t"
  using assms(1)
proof (cases rule: send_call_cases)
  case (sent d node res out world)
  have "pubkey (ln_info node) = dp_source d" using assms(3) sent by (simp add: nodes_named_def)
  then have "output_key out = dispatch_key d"
    using sent_key [OF sent(4)] by (simp add: dispatch_key_def)
  then have "map send_key ((rn_sends s)[i := Sending out]) = map send_key (rn_sends s)"
    using sent by (intro map_update_key) simp_all
  moreover have "rn_sends s \<noteq> []" using sent by auto
  ultimately show ?thesis using assms(2) by (auto simp: sent running_defs simp del: mset_map)
next
  case (refused d world)
  with assms(2) mset_remove_at [OF refused(1), of send_key] show ?thesis by (simp add: running_defs)
qed

lemma inv_send_put:
  assumes "run_action csv nodes (SendPut i) s = Some t" and "running_inv nodes s"
  shows "running_inv nodes t"
  using assms(1)
proof (cases rule: send_put_cases)
  case (closed out)
  with assms(2) mset_remove_at [OF closed(1), of send_key] show ?thesis by (simp add: running_defs)
next
  case (puts out)
  with assms(2) mset_remove_at [OF puts(1), of send_key] show ?thesis by (simp add: running_defs)
qed

lemma inv_end_producer:
  assumes "running_inv nodes s" and "\<not> producer_over s" and "keys = producer_keys (rn_producer s)"
    and "is_ok res \<Longrightarrow> rn_stopped s \<or> events_over s \<and> rn_sends s = [] \<and> rn_output s = None \<and> keys = []"
  shows "running_inv nodes (end_producer res keys s)"
proof (cases "is_ok res")
  case False
  with assms(1-3) show ?thesis by (auto simp: running_defs end_producer_def opt_list_def)
next
  case True
  with assms(4) consider "rn_stopped s" | "events_over s" "rn_sends s = []" "rn_output s = None" "keys = []"
    by auto
  then show ?thesis
  proof cases
    case 1
    with assms(1-3) True show ?thesis by (auto simp: running_defs end_producer_def opt_list_def)
  next
    case 2
    with assms(1-3) True show ?thesis by (auto simp: running_defs end_producer_def split: events_task.splits)
  qed
qed

lemma inv_producer:
  assumes "run_action csv nodes ProducerPoll s = Some t" and "running_inv nodes s"
  shows "running_inv nodes t"
  using assms(1)
proof (cases rule: producer_cases)
  case (tracks p)
  with assms(2) show ?thesis by (simp add: running_defs)
next
  case (unknown p msg)
  have "hm_contains nodes (fst (payment_key_of p))"
    using assms(2) by (rule in_flight_source) (simp add: in_flight_def unknown)
  with unknown show ?thesis by (simp add: payment_key_of_def)
next
  case (failure p result)
  with assms(2) show ?thesis by (simp add: running_defs)
next
  case closed
  with assms(2) show ?thesis by (auto intro!: inv_end_producer simp: producer_over_def)
next
  case (dropped p result res)
  with assms(2) show ?thesis by (auto intro!: inv_end_producer simp: producer_over_def)
next
  case (puts p result)
  with assms(2) show ?thesis by (simp add: running_defs row_key_def)
qed

lemma inv_track_call:
  assumes "run_action csv nodes (TrackCall i) s = Some t" and "running_inv nodes s"
  shows "running_inv nodes t"
  using assms(1)
proof (cases rule: track_call_cases)
  case (1 p result world)
  then have "map track_key ((rn_tracks s)[i := SendingResult p result]) = map track_key (rn_tracks s)"
    by (intro map_update_key) simp_all
  moreover have "rn_tracks s \<noteq> []" using 1 by auto
  ultimately show ?thesis using assms(2) by (simp add: 1 running_defs del: mset_map)
qed

lemma inv_track_put:
  assumes "run_action csv nodes (TrackPut i) s = Some t" and "running_inv nodes s"
  shows "running_inv nodes t"
  using assms(1)
proof (cases rule: track_put_cases)
  case (dropped p result)
  then have "rn_tracks s \<noteq> []" by auto
  moreover from this dropped(3) assms(2) have "stopping s" by (auto simp: running_inv_def stopping_def)
  ultimately show ?thesis
    using assms(2) mset_remove_at [OF dropped(1), of track_key] dropped by (simp add: running_defs)
next
  case (puts p result)
  with assms(2) mset_remove_at [OF puts(1), of track_key] show ?thesis by (simp add: running_defs row_key_def)
qed

lemma inv_consumer:
  assumes "run_action csv nodes ConsumerPoll s = Some t" and "running_inv nodes s"
  shows "running_inv nodes t"
  using assms(1)
proof (cases rule: consumer_cases)
  case (counts p result c)
  with assms(2) show ?thesis by (simp add: running_defs)
next
  case (fails p result res c)
  with assms(2) show ?thesis by (simp add: running_defs)
next
  case (ends event res c)
  with assms(2) show ?thesis by (cases "rn_stopped s") (simp_all add: running_defs split: producer_task.splits)
qed

lemma inv_signals:
  fixes s t :: "('s, 'r, 'w) running"
  assumes "run_action csv nodes a s = Some t" and "running_inv nodes s"
    and "a \<in> {RunTrigger, TimeoutPoll, TimeoutElapsed, LoggerPoll, LoggerTick, ShutdownRequested} \<union> range WorldMoves"
  shows "running_inv nodes t"
proof -
  have "running_inv nodes (s\<lparr>rn_stopped := True\<rparr>)" using assms(2) by (auto simp: running_defs)
  moreover have "running_inv nodes (s\<lparr>rn_stopped := True, rn_triggers := n\<rparr>)" for n
    using assms(2) by (auto simp: running_defs)
  moreover have "running_inv nodes (s\<lparr>rn_timeout := False, rn_stopped := True\<rparr>)"
    using assms(2) by (auto simp: running_defs)
  moreover have "running_inv nodes (s\<lparr>rn_world := world\<rparr>)" for world
    using assms(2) by (auto simp: running_defs)
  moreover have "running_inv nodes (u\<lparr>rn_timeout := b\<rparr>) = running_inv nodes u"
    "running_inv nodes (u\<lparr>rn_logger := b\<rparr>) = running_inv nodes u"
    "running_inv nodes (u\<lparr>past_reports := rs\<rparr>) = running_inv nodes u"
    for b rs and u :: "('s, 'r, 'w) running"
    by (simp_all add: running_defs)
  ultimately show ?thesis
    using assms(1,3) assms(2) by (auto split: if_splits nat.splits)
qed

lemma running_inv_action:
  assumes "run_action csv nodes a s = Some t" and "running_inv nodes s" and "nodes_named nodes"
  shows "running_inv nodes t"
proof (cases a)
  case EventsPoll with assms show ?thesis by (blast intro: inv_events_poll)
next
  case (EventsIterate tick) with assms show ?thesis by (blast intro: inv_events_iterate)
next
  case (SendCall i) with assms show ?thesis by (blast intro: inv_send_call)
next
  case (SendPut i) with assms show ?thesis by (blast intro: inv_send_put)
next
  case ProducerPoll with assms show ?thesis by (blast intro: inv_producer)
next
  case (TrackCall i) with assms show ?thesis by (blast intro: inv_track_call)
next
  case (TrackPut i) with assms show ?thesis by (blast intro: inv_track_put)
next
  case ConsumerPoll with assms show ?thesis by (blast intro: inv_consumer)
qed (use assms inv_signals in \<open>blast+\<close>)

lemma running_inv_actions:
  "run_actions csv nodes as s = Some t \<Longrightarrow> nodes_named nodes \<Longrightarrow> running_inv nodes s \<Longrightarrow> running_inv nodes t"
  unfolding run_actions_def
  by (erule fold_opt_invariant [rotated]) (auto intro: running_inv_action)

lemma running_inv_start:
  assumes "internal_run env cfg supports_keysend nodes now activity r = Some (out, r1)"
  shows "running_inv nodes (start_running csv t0 world out r1)"
proof -
  have "spawned_tasks out = [] \<or> spawned_tasks out = run_data_collection cfg \<and> shutdown_triggered out \<or>
      (\<exists>h t ts. spawned_tasks out = run_data_collection cfg @ EventsTask h t # ts \<and> ts \<in> {[]} \<union> (\<lambda>d. [TimeoutTask d]) ` UNIV)"
    using assms by (auto simp: internal_run_def Let_def split: sum.splits option.splits prod.splits)
  then show ?thesis
    by (auto simp: start_running_def run_data_collection_def no_tasks_def running_defs Let_def)
qed

subsection \<open>The tasks come to rest\<close>

text \<open>The measure: how far each payment is from its end, and which tasks may still return.\<close>

fun send_weight :: "send_task \<Rightarrow> nat" where
  "send_weight (Dispatched d) = 7"
| "send_weight (Sending out) = 6"

fun track_weight :: "track_task \<Rightarrow> nat" where
  "track_weight (TrackingPayment p) = 4"
| "track_weight (SendingResult p result) = 3"

fun producer_weight :: "producer_task \<Rightarrow> nat" where
  "producer_weight ProducerReceiving = 2"
| "producer_weight (ProducerSending p result) = 5"
| "producer_weight (ProducerOver res) = 0"

fun events_weight :: "'r events_task \<Rightarrow> nat" where
  "events_weight (EventsIdle h t) = 2"
| "events_weight (EventsBusy h t) = 3"
| "events_weight (EventsOver res) = 0"

definition work_ahead :: "('s, 'r, 'w) running \<Rightarrow> nat" where
  "work_ahead s =
     events_weight (rn_events s) + sum_list (map send_weight (rn_sends s)) + 5 * length (opt_list (rn_output s)) +
     producer_weight (rn_producer s) + sum_list (map track_weight (rn_tracks s)) +
     length (opt_list (rn_result s)) + (if consumer_over s then 0 else 2) + rn_triggers s +
     (if rn_timeout s then 1 else 0) + (if rn_logger s then 1 else 0)"

text \<open>The actions of the tasks behind the events task.\<close>

fun pipeline_action :: "'s action \<Rightarrow> bool" where
  "pipeline_action (SendCall i) = True"
| "pipeline_action (SendPut i) = True"
| "pipeline_action ProducerPoll = True"
| "pipeline_action (TrackCall i) = True"
| "pipeline_action (TrackPut i) = True"
| "pipeline_action ConsumerPoll = True"
| "pipeline_action RunTrigger = True"
| "pipeline_action _ = False"

text \<open>What comes from outside the tasks.\<close>

fun outside_action :: "'s action \<Rightarrow> bool" where
  "outside_action ShutdownRequested = True"
| "outside_action (WorldMoves world) = True"
| "outside_action _ = False"

lemma work_send_call:
  assumes "run_action csv nodes (SendCall i) s = Some t"
  shows "work_ahead t < work_ahead s"
  using assms
proof (cases rule: send_call_cases)
  case (sent d node res out world)
  with sum_update [OF sent(1), of send_weight "Sending out"] show ?thesis
    by (simp add: work_ahead_def consumer_over_def)
next
  case (refused d world)
  with sum_remove_at [OF refused(1), of send_weight] show ?thesis by (simp add: work_ahead_def consumer_over_def)
qed

lemma work_send_put:
  assumes "run_action csv nodes (SendPut i) s = Some t"
  shows "work_ahead t < work_ahead s"
  using assms
proof (cases rule: send_put_cases)
  case (closed out)
  with sum_remove_at [OF closed(1), of send_weight] show ?thesis by (simp add: work_ahead_def consumer_over_def)
next
  case (puts out)
  with sum_remove_at [OF puts(1), of send_weight] show ?thesis by (simp add: work_ahead_def consumer_over_def)
qed

lemma work_end_producer:
  "producer_weight (rn_producer s) \<ge> 2 \<Longrightarrow> work_ahead (end_producer res keys s) < work_ahead s"
  by (auto simp: work_ahead_def end_producer_def consumer_over_def)

lemma work_producer:
  assumes "run_action csv nodes ProducerPoll s = Some t"
  shows "work_ahead t < work_ahead s"
  using assms
proof (cases rule: producer_cases)
  case (unknown p msg)
  then show ?thesis by (simp add: work_end_producer)
next
  case closed
  then show ?thesis by (simp add: work_end_producer)
next
  case (dropped p result res)
  then show ?thesis by (simp add: work_end_producer)
qed (simp_all add: work_ahead_def consumer_over_def)

lemma work_track_call:
  assumes "run_action csv nodes (TrackCall i) s = Some t"
  shows "work_ahead t < work_ahead s"
  using assms
proof (cases rule: track_call_cases)
  case (1 p result world)
  with sum_update [OF 1(1), of track_weight "SendingResult p result"] show ?thesis
    by (simp add: work_ahead_def consumer_over_def)
qed

lemma work_track_put:
  assumes "run_action csv nodes (TrackPut i) s = Some t"
  shows "work_ahead t < work_ahead s"
  using assms
proof (cases rule: track_put_cases)
  case (dropped p result)
  with sum_remove_at [OF dropped(1), of track_weight] show ?thesis by (simp add: work_ahead_def consumer_over_def)
next
  case (puts p result)
  with sum_remove_at [OF puts(1), of track_weight] show ?thesis by (simp add: work_ahead_def consumer_over_def)
qed

lemma work_consumer:
  assumes "run_action csv nodes ConsumerPoll s = Some t"
  shows "work_ahead t < work_ahead s"
  using assms by (cases rule: consumer_cases) (simp_all add: work_ahead_def consumer_over_def)

lemma work_pipeline:
  assumes "run_action csv nodes a s = Some t" and "pipeline_action a"
  shows "work_ahead t < work_ahead s"
  using assms
proof (cases a)
  case RunTrigger
  with assms show ?thesis by (auto simp: work_ahead_def consumer_over_def split: nat.splits)
qed (auto intro: work_send_call work_send_put work_producer work_track_call work_track_put work_consumer
  simp del: run_action.simps)

text \<open>Once the shutdown was seen, so does every other action.\<close>

lemma action_frame:
  assumes "run_action csv nodes a s = Some t"
  shows "(rn_stopped s \<longrightarrow> rn_stopped t) \<and>
    (a \<noteq> ConsumerPoll \<longrightarrow> rn_consumer t = rn_consumer s \<and> past_counted t = past_counted s) \<and>
    (a \<noteq> EventsPoll \<and> (\<forall>tick. a \<noteq> EventsIterate tick) \<longrightarrow> rn_events t = rn_events s \<and> rn_rng t = rn_rng s \<and>
       past_ticks t = past_ticks s \<and> past_dispatched t = past_dispatched s)"
proof (cases a)
  case (EventsIterate tick)
  from assms [unfolded this] show ?thesis
    using EventsIterate by (cases rule: iterate_cases) (simp_all add: end_events_def)
next
  case (SendCall i)
  from assms [unfolded this] show ?thesis by (cases rule: send_call_cases) simp_all
next
  case (SendPut i)
  from assms [unfolded this] show ?thesis by (cases rule: send_put_cases) simp_all
next
  case ProducerPoll
  from assms [unfolded this] show ?thesis by (cases rule: producer_cases) (simp_all add: end_producer_def)
next
  case (TrackCall i)
  from assms [unfolded this] show ?thesis by (cases rule: track_call_cases) simp_all
next
  case (TrackPut i)
  from assms [unfolded this] show ?thesis by (cases rule: track_put_cases) simp_all
next
  case ConsumerPoll
  from assms [unfolded this] show ?thesis using ConsumerPoll by (cases rule: consumer_cases) simp_all
qed (use assms in \<open>auto simp: end_events_def split: events_task.splits if_splits nat.splits\<close>)

lemma stopped_stays: "run_action csv nodes a s = Some t \<Longrightarrow> rn_stopped s \<Longrightarrow> rn_stopped t"
  by (simp add: action_frame)

lemma work_events_stopped:
  assumes "run_action csv nodes (EventsIterate tick) s = Some t" and "rn_stopped s"
  shows "work_ahead t < work_ahead s"
  using assms(1)
proof (cases rule: iterate_cases)
  case (goes_on heap trackers heap' trackers' ds r)
  then have "ds = []" using assms(2) by simp
  with goes_on show ?thesis by (simp add: work_ahead_def consumer_over_def)
qed (simp_all add: work_ahead_def consumer_over_def end_events_def)

lemma work_stopped:
  assumes "run_action csv nodes a s = Some t" and "rn_stopped s" and "\<not> outside_action a"
  shows "work_ahead t < work_ahead s"
proof (cases "pipeline_action a")
  case True
  with assms(1) show ?thesis by (rule work_pipeline)
next
  case False
  then consider "a = EventsPoll" | tick where "a = EventsIterate tick"
    | "a \<in> {TimeoutPoll, TimeoutElapsed, LoggerPoll, LoggerTick}"
    using assms(3) by (cases a) simp_all
  then show ?thesis
  proof cases
    case 1
    with assms show ?thesis
      by (auto simp: work_ahead_def consumer_over_def end_events_def split: events_task.splits)
  next
    case 2
    with assms work_events_stopped show ?thesis by blast
  next
    case 3
    with assms show ?thesis by (auto simp: work_ahead_def consumer_over_def split: if_splits)
  qed
qed

lemma run_actions_Cons [simp]:
  "run_actions csv nodes [] s = Some s"
  "run_actions csv nodes (a # as) s = Option.bind (run_action csv nodes a s) (run_actions csv nodes as)"
  by (simp_all add: run_actions_def)

lemma work_outside: "run_action csv nodes a s = Some t \<Longrightarrow> outside_action a \<Longrightarrow> work_ahead t = work_ahead s"
  by (cases a) (auto simp: work_ahead_def consumer_over_def)

lemma stopped_run_bound:
  "run_actions csv nodes as s = Some t \<Longrightarrow> rn_stopped s \<Longrightarrow>
   length (filter (\<lambda>a. \<not> outside_action a) as) + work_ahead t \<le> work_ahead s \<and> rn_stopped t"
proof (induction as arbitrary: s)
  case (Cons a as)
  then obtain u where u: "run_action csv nodes a s = Some u" "run_actions csv nodes as u = Some t"
    by (auto simp: bind_eq_Some_conv)
  with Cons.prems(2) stopped_stays [OF u(1)] work_stopped [OF u(1)] work_outside [OF u(1)] Cons.IH [OF u(2)]
  show ?case by auto
qed simp

lemma pipeline_run_bound:
  "run_actions csv nodes as s = Some t \<Longrightarrow> list_all (\<lambda>a. pipeline_action a \<or> outside_action a) as \<Longrightarrow>
   length (filter pipeline_action as) + work_ahead t \<le> work_ahead s"
proof (induction as arbitrary: s)
  case (Cons a as)
  then obtain u where u: "run_action csv nodes a s = Some u" "run_actions csv nodes as u = Some t"
    by (auto simp: bind_eq_Some_conv)
  with Cons.prems(2) work_pipeline [OF u(1)] work_outside [OF u(1)] Cons.IH [OF u(2)] show ?case by auto
qed simp

subsection \<open>Where the tasks rest\<close>

definition all_tasks_over :: "('s, 'r, 'w) running \<Rightarrow> bool" where
  "all_tasks_over s \<longleftrightarrow>
     events_over s \<and> rn_sends s = [] \<and> producer_over s \<and> rn_tracks s = [] \<and> consumer_over s \<and>
     \<not> rn_timeout s \<and> \<not> rn_logger s \<and> rn_triggers s = 0"

lemma over_nothing_in_flight: "running_inv nodes s \<Longrightarrow> all_tasks_over s \<Longrightarrow> in_flight s = {#}"
  by (auto simp: all_tasks_over_def running_inv_def in_flight_def producer_over_def split: producer_task.splits)

lemma send_enabled:
  assumes "running_inv nodes s" and "rn_sends s \<noteq> []" and "run_action csv nodes (SendCall 0) s = None"
    and "run_action csv nodes (SendPut 0) s = None"
  shows "\<not> producer_over s \<and> rn_output s \<noteq> None"
proof (cases "rn_sends s ! 0")
  case (Dispatched d)
  have "hm_contains nodes (dp_source d)"
    using send_source [OF assms(1), of 0] assms(2) Dispatched by (simp add: dispatch_key_def)
  with assms(2,3) Dispatched show ?thesis
    by (auto simp: hm_contains_def split: option.splits prod.splits)
next
  case (Sending out)
  with assms(2,4) show ?thesis by (auto split: if_splits)
qed

lemma track_enabled:
  assumes "running_inv nodes s" and "rn_tracks s \<noteq> []" and "run_action csv nodes (TrackCall 0) s = None"
    and "run_action csv nodes (TrackPut 0) s = None"
  shows "\<not> rn_stopped s \<and> rn_result s \<noteq> None"
proof (cases "rn_tracks s ! 0")
  case (TrackingPayment p)
  have "hm_contains nodes (pay_source p)"
    using track_source [OF assms(1), of 0] assms(2) TrackingPayment by (simp add: payment_key_of_def)
  with assms(2,3) TrackingPayment show ?thesis
    by (auto simp: hm_contains_def split: option.splits prod.splits elim: tracked_key)
next
  case (SendingResult p result)
  with assms(2,4) show ?thesis by (auto split: if_splits)
qed

text \<open>When the producer, the consumer, the sending and the tracking tasks wait, they wait for the events
  task or have ended.\<close>

lemma producer_waits:
  assumes "run_action csv nodes ProducerPoll s = None" and "rn_stopped s \<or> rn_result s = None"
  shows "producer_over s \<or> rn_producer s = ProducerReceiving \<and> rn_output s = None \<and> \<not> (events_over s \<and> rn_sends s = [])"
  using assms
  by (auto simp: producer_over_def split: producer_task.splits option.splits simulation_output.splits if_splits)

lemma sends_wait:
  assumes "running_inv nodes s" and "run_action csv nodes ProducerPoll s = None"
    and "run_action csv nodes (SendCall 0) s = None" and "run_action csv nodes (SendPut 0) s = None"
    and "rn_stopped s \<or> rn_result s = None"
  shows "rn_sends s = [] \<and> rn_output s = None \<and> producer_keys (rn_producer s) = []"
proof -
  note send_enabled [OF assms(1) _ assms(3,4)] producer_waits [OF assms(2,5)]
  moreover have "producer_over s \<Longrightarrow> rn_output s = None \<and> producer_keys (rn_producer s) = []"
    using assms(1) by (auto simp: running_inv_def producer_over_def split: producer_task.splits)
  ultimately show ?thesis by (cases "rn_sends s = []") auto
qed

lemma stopped_rest:
  assumes "running_inv nodes s" and "rn_stopped s"
    and "\<And>a. \<not> outside_action a \<Longrightarrow> run_action csv nodes a s = None"
  shows "all_tasks_over s"
proof -
  let ?stop = "\<lparr>stop_signalled = False, pop_now = 0, skip_now = 0, stop_during_wait = True, fire_now = 0,
    dispatch_now = 0\<rparr>"
  have "rn_events s \<noteq> EventsIdle h t" for h t using assms(3) [of EventsPoll] by auto
  moreover have "rn_events s \<noteq> EventsBusy h t" for h t
    using assms(2) assms(3) [of "EventsIterate ?stop"]
    by (auto simp: Let_def split: option.splits prod.splits sum.splits iteration.splits)
  ultimately have events: "events_over s" by (cases "rn_events s") (auto simp: events_over_def)
  have sends: "rn_sends s = []" using sends_wait [OF assms(1) assms(3,3,3)] assms(2) by simp
  have "producer_over s"
    using producer_waits [OF assms(3) [of ProducerPoll]] assms(2) events sends by simp
  moreover have "consumer_over s" using assms(3) [of ConsumerPoll] assms(2) by (auto split: if_splits)
  moreover have "rn_tracks s = []" using track_enabled [OF assms(1) _ assms(3,3)] assms(2) by auto
  moreover have "\<not> rn_timeout s" using assms(3) [of TimeoutPoll] assms(2) by (simp split: if_splits)
  moreover have "\<not> rn_logger s" using assms(3) [of LoggerPoll] assms(2) by (simp split: if_splits)
  moreover have "rn_triggers s = 0" using assms(3) [of RunTrigger] by (simp split: nat.splits)
  ultimately show ?thesis using events sends by (simp add: all_tasks_over_def)
qed

text \<open>After a shutdown no payment is dispatched any more, and none is counted once the consumer has ended.\<close>

lemma stopped_frame:
  assumes "run_action csv nodes a s = Some t" and "rn_stopped s"
  shows "past_dispatched t = past_dispatched s"
    and "consumer_over s \<Longrightarrow> consumer_over t \<and> past_counted t = past_counted s \<and> rn_consumer t = rn_consumer s"
proof -
  show "past_dispatched t = past_dispatched s"
  proof (cases "\<exists>tick. a = EventsIterate tick")
    case True
    then obtain tick where "a = EventsIterate tick" ..
    from assms(1) [unfolded this] show ?thesis
      by (cases rule: iterate_cases) (use assms(2) in \<open>simp_all add: end_events_def\<close>)
  next
    case False
    with assms show ?thesis
      using action_frame [OF assms(1)] by (cases "a = EventsPoll") (auto simp: end_events_def split: events_task.splits)
  qed
  show "consumer_over t \<and> past_counted t = past_counted s \<and> rn_consumer t = rn_consumer s" if "consumer_over s"
    using action_frame [OF assms(1)] assms(1) that by (cases "a = ConsumerPoll") (auto simp: consumer_over_def)
qed

lemma stopped_run_frame:
  "run_actions csv nodes as s = Some t \<Longrightarrow> rn_stopped s \<Longrightarrow> consumer_over s \<Longrightarrow>
   past_dispatched t = past_dispatched s \<and> past_counted t = past_counted s \<and> rn_consumer t = rn_consumer s"
proof (induction as arbitrary: s)
  case (Cons a as)
  then obtain u where u: "run_action csv nodes a s = Some u" "run_actions csv nodes as u = Some t"
    by (auto simp: bind_eq_Some_conv)
  with Cons.IH [OF u(2)] stopped_stays [OF u(1)] stopped_frame [OF u(1)] Cons.prems(2,3) show ?case by simp
qed simp

text \<open>From every state after a shutdown the tasks can be run to their ends.\<close>

lemma stopped_to_rest:
  "rn_stopped s \<Longrightarrow>
   \<exists>as t. run_actions csv nodes as s = Some t \<and> rn_stopped t \<and> (\<forall>a. \<not> outside_action a \<longrightarrow> run_action csv nodes a t = None)"
proof (induction "work_ahead s" arbitrary: s rule: less_induct)
  case less
  show ?case
  proof (cases "\<forall>a. \<not> outside_action a \<longrightarrow> run_action csv nodes a s = None")
    case True
    with less.prems show ?thesis by (intro exI [of _ "[]"] exI [of _ s]) simp
  next
    case False
    then obtain a u where a: "\<not> outside_action a" "run_action csv nodes a s = Some u" by (auto simp del: run_action.simps)
    from less.hyps [OF work_stopped [OF a(2) less.prems a(1)] stopped_stays [OF a(2) less.prems]] obtain as t where
      "run_actions csv nodes as u = Some t" "rn_stopped t" "\<forall>a. \<not> outside_action a \<longrightarrow> run_action csv nodes a t = None"
      by blast
    with a(2) show ?thesis by (intro exI [of _ "a # as"] exI [of _ t]) simp
  qed
qed

lemma stopping_to_stop:
  "stopping s \<Longrightarrow> \<exists>as u. run_actions csv nodes as s = Some u \<and> rn_stopped u \<and> rn_consumer u = rn_consumer s \<and>
     past_counted u = past_counted s \<and> past_dispatched u = past_dispatched s \<and> past_dropped u = past_dropped s \<and>
     in_flight u = in_flight s"
proof (cases "rn_stopped s")
  case True
  then show ?thesis by (intro exI [of _ "[]"] exI [of _ s]) simp
next
  case False
  assume "stopping s"
  with False obtain n where "rn_triggers s = Suc n" by (auto simp: stopping_def gr0_conv_Suc)
  then show ?thesis
    by (intro exI [of _ "[RunTrigger]"] exI [of _ "s\<lparr>rn_stopped := True, rn_triggers := n\<rparr>"]) (simp add: in_flight_def)
qed

text \<open>If the consumer is the first to see the shutdown, all that was on its way is dropped.\<close>

lemma consumer_quits_first:
  assumes "running_inv nodes s" and "nodes_named nodes" and "stopping s" and "\<not> consumer_over s"
  obtains as t where "run_actions csv nodes as s = Some t" "all_tasks_over t" "past_dispatched t = past_dispatched s"
    "past_counted t = past_counted s" "mset (past_dropped t) = mset (past_dropped s) + in_flight s"
proof -
  obtain as0 s0 where s0: "run_actions csv nodes as0 s = Some s0" "rn_stopped s0" "rn_consumer s0 = rn_consumer s"
    "past_counted s0 = past_counted s" "past_dispatched s0 = past_dispatched s"
    using stopping_to_stop [OF assms(3)] by blast
  then obtain u where u: "run_action csv nodes ConsumerPoll s0 = Some u"
    using assms(4) by (simp add: consumer_over_def)
  obtain res c where "consume_loop csv [ConsumerStopped] (snd (rn_consumer s0)) = (Some res, c)"
    using consumer_stops(1) [of csv "snd (rn_consumer s0)"]
    by (cases "consume_loop csv [ConsumerStopped] (snd (rn_consumer s0))") blast
  with u have quit: "consumer_over u \<and> past_counted u = past_counted s0 \<and> past_dispatched u = past_dispatched s0"
    using s0(2) by (auto simp: consume_one_def consumer_over_def simp del: consume_loop.simps split: if_splits)
  obtain as1 t where t: "run_actions csv nodes as1 u = Some t" "rn_stopped t"
    "\<forall>a. \<not> outside_action a \<longrightarrow> run_action csv nodes a t = None"
    using stopped_to_rest [OF stopped_stays [OF u s0(2)]] by blast
  let ?as = "as0 @ ConsumerPoll # as1"
  have run: "run_actions csv nodes ?as s = Some t"
    using s0(1) u t(1) unfolding run_actions_def by (simp add: fold_opt_append del: run_action.simps)
  have inv: "running_inv nodes t" by (rule running_inv_actions [OF run assms(2,1)])
  have over: "all_tasks_over t" using t(3) by (intro stopped_rest [OF inv t(2)]) blast
  have same: "past_dispatched t = past_dispatched s" "past_counted t = past_counted s"
    using stopped_run_frame [OF t(1) stopped_stays [OF u s0(2)]] quit s0 by simp_all
  have "in_flight s + mset (map row_key (past_counted s)) + mset (past_dropped s) =
      mset (map row_key (past_counted s)) + mset (past_dropped t)"
    using assms(1) inv over_nothing_in_flight [OF inv over] same by (simp add: running_inv_def all_payments_kept_def)
  then have "mset (past_dropped t) = mset (past_dropped s) + in_flight s" by (simp add: ac_simps)
  with that [OF run over same] show thesis .
qed

lemma pipeline_rest:
  assumes "running_inv nodes s" and "\<not> stopping s"
    and "\<And>a. pipeline_action a \<Longrightarrow> run_action csv nodes a s = None"
  shows "in_flight s = {#}"
proof -
  have "\<not> rn_stopped s" using assms(2) by (simp add: stopping_def)
  then have result: "rn_result s = None"
    using assms(1) assms(3) [of ConsumerPoll] by (auto simp: running_inv_def split: if_splits option.splits)
  have "rn_tracks s = []" using track_enabled [OF assms(1) _ assms(3,3)] result by auto
  moreover have "rn_sends s = [] \<and> rn_output s = None \<and> producer_keys (rn_producer s) = []"
    using sends_wait [OF assms(1) assms(3,3,3)] result by simp
  ultimately show ?thesis using result by (simp add: in_flight_def)
qed

subsection \<open>What the consumer has counted and written\<close>

definition counted_inv ::
  "'w csv_ops \<Rightarrow> ('w \<Rightarrow> result_row list) \<Rightarrow> ('w \<Rightarrow> result_row list) \<Rightarrow> write_results option \<Rightarrow> ('s, 'r, 'w) running \<Rightarrow> bool" where
  "counted_inv csv disk pending results s \<longleftrightarrow>
     cn_logger (snd (rn_consumer s)) = logged (past_counted s) payment_result_logger_new \<and>
     (csv_documented csv disk pending \<and> (\<forall>e. fst (rn_consumer s) \<noteq> Some (Inl e)) \<longrightarrow>
       (cn_writer (snd (rn_consumer s)) = None \<longleftrightarrow> results = None) \<and>
       (\<forall>bw. cn_writer (snd (rn_consumer s)) = Some bw \<longrightarrow>
          bw_inv disk pending (past_counted s) bw \<and> Some (bw_batch_size bw) = map_option batch_size results \<and>
          (fst (rn_consumer s) = Some (Inr ()) \<longrightarrow> pending (bw_writer bw) = [])))"

lemma consume_one_logger:
  "consume_loop csv [ResultReceived p result] c = (res, c') \<Longrightarrow> cn_logger c' = report_result p result (cn_logger c)"
  "event \<in> {ConsumerStopped, ResultsClosed} \<Longrightarrow> consume_loop csv [event] c = (res, c') \<Longrightarrow> cn_logger c' = cn_logger c"
  by (auto simp: consumer_exit_def Let_def split: option.splits prod.splits sum.splits)

lemma logged_snoc: "logged (rows @ [(p, result)]) logger = report_result p result (logged rows logger)"
  by (simp add: logged_def report_result_eq)

lemma counted_inv_step:
  assumes "counted_inv csv disk pending results s" and "\<not> consumer_over s"
    and "consume_loop csv [event] (snd (rn_consumer s)) = (res, c)" and "rn_consumer t = (res, c)"
    and "past_counted t = past_counted s @ received [event]"
    and "cn_logger c = logged (past_counted t) payment_result_logger_new"
  shows "counted_inv csv disk pending results t"
proof -
  have "(cn_writer c = None \<longleftrightarrow> results = None) \<and>
      (\<forall>bw. cn_writer c = Some bw \<longrightarrow> bw_inv disk pending (past_counted t) bw \<and>
         Some (bw_batch_size bw) = map_option batch_size results \<and> (res = Some (Inr ()) \<longrightarrow> pending (bw_writer bw) = []))"
    if doc: "csv_documented csv disk pending" and ok: "\<forall>e. res \<noteq> Some (Inl e)"
  proof -
    from assms(1,2) doc have before: "(cn_writer (snd (rn_consumer s)) = None \<longleftrightarrow> results = None) \<and>
        (\<forall>bw. cn_writer (snd (rn_consumer s)) = Some bw \<longrightarrow>
           bw_inv disk pending (past_counted s) bw \<and> Some (bw_batch_size bw) = map_option batch_size results)"
      by (simp add: counted_inv_def consumer_over_def)
    show ?thesis
    proof (cases results)
      case None
      with before consume_loop_accounts [OF assms(3) doc, of "[]" 0] ok show ?thesis by auto
    next
      case (Some w)
      with before have "bw_inv disk pending (past_counted s) bw \<and> bw_batch_size bw = batch_size w"
        if "cn_writer (snd (rn_consumer s)) = Some bw" for bw
        using that by auto
      from consume_loop_accounts [OF assms(3) doc _ this] ok assms(5) before Some show ?thesis by auto
    qed
  qed
  with assms(4,6) show ?thesis by (simp add: counted_inv_def)
qed

lemma counted_inv_action:
  assumes "run_action csv nodes a s = Some t" and "counted_inv csv disk pending results s"
  shows "counted_inv csv disk pending results t"
proof (cases "a = ConsumerPoll")
  case False
  with action_frame [OF assms(1)] assms(2) show ?thesis by (simp add: counted_inv_def)
next
  case True
  note logger = conjunct1 [OF assms(2) [unfolded counted_inv_def]]
  from assms(1) [unfolded True] show ?thesis
  proof (cases rule: consumer_cases)
    case (counts p result c)
    show ?thesis
      by (rule counted_inv_step [OF assms(2) counts(1,3)])
        (simp_all add: counts(4) consume_one_logger(1) [OF counts(3)] logger logged_snoc)
  next
    case (fails p result res c)
    show ?thesis
      by (rule counted_inv_step [OF assms(2) fails(1,4)])
        (simp_all add: fails(5) consume_one_logger(1) [OF fails(4)] logger logged_snoc)
  next
    case (ends event res c)
    then have "received [event] = []" by auto
    then show ?thesis
      by (intro counted_inv_step [OF assms(2) ends(1,4)])
        (simp_all add: ends(5) consume_one_logger(2) [OF ends(2,4)] logger)
  qed
qed

lemma counted_inv_actions:
  "run_actions csv nodes as s = Some t \<Longrightarrow> counted_inv csv disk pending results s \<Longrightarrow>
   counted_inv csv disk pending results t"
  unfolding run_actions_def by (erule fold_opt_invariant [rotated]) (auto intro: counted_inv_action)

lemma counted_total:
  assumes "counted_inv csv disk pending results s"
  shows "total_attempts (cn_logger (snd (rn_consumer s))) = of_nat (length (past_counted s))"
proof -
  have "of_nat (length (filter P xs)) + of_nat (length (filter (\<lambda>x. \<not> P x) xs)) = (of_nat (length xs) :: u64)"
    for P and xs :: "result_row list"
    using sum_length_filter_compl [of P xs] by (metis of_nat_add)
  with assms show ?thesis
    by (simp add: counted_inv_def logged_def total_attempts_def payment_result_logger_new_def)
qed

text \<open>The state in which a successful \<open>internal_run\<close> leaves the simulation.\<close>

lemma start_running_ok:
  assumes "internal_run env cfg supports_keysend nodes now activity r = Some (out, r1)" and "outcome out = Inr ()"
  obtains heap trackers where "EventsTask heap trackers \<in> set (spawned_tasks out)"
    "rn_events (start_running csv t0 world out r1) = EventsIdle heap trackers"
    "rn_consumer (start_running csv t0 world out r1) =
       consume_simulation_results csv payment_result_logger_new t0 (cfg_write_results cfg) []"
    "rn_rng (start_running csv t0 world out r1) = r1" "\<not> rn_stopped (start_running csv t0 world out r1)"
    "past_ticks (start_running csv t0 world out r1) = []" "past_dispatched (start_running csv t0 world out r1) = []"
    "past_counted (start_running csv t0 world out r1) = []"
proof -
  from internal_run_ok [OF assms] obtain h t where
    spawned: "spawned_tasks out = run_data_collection cfg @ [EventsTask h t] @
       (case total_time cfg of None \<Rightarrow> [] | Some d \<Rightarrow> [TimeoutTask d])"
    and run: "\<not> shutdown_triggered out" by metis
  show thesis
    by (rule that [of h t])
      (use run in \<open>simp_all add: spawned start_running_def run_data_collection_def no_tasks_def Let_def split: option.split\<close>)
qed

lemma counted_inv_start:
  assumes "internal_run env cfg supports_keysend nodes now activity r = Some (out, r1)" and "outcome out = Inr ()"
  shows "counted_inv csv disk pending (cfg_write_results cfg) (start_running csv t0 world out r1)"
proof -
  from start_running_ok [OF assms, of csv t0 world] have
    c: "rn_consumer (start_running csv t0 world out r1) =
       consume_simulation_results csv payment_result_logger_new t0 (cfg_write_results cfg) []"
    and none: "past_counted (start_running csv t0 world out r1) = []" by metis+
  have "logged [] payment_result_logger_new = payment_result_logger_new" by (simp add: logged_def)
  then show ?thesis
    using bw_inv_new [of csv disk pending]
    by (auto simp: counted_inv_def c none consume_simulation_results_def split: option.splits sum.splits)
qed

subsection \<open>The events task among the others\<close>

text \<open>
  In the running simulation the events task does what \<open>produce_payment_events\<close> does with the ticks
  it has met: the other tasks only decide when a tick sees the shutdown.
\<close>

lemma produce_snoc:
  assumes "produce_payment_events has ticks h t r = Some (run, r')" and "run_end run = StillRunning"
  shows "produce_payment_events has (ticks @ [tick]) h t r =
     (case produce_iteration has tick (run_heap run) (run_trackers run) r' of
        None \<Rightarrow> None
      | Some (Inl e, r'') \<Rightarrow> Some (run\<lparr>run_end := Ended (Inl e)\<rparr>, r'')
      | Some (Inr Finished, r'') \<Rightarrow> Some (run\<lparr>run_end := Ended (Inr ())\<rparr>, r'')
      | Some (Inr (Next h' t' ds), r'') \<Rightarrow>
          Some (run\<lparr>run_dispatches := run_dispatches run @ ds, run_heap := h', run_trackers := t'\<rparr>, r''))"
  using assms
proof (induction ticks arbitrary: h t r run)
  case Nil
  then show ?case by (auto split: option.split sum.split iteration.split)
next
  case (Cons tick1 ticks)
  from Cons.prems(1) obtain res r1 where it: "produce_iteration has tick1 h t r = Some (res, r1)"
    by (auto split: option.splits)
  with Cons.prems obtain h1 t1 ds where go: "produce_iteration has tick1 h t r = Some (Inr (Next h1 t1 ds), r1)"
    using iteration_result [of res] by auto
  from Cons.prems(1) go obtain run1 where
    rest: "produce_payment_events has ticks h1 t1 r1 = Some (run1, r')"
    and run: "run = run1\<lparr>run_dispatches := ds @ run_dispatches run1\<rparr>"
    by auto
  from Cons.prems(2) run have "run_end run1 = StillRunning" by simp
  from Cons.IH [OF rest this] go show ?case
    by (auto simp: run split: option.split sum.split iteration.split)
qed

definition stop_tick :: tick where
  "stop_tick = \<lparr>stop_signalled = True, pop_now = 0, skip_now = 0, stop_during_wait = True, fire_now = 0,
     dispatch_now = 0\<rparr>"

definition events_running ::
  "'s nodes \<Rightarrow> event_heap \<Rightarrow> 'r trackers \<Rightarrow> 'r \<Rightarrow> ('s, 'r, 'w) running \<Rightarrow> event_heap \<Rightarrow> 'r trackers \<Rightarrow> bool" where
  "events_running nodes heap0 trackers0 r0 s heap trackers \<longleftrightarrow>
     produce_payment_events (hm_contains nodes) (past_ticks s) heap0 trackers0 r0 =
       Some (\<lparr>run_end = StillRunning, run_dispatches = past_dispatched s, run_heap = heap, run_trackers = trackers\<rparr>,
             rn_rng s)"

definition events_refine ::
  "'s nodes \<Rightarrow> event_heap \<Rightarrow> 'r trackers \<Rightarrow> 'r \<Rightarrow> ('s, 'r, 'w) running \<Rightarrow> bool" where
  "events_refine nodes heap0 trackers0 r0 s \<longleftrightarrow>
     (\<not> rn_stopped s \<longrightarrow> no_stop (past_ticks s)) \<and>
     (case rn_events s of
        EventsIdle heap trackers \<Rightarrow> events_running nodes heap0 trackers0 r0 s heap trackers
      | EventsBusy heap trackers \<Rightarrow> events_running nodes heap0 trackers0 r0 s heap trackers
      | EventsOver res \<Rightarrow>
          (\<exists>ticks run r. produce_payment_events (hm_contains nodes) ticks heap0 trackers0 r0 = Some (run, r) \<and>
             run_dispatches run = past_dispatched s \<and>
             (\<forall>res'. res = Some res' \<longrightarrow> run_end run = Ended res') \<and>
             (\<not> rn_stopped s \<longrightarrow> no_stop ticks)))"

lemma events_refine_over:
  assumes "produce_payment_events (hm_contains nodes) ticks heap0 trackers0 r0 = Some (run, r)"
    and "rn_events s = EventsOver res" and "run_dispatches run = past_dispatched s"
    and "\<And>res'. res = Some res' \<Longrightarrow> run_end run = Ended res'"
    and "\<not> rn_stopped s \<Longrightarrow> no_stop ticks \<and> no_stop (past_ticks s)"
  shows "events_refine nodes heap0 trackers0 r0 s"
  using assms by (auto simp: events_refine_def)

lemma events_refine_action:
  assumes "run_action csv nodes a s = Some t" and "events_refine nodes heap0 trackers0 r0 s"
  shows "events_refine nodes heap0 trackers0 r0 t"
proof (cases "a = EventsPoll \<or> (\<exists>tick. a = EventsIterate tick)")
  case False
  note same = action_frame [OF assms(1)]
  with False have eq: "rn_events t = rn_events s" "rn_rng t = rn_rng s" "past_ticks t = past_ticks s"
    "past_dispatched t = past_dispatched s" "rn_stopped s \<longrightarrow> rn_stopped t" by auto
  with assms(2) show ?thesis
    by (auto simp: events_refine_def events_running_def split: events_task.splits)
next
  case True
  show ?thesis
  proof (cases "a = EventsPoll")
    case poll: True
    with assms(1) obtain heap trackers where idle: "rn_events s = EventsIdle heap trackers"
      and t: "t = (if rn_stopped s then end_events (Inr ()) s else s\<lparr>rn_events := EventsBusy heap trackers\<rparr>)"
      by (auto split: events_task.splits)
    from assms(2) idle have run: "events_running nodes heap0 trackers0 r0 s heap trackers"
      by (simp add: events_refine_def)
    show ?thesis
    proof (cases "rn_stopped s")
      case False
      with assms(2) run t show ?thesis by (simp add: events_refine_def events_running_def)
    next
      case stop: True
      from produce_snoc [OF run [unfolded events_running_def], of stop_tick]
      have "produce_payment_events (hm_contains nodes) (past_ticks s @ [stop_tick]) heap0 trackers0 r0 =
          Some (\<lparr>run_end = Ended (Inr ()), run_dispatches = past_dispatched s, run_heap = heap,
            run_trackers = trackers\<rparr>, rn_rng s)"
        by (simp add: produce_iteration_def stop_tick_def gen_ok_def)
      then show ?thesis by (rule events_refine_over) (auto simp: t stop end_events_def)
    qed
  next
    case False
    with True obtain tick where tick: "a = EventsIterate tick" by blast
    from assms(1) tick have stops: "\<not> stop_signalled tick" "stop_during_wait tick = rn_stopped s"
      by (auto split: events_task.splits if_splits)
    have ticks: "no_stop (past_ticks s @ [tick])" if "\<not> rn_stopped s"
      using that assms(2) stops by (auto simp: events_refine_def no_stop_def)
    have run: "events_running nodes heap0 trackers0 r0 s heap trackers"
      if "rn_events s = EventsBusy heap trackers" for heap trackers
      using assms(2) that by (simp add: events_refine_def)
    from assms(1) [unfolded tick] show ?thesis
    proof (cases rule: iterate_cases)
      case (panics heap trackers)
      show ?thesis
        by (rule events_refine_over [OF run [OF panics(1), unfolded events_running_def]])
          (use ticks assms(2) in \<open>auto simp: panics(3) events_refine_def\<close>)
    next
      case (ends heap trackers res r)
      from produce_snoc [OF run [OF ends(1), unfolded events_running_def], of tick] ends(2)
      have "produce_payment_events (hm_contains nodes) (past_ticks s @ [tick]) heap0 trackers0 r0 =
          Some (\<lparr>run_end = Ended res, run_dispatches = past_dispatched s, run_heap = heap,
            run_trackers = trackers\<rparr>, r)"
        by (cases res) simp_all
      then show ?thesis
        by (rule events_refine_over) (use ticks in \<open>auto simp: ends(3) end_events_def\<close>)
    next
      case (goes_on heap trackers heap' trackers' ds r)
      from produce_snoc [OF run [OF goes_on(1), unfolded events_running_def], of tick] goes_on ticks show ?thesis
        by (simp add: events_refine_def events_running_def)
    qed
  qed
qed

lemma events_refine_actions:
  "run_actions csv nodes as s = Some t \<Longrightarrow> events_refine nodes heap0 trackers0 r0 s \<Longrightarrow>
   events_refine nodes heap0 trackers0 r0 t"
  unfolding run_actions_def by (erule fold_opt_invariant [rotated]) (auto intro: events_refine_action)

lemma events_refine_start:
  "rn_events s = EventsIdle heap trackers \<Longrightarrow> rn_rng s = r \<Longrightarrow> past_ticks s = [] \<Longrightarrow> past_dispatched s = [] \<Longrightarrow>
   events_refine nodes heap trackers r s"
  by (simp add: events_refine_def events_running_def no_stop_def)

lemma events_refined_run:
  assumes "events_refine nodes heap0 trackers0 r0 s"
  obtains ticks run r where "produce_payment_events (hm_contains nodes) ticks heap0 trackers0 r0 = Some (run, r)"
    "run_dispatches run = past_dispatched s"
    "\<And>res. rn_events s = EventsOver (Some res) \<Longrightarrow> run_end run = Ended res"
    "\<not> rn_stopped s \<Longrightarrow> no_stop ticks"
proof (cases "rn_events s")
  case (EventsIdle heap trackers)
  with assms that [of "past_ticks s"] show thesis by (auto simp: events_refine_def events_running_def)
next
  case (EventsBusy heap trackers)
  with assms that [of "past_ticks s"] show thesis by (auto simp: events_refine_def events_running_def)
next
  case (EventsOver res)
  with assms that show thesis by (auto simp: events_refine_def)
qed

end
