(* ===== verification/Running_Properties.thy ===== *)
theory Running_Properties
  imports Running_Laws
begin

section \<open>Properties of the running simulation\<close>

text \<open>
  The whole program after \<open>internal_run\<close>: where each payment is, what the counts and the file say, that
  the tasks do not block each other, that a shutdown ends them, and what it costs.
\<close>

subsection \<open>Payments of an activity\<close>

definition key_pays :: "activity_definition \<Rightarrow> payment_key \<Rightarrow> bool" where
  "key_pays act k =
     (case k of (source, destination, amount, time) \<Rightarrow>
        destination = pubkey (act_destination act) \<and> in_range (act_amount_msat act) amount)"

lemma key_pays_dispatch: "pays_for act d \<Longrightarrow> key_pays act (dispatch_key d)"
  by (simp add: key_pays_def dispatch_key_def pays_for_def)

lemma row_key_source: "fst (row_key row) = pay_source (fst row)"
  by (simp add: row_key_def payment_key_of_def)

lemma dispatch_key_source: "fst (dispatch_key d) = dp_source d"
  by (simp add: dispatch_key_def)

lemma size_keys: "size (filter_mset Q (mset (map f xs))) = length (filter (\<lambda>x. Q (f x)) xs)"
  by (simp only: mset_filter [symmetric] size_mset filter_map length_map comp_def)

subsection \<open>A worked example\<close>

text \<open>Node 1 pays node 2 twice; the world counts the payments sent.\<close>

definition busy_node :: "nat \<Rightarrow> nat lightning_node" where
  "busy_node n =
     \<lparr>ln_info = demo_info n, ln_network = Regtest,
      ln_send_payment = (\<lambda>pk amt s. (Inr (PaymentHash [of_nat s]), Suc s)),
      ln_track_payment = (\<lambda>hash s. (Inr \<lparr>htlc_count = 1, payment_outcome = Success\<rparr>, s)),
      ln_get_node_info = (\<lambda>pk. Inl InvalidPaymentHash),
      ln_channel_capacities = Inr 0, ln_get_graph = None\<rparr>"

definition busy_nodes :: "nat nodes" where
  "busy_nodes = [(PublicKey 1, busy_node 1), (PublicKey 2, busy_node 2)]"

definition busy_cfg :: "int simulation_cfg" where
  "busy_cfg = simulation_cfg_new None 10 2 (Some \<lparr>results_dir = [], batch_size = 2\<rparr>) None"

definition busy_outcome :: "nat run_outcome" where
  "busy_outcome = fst (the (internal_run demo_env busy_cfg (\<lambda>_. True) busy_nodes 0 [demo_activity] 0))"

definition busy_start :: "(nat, nat, result_row list \<times> result_row list) running" where
  "busy_start = start_running demo_csv 0 0 busy_outcome 0"

lemmas busy_eval = busy_outcome_def busy_cfg_def busy_nodes_def busy_node_def internal_run_eval event_eval

lemma busy_run: "internal_run demo_env busy_cfg (\<lambda>_. True) busy_nodes 0 [demo_activity] 0 = Some (busy_outcome, 0)"
  by (simp add: busy_eval)

lemma busy_ok: "outcome busy_outcome = Inr ()"
  by (simp add: busy_eval)

lemma busy_named: "nodes_named busy_nodes"
  by (auto simp: nodes_named_def busy_nodes_def busy_node_def hm_get_def demo_info_def split: if_splits)

lemmas busy_start_eval = busy_start_def start_running_def no_tasks_def consume_simulation_results_def
  batched_writer_new_def demo_csv_def

text \<open>Both payments are dispatched; the first is counted, the second waits in the channel.\<close>

definition first_counted :: "nat action list" where
  "first_counted = [EventsPoll, EventsIterate demo_tick, SendCall 0, SendPut 0, ProducerPoll, TrackCall 0,
     EventsPoll, EventsIterate demo_tick, TrackPut 0, SendCall 0, ConsumerPoll, SendPut 0]"

definition busy_state :: "(nat, nat, result_row list \<times> result_row list) running" where
  "busy_state = the (run_actions demo_csv busy_nodes first_counted busy_start)"

lemmas running_eval = busy_start_eval busy_eval Let_def node_send_payment_def track_payment_result_def
  remove_at_def end_events_def end_producer_def consume_one_def producer_over_def events_over_def consumer_over_def
  batched_queue_def batched_write_def consumer_exit_def

lemma busy_state_ok: "run_actions demo_csv busy_nodes first_counted busy_start = Some busy_state"
  by (simp add: busy_state_def first_counted_def running_eval)

lemma busy_state_value:
  "length (past_counted busy_state) = 1" "length (past_dispatched busy_state) = 2"
  "fst (rn_consumer busy_state) = None" "past_dropped busy_state = []"
  "\<not> stopping busy_state" "rn_output busy_state \<noteq> None"
  by (simp_all add: busy_state_def first_counted_def running_eval stopping_def)

text \<open>The events task finds that both payments were made and ends; its trigger comes next.\<close>

definition both_succeed :: "nat action list" where
  "both_succeed = [EventsPoll, EventsIterate demo_tick, SendCall 0, SendPut 0, ProducerPoll, TrackCall 0,
     EventsPoll, EventsIterate demo_tick, SendCall 0, SendPut 0, ProducerPoll, TrackCall 1,
     EventsPoll, EventsIterate demo_tick, EventsPoll, EventsIterate demo_tick]"

definition late_state :: "(nat, nat, result_row list \<times> result_row list) running" where
  "late_state = the (run_actions demo_csv busy_nodes both_succeed busy_start)"

lemma late_state_ok: "run_actions demo_csv busy_nodes both_succeed busy_start = Some late_state"
  by (simp add: late_state_def both_succeed_def running_eval)

lemma late_state_value:
  "stopping late_state" "\<not> consumer_over late_state" "past_counted late_state = []"
  "past_dropped late_state = []" "size (in_flight late_state) = 2" "length (past_dispatched late_state) = 2"
  "list_all (\<lambda>t. case t of SendingResult p result \<Rightarrow> payment_outcome result = Success | _ \<Rightarrow> False) (rn_tracks late_state)"
  "length (rn_tracks late_state) = 2"
  by (simp_all add: late_state_def both_succeed_def running_eval stopping_def in_flight_def)

text \<open>From the state above, the tasks behind the events task bring the second payment to its end.\<close>

definition draining :: "nat action list" where
  "draining = [ProducerPoll, TrackCall 0, TrackPut 0, ConsumerPoll]"

definition drained_state :: "(nat, nat, result_row list \<times> result_row list) running" where
  "drained_state = the (run_actions demo_csv busy_nodes draining busy_state)"

lemma drained_state_ok: "run_actions demo_csv busy_nodes draining busy_state = Some drained_state"
  by (simp add: drained_state_def draining_def busy_state_def first_counted_def running_eval)

lemma drained_state_value:
  "length (past_dispatched drained_state) = 2" "\<not> stopping drained_state"
  by (simp_all add: drained_state_def draining_def busy_state_def first_counted_def running_eval stopping_def)

lemma drained_state_rests: "\<forall>a. pipeline_action a \<longrightarrow> run_action demo_csv busy_nodes a drained_state = None"
proof -
  have "run_action demo_csv busy_nodes a drained_state = None" if "pipeline_action a" for a
    using that
    by (cases a) (simp_all add: drained_state_def draining_def busy_state_def first_counted_def running_eval)
  then show ?thesis by blast
qed

text \<open>Or the shutdown is requested there, and every task ends.\<close>

definition stopping_actions :: "nat action list" where
  "stopping_actions = [EventsPoll, ProducerPoll, TrackCall 0, TrackPut 0, ConsumerPoll, RunTrigger, LoggerPoll,
     ProducerPoll]"

definition stopped_state :: "(nat, nat, result_row list \<times> result_row list) running" where
  "stopped_state = the (run_actions demo_csv busy_nodes (first_counted @ [ShutdownRequested]) busy_start)"

definition stopped_end :: "(nat, nat, result_row list \<times> result_row list) running" where
  "stopped_end = the (run_actions demo_csv busy_nodes stopping_actions stopped_state)"

lemma stopped_state_ok: "run_actions demo_csv busy_nodes (first_counted @ [ShutdownRequested]) busy_start = Some stopped_state"
  by (simp add: stopped_state_def first_counted_def running_eval)

lemma stopped_state_stopped: "rn_stopped stopped_state"
  by (simp add: stopped_state_def first_counted_def running_eval)

lemma stopped_end_ok: "run_actions demo_csv busy_nodes stopping_actions stopped_state = Some stopped_end"
  by (simp add: stopped_end_def stopping_actions_def stopped_state_def first_counted_def running_eval)

lemma stopped_end_rests: "\<forall>a. \<not> outside_action a \<longrightarrow> run_action demo_csv busy_nodes a stopped_end = None"
proof -
  have "run_action demo_csv busy_nodes a stopped_end = None" if "\<not> outside_action a" for a
    using that
    by (cases a) (simp_all add: stopped_end_def stopping_actions_def stopped_state_def first_counted_def running_eval)
  then show ?thesis by blast
qed

subsection \<open>The properties\<close>

text \<open>C4. Every payment is accounted for while the simulation runs. After any sequence of actions of the
  tasks, each dispatched payment is in exactly one place: on its way (a task, or one of the two
  channels), counted, or dropped; and nothing is dropped before a shutdown is under way. The logger
  holds the numbers of successes and results and the amount of what was counted (in 64 bits), and as
  long as the consumer has met no error of the csv writer, the file and the writer's buffer hold the
  rows that were counted, in order, and the file all of them once the consumer has ended.\<close>

theorem running_payments_accounted:
  assumes "internal_run env cfg supports_keysend nodes now activity r = Some (out, r1)" and "outcome out = Inr ()"
    and "nodes_named nodes" and "run_actions csv nodes as (start_running csv t0 world out r1) = Some s"
  shows "mset (map dispatch_key (past_dispatched s)) =
      in_flight s + mset (map row_key (past_counted s)) + mset (past_dropped s) \<and>
    (\<not> stopping s \<longrightarrow> past_dropped s = []) \<and>
    success_payment (cn_logger (snd (rn_consumer s))) =
      of_nat (length (filter (\<lambda>row. payment_outcome (snd row) = Success) (past_counted s))) \<and>
    total_attempts (cn_logger (snd (rn_consumer s))) = of_nat (length (past_counted s)) \<and>
    total_sent (cn_logger (snd (rn_consumer s))) = sum_list (map (\<lambda>row. pay_amount_msat (fst row)) (past_counted s)) \<and>
    (csv_documented csv disk pending \<and> cfg_write_results cfg \<noteq> None \<and> (\<forall>e. fst (rn_consumer s) \<noteq> Some (Inl e)) \<longrightarrow>
      (\<exists>bw. cn_writer (snd (rn_consumer s)) = Some bw \<and>
         disk (bw_writer bw) @ pending (bw_writer bw) = past_counted s \<and>
         (fst (rn_consumer s) = Some (Inr ()) \<longrightarrow> disk (bw_writer bw) = past_counted s)))"
proof -
  have inv: "running_inv nodes s"
    by (rule running_inv_actions [OF assms(4,3) running_inv_start [OF assms(1)]])
  have counted: "counted_inv csv disk pending (cfg_write_results cfg) s"
    by (rule counted_inv_actions [OF assms(4) counted_inv_start [OF assms(1,2)]])
  from inv counted counted_total [OF counted] show ?thesis
    by (auto simp: running_inv_def all_payments_kept_def counted_inv_def bw_inv_def logged_def
        payment_result_logger_new_def)
qed

theorem running_payments_accounted_witness:
  "size (in_flight busy_state) = 1 \<and> past_dropped busy_state = [] \<and>
   total_attempts (cn_logger (snd (rn_consumer busy_state))) = 1 \<and>
   (\<exists>bw. cn_writer (snd (rn_consumer busy_state)) = Some bw \<and>
      fst (bw_writer bw) @ snd (bw_writer bw) = past_counted busy_state)"
proof -
  note accounted = running_payments_accounted [OF busy_run busy_ok busy_named
      busy_state_ok [unfolded busy_start_def], of fst snd]
  from arg_cong [OF conjunct1 [OF accounted], of size] busy_state_value
  have "size (in_flight busy_state) = 1" by simp
  moreover have "cfg_write_results busy_cfg \<noteq> None" by (simp add: busy_cfg_def simulation_cfg_new_def)
  ultimately show ?thesis
    using accounted busy_state_value demo_csv_documented by simp
qed

text \<open>C15. A shutdown ends the simulation. Once the shutdown was triggered, no task can go on for ever: in
  whatever order the tasks go on, and whatever the world does meanwhile, they make no more steps than
  the work that was left. And no task is left behind: where none of them can go on, every task has
  ended, so that \<open>Simulation::run\<close>, which waits for them all, returns. This holds too for the tasks
  left by a set-up that failed.\<close>

theorem shutdown_ends_all_tasks:
  assumes "internal_run env cfg supports_keysend nodes now activity r = Some (out, r1)" and "nodes_named nodes"
    and "run_actions csv nodes as (start_running csv t0 world out r1) = Some s" and "rn_stopped s"
    and "run_actions csv nodes bs s = Some t"
  shows "length (filter (\<lambda>a. \<not> outside_action a) bs) \<le> work_ahead s \<and>
    ((\<forall>a. \<not> outside_action a \<longrightarrow> run_action csv nodes a t = None) \<longrightarrow> all_tasks_over t \<and> in_flight t = {#})"
proof -
  have inv: "running_inv nodes t"
    using running_inv_actions [OF assms(3,2) running_inv_start [OF assms(1)]]
    by (rule running_inv_actions [OF assms(5,2)])
  note bound = stopped_run_bound [OF assms(5,4)]
  have "all_tasks_over t" if "\<forall>a. \<not> outside_action a \<longrightarrow> run_action csv nodes a t = None"
    using that bound by (intro stopped_rest [OF inv]) auto
  with bound over_nothing_in_flight [OF inv] show ?thesis by simp
qed

theorem shutdown_ends_all_tasks_witness:
  "rn_stopped stopped_state \<and> length stopping_actions \<le> work_ahead stopped_state \<and> in_flight stopped_end = {#}"
proof -
  note ends = shutdown_ends_all_tasks [OF busy_run busy_named stopped_state_ok [unfolded busy_start_def]
      stopped_state_stopped stopped_end_ok]
  moreover have "filter (\<lambda>a. \<not> outside_action a) stopping_actions = stopping_actions" by (simp add: stopping_actions_def)
  ultimately show ?thesis using stopped_end_rests stopped_state_stopped by simp
qed

text \<open>C11. Left alone, every payment is counted. Whatever the order in which the tasks behind the events
  task go on from a state of a running simulation, they come to rest within the work that was left:
  the two channels of capacity one never block them for good. If no shutdown is under way when they
  rest, nothing is on its way any more and every payment dispatched so far was counted.\<close>

theorem undisturbed_payments_counted:
  assumes "internal_run env cfg supports_keysend nodes now activity r = Some (out, r1)" and "outcome out = Inr ()"
    and "nodes_named nodes" and "run_actions csv nodes as (start_running csv t0 world out r1) = Some s"
    and "run_actions csv nodes bs s = Some t" and "list_all (\<lambda>a. pipeline_action a \<or> outside_action a) bs"
  shows "length (filter pipeline_action bs) \<le> work_ahead s \<and>
    ((\<forall>a. pipeline_action a \<longrightarrow> run_action csv nodes a t = None) \<and> \<not> stopping t \<longrightarrow>
       in_flight t = {#} \<and>
       mset (map row_key (past_counted t)) = mset (map dispatch_key (past_dispatched t)) \<and>
       total_attempts (cn_logger (snd (rn_consumer t))) = of_nat (length (past_dispatched t)))"
proof -
  have inv: "running_inv nodes t"
    using running_inv_actions [OF assms(4,3) running_inv_start [OF assms(1)]]
    by (rule running_inv_actions [OF assms(5,3)])
  have counted: "counted_inv csv (\<lambda>_. []) (\<lambda>_. []) (cfg_write_results cfg) t"
    using counted_inv_actions [OF assms(4) counted_inv_start [OF assms(1,2)]]
    by (rule counted_inv_actions [OF assms(5)])
  have all: "in_flight t = {#} \<and> mset (map row_key (past_counted t)) = mset (map dispatch_key (past_dispatched t))"
    if "\<forall>a. pipeline_action a \<longrightarrow> run_action csv nodes a t = None" and "\<not> stopping t"
    using that inv pipeline_rest [OF inv, of csv] by (simp add: running_inv_def all_payments_kept_def)
  then have "length (past_counted t) = length (past_dispatched t)"
    if "\<forall>a. pipeline_action a \<longrightarrow> run_action csv nodes a t = None" and "\<not> stopping t"
    using that by (metis length_map size_mset)
  with all counted_total [OF counted] pipeline_run_bound [OF assms(5,6)] show ?thesis by simp
qed

theorem undisturbed_payments_counted_witness:
  "in_flight drained_state = {#} \<and> total_attempts (cn_logger (snd (rn_consumer drained_state))) = 2"
proof -
  have "list_all (\<lambda>a. pipeline_action a \<or> outside_action a) draining" by (simp add: draining_def)
  note drained = undisturbed_payments_counted [OF busy_run busy_ok busy_named busy_state_ok [unfolded busy_start_def]
      drained_state_ok this]
  with drained_state_rests drained_state_value show ?thesis by simp
qed

text \<open>C20. What the results of defined activities say, in a running simulation. For any source let \<open>act\<close> be
  the last activity of the file with that source and \<open>acts\<close> the others (none, when the sources are
  distinct). At any moment, each result counted for the source is of a payment to the destination of one
  of them with an amount of its range, all but at most one for each of \<open>acts\<close> are payments of \<open>act\<close>, and
  there are no more of them than the count of \<open>act\<close>; and when the events task has ended before any
  shutdown, the payments of that source on their way, counted or dropped are exactly as many as that
  count.\<close>

theorem defined_results_reported:
  assumes "internal_run env cfg supports_keysend nodes now activity r = Some (out, r1)" and "outcome out = Inr ()"
    and "nodes_named nodes" and "run_actions csv nodes as (start_running csv t0 world out r1) = Some s"
    and "range_ops_ok (env_range env)" and "activities_of src activity = acts @ [act]"
  shows "(\<forall>row \<in> set (past_counted s). pay_source (fst row) = src \<longrightarrow>
       (\<exists>act' \<in> set (acts @ [act]). key_pays act' (row_key row))) \<and>
    length (filter (\<lambda>row. pay_source (fst row) = src \<and> \<not> key_pays act (row_key row)) (past_counted s)) \<le> length acts \<and>
    (\<forall>c. act_count act = Some c \<longrightarrow>
       length (filter (\<lambda>row. pay_source (fst row) = src) (past_counted s)) \<le> unat c \<and>
       (rn_events s = EventsOver (Some (Inr ())) \<and> \<not> rn_stopped s \<longrightarrow>
          size (filter_mset (\<lambda>k. fst k = src)
            (in_flight s + mset (map row_key (past_counted s)) + mset (past_dropped s))) = unat c))"
proof -
  from start_running_ok [OF assms(1,2), of csv t0 world] obtain heap trackers where
    task: "EventsTask heap trackers \<in> set (spawned_tasks out)"
    and start: "events_refine nodes heap trackers r1 (start_running csv t0 world out r1)"
    by (metis events_refine_start)
  from events_refined_run [OF events_refine_actions [OF assms(4) start]] obtain ticks run r2 where
    run: "produce_payment_events (hm_contains nodes) ticks heap trackers r1 = Some (run, r2)"
    and sent: "run_dispatches run = past_dispatched s"
    and over: "\<And>res. rn_events s = EventsOver (Some res) \<Longrightarrow> run_end run = Ended res"
    and calm: "\<not> rn_stopped s \<Longrightarrow> no_stop ticks" by metis
  note pays = defined_run_pays [OF assms(1,2) task run assms(5,6), unfolded sent]
  have inv: "running_inv nodes s"
    by (rule running_inv_actions [OF assms(4,3) running_inv_start [OF assms(1)]])
  then have kept: "mset (map dispatch_key (past_dispatched s)) =
      in_flight s + mset (map row_key (past_counted s)) + mset (past_dropped s)"
    by (simp add: running_inv_def all_payments_kept_def)
  have rows: "\<exists>act' \<in> set (acts @ [act]). key_pays act' (row_key row)"
    if "row \<in> set (past_counted s)" "pay_source (fst row) = src" for row
  proof -
    have "row_key row \<in># mset (map dispatch_key (past_dispatched s))" unfolding kept using that by simp
    then obtain d where d: "d \<in> set (past_dispatched s)" "row_key row = dispatch_key d" by auto
    then have "dp_source d = src" using that(2) row_key_source [of row] dispatch_key_source [of d] by simp
    with pays d(1) obtain act' where "act' \<in> set (acts @ [act])" "pays_for act' d" by blast
    with key_pays_dispatch [of act' d] show ?thesis unfolding d(2) by blast
  qed
  have number: "size (filter_mset Q (mset (map row_key (past_counted s)))) \<le> length (filter (\<lambda>d. Q (dispatch_key d)) (past_dispatched s))"
    for Q :: "payment_key \<Rightarrow> bool"
    unfolding size_keys [symmetric] kept by simp
  have all: "dispatched_from src (past_dispatched s) = size (filter_mset (\<lambda>k. fst k = src)
      (in_flight s + mset (map row_key (past_counted s)) + mset (past_dropped s)))"
    unfolding kept [symmetric] size_keys by (simp add: dispatched_from_def dispatch_key_source)
  have "length (filter (\<lambda>row. pay_source (fst row) = src \<and> \<not> key_pays act (row_key row)) (past_counted s)) \<le>
      length (filter (\<lambda>d. dp_source d = src \<and> \<not> key_pays act (dispatch_key d)) (past_dispatched s))"
    using number [of "\<lambda>k. fst k = src \<and> \<not> key_pays act k"] unfolding size_keys by (simp add: row_key_source dispatch_key_source)
  also have "\<dots> \<le> length (filter (\<lambda>d. dp_source d = src \<and> \<not> pays_for act d) (past_dispatched s))"
    by (intro filter_length_mono) (auto simp: key_pays_dispatch)
  also have "\<dots> \<le> length acts" using pays by blast
  finally have strays: "length (filter (\<lambda>row. pay_source (fst row) = src \<and> \<not> key_pays act (row_key row)) (past_counted s))
      \<le> length acts" .
  have "length (filter (\<lambda>row. pay_source (fst row) = src) (past_counted s)) \<le> dispatched_from src (past_dispatched s)"
    using number [of "\<lambda>k. fst k = src"] unfolding size_keys by (simp add: row_key_source dispatch_key_source dispatched_from_def)
  with pays over calm all have "length (filter (\<lambda>row. pay_source (fst row) = src) (past_counted s)) \<le> unat c \<and>
       (rn_events s = EventsOver (Some (Inr ())) \<and> \<not> rn_stopped s \<longrightarrow>
          size (filter_mset (\<lambda>k. fst k = src)
            (in_flight s + mset (map row_key (past_counted s)) + mset (past_dropped s))) = unat c)"
    if "act_count act = Some c" for c using that by (auto intro: le_trans)
  with rows strays show ?thesis by blast
qed

theorem defined_results_reported_witness:
  "length (filter (\<lambda>row. pay_source (fst row) = PublicKey 1) (past_counted busy_state)) \<le> 2 \<and>
   list_all (\<lambda>row. pay_source (fst row) = PublicKey 1 \<longrightarrow> pay_destination (fst row) = PublicKey 2)
     (past_counted busy_state)"
proof -
  have "activities_of (PublicKey 1) [demo_activity] = [] @ [demo_activity]" "range_ops_ok (env_range demo_env)"
    "act_count demo_activity = Some 2" "pubkey (act_destination demo_activity) = PublicKey 2"
    by (auto simp: activities_of_def demo_activity_def demo_info_def range_ops_ok_def gen_range_ok_def demo_env_def)
  then show ?thesis
    using defined_results_reported [OF busy_run busy_ok busy_named busy_state_ok [unfolded busy_start_def],
        of "PublicKey 1" "[]" demo_activity]
    by (auto simp: list_all_iff key_pays_def row_key_def payment_key_of_def)
qed

text \<open>C28. What is on its way when a shutdown begins may be left out of the results. The events task triggers
  the shutdown as soon as it has no more payments to dispatch, and the consumer prefers the shutdown to
  the results that wait for it. So from every state of a running simulation in which a shutdown is under
  way and the consumer has not ended, there is a run in which every task ends, nothing more is counted,
  and exactly the payments that were on their way, those that succeeded among them, are dropped: the
  totals of the logger stay as they were.\<close>

theorem last_payments_dropped:
  assumes "internal_run env cfg supports_keysend nodes now activity r = Some (out, r1)" and "outcome out = Inr ()"
    and "nodes_named nodes" and "run_actions csv nodes as (start_running csv t0 world out r1) = Some s"
    and "stopping s" and "\<not> consumer_over s"
  shows "\<exists>bs t. run_actions csv nodes bs s = Some t \<and> all_tasks_over t \<and> past_dispatched t = past_dispatched s \<and>
    past_counted t = past_counted s \<and> mset (past_dropped t) = mset (past_dropped s) + in_flight s \<and>
    total_attempts (cn_logger (snd (rn_consumer t))) = of_nat (length (past_counted s))"
proof -
  have "running_inv nodes s"
    by (rule running_inv_actions [OF assms(4,3) running_inv_start [OF assms(1)]])
  from consumer_quits_first [OF this assms(3,5,6)] obtain bs t where
    t: "run_actions csv nodes bs s = Some t" "all_tasks_over t" "past_dispatched t = past_dispatched s"
    "past_counted t = past_counted s" "mset (past_dropped t) = mset (past_dropped s) + in_flight s" by blast
  have "counted_inv csv (\<lambda>_. []) (\<lambda>_. []) (cfg_write_results cfg) t"
    using counted_inv_actions [OF assms(4) counted_inv_start [OF assms(1,2)]]
    by (rule counted_inv_actions [OF t(1)])
  with t show ?thesis by (metis counted_total)
qed

text \<open>Both payments of the activity were dispatched, sent and tracked with success when the events task ends.\<close>

theorem last_payments_dropped_witness:
  "length (past_dispatched late_state) = 2 \<and> past_counted late_state = [] \<and>
   list_all (\<lambda>t. case t of SendingResult p result \<Rightarrow> payment_outcome result = Success | _ \<Rightarrow> False) (rn_tracks late_state) \<and>
   length (rn_tracks late_state) = 2 \<and>
   (\<exists>bs t. run_actions demo_csv busy_nodes bs late_state = Some t \<and> all_tasks_over t \<and> past_counted t = [] \<and>
      length (past_dropped t) = 2)"
proof -
  from last_payments_dropped [OF busy_run busy_ok busy_named late_state_ok [unfolded busy_start_def] late_state_value(1,2)]
  obtain bs t where "run_actions demo_csv busy_nodes bs late_state = Some t" "all_tasks_over t"
    "past_counted t = past_counted late_state" and drop: "mset (past_dropped t) = mset (past_dropped late_state) + in_flight late_state"
    by blast
  moreover have "length (past_dropped t) = 2"
    using arg_cong [OF drop, of size] late_state_value(4,5) by simp
  ultimately show ?thesis using late_state_value by auto
qed

end
