(* ===== verification/Network_Run.thy ===== *)
theory Network_Run
  imports Network_Setup Task_Lists
begin

section \<open>A simulated network at work (simln-lib/src/sim_node.rs)\<close>

text \<open>
  The parts of the simulated network together: the nodes with their payments in flight, the one-shot
  channels that carry results, and the tasks that \<open>dispatch_payment\<close> spawns, which share the channels of
  the graph. Any node may send, any task may take its next section under the lock, and any payment
  may be tracked, in any order.

  A one-shot channel is known by its number. Its receiver is in a payment in flight or with a call
  of \<open>track_payment\<close> that waits; its sender was dropped, was used at once, or is with a task, which uses
  it when it reports and drops it when it panics. The environment of a call (the preimage drawn, the
  route found, the clock, the scorer's lock) is chosen anew for each.
\<close>

record network_run =
  nw_world :: sim_world
  nw_channels :: channels
  nw_tasks :: "(nat \<times> payment_request \<times> task) list"
  nw_waiting :: "(pubkey \<times> payment_hash \<times> in_flight_payment) list"
  past_accepted :: "(pubkey \<times> payment_hash \<times> nat) list"
  past_tracked :: "(pubkey \<times> payment_hash \<times> nat \<times> (lightning_error + payment_result)) list"

definition network_start :: "sim_graph \<Rightarrow> (pubkey, sim_node) hmap \<Rightarrow> network_run" where
  "network_start g sims =
     \<lparr>nw_world = \<lparr>sw_node = (\<lambda>pk. case hm_get sims pk of
                       Some node \<Rightarrow> node
                     | None \<Rightarrow> \<lparr>sn_info = \<lparr>pubkey = pk, node_alias = [], features = NodeFeatures []\<rparr>,
                                sn_in_flight = hm_new\<rparr>),
                  sw_channels_made = 0, sw_fates = [], sw_scores = []\<rparr>,
      nw_channels = sg_channels g, nw_tasks = [], nw_waiting = [], past_accepted = [], past_tracked = []\<rparr>"

text \<open>What the receiver of a channel meets; nothing yet while the task with the sender is under way.\<close>

definition sender_event :: "network_run \<Rightarrow> nat \<Rightarrow> track_event option" where
  "sender_event s rx =
     (case map_of (sw_fates (nw_world s)) rx of
        None \<Rightarrow> None
      | Some SenderDropped \<Rightarrow> Some (ReceiverClosed ''channel closed'')
      | Some (SenderSent result) \<Rightarrow> Some (ReceiverGot (Inr result))
      | Some (SenderSpawned req) \<Rightarrow>
          (case map_of (nw_tasks s) rx of
             Some (_, Reported _ (Some result)) \<Rightarrow> Some (ReceiverGot (Inr result))
           | Some (_, Reported _ None) \<Rightarrow> Some (ReceiverClosed ''channel closed'')
           | _ \<Rightarrow> None))"

datatype network_action =
    NetSend sim_env pubkey pubkey u64
  | NetTask nat joins
  | NetTrack pubkey payment_hash
  | NetResult nat sim_env
  | NetShutdown nat sim_env

text \<open>A node sends: the call of the trait, and the task spawned when the payment was dispatched.\<close>

definition net_send ::
  "sim_graph \<Rightarrow> sim_env \<Rightarrow> pubkey \<Rightarrow> pubkey \<Rightarrow> u64 \<Rightarrow> network_run \<Rightarrow> network_run" where
  "net_send g env pk dest amt s =
     (let rx = sw_channels_made (nw_world s);
          (res, world) = ln_send_payment (sim_lightning_node env g (sw_node (nw_world s) pk)) dest amt (nw_world s)
      in s\<lparr>nw_world := world,
           nw_tasks := nw_tasks s @
             (case snd (last (sw_fates world)) of SenderSpawned req \<Rightarrow> [(rx, req, start_task req)] | _ \<Rightarrow> []),
           past_accepted := past_accepted s @ (case res of Inl _ \<Rightarrow> [] | Inr hash \<Rightarrow> [(pk, hash, rx)])\<rparr>)"

definition net_task :: "nat \<Rightarrow> joins \<Rightarrow> network_run \<Rightarrow> network_run option" where
  "net_task i joins s =
     (if i < length (nw_tasks s)
      then (case nw_tasks s ! i of (rx, req, t) \<Rightarrow>
             (case task_step req joins t (nw_channels s) of (t', channels) \<Rightarrow>
                Some (s\<lparr>nw_channels := channels, nw_tasks := (nw_tasks s)[i := (rx, req, t')]\<rparr>)))
      else None)"

text \<open>\<open>track_payment\<close> takes the payment from the map before it waits.\<close>

definition net_track :: "pubkey \<Rightarrow> payment_hash \<Rightarrow> network_run \<Rightarrow> network_run option" where
  "net_track pk hash s =
     (case hm_get (sn_in_flight (sw_node (nw_world s) pk)) hash of
        None \<Rightarrow> None
      | Some p \<Rightarrow>
          (let w = nw_world s; node = sw_node w pk;
               node' = node\<lparr>sn_in_flight := hm_remove hash (sn_in_flight node)\<rparr>
           in Some (s\<lparr>nw_world := w\<lparr>sw_node := (sw_node w)(pk := node')\<rparr>,
                      nw_waiting := nw_waiting s @ [(pk, hash, p)]\<rparr>)))"

text \<open>A call that waits returns.\<close>

definition end_wait :: "nat \<Rightarrow> sim_env \<Rightarrow> track_event \<Rightarrow> network_run \<Rightarrow> network_run" where
  "end_wait i env event s =
     (case nw_waiting s ! i of (pk, hash, p) \<Rightarrow>
        (case await_result p (unix_time env (nw_world s)) (scorer_poisoned env (nw_world s)) event of
           (res, updates) \<Rightarrow>
             s\<lparr>nw_world := (nw_world s)\<lparr>sw_scores := sw_scores (nw_world s) @ map (Pair pk) updates\<rparr>,
               nw_waiting := remove_at i (nw_waiting s),
               past_tracked := past_tracked s @ [(pk, hash, track_payment_receiver p, res)]\<rparr>))"

definition net_result :: "nat \<Rightarrow> sim_env \<Rightarrow> network_run \<Rightarrow> network_run option" where
  "net_result i env s =
     (if i < length (nw_waiting s)
      then map_option (\<lambda>event. end_wait i env event s)
             (sender_event s (track_payment_receiver (snd (snd (nw_waiting s ! i)))))
      else None)"

fun net_action :: "sim_graph \<Rightarrow> network_action \<Rightarrow> network_run \<Rightarrow> network_run option" where
  "net_action g (NetSend env pk dest amt) s =
     (if hm_contains (sg_nodes g) pk then Some (net_send g env pk dest amt s) else None)"
| "net_action g (NetTask i joins) s = net_task i joins s"
| "net_action g (NetTrack pk hash) s = net_track pk hash s"
| "net_action g (NetResult i env) s = net_result i env s"
| "net_action g (NetShutdown i env) s =
     (if i < length (nw_waiting s) then Some (end_wait i env ListenerTriggered s) else None)"

definition net_actions :: "sim_graph \<Rightarrow> network_action list \<Rightarrow> network_run \<Rightarrow> network_run option" where
  "net_actions g = fold_opt (net_action g)"

end
