(* ===== verification/Network_Run_Laws.thy ===== *)
theory Network_Run_Laws
  imports Network_Run
begin

section \<open>Laws of a simulated network at work\<close>

text \<open>
  Each result channel belongs to one accepted payment, has one sender and is waited for once; what its
  receiver meets never changes; and the tasks are tasks of \<open>Interleaving\<close>, whatever the calls between
  their sections.
\<close>

subsection \<open>What the calls do\<close>

definition accept_payment ::
  "pubkey \<Rightarrow> payment_hash \<Rightarrow> path option \<Rightarrow> sender_fate \<Rightarrow> network_run \<Rightarrow> network_run" where
  "accept_payment pk hash path fate s =
     (let w = nw_world s; rx = sw_channels_made w; node = sw_node w pk;
          node' = node\<lparr>sn_in_flight := hm_insert hash \<lparr>track_payment_receiver = rx, ifp_path = path\<rparr> (sn_in_flight node)\<rparr>
      in s\<lparr>nw_world := w\<lparr>sw_node := (sw_node w)(pk := node'), sw_channels_made := Suc rx,
                        sw_fates := sw_fates w @ [(rx, fate)]\<rparr>,
           nw_tasks := nw_tasks s @ (case fate of SenderSpawned req \<Rightarrow> [(rx, req, start_task req)] | _ \<Rightarrow> []),
           past_accepted := past_accepted s @ [(pk, hash, rx)]\<rparr>)"

text \<open>The fate that belongs to an accepted payment.\<close>

definition own_fate :: "sim_graph \<Rightarrow> pubkey \<Rightarrow> payment_hash \<Rightarrow> sender_fate \<Rightarrow> bool" where
  "own_fate g pk hash fate \<longleftrightarrow>
     (case fate of
        SenderDropped \<Rightarrow> False
      | SenderSent result \<Rightarrow> payment_outcome result = RouteNotFound
      | SenderSpawned req \<Rightarrow> pr_source req = pk \<and> pr_payment_hash req = hash \<and>
          pr_interceptors req = sg_interceptors g)"

lemma net_send_cases:
  assumes "pubkey (sn_info (sw_node (nw_world s) pk)) = pk"
  obtains (refused) "net_send g env pk dest amt s =
      s\<lparr>nw_world := (nw_world s)\<lparr>sw_channels_made := Suc (sw_channels_made (nw_world s)),
          sw_fates := sw_fates (nw_world s) @ [(sw_channels_made (nw_world s), SenderDropped)]\<rparr>\<rparr>"
  | (accepted) hash path fate where "own_fate g pk hash fate"
      "hm_get (sn_in_flight (sw_node (nw_world s) pk)) hash = None"
      "net_send g env pk dest amt s = accept_payment pk hash path fate s"
proof -
  let ?w = "nw_world s"
  let ?node = "sw_node ?w pk"
  let ?rx = "sw_channels_made ?w"
  obtain r node' fate where send: "send_payment g ?node ?rx (draw_hash env ?w)
      (find_route env pk dest amt ?w) = (r, node', fate)"
    by (metis prod_cases3)
  then have net: "net_send g env pk dest amt s =
      s\<lparr>nw_world := ?w\<lparr>sw_node := (sw_node ?w)(pk := node'), sw_channels_made := Suc ?rx,
           sw_fates := sw_fates ?w @ [(?rx, fate)]\<rparr>,
        nw_tasks := nw_tasks s @ (case fate of SenderSpawned req \<Rightarrow> [(?rx, req, start_task req)] | _ \<Rightarrow> []),
        past_accepted := past_accepted s @ (case r of Inl _ \<Rightarrow> [] | Inr hash \<Rightarrow> [(pk, hash, ?rx)])\<rparr>"
    using assms by (simp add: net_send_def sim_lightning_node_def Let_def)
  show thesis
  proof (cases r)
    case (Inl e)
    with send have "node' = ?node" "fate = SenderDropped"
      by (auto simp: send_payment_def split: sum.splits if_splits)
    with net Inl refused show thesis by simp
  next
    case (Inr hash)
    from send [unfolded Inr] obtain path where "own_fate g pk hash fate"
      and "hm_get (sn_in_flight ?node) hash = None"
      and "node' = ?node\<lparr>sn_in_flight := hm_insert hash \<lparr>track_payment_receiver = ?rx, ifp_path = path\<rparr>
             (sn_in_flight ?node)\<rparr>"
      using assms
      by (fastforce simp: send_payment_def dispatch_payment_def own_fate_def hm_contains_def
          split: sum.splits if_splits list.splits)
    with net Inr accepted show thesis by (simp add: accept_payment_def Let_def)
  qed
qed

subsection \<open>The invariant\<close>

definition spawned_of :: "(nat \<times> sender_fate) list \<Rightarrow> (nat \<times> payment_request) list" where
  "spawned_of fates = concat (map (\<lambda>(rx, fate). case fate of SenderSpawned req \<Rightarrow> [(rx, req)] | _ \<Rightarrow> []) fates)"

lemma spawned_of_append [simp]:
  "spawned_of (fates @ [(rx, fate)]) = spawned_of fates @ (case fate of SenderSpawned req \<Rightarrow> [(rx, req)] | _ \<Rightarrow> [])"
  by (cases fate) (simp_all add: spawned_of_def)

lemma spawned_of_set: "(rx, req) \<in> set (spawned_of fates) \<longleftrightarrow> (rx, SenderSpawned req) \<in> set fates"
  by (auto simp: spawned_of_def split: sender_fate.splits)

lemma spawned_of_distinct: "distinct (map fst fates) \<Longrightarrow> distinct (map fst (spawned_of fates))"
proof (induction fates)
  case (Cons f fates)
  obtain rx fate where f: "f = (rx, fate)" by (cases f)
  have "rx \<notin> fst ` set (spawned_of fates)"
    using Cons.prems spawned_of_set [of rx _ fates] unfolding f by force
  with Cons f show ?case by (auto simp: spawned_of_def split: sender_fate.split)
qed (simp add: spawned_of_def)

abbreviation task_requests :: "network_run \<Rightarrow> payment_request list" where
  "task_requests s \<equiv> map (\<lambda>(rx, req, t). req) (nw_tasks s)"

abbreviation task_states :: "network_run \<Rightarrow> task list" where
  "task_states s \<equiv> map (\<lambda>(rx, req, t). t) (nw_tasks s)"

definition channels_inv :: "sim_graph \<Rightarrow> network_run \<Rightarrow> bool" where
  "channels_inv g s \<longleftrightarrow>
     (\<forall>pk. pubkey (sn_info (sw_node (nw_world s) pk)) = pk) \<and>
     map fst (sw_fates (nw_world s)) = [0..<sw_channels_made (nw_world s)] \<and>
     map (\<lambda>(rx, req, t). (rx, req)) (nw_tasks s) = spawned_of (sw_fates (nw_world s)) \<and>
     (\<forall>(pk, hash, rx) \<in> set (past_accepted s).
        \<exists>fate. (rx, fate) \<in> set (sw_fates (nw_world s)) \<and> own_fate g pk hash fate) \<and>
     distinct (map (\<lambda>(pk, hash, rx). rx) (past_accepted s)) \<and>
     (\<forall>(rx, fate) \<in> set (sw_fates (nw_world s)). \<forall>req. fate = SenderSpawned req \<longrightarrow>
        pr_interceptors req = sg_interceptors g)"

definition receivers :: "network_run \<Rightarrow> nat list" where
  "receivers s = map (\<lambda>(pk, hash, p). track_payment_receiver p) (nw_waiting s) @
     map (\<lambda>(pk, hash, rx, res). rx) (past_tracked s)"

definition tracking_inv :: "network_run \<Rightarrow> bool" where
  "tracking_inv s \<longleftrightarrow>
     (\<forall>pk hash p. hm_get (sn_in_flight (sw_node (nw_world s) pk)) hash = Some p \<longrightarrow>
        (pk, hash, track_payment_receiver p) \<in> set (past_accepted s) \<and>
        track_payment_receiver p \<notin> set (receivers s)) \<and>
     (\<forall>(pk, hash, p) \<in> set (nw_waiting s). (pk, hash, track_payment_receiver p) \<in> set (past_accepted s)) \<and>
     (\<forall>(pk, hash, rx, res) \<in> set (past_tracked s). (pk, hash, rx) \<in> set (past_accepted s) \<and>
        (\<forall>result. res = Inr result \<longrightarrow> sender_event s rx = Some (ReceiverGot (Inr result)))) \<and>
     distinct (receivers s)"

definition tasks_reached :: "sim_graph \<Rightarrow> network_run \<Rightarrow> bool" where
  "tasks_reached g s \<longleftrightarrow>
     (net_step (task_requests s))\<^sup>*\<^sup>* (map start_task (task_requests s), sg_channels g) (task_states s, nw_channels s)"

definition network_inv :: "sim_graph \<Rightarrow> network_run \<Rightarrow> bool" where
  "network_inv g s \<longleftrightarrow> channels_inv g s \<and> tracking_inv s \<and> tasks_reached g s"

lemma fate_lookup:
  "channels_inv g s \<Longrightarrow> map_of (sw_fates (nw_world s)) rx = Some fate \<longleftrightarrow> (rx, fate) \<in> set (sw_fates (nw_world s))"
  by (simp add: channels_inv_def)

lemma spawned_task:
  assumes "channels_inv g s"
  shows "(rx, SenderSpawned req) \<in> set (sw_fates (nw_world s)) \<longleftrightarrow> (\<exists>t. (rx, req, t) \<in> set (nw_tasks s))"
proof -
  have eq: "map (\<lambda>(rx, req, t). (rx, req)) (nw_tasks s) = spawned_of (sw_fates (nw_world s))"
    using assms by (simp add: channels_inv_def)
  show ?thesis unfolding spawned_of_set [symmetric] eq [symmetric] by force
qed

text \<open>What a receiver has met stays.\<close>

lemma fates_fresh:
  assumes "channels_inv g s"
  shows "map_of (sw_fates (nw_world s)) (sw_channels_made (nw_world s)) = None"
    and "(pk, hash, rx) \<in> set (past_accepted s) \<Longrightarrow> rx < sw_channels_made (nw_world s)"
proof -
  from assms have fst: "fst ` set (sw_fates (nw_world s)) = {0..<sw_channels_made (nw_world s)}"
    by (metis channels_inv_def list.set_map set_upt)
  then show "map_of (sw_fates (nw_world s)) (sw_channels_made (nw_world s)) = None"
    by (simp add: map_of_eq_None_iff)
  show "rx < sw_channels_made (nw_world s)" if "(pk, hash, rx) \<in> set (past_accepted s)"
  proof -
    from assms that obtain fate where "(rx, fate) \<in> set (sw_fates (nw_world s))"
      by (auto simp: channels_inv_def)
    then have "rx \<in> fst ` set (sw_fates (nw_world s))" by (auto intro: rev_image_eqI)
    with fst show ?thesis by auto
  qed
qed

lemma sender_event_same:
  "sw_fates (nw_world t) = sw_fates (nw_world s) \<Longrightarrow> nw_tasks t = nw_tasks s \<Longrightarrow> sender_event t rx = sender_event s rx"
  unfolding sender_event_def by presburger

lemma sender_event_append:
  assumes "sender_event s rx = Some e"
    and "sw_fates (nw_world t) = sw_fates (nw_world s) @ fs" and "nw_tasks t = nw_tasks s @ ts"
  shows "sender_event t rx = Some e"
  using assms
  by (auto simp: sender_event_def map_add_def split: option.splits sender_fate.splits)

lemma map_of_update:
  "distinct (map fst xs) \<Longrightarrow> i < length xs \<Longrightarrow> fst (xs ! i) = k \<Longrightarrow> map_of (xs[i := (k, v)]) = (map_of xs)(k \<mapsto> v)"
proof (induction xs arbitrary: i)
  case (Cons x xs)
  show ?case
  proof (cases i)
    case 0
    with Cons.prems show ?thesis by (auto simp: fun_eq_iff)
  next
    case (Suc j)
    with Cons.prems have "xs ! j \<in> set xs" by simp
    with Cons.prems Suc have "fst x \<noteq> k" by (auto simp: image_iff)
    with Suc Cons show ?thesis by (cases x) (auto simp: fun_eq_iff)
  qed
qed simp

lemma task_keys_distinct: "channels_inv g s \<Longrightarrow> distinct (map fst (nw_tasks s))"
proof -
  assume inv: "channels_inv g s"
  have "map fst (nw_tasks s) = map fst (map (\<lambda>(rx, req, t). (rx, req)) (nw_tasks s))" by (simp add: case_prod_unfold)
  also have "... = map fst (spawned_of (sw_fates (nw_world s)))" using inv by (simp add: channels_inv_def)
  finally show ?thesis using spawned_of_distinct inv by (simp add: channels_inv_def)
qed

lemma sender_event_task:
  assumes "channels_inv g s" and "i < length (nw_tasks s)" and "nw_tasks s ! i = (k, req, t)"
    and "task_step req joins t (nw_channels s) = (t', channels)" and "sender_event s rx = Some e"
  shows "sender_event (s\<lparr>nw_channels := channels, nw_tasks := (nw_tasks s)[i := (k, req, t')]\<rparr>) rx = Some e"
proof -
  note upd = map_of_update [OF task_keys_distinct [OF assms(1)] assms(2), of k "(req, t')"]
  have here: "map_of (nw_tasks s) k = Some (req, t)"
    using task_keys_distinct [OF assms(1)] assms(2,3) by (metis map_of_is_SomeI nth_mem)
  show ?thesis
    using assms(3-5) upd here
    by (cases t) (auto simp: sender_event_def split: option.splits sender_fate.splits)
qed

subsection \<open>Every action keeps the invariant\<close>

lemma net_step_extend:
  assumes "(net_step reqs)\<^sup>*\<^sup>* s t" and "length (fst s) = length reqs"
  shows "(net_step (reqs @ [q]))\<^sup>*\<^sup>* (fst s @ [u], snd s) (fst t @ [u], snd t) \<and> length (fst t) = length reqs"
  using assms
proof (induction rule: rtranclp_induct)
  case (step t1 t2)
  from step.hyps(2) obtain j joins t' nodes' where j: "j < length (fst t1)"
    "task_step (reqs ! j) joins (fst t1 ! j) (snd t1) = (t', nodes')" "t2 = ((fst t1)[j := t'], nodes')"
    by (cases t1) (auto elim: net_stepE)
  from step have len: "length (fst t1) = length reqs" by simp
  have "net_step (reqs @ [q]) (fst t1 @ [u], snd t1) ((fst t1 @ [u])[j := t'], nodes')"
    using j len by (intro net_step [where joins = joins]) (simp_all add: nth_append)
  with step j len show ?case by (auto simp: list_update_append1 intro: rtranclp.rtrancl_into_rtrancl)
qed simp

lemma inv_refused:
  assumes "network_inv g s"
  shows "network_inv g (s\<lparr>nw_world := (nw_world s)\<lparr>sw_channels_made := Suc (sw_channels_made (nw_world s)),
    sw_fates := sw_fates (nw_world s) @ [(sw_channels_made (nw_world s), SenderDropped)]\<rparr>\<rparr>)" (is "network_inv g ?t")
proof -
  have inv: "channels_inv g s" "tracking_inv s" "tasks_reached g s" using assms by (simp_all add: network_inv_def)
  have "channels_inv g ?t"
    using inv(1) by (fastforce simp: channels_inv_def map_add_def split: option.split)
  moreover have "sender_event ?t rx = Some e" if "sender_event s rx = Some e" for rx e
    by (rule sender_event_append [OF that]) simp_all
  then have "tracking_inv ?t" using inv(2) by (fastforce simp: tracking_inv_def receivers_def)
  moreover have "tasks_reached g ?t" using inv(3) by (simp add: tasks_reached_def)
  ultimately show ?thesis by (simp add: network_inv_def)
qed

lemma inv_accepted:
  assumes "network_inv g s" and "own_fate g pk hash fate"
    and "hm_get (sn_in_flight (sw_node (nw_world s) pk)) hash = None"
  shows "network_inv g (accept_payment pk hash path fate s)" (is "network_inv g ?t")
proof -
  have inv: "channels_inv g s" "tracking_inv s" "tasks_reached g s" using assms(1) by (simp_all add: network_inv_def)
  let ?rx = "sw_channels_made (nw_world s)"
  note fresh = fates_fresh [OF inv(1)]
  have new: "rx \<noteq> ?rx" if "(pk', hash', rx) \<in> set (past_accepted s)" for pk' hash' rx
    using fresh(2) [OF that] by simp
  have fates: "sw_fates (nw_world ?t) = sw_fates (nw_world s) @ [(?rx, fate)]"
    and tasks: "nw_tasks ?t = nw_tasks s @ (case fate of SenderSpawned req \<Rightarrow> [(?rx, req, start_task req)] | _ \<Rightarrow> [])"
    and accepted: "past_accepted ?t = past_accepted s @ [(pk, hash, ?rx)]"
    and rest: "nw_waiting ?t = nw_waiting s" "past_tracked ?t = past_tracked s" "nw_channels ?t = nw_channels s"
      "sw_channels_made (nw_world ?t) = Suc ?rx"
    by (simp_all add: accept_payment_def Let_def)
  have node: "sn_info (sw_node (nw_world ?t) k) = sn_info (sw_node (nw_world s) k)"
    "hm_get (sn_in_flight (sw_node (nw_world ?t) k)) h =
       (if k = pk \<and> h = hash then Some \<lparr>track_payment_receiver = ?rx, ifp_path = path\<rparr>
        else hm_get (sn_in_flight (sw_node (nw_world s) k)) h)" for k h
    by (simp_all add: accept_payment_def Let_def hm_get_insert)
  have "channels_inv g ?t"
  proof -
    have "\<forall>(rx, fate') \<in> set (sw_fates (nw_world ?t)). \<forall>req. fate' = SenderSpawned req \<longrightarrow>
        pr_interceptors req = sg_interceptors g"
      using inv(1) assms(2) unfolding fates channels_inv_def own_fate_def by auto
    moreover have "\<forall>(pk', hash', rx) \<in> set (past_accepted ?t).
        \<exists>fate'. (rx, fate') \<in> set (sw_fates (nw_world ?t)) \<and> own_fate g pk' hash' fate'"
      using inv(1) assms(2) unfolding fates accepted channels_inv_def by fastforce
    moreover have "distinct (map (\<lambda>(pk, hash, rx). rx) (past_accepted ?t))"
      using inv(1) new unfolding accepted channels_inv_def by force
    moreover have "map (\<lambda>(rx, req, t). (rx, req)) (nw_tasks ?t) = spawned_of (sw_fates (nw_world ?t))"
      using inv(1) unfolding fates tasks channels_inv_def by (cases fate) simp_all
    moreover have "map fst (sw_fates (nw_world ?t)) = [0..<sw_channels_made (nw_world ?t)]"
      using inv(1) unfolding fates rest channels_inv_def by simp
    ultimately show ?thesis using inv(1) unfolding channels_inv_def node by blast
  qed
  moreover have "tracking_inv ?t"
  proof -
    have kept: "sender_event ?t rx = Some e" if "sender_event s rx = Some e" for rx e
      by (rule sender_event_append [OF that fates tasks])
    have "receivers ?t = receivers s" by (simp add: receivers_def rest)
    moreover have "?rx \<notin> set (receivers s)"
      using inv(2) new by (fastforce simp: tracking_inv_def receivers_def)
    ultimately show ?thesis
      using inv(2) kept
      unfolding tracking_inv_def node(2) accepted rest by (fastforce split: if_splits)
  qed
  moreover have "tasks_reached g ?t"
  proof (cases "\<exists>req. fate = SenderSpawned req")
    case True
    then obtain req where "nw_tasks ?t = nw_tasks s @ [(?rx, req, start_task req)]"
      by (auto simp: tasks)
    then have "task_requests ?t = task_requests s @ [req]" "task_states ?t = task_states s @ [start_task req]"
      by simp_all
    with net_step_extend [OF inv(3) [unfolded tasks_reached_def], of req "start_task req"] show ?thesis
      by (simp add: tasks_reached_def rest)
  next
    case False
    then have "nw_tasks ?t = nw_tasks s" by (auto simp: tasks split: sender_fate.split)
    with inv(3) show ?thesis by (simp add: tasks_reached_def rest)
  qed
  ultimately show ?thesis by (simp add: network_inv_def)
qed

lemma inv_net_task:
  assumes "network_inv g s" and "net_task i joins s = Some t"
  shows "network_inv g t"
proof -
  have inv: "channels_inv g s" "tracking_inv s" "tasks_reached g s" using assms(1) by (simp_all add: network_inv_def)
  from assms(2) obtain k req u u' channels where i: "i < length (nw_tasks s)" "nw_tasks s ! i = (k, req, u)"
    and step: "task_step req joins u (nw_channels s) = (u', channels)"
    and t: "t = s\<lparr>nw_channels := channels, nw_tasks := (nw_tasks s)[i := (k, req, u')]\<rparr>"
    by (auto simp: net_task_def split: if_splits prod.splits)
  have same: "map (\<lambda>(rx, req, t). (rx, req)) (nw_tasks t) = map (\<lambda>(rx, req, t). (rx, req)) (nw_tasks s)"
    "task_requests t = task_requests s"
    unfolding t using i by (auto intro!: map_update_key)
  have "channels_inv g t" using inv(1) same(1) by (simp add: channels_inv_def t)
  moreover have "sender_event t rx = Some e" if "sender_event s rx = Some e" for rx e
    unfolding t by (rule sender_event_task [OF inv(1) i step that])
  then have "tracking_inv t" using inv(2) by (fastforce simp: tracking_inv_def receivers_def t)
  moreover have "net_step (task_requests s) (task_states s, nw_channels s) (task_states t, nw_channels t)"
  proof -
    have "task_states t = (task_states s)[i := u']" by (simp add: t map_update)
    with i step show ?thesis
      using net_step [of i "task_states s" "task_requests s" joins "nw_channels s" u' channels] by (simp add: t)
  qed
  with inv(3) have "tasks_reached g t"
    unfolding tasks_reached_def same(2) by (rule rtranclp.rtrancl_into_rtrancl)
  ultimately show ?thesis by (simp add: network_inv_def)
qed

lemma inv_net_track:
  assumes "network_inv g s" and "net_track pk hash s = Some t"
  shows "network_inv g t"
proof -
  have inv: "channels_inv g s" "tracking_inv s" "tasks_reached g s" using assms(1) by (simp_all add: network_inv_def)
  from assms(2) obtain p where p: "hm_get (sn_in_flight (sw_node (nw_world s) pk)) hash = Some p"
    by (auto simp: net_track_def split: option.splits)
  then have t: "t = s\<lparr>nw_world := (nw_world s)\<lparr>sw_node := (sw_node (nw_world s))(pk :=
        (sw_node (nw_world s) pk)\<lparr>sn_in_flight := hm_remove hash (sn_in_flight (sw_node (nw_world s) pk))\<rparr>)\<rparr>,
      nw_waiting := nw_waiting s @ [(pk, hash, p)]\<rparr>"
    using assms(2) by (simp add: net_track_def Let_def)
  from p inv(2) have own: "(pk, hash, track_payment_receiver p) \<in> set (past_accepted s)"
    and free: "track_payment_receiver p \<notin> set (receivers s)"
    by (simp_all add: tracking_inv_def)
  have node: "sn_info (sw_node (nw_world t) k) = sn_info (sw_node (nw_world s) k)"
    "hm_get (sn_in_flight (sw_node (nw_world t) k)) h =
       (if k = pk \<and> h = hash then None else hm_get (sn_in_flight (sw_node (nw_world s) k)) h)" for k h
    by (simp_all add: t hm_get_remove)
  have recv: "set (receivers t) = insert (track_payment_receiver p) (set (receivers s))"
    "distinct (receivers t)"
    using inv(2) free by (auto simp: receivers_def t tracking_inv_def)
  have "channels_inv g t" using inv(1) node(1) by (simp add: channels_inv_def t)
  moreover have "tracking_inv t"
  proof -
    have unique: "k = pk \<and> h = hash"
      if "(k, h, track_payment_receiver p) \<in> set (past_accepted s)" for k h
    proof -
      have "inj_on (\<lambda>(pk, hash, rx). rx) (set (past_accepted s))"
        using inv(1) by (simp add: channels_inv_def distinct_map)
      from inj_onD [OF this _ that own] show ?thesis by simp
    qed
    have flight: "(k, h, track_payment_receiver q) \<in> set (past_accepted s) \<and>
        track_payment_receiver q \<notin> set (receivers t)"
      if "hm_get (sn_in_flight (sw_node (nw_world t) k)) h = Some q" for k h q
    proof -
      from that node(2) have "\<not> (k = pk \<and> h = hash)"
        and "hm_get (sn_in_flight (sw_node (nw_world s) k)) h = Some q" by (auto split: if_splits)
      with inv(2) unique show ?thesis unfolding tracking_inv_def recv by fastforce
    qed
    have same: "past_accepted t = past_accepted s" "past_tracked t = past_tracked s"
      "nw_waiting t = nw_waiting s @ [(pk, hash, p)]"
      by (simp_all add: t)
    have event: "sender_event t rx = sender_event s rx" for rx
      unfolding t by (rule sender_event_same) simp_all
    show ?thesis
      using inv(2) flight own recv(2) unfolding tracking_inv_def same event by fastforce
  qed
  moreover have "tasks_reached g t" using inv(3) by (simp add: tasks_reached_def t)
  ultimately show ?thesis by (simp add: network_inv_def)
qed

text \<open>The result of a call that waited is what its receiver met.\<close>

lemma await_result_ok:
  "await_result p clock poisoned event = (Inr result, updates) \<Longrightarrow> event = ReceiverGot (Inr result)"
  by (auto simp: await_result_def split: track_event.splits sum.splits)

lemma inv_end_wait:
  assumes "network_inv g s" and "i < length (nw_waiting s)"
    and "event = ListenerTriggered \<or> sender_event s (track_payment_receiver (snd (snd (nw_waiting s ! i)))) = Some event"
  shows "network_inv g (end_wait i env event s)" (is "network_inv g ?t")
proof -
  have inv: "channels_inv g s" "tracking_inv s" "tasks_reached g s" using assms(1) by (simp_all add: network_inv_def)
  obtain pk hash p where w: "nw_waiting s ! i = (pk, hash, p)" by (metis prod_cases3)
  obtain res updates where res: "await_result p (unix_time env (nw_world s)) (scorer_poisoned env (nw_world s)) event
      = (res, updates)" by (metis prod.collapse)
  have t: "?t = s\<lparr>nw_world := (nw_world s)\<lparr>sw_scores := sw_scores (nw_world s) @ map (Pair pk) updates\<rparr>,
      nw_waiting := remove_at i (nw_waiting s),
      past_tracked := past_tracked s @ [(pk, hash, track_payment_receiver p, res)]\<rparr>"
    by (simp add: end_wait_def w res)
  have "(pk, hash, p) \<in> set (nw_waiting s)" using assms(2) w by (metis nth_mem)
  with inv(2) have own: "(pk, hash, track_payment_receiver p) \<in> set (past_accepted s)"
    by (auto simp: tracking_inv_def)
  have got: "sender_event s (track_payment_receiver p) = Some (ReceiverGot (Inr result))" if "res = Inr result" for result
    using assms(3) await_result_ok [OF res [unfolded that]] w by auto
  have "mset (receivers ?t) = mset (receivers s)"
    using mset_remove_at [OF assms(2), of "\<lambda>(pk, hash, p). track_payment_receiver p"] w
    by (simp add: receivers_def t)
  from mset_eq_setD [OF this] mset_eq_imp_distinct_iff [OF this]
  have recv: "set (receivers ?t) = set (receivers s)" "distinct (receivers ?t)"
    using inv(2) by (simp_all add: tracking_inv_def)
  have same: "past_accepted ?t = past_accepted s" "sw_node (nw_world ?t) = sw_node (nw_world s)"
    "past_tracked ?t = past_tracked s @ [(pk, hash, track_payment_receiver p, res)]"
    by (simp_all add: t)
  have event: "sender_event ?t rx = sender_event s rx" for rx
    unfolding t by (rule sender_event_same) simp_all
  have fewer: "set (nw_waiting ?t) \<subseteq> set (nw_waiting s)" unfolding t by (simp add: set_remove_at)
  have "channels_inv g ?t" using inv(1) by (simp add: channels_inv_def t)
  moreover have "tracking_inv ?t"
    using inv(2) own got recv(2) fewer unfolding tracking_inv_def same event recv(1) by fastforce
  moreover have "tasks_reached g ?t" using inv(3) by (simp add: tasks_reached_def t)
  ultimately show ?thesis by (simp add: network_inv_def)
qed

lemma network_inv_action:
  assumes "net_action g a s = Some t" and "network_inv g s"
  shows "network_inv g t"
proof (cases a)
  case (NetSend env pk dest amt)
  with assms(1) have t: "t = net_send g env pk dest amt s" by (simp split: if_splits)
  have "pubkey (sn_info (sw_node (nw_world s) pk)) = pk"
    using assms(2) by (simp add: network_inv_def channels_inv_def)
  then show ?thesis
  proof (cases rule: net_send_cases [where g = g and env = env and dest = dest and amt = amt])
    case refused
    with inv_refused [OF assms(2)] show ?thesis by (simp add: t)
  next
    case (accepted hash path fate)
    with inv_accepted [OF assms(2)] show ?thesis by (simp add: t)
  qed
next
  case (NetTask i joins)
  with assms show ?thesis by (auto intro: inv_net_task)
next
  case (NetTrack pk hash)
  with assms show ?thesis by (auto intro: inv_net_track)
next
  case (NetResult i env)
  with assms show ?thesis by (auto simp: net_result_def split: if_splits intro: inv_end_wait)
next
  case (NetShutdown i env)
  with assms show ?thesis by (auto split: if_splits intro: inv_end_wait)
qed

lemma network_inv_actions:
  "net_actions g as s = Some t \<Longrightarrow> network_inv g s \<Longrightarrow> network_inv g t"
  unfolding net_actions_def by (erule fold_opt_invariant [rotated]) (auto intro: network_inv_action)

lemma network_inv_start:
  assumes "sim_graph_new f cs ics recs = Inr g" and "ln_node_from_graph g = Inr sims"
  shows "network_inv g (network_start g sims)"
proof -
  note nodes = simulated_nodes_get(2) [OF assms]
  have "pubkey (sn_info (sw_node (nw_world (network_start g sims)) pk)) = pk"
    and "sn_in_flight (sw_node (nw_world (network_start g sims)) pk) = hm_new" for pk
    using nodes [of pk] by (auto simp: network_start_def split: option.split)
  then show ?thesis
    by (simp add: network_inv_def channels_inv_def tracking_inv_def tasks_reached_def receivers_def)
      (simp add: network_start_def spawned_of_def)
qed

subsection \<open>What the invariant says\<close>

lemma tracked_own:
  assumes "network_inv g s" and "(pk, hash, rx, Inr result) \<in> set (past_tracked s)"
  shows "(pk, hash, rx) \<in> set (past_accepted s) \<and>
    ((\<exists>req sd. (rx, req, Reported sd (Some result)) \<in> set (nw_tasks s) \<and> pr_source req = pk \<and> pr_payment_hash req = hash) \<or>
     payment_outcome result = RouteNotFound \<and> rx \<notin> fst ` set (nw_tasks s))"
proof -
  have inv: "channels_inv g s" "tracking_inv s" using assms(1) by (simp_all add: network_inv_def)
  from inv(2) assms(2) have acc: "(pk, hash, rx) \<in> set (past_accepted s)"
    and event: "sender_event s rx = Some (ReceiverGot (Inr result))" by (auto simp: tracking_inv_def)
  from inv(1) acc obtain fate where fate: "(rx, fate) \<in> set (sw_fates (nw_world s))" "own_fate g pk hash fate"
    by (fastforce simp: channels_inv_def)
  note lookup = fate_lookup [OF inv(1), THEN iffD2]
  show ?thesis
  proof (cases fate)
    case (SenderSpawned req)
    with lookup [OF fate(1)] event obtain req' sd where "map_of (nw_tasks s) rx = Some (req', Reported sd (Some result))"
      by (auto simp: sender_event_def split: option.splits prod.splits task.splits)
    then have task: "(rx, req', Reported sd (Some result)) \<in> set (nw_tasks s)" by (rule map_of_SomeD)
    then have "(rx, SenderSpawned req') \<in> set (sw_fates (nw_world s))" using spawned_task [OF inv(1)] by blast
    with lookup lookup [OF fate(1)] SenderSpawned have "req' = req" by fastforce
    with task acc fate(2) SenderSpawned show ?thesis by (auto simp: own_fate_def)
  next
    case (SenderSent r)
    with lookup [OF fate(1)] event have "r = result" by (simp add: sender_event_def)
    moreover have "rx \<notin> fst ` set (nw_tasks s)"
    proof
      assume "rx \<in> fst ` set (nw_tasks s)"
      then obtain req where "(rx, SenderSpawned req) \<in> set (sw_fates (nw_world s))"
        using spawned_task [OF inv(1)] by force
      with lookup lookup [OF fate(1)] SenderSent show False by fastforce
    qed
    ultimately show ?thesis using acc fate(2) SenderSent by (simp add: own_fate_def)
  next
    case SenderDropped
    with fate(2) show ?thesis by (simp add: own_fate_def)
  qed
qed

lemma network_settled:
  assumes "network_inv g s" and "net_inv (sg_channels g)" and "\<And>a k. acct_pending (sg_channels g) a k = None"
    and "notify_ok (sg_interceptors g)"
  shows "tasks_inv (task_requests s) (sg_channels g) (task_states s, nw_channels s)"
proof -
  have inv: "channels_inv g s" using assms(1) by (simp add: network_inv_def)
  have "pr_interceptors req = sg_interceptors g" if "(rx, req, t) \<in> set (nw_tasks s)" for rx req t
  proof -
    have "(rx, SenderSpawned req) \<in> set (sw_fates (nw_world s))" using spawned_task [OF inv] that by blast
    with inv show ?thesis unfolding channels_inv_def by fastforce
  qed
  with assms(2-4) have "tasks_init (task_requests s) (sg_channels g) (map start_task (task_requests s), sg_channels g)"
    by (auto simp: tasks_init_def)
  then show ?thesis
    using assms(1) unfolding network_inv_def tasks_reached_def by (blast intro: tasks.invar_reachable)
qed

lemma waiting_answered:
  assumes "network_inv g s" and "all_reported (task_states s)" and "i < length (nw_waiting s)"
  shows "net_result i env s \<noteq> None"
proof -
  have inv: "channels_inv g s" "tracking_inv s" using assms(1) by (simp_all add: network_inv_def)
  obtain pk hash p where w: "nw_waiting s ! i = (pk, hash, p)" by (metis prod_cases3)
  with assms(3) have "(pk, hash, p) \<in> set (nw_waiting s)" by (metis nth_mem)
  with inv(2) have "(pk, hash, track_payment_receiver p) \<in> set (past_accepted s)" by (auto simp: tracking_inv_def)
  with inv(1) obtain fate where fate: "(track_payment_receiver p, fate) \<in> set (sw_fates (nw_world s))" "own_fate g pk hash fate"
    by (fastforce simp: channels_inv_def)
  note lookup = fate_lookup [OF inv(1), THEN iffD2, OF fate(1)]
  have "sender_event s (track_payment_receiver p) \<noteq> None"
  proof (cases fate)
    case (SenderSpawned req)
    with fate(1) spawned_task [OF inv(1)] obtain t where t: "(track_payment_receiver p, req, t) \<in> set (nw_tasks s)"
      by blast
    then have "map_of (nw_tasks s) (track_payment_receiver p) = Some (req, t)"
      using task_keys_distinct [OF inv(1)] by simp
    moreover obtain r where "t = Reported False r" using assms(2) t by (force simp: all_reported_def)
    ultimately show ?thesis using lookup SenderSpawned by (simp add: sender_event_def split: option.split)
  qed (use lookup in \<open>simp_all add: sender_event_def\<close>)
  with assms(3) w show ?thesis by (simp add: net_result_def)
qed

end
