(* ===== verification/Network_Run_Properties.thy ===== *)
theory Network_Run_Properties
  imports Network_Run_Laws
begin

section \<open>Properties of a simulated network at work\<close>

text \<open>
  Calls of the nodes, tasks of payments and trackings in any order: a tracked result is the one its own
  payment reported, and once the tasks have reported the network has settled and no call waits.
\<close>

subsection \<open>A worked example\<close>

definition net_env :: "simulation_error + route \<Rightarrow> payment_hash \<Rightarrow> sim_env" where
  "net_env found hash =
     \<lparr>find_route = (\<lambda>pk dest amt w. Inr found), draw_hash = (\<lambda>w. hash), unix_time = (\<lambda>w. Inr 3),
      scorer_poisoned = (\<lambda>w. None), receives = (\<lambda>w rx. ListenerTriggered)\<rparr>"

definition net_sims :: "(pubkey, sim_node) hmap" where
  "net_sims = (case ln_node_from_graph demo_graph of Inr sims \<Rightarrow> sims | Inl _ \<Rightarrow> [])"

text \<open>Node 1 pays node 3 over node 2; a payment of node 2 finds no route meanwhile.\<close>

definition net_plan :: "network_action list" where
  "net_plan = [NetSend (net_env (Inr [demo_route 2]) demo_hash) (PublicKey 1) (PublicKey 3) 2,
     NetTask 0 demo_joins,
     NetSend (net_env (Inl TaskError) (PaymentHash [9])) (PublicKey 2) (PublicKey 4) 2,
     NetTrack (PublicKey 1) demo_hash, NetTask 0 demo_joins, NetTrack (PublicKey 2) (PaymentHash [9]),
     NetTask 0 demo_joins, NetTask 0 demo_joins, NetTask 0 demo_joins, NetTask 0 demo_joins,
     NetResult 0 (net_env (Inr []) demo_hash)]"

definition net_end :: network_run where
  "net_end = the (net_actions demo_graph net_plan (network_start demo_graph net_sims))"

lemmas net_eval = net_plan_def net_actions_def network_start_def net_sims_def net_send_def net_task_def net_track_def
  net_result_def end_wait_def sender_event_def await_result_def score_result_def net_env_def sim_lightning_node_def
  send_payment_def dispatch_payment_def start_task_def remove_at_def ln_node_from_graph_def sim_node_new_def

lemma net_sims_ok: "ln_node_from_graph demo_graph = Inr net_sims"
  by (simp add: net_sims_def ln_node_from_graph_def demo_graph_def sim_graph_new_def demo_channels_def
        simulated_channel_validate_def channel_policy_validate_def demo_policy_def channel_eval add_graph_node_def
        sim_node_new_def)

lemmas net_demo_eval = net_eval payment_eval demo_net_defs demo_policy_def demo_hash_def Let_def demo_graph_def
  sim_graph_new_def demo_channels_def simulated_channel_validate_def channel_policy_validate_def add_graph_node_def
  add_done_def begin_removal_def make_node_info_def

lemma net_end_ok: "net_actions demo_graph net_plan (network_start demo_graph net_sims) = Some net_end"
  by (simp add: net_end_def net_demo_eval)

lemma net_end_value:
  "(PublicKey 1, demo_hash, 0, Inr \<lparr>htlc_count = 1, payment_outcome = Success\<rparr>) \<in> set (past_tracked net_end)"
  "all_reported (task_states net_end)" "length (nw_waiting net_end) = 1"
  by (simp_all add: net_end_def net_demo_eval all_reported_def)

subsection \<open>The properties\<close>

text \<open>C18. A tracked result is the payment's own. In a simulated network where any nodes send, any tasks
  of payments take their sections under the lock and any payments are tracked, in any order: when
  \<open>track_payment\<close> returned a result for a hash to a node, that node had sent a payment with that hash,
  and the result is the one that the payment's own task reported, or there was no route for it and no
  task. Results never go to another payment, and no payment is answered twice.\<close>

theorem tracked_result_is_own:
  assumes "sim_graph_new f cs ics recs = Inr g" and "ln_node_from_graph g = Inr sims"
    and "net_actions g as (network_start g sims) = Some s"
    and "(pk, hash, rx, Inr result) \<in> set (past_tracked s)"
  shows "(pk, hash, rx) \<in> set (past_accepted s) \<and>
    distinct (map (\<lambda>(pk, hash, rx). rx) (past_accepted s)) \<and>
    distinct (map (\<lambda>(pk, hash, rx, res). rx) (past_tracked s)) \<and>
    ((\<exists>req sd. (rx, req, Reported sd (Some result)) \<in> set (nw_tasks s) \<and>
        pr_source req = pk \<and> pr_payment_hash req = hash) \<or>
     payment_outcome result = RouteNotFound \<and> rx \<notin> fst ` set (nw_tasks s))"
proof -
  have inv: "network_inv g s" by (rule network_inv_actions [OF assms(3) network_inv_start [OF assms(1,2)]])
  then have "distinct (map (\<lambda>(pk, hash, rx). rx) (past_accepted s))"
    "distinct (map (\<lambda>(pk, hash, rx, res). rx) (past_tracked s))"
    by (simp_all add: network_inv_def channels_inv_def tracking_inv_def receivers_def)
  with tracked_own [OF inv assms(4)] show ?thesis by blast
qed

theorem tracked_result_is_own_witness:
  "\<exists>req sd. (0, req, Reported sd (Some \<lparr>htlc_count = 1, payment_outcome = Success\<rparr>)) \<in> set (nw_tasks net_end) \<and>
     pr_source req = PublicKey 1 \<and> pr_payment_hash req = demo_hash"
  using tracked_result_is_own [OF demo_graph_ok net_sims_ok net_end_ok net_end_value(1)] by auto

text \<open>C10. The network settles under its nodes. On a graph of freshly opened channels of even capacity,
  after any sequence of sends, sections and trackings: once the tasks have reported, none with a
  critical error, no HTLC is pending, the funds of every channel add up to its capacity, and every
  balance is the initial one plus what the payments reported as successes, and only those, moved to
  and from it. No call of \<open>track_payment\<close> is left waiting: each one can return.\<close>

theorem simulated_network_settles:
  assumes "sim_graph_new f cs ics recs = Inr g" and "ln_node_from_graph g = Inr sims"
    and "\<forall>c \<in> set cs. fresh_channel c" and "notify_ok ics"
    and "net_actions g as (network_start g sims) = Some s" and "all_reported (task_states s)"
  shows "net_inv (nw_channels s) \<and> (\<forall>a k. acct_pending (nw_channels s) a k = None) \<and>
    (\<forall>a. acct_balance (nw_channels s) a +
        sum_list (map (pays_from (sg_channels g) a) (zip (task_requests s) (task_states s))) =
      acct_balance (sg_channels g) a +
        sum_list (map (pays_to (sg_channels g) a) (zip (task_requests s) (task_states s)))) \<and>
    (\<forall>i < length (nw_waiting s). net_result i env s \<noteq> None)"
proof -
  have inv: "network_inv g s" by (rule network_inv_actions [OF assms(5) network_inv_start [OF assms(1,2)]])
  have "sg_interceptors g = ics" using assms(1) by (auto simp: sim_graph_new_def res_bind_Inr_iff)
  with network_settled [OF inv fresh_graph [OF assms(1,3)]] assms(4)
  have "tasks_inv (task_requests s) (sg_channels g) (task_states s, nw_channels s)" by simp
  from settled_network [OF this assms(6)] waiting_answered [OF inv assms(6)] show ?thesis by blast
qed

theorem simulated_network_settles_witness:
  "net_inv (nw_channels net_end) \<and> (\<forall>a k. acct_pending (nw_channels net_end) a k = None) \<and>
   net_result 0 (net_env (Inr []) demo_hash) net_end \<noteq> None"
proof -
  have "notify_ok []" by (simp add: notify_ok_def)
  from simulated_network_settles [OF demo_graph_ok net_sims_ok demo_channels_fresh this net_end_ok net_end_value(2)]
    net_end_value(3) show ?thesis by simp
qed

end
