(* ===== verification/Seeds.thy ===== *)
theory Seeds
  imports Simulation_Properties
begin

section \<open>Seeded simulations (simln-lib/src/lib.rs)\<close>

text \<open>
  What a seed in the configuration fixes. Three things differ between two runs of the program that are
  given the same configuration and meet the same nodes: the entropy of the machine, which seeds each
  generator that has no seed; the generator of the thread, from which \<open>ValueOrRange::value\<close> draws; and
  the iteration order of the hash map of nodes. With a seed and no range of values in the activities, a
  run that starts does not depend on any of them: each random executor has the generator of its node,
  the seeded generators do not use the entropy, and the two places where an order could be seen, the
  view of the network and the first event of each executor, sort by public key.
\<close>

text \<open>Another entropy, and another generator of the thread.\<close>

definition with_entropy ::
  "(pubkey option \<Rightarrow> u64) \<Rightarrow> 'r range_ops \<Rightarrow> ('f, 'd, 'w, 'r) random_env \<Rightarrow> ('f, 'd, 'w, 'r) random_env" where
  "with_entropy entropy ranges env =
     env\<lparr>env_range := ranges, env_rng := (env_rng env)\<lparr>random_u64 := entropy\<rparr>\<rparr>"

lemma with_entropy_fields [simp]:
  "env_float (with_entropy e ranges env) = env_float env" "env_rand (with_entropy e ranges env) = env_rand env"
  "env_picker (with_entropy e ranges env) = env_picker env" "env_range (with_entropy e ranges env) = ranges"
  by (simp_all add: with_entropy_def)

lemma mut_rng_entropy [simp]:
  "mut_rng_new (env_rng (with_entropy e ranges env)) pk (Some seed) = mut_rng_new (env_rng env) pk (Some seed)"
  by (cases seed) (simp add: with_entropy_def mut_rng_new_def split: option.split)

subsection \<open>Validation does not see the order\<close>

fun is_value :: "'a value_or_range \<Rightarrow> bool" where
  "is_value (Value x) = True"
| "is_value (Range x y) = False"

definition fixed_values :: "activity_definition \<Rightarrow> bool" where
  "fixed_values a \<longleftrightarrow> is_value (act_interval_secs a) \<and> is_value (act_amount_msat a)"

lemma value_of_fixed: "is_value v \<Longrightarrow> value_or_range_value sample v = value_or_range_value sample' v"
  by (cases v) (simp_all add: fun_eq_iff)

lemma hm_values_order: "mset nodes = mset nodes' \<Longrightarrow> set (hm_values nodes) = set (hm_values nodes')"
  using mset_eq_setD [of nodes nodes'] by (simp add: hm_values_def)

lemma node_network_order:
  "mset nodes = mset nodes' \<Longrightarrow> is_ok (validate_node_network nodes) = is_ok (validate_node_network nodes')"
  using hm_values_order [of nodes nodes'] by (cases nodes; cases nodes') (simp_all add: validate_node_network_ok)

lemma contains_order: "mset nodes = mset nodes' \<Longrightarrow> hm_contains nodes = hm_contains nodes'"
  using mset_eq_setD [of nodes nodes'] by (simp add: fun_eq_iff hm_contains_iff)

lemma validate_flows_order:
  "mset nodes = mset nodes' \<Longrightarrow> \<forall>a \<in> set activity. fixed_values a \<Longrightarrow>
   validate_flows sk sample nodes activity = validate_flows sk sample' nodes' activity"
proof (induction activity)
  case (Cons a activity)
  have "value_or_range_value sample (act_amount_msat a) = value_or_range_value sample' (act_amount_msat a)"
    using Cons.prems(2) by (intro value_of_fixed) (simp add: fixed_values_def)
  with Cons.IH [OF Cons.prems(1)] Cons.prems(2) contains_order [OF Cons.prems(1)] show ?case
    by (simp cong: if_cong)
qed simp

lemma validate_activity_order:
  assumes "mset nodes = mset nodes'" and "\<forall>a \<in> set activity. fixed_values a"
    and "validate_activity sk sample nodes activity r = Some (Inr (), r1)"
  shows "validate_activity sk sample' nodes' activity r = Some (Inr (), r1)"
proof -
  let ?check = "\<lambda>ns. if activity = []
     then if hm_len ns \<le> 1
          then Inl (ValidationError (Fmt ''At least two nodes required for random activity generation.'' []))
          else check_keysend sk (map ln_info (hm_values ns))
     else Inr ()"
  have ok: "?check nodes = Inr ()"
    and flows: "validate_flows sk sample nodes activity r = Some (Inr (), r1)"
    using assms(3) by (auto simp: validate_activity_def gen_bind_Inr)
  have "is_ok (check_keysend sk (map ln_info (hm_values nodes))) =
      is_ok (check_keysend sk (map ln_info (hm_values nodes')))"
    using hm_values_order [OF assms(1)] by (simp add: check_keysend_ok)
  moreover have "length nodes = length nodes'" using assms(1) by (rule mset_eq_length)
  moreover have "is_ok (?check nodes)" using ok by simp
  ultimately have "is_ok (?check nodes')" by (auto simp: hm_len_def split: if_splits)
  then have "?check nodes' = Inr ()" by (cases "?check nodes'") simp_all
  then show ?thesis
    using flows validate_flows_order [OF assms(1,2), of sk sample sample'] by (simp add: validate_activity_def gen_bind_Inr)
qed

subsection \<open>The executors do not see the order\<close>

text \<open>What the first pass makes of one node, and the second of one active node.\<close>

definition node_entry ::
  "u64 \<Rightarrow> pubkey \<times> 's lightning_node \<Rightarrow> lightning_error + (pubkey \<times> node_info \<times> u64) option" where
  "node_entry expected entry =
     res_bind (ln_channel_capacities (snd entry)) (\<lambda>c.
       if \<not> is_ok (validate_capacity c expected) then Inr None
       else res_bind (ln_get_node_info (snd entry) (fst entry)) (\<lambda>ni. Inr (Some (pubkey ni, ni, c div 2))))"

definition random_kit ::
  "('f, 'd, 'w, 'r) random_env \<Rightarrow> 'f simulation_cfg \<Rightarrow> 'r destination_generator \<Rightarrow> node_info \<times> u64 \<Rightarrow>
   random_activity_error + 'r executor_kit" where
  "random_kit env cfg view info =
     (let rng = mut_rng_new (env_rng env) (Some (pubkey (fst info)))
            (map_option (\<lambda>seed. (seed, Some (pubkey (fst info)))) (cfg_seed cfg))
      in res_bind (random_activity_new (env_float env) (env_rand env rng) (snd info)
             (expected_payment_msat cfg) (activity_multiplier cfg))
           (\<lambda>ra. Inr \<lparr>source_info = fst info, network_generator = view,
              kit_payment_generator = random_payment_generator (env_float env) (env_rand env rng) ra\<rparr>))"

text \<open>A list that answers everywhere answers in every order.\<close>

definition answers :: "('a \<Rightarrow> 'e + 'b) \<Rightarrow> 'a list \<Rightarrow> 'b list \<Rightarrow> bool" where
  "answers f xs ys \<longleftrightarrow> map f xs = map Inr ys"

lemma answers_Nil [simp]: "answers f [] ys \<longleftrightarrow> ys = []"
  by (auto simp: answers_def)

lemma answers_Cons: "answers f (x # xs) ys \<longleftrightarrow> (\<exists>y ys'. ys = y # ys' \<and> f x = Inr y \<and> answers f xs ys')"
  by (auto simp: answers_def Cons_eq_map_conv)

lemma answers_order:
  assumes "mset xs = mset xs'" and "answers f xs ys"
  obtains ys' where "answers f xs' ys'" "mset ys' = mset ys"
proof -
  let ?g = "\<lambda>x. case f x of Inr y \<Rightarrow> y"
  have all: "f x = Inr (?g x)" if "x \<in> set xs" for x
  proof -
    have "f x \<in> set (map Inr ys)" using assms(2) that unfolding answers_def by (metis image_eqI image_set)
    then show ?thesis by auto
  qed
  have "map (\<lambda>z. case z of Inr y \<Rightarrow> y) (map f xs) = map (\<lambda>z. case z of Inr y \<Rightarrow> y) (map Inr ys)"
    using assms(2) by (simp add: answers_def)
  then have "ys = map ?g xs" by (simp add: comp_def)
  moreover have "answers f xs' (map ?g xs')"
    using all mset_eq_setD [OF assms(1)] by (simp add: answers_def)
  moreover have "mset (map ?g xs') = mset (map ?g xs)"
    using assms(1) by simp
  ultimately show thesis using that by simp
qed

lemma hm_insert_fresh: "k \<notin> fst ` set m \<Longrightarrow> hm_insert k v m = m @ [(k, v)]"
  by (induction k v m rule: hm_insert.induct) auto

lemma active_nodes_answers:
  assumes "distinct (map fst nodes)" and "fst ` set nodes \<inter> fst ` set active0 = {}"
    and "\<forall>(pk, node) \<in> set nodes. \<forall>ni. ln_get_node_info node pk = Inr ni \<longrightarrow> pubkey ni = pk"
  shows "active_nodes_loop e nodes active0 = Inr active \<longleftrightarrow>
    (\<exists>entries. answers (node_entry e) nodes entries \<and> active = active0 @ List.map_filter (\<lambda>x. x) entries)"
  using assms
proof (induction e nodes active0 rule: active_nodes_loop.induct)
  case (2 e pk node nodes active0)
  show ?case
  proof (cases "ln_channel_capacities node")
    case (Inr c)
    show ?thesis
    proof (cases "is_ok (validate_capacity c e)")
      case True
      show ?thesis
      proof (cases "ln_get_node_info node pk")
        case info: (Inr ni)
        then have pk: "pubkey ni = pk" using 2(5) by simp
        let ?active = "hm_insert (pubkey ni) (ni, c div 2) active0"
        have fresh: "?active = active0 @ [(pk, ni, c div 2)]"
          using 2(4) unfolding pk by (intro hm_insert_fresh) auto
        have "active_nodes_loop e nodes ?active = Inr active \<longleftrightarrow>
            (\<exists>entries. answers (node_entry e) nodes entries \<and> active = ?active @ List.map_filter (\<lambda>x. x) entries)"
          using 2(3-5) True Inr info pk
          by (intro 2(2) [OF Inr _ refl info]) (auto simp: keys_hm_insert)
        moreover have "node_entry e (pk, node) = Inr (Some (pk, ni, c div 2))"
          using Inr True info pk by (simp add: node_entry_def)
        ultimately show ?thesis
          using Inr True info by (auto simp: answers_Cons fresh List.map_filter_simps)
      qed (use Inr True in \<open>auto simp: answers_Cons node_entry_def\<close>)
    next
      case False
      have "active_nodes_loop e nodes active0 = Inr active \<longleftrightarrow>
          (\<exists>entries. answers (node_entry e) nodes entries \<and> active = active0 @ List.map_filter (\<lambda>x. x) entries)"
        using 2(3-5) False Inr by (intro 2(1)) auto
      moreover have "node_entry e (pk, node) = Inr None"
        using Inr False by (simp add: node_entry_def)
      ultimately show ?thesis
        using Inr False by (auto simp: answers_Cons List.map_filter_simps)
    qed
  qed (auto simp: answers_Cons node_entry_def)
qed (auto simp: List.map_filter_simps)

lemma mset_map_filter: "mset (List.map_filter f xs) = image_mset (the \<circ> f) (filter_mset (\<lambda>x. f x \<noteq> None) (mset xs))"
  by (simp add: List.map_filter_def)

lemma active_nodes_order:
  assumes "mset nodes = mset nodes'" and "hm_wf nodes"
    and "\<forall>(pk, node) \<in> set nodes. \<forall>ni. ln_get_node_info node pk = Inr ni \<longrightarrow> pubkey ni = pk"
    and "active_nodes_loop e nodes hm_new = Inr active"
  obtains active' where "active_nodes_loop e nodes' hm_new = Inr active'"
    "mset (hm_values active) = mset (hm_values active')"
proof -
  have keys: "distinct (map fst nodes)" "distinct (map fst nodes')"
    using assms(1,2) mset_eq_imp_distinct_iff [of "map fst nodes" "map fst nodes'"] by (simp_all add: hm_wf_def)
  have own: "\<forall>(pk, node) \<in> set nodes'. \<forall>ni. ln_get_node_info node pk = Inr ni \<longrightarrow> pubkey ni = pk"
    using assms(3) mset_eq_setD [OF assms(1)] by simp
  have none: "fst ` set ns \<inter> fst ` set hm_new = {}" for ns :: "'a nodes" by (simp add: hm_new_def)
  from assms(4) obtain entries where "answers (node_entry e) nodes entries" "active = List.map_filter (\<lambda>x. x) entries"
    unfolding active_nodes_answers [OF keys(1) none assms(3)] by (auto simp: hm_new_def)
  moreover from answers_order [OF assms(1) this(1)] obtain entries' where
    "answers (node_entry e) nodes' entries'" "mset entries' = mset entries" .
  ultimately show thesis
    using active_nodes_answers [OF keys(2) none own, of e "List.map_filter (\<lambda>x. x) entries'"]
    by (intro that [of "List.map_filter (\<lambda>x. x) entries'"]) (auto simp: hm_new_def hm_values_def mset_map_filter)
qed

lemma random_kits_answers:
  "random_kits_loop env cfg view infos = Inr kits \<longleftrightarrow> answers (random_kit env cfg view) infos kits"
proof (induction infos arbitrary: kits)
  case (Cons info infos)
  obtain ni capacity where "info = (ni, capacity)" by (cases info)
  with Cons show ?case
    by (auto simp: answers_Cons random_kit_def Let_def res_bind_Inr_iff split: sum.split)
qed auto

lemma random_kit_entropy:
  "cfg_seed cfg = Some seed \<Longrightarrow> random_kit (with_entropy e ranges env) cfg view = random_kit env cfg view"
  by (simp add: fun_eq_iff random_kit_def)

lemma random_executors_order:
  assumes "cfg_seed cfg = Some seed" and "mset nodes = mset nodes'" and "hm_wf nodes"
    and "\<forall>(pk, node) \<in> set nodes. \<forall>ni. ln_get_node_info node pk = Inr ni \<longrightarrow> pubkey ni = pk"
    and "random_activity_nodes env cfg nodes = Inr kits"
  obtains kits' where "random_activity_nodes (with_entropy e ranges env) cfg nodes' = Inr kits'"
    "mset kits = mset kits'" "distinct (map (\<lambda>kit. pubkey (source_info kit)) kits)"
proof -
  let ?rng = "mut_rng_new (env_rng env) None (Some (seed, None))"
  let ?wops = "env_picker env ?rng"
  let ?view = "view_destination_generator ?wops (rng_poisoned (env_rand env ?rng))"
  from assms(5) [unfolded random_activity_nodes_def res_bind_Inr_iff] obtain active where
    active: "active_nodes_loop (expected_payment_msat cfg) nodes hm_new = Inr active"
    and made: "(case network_graph_view_new ?wops (hm_values active) of
        Inl e \<Rightarrow> Inl (RandomActivityError e)
      | Inr view \<Rightarrow> random_kits_loop env cfg (?view view) (hm_values active)) = Inr kits"
    unfolding Let_def assms(1) option.map by blast
  from made obtain view where view: "network_graph_view_new ?wops (hm_values active) = Inr view"
    and kits: "random_kits_loop env cfg (?view view) (hm_values active) = Inr kits"
    by (cases "network_graph_view_new ?wops (hm_values active)") auto
  from active_nodes_order [OF assms(2-4) active] obtain active' where
    active': "active_nodes_loop (expected_payment_msat cfg) nodes' hm_new = Inr active'"
    and order: "mset (hm_values active) = mset (hm_values active')" .
  from active_nodes_loop_values [OF active hm_wf_new] have
    "distinct (map fst active)" "\<forall>(k, v) \<in> set active. k = pubkey (fst v)" by (auto simp: hm_new_def hm_wf_def)
  moreover from this(2) have "map (\<lambda>v. pubkey (fst v)) (hm_values active) = map fst active"
    by (auto simp: hm_values_def)
  ultimately have distinct: "distinct (map (\<lambda>v. pubkey (fst v)) (hm_values active))" by simp
  from answers_order [OF order] kits [unfolded random_kits_answers] obtain kits' where
    "random_kits_loop env cfg (?view view) (hm_values active') = Inr kits'" "mset kits' = mset kits"
    unfolding random_kits_answers by blast
  moreover from this(1) have "random_kits_loop (with_entropy e ranges env) cfg (?view view) (hm_values active') = Inr kits'"
    unfolding random_kits_answers random_kit_entropy [OF assms(1)] .
  moreover have "map source_info kits = map fst (hm_values active)"
    using random_kits_loop_ok [OF kits] by blast
  then have "map pubkey (map source_info kits) = map pubkey (map fst (hm_values active))" by simp
  then have "distinct (map (\<lambda>kit. pubkey (source_info kit)) kits)"
    using distinct by (simp add: comp_def)
  moreover have "network_graph_view_new ?wops (hm_values active') = Inr view"
    using view network_view_order_independent [OF order distinct, of ?wops] by simp
  ultimately show thesis
    using active'
    by (intro that [of kits']) (simp_all only: random_activity_nodes_def Let_def assms(1) option.map
        with_entropy_fields mut_rng_entropy res_bind_simps sum.case)
qed

lemma defined_kit_fixed: "fixed_values a \<Longrightarrow> defined_kit ops a = defined_kit ops' a"
  using value_of_fixed [of "act_interval_secs a" "gen_range_u16 ops" "gen_range_u16 ops'"]
    value_of_fixed [of "act_amount_msat a" "gen_range_u64 ops" "gen_range_u64 ops'"]
  by (simp add: fixed_values_def Let_def defined_kit_def defined_payment_generator_def defined_activity_new_def
      defined_next_payment_wait_def [abs_def] defined_payment_amount_def [abs_def] cong: if_cong)

text \<open>The events that are set up: those of the executors, sorted by their sources.\<close>

lemma executors_order:
  assumes "cfg_seed cfg = Some seed" and "\<forall>a \<in> set activity. fixed_values a"
    and "mset nodes = mset nodes'" and "hm_wf nodes"
    and "\<forall>(pk, node) \<in> set nodes. \<forall>ni. ln_get_node_info node pk = Inr ni \<longrightarrow> pubkey ni = pk"
    and "activity_executors env cfg nodes activity = Inr kits"
  obtains kits' where "activity_executors (with_entropy e ranges env) cfg nodes' activity = Inr kits'"
    "setup_payment_events now kits = setup_payment_events now kits'"
proof (cases "activity = []")
  case True
  with assms(6) have "random_activity_nodes env cfg nodes = Inr kits" by (simp add: activity_executors_def)
  from random_executors_order [OF assms(1,3-5) this] obtain kits' where
    "random_activity_nodes (with_entropy e ranges env) cfg nodes' = Inr kits'"
    "mset kits = mset kits'" "distinct (map (\<lambda>kit. pubkey (source_info kit)) kits)" .
  with True setup_order_independent [of kits kits' now] show thesis
    by (intro that [of kits']) (simp_all add: activity_executors_def)
next
  case False
  have "map (defined_kit ranges) activity = map (defined_kit (env_range env)) activity"
    using assms(2) by (simp add: defined_kit_fixed [of _ ranges "env_range env"])
  with False assms(6) show thesis by (intro that [of kits]) (simp_all add: activity_executors_def)
qed

lemma internal_run_order:
  assumes "cfg_seed cfg = Some seed" and "\<forall>a \<in> set activity. fixed_values a"
    and "mset nodes = mset nodes'" and "hm_wf nodes"
    and "\<forall>(pk, node) \<in> set nodes. \<forall>ni. ln_get_node_info node pk = Inr ni \<longrightarrow> pubkey ni = pk"
    and "internal_run env cfg supports_keysend nodes now activity r = Some (out, r1)" and "outcome out = Inr ()"
  shows "internal_run (with_entropy e ranges env) cfg supports_keysend nodes' now activity r = Some (out, r1)"
proof -
  from assms(6,7) obtain kits r0 where
    network: "is_ok (validate_node_network nodes)"
    and valid: "validate_activity supports_keysend (gen_range_u64 (env_range env)) nodes activity r = Some (Inr (), r0)"
    and kits: "activity_executors env cfg nodes activity = Inr kits"
    by (auto simp: internal_run_def Let_def split: sum.splits option.splits)
  from network node_network_order [OF assms(3)] have
    "validate_node_network nodes = Inr ()" "validate_node_network nodes' = Inr ()" by (auto simp: is_ok_def split: sum.splits)
  moreover from executors_order [OF assms(1-5) kits] obtain kits' where
    "activity_executors (with_entropy e ranges env) cfg nodes' activity = Inr kits'"
    "setup_payment_events now kits = setup_payment_events now kits'" .
  moreover have "validate_activity supports_keysend (gen_range_u64 ranges) nodes' activity r = Some (Inr (), r0)"
    by (rule validate_activity_order [OF assms(3,2) valid])
  ultimately show ?thesis
    using assms(6) kits valid by (simp add: internal_run_def Let_def)
qed

text \<open>Which generator each executor of random activity was given.\<close>

lemma random_kits_seeds:
  assumes "random_activity_nodes env cfg nodes = Inr kits" and "cfg_seed cfg = Some seed"
  shows "\<exists>view. \<forall>kit \<in> set kits. \<exists>ra.
    network_generator kit = view_destination_generator (env_picker env \<lparr>rng_owner = None, rng_seed = seed\<rparr>)
      (rng_poisoned (env_rand env \<lparr>rng_owner = None, rng_seed = seed\<rparr>)) view \<and>
    kit_payment_generator kit = random_payment_generator (env_float env)
      (env_rand env \<lparr>rng_owner = Some (pubkey (source_info kit)),
         rng_seed = default_hash (env_rng env)
           (serialize_pubkey (env_rng env) (pubkey (source_info kit)) @ to_le_bytes seed)\<rparr>) ra"
proof -
  let ?rng = "\<lparr>rng_owner = None, rng_seed = seed\<rparr>"
  let ?gen = "view_destination_generator (env_picker env ?rng) (rng_poisoned (env_rand env ?rng))"
  have rng: "mut_rng_new (env_rng env) None (Some (seed, None)) = ?rng" by (simp add: mut_rng_new_def)
  from assms(1) [unfolded random_activity_nodes_def res_bind_Inr_iff]
  obtain active :: "(pubkey, node_info \<times> u64) hmap" where made: "(case network_graph_view_new (env_picker env ?rng) (hm_values active) of
        Inl e \<Rightarrow> Inl (RandomActivityError e)
      | Inr view \<Rightarrow> random_kits_loop env cfg (?gen view) (hm_values active)) = Inr kits"
    unfolding Let_def assms(2) option.map rng by blast
  then obtain view where "random_kits_loop env cfg (?gen view) (hm_values active) = Inr kits"
    by (cases "network_graph_view_new (env_picker env ?rng) (hm_values active)") auto
  then have "map (random_kit env cfg (?gen view)) (hm_values active) = map Inr kits"
    by (simp add: random_kits_answers answers_def)
  then have "\<exists>info. random_kit env cfg (?gen view) info = Inr kit" if "kit \<in> set kits" for kit
    using that by (metis image_iff image_set)
  then show ?thesis
    by (intro exI [of _ view]) (fastforce simp: random_kit_def Let_def assms(2) mut_rng_new_def res_bind_Inr_iff)
qed

text \<open>The bytes of the seed that are hashed determine it.\<close>

lemma to_le_bytes_inject: "to_le_bytes a = to_le_bytes b \<longleftrightarrow> a = b"
proof
  assume eq: "to_le_bytes a = to_le_bytes b"
  have byte: "(ucast (drop_bit (8 * i) a) :: u8) = ucast (drop_bit (8 * i) b)" if "i < 8" for i
  proof -
    have "i \<in> {0, 1, 2, 3, 4, 5, 6, 7}" using that by auto
    with eq show ?thesis by (auto simp: to_le_bytes_def)
  qed
  have "bit a n = bit b n" if "n < 64" for n
  proof -
    have "bit (ucast (drop_bit (8 * (n div 8)) a) :: u8) (n mod 8) = bit (ucast (drop_bit (8 * (n div 8)) b) :: u8) (n mod 8)"
      using byte [of "n div 8"] that by simp
    then show ?thesis using that by (simp add: bit_simps)
  qed
  then show "a = b" by (intro bit_word_eqI) simp
qed simp

text \<open>C38. A seed makes the simulation repeatable. With a seed in the configuration and no range of values
  in the activities (there are none for random activity), a run that starts gives the same outcome,
  spawns the same tasks with the same events and leaves the same random state, whatever the entropy that
  unseeded generators would have drawn, the generator of the thread, and the order in which the hash map
  of nodes, each known by its own key, yields them; so the loop over the events makes the same dispatches
  at the same ticks. Every executor of random activity picks destinations with one generator that starts
  from the seed, and payments with a generator of its own that starts from the hash of its node's key
  followed by the eight bytes of the seed, from which the seed can be read back.\<close>

theorem seeded_runs_repeatable:
  assumes "cfg_seed cfg = Some seed" and "\<forall>a \<in> set activity. fixed_values a"
    and "mset nodes = mset nodes'" and "hm_wf nodes"
    and "\<forall>(pk, node) \<in> set nodes. \<forall>ni. ln_get_node_info node pk = Inr ni \<longrightarrow> pubkey ni = pk"
    and "run_simulation env cfg supports_keysend nodes now activity r = Some (out, r1)" and "outcome out = Inr ()"
  shows "run_simulation (with_entropy e ranges env) cfg supports_keysend nodes' now activity r = Some (out, r1) \<and>
    produce_payment_events (hm_contains nodes') ticks h t r1 = produce_payment_events (hm_contains nodes) ticks h t r1 \<and>
    (\<forall>kits. random_activity_nodes env cfg nodes = Inr kits \<longrightarrow>
      (\<exists>view. \<forall>kit \<in> set kits. \<exists>ra.
         network_generator kit = view_destination_generator (env_picker env \<lparr>rng_owner = None, rng_seed = seed\<rparr>)
           (rng_poisoned (env_rand env \<lparr>rng_owner = None, rng_seed = seed\<rparr>)) view \<and>
         kit_payment_generator kit = random_payment_generator (env_float env)
           (env_rand env \<lparr>rng_owner = Some (pubkey (source_info kit)),
              rng_seed = default_hash (env_rng env)
                (serialize_pubkey (env_rng env) (pubkey (source_info kit)) @ to_le_bytes seed)\<rparr>) ra)) \<and>
    inj to_le_bytes"
proof -
  from assms(6,7) obtain out1 where run: "internal_run env cfg supports_keysend nodes now activity r = Some (out1, r1)"
    and out: "outcome out1 = Inr ()" "out = out1\<lparr>waited_for_tasks := True\<rparr>"
    by (auto simp: run_simulation_def split: if_splits)
  note same = internal_run_order [OF assms(1-5) run out(1), of e ranges]
  have "run_simulation (with_entropy e ranges env) cfg supports_keysend nodes' now activity r = Some (out, r1)"
    using out by (simp add: run_simulation_def same)
  moreover have "inj to_le_bytes" by (rule injI) (simp add: to_le_bytes_inject)
  ultimately show ?thesis
    using contains_order [OF assms(3)] by (intro conjI allI impI random_kits_seeds [OF _ assms(1)]) simp_all
qed

definition demo_started :: "nat run_outcome" where
  "demo_started = fst (the (run_simulation demo_env demo_cfg (\<lambda>_. True) demo_nodes 0 [] 0))"

lemma demo_start: "run_simulation demo_env demo_cfg (\<lambda>_. True) demo_nodes 0 [] 0 = Some (demo_started, snd demo_random)"
  and demo_start_ok: "outcome demo_started = Inr ()"
proof -
  have "validate_node_network demo_nodes = Inr ()"
    by (simp add: validate_node_network_def demo_nodes_def demo_lightning_node_def hm_values_def)
  moreover have "validate_activity (\<lambda>_. True) (gen_range_u64 (env_range demo_env)) demo_nodes [] 0 = Some (Inr (), 0)"
    by (simp add: validate_activity_def demo_nodes_def hm_len_def hm_values_def gen_bind_def)
  moreover have "activity_executors demo_env demo_cfg demo_nodes [] = Inr demo_kits"
    by (simp add: activity_executors_def demo_kits_ok)
  ultimately obtain out where "run_simulation demo_env demo_cfg (\<lambda>_. True) demo_nodes 0 [] 0 = Some (out, snd demo_random)"
    "outcome out = Inr ()"
    using demo_random_ok by (cases "fst demo_random") (simp add: run_simulation_def internal_run_def Let_def)
  then show "run_simulation demo_env demo_cfg (\<lambda>_. True) demo_nodes 0 [] 0 = Some (demo_started, snd demo_random)"
    and "outcome demo_started = Inr ()" by (simp_all add: demo_started_def)
qed

theorem seeded_runs_repeatable_witness:
  "run_simulation (with_entropy (\<lambda>_. 5) \<lparr>gen_range_u16 = (\<lambda>x y r. (y, r)), gen_range_u64 = (\<lambda>x y r. (y, Suc r))\<rparr> demo_env)
     demo_cfg (\<lambda>_. True) (rev demo_nodes) 0 [] 0 = Some (demo_started, snd demo_random)"
proof -
  have "cfg_seed demo_cfg = Some 7" "mset demo_nodes = mset (rev demo_nodes)" "hm_wf demo_nodes"
    "\<forall>(pk, node) \<in> set demo_nodes. \<forall>ni. ln_get_node_info node pk = Inr ni \<longrightarrow> pubkey ni = pk"
    by (auto simp: demo_setting hm_wf_def)
  from seeded_runs_repeatable [OF this(1) _ this(2-4) demo_start demo_start_ok] show ?thesis by simp
qed

end
