(* ===== verification/Pathfinding.thy ===== *)
theory Pathfinding
  imports Network_Setup
begin

section \<open>Pathfinding (simln-lib/src/sim_node.rs)\<close>

text \<open>
  What the program asks of the router of the \<open>lightning\<close> crate and what it makes of the answer:
  \<open>find_payment_route\<close>, the blocking task around it in \<open>SimNode::send_payment\<close>, the scorer of a node,
  and the two wrappers the crate calls back, \<open>UtxoValidator\<close> and \<open>WrappedLog\<close>.

  The router (\<open>find_route\<close>), the scorer and the defaults of \<open>PaymentParameters\<close> are parameters.
\<close>

subsection \<open>What is asked of the router\<close>

record payment_parameters =
  pp_payee :: pubkey
  pp_final_cltv_delta :: u32
  pp_max_total_cltv_delta :: u32
  pp_max_path_count :: u8
  pp_max_saturation_power_of_half :: u8

record route_parameters =
  rp_payment_params :: payment_parameters
  rp_final_value_msat :: u64
  rp_max_total_routing_fee_msat :: "u64 option"

definition payment_route_parameters ::
  "(pubkey \<Rightarrow> u32 \<Rightarrow> payment_parameters) \<Rightarrow> pubkey \<Rightarrow> u64 \<Rightarrow> route_parameters" where
  "payment_route_parameters from_node_id dest amount =
     \<lparr>rp_payment_params = (from_node_id dest 0)\<lparr>pp_max_path_count := 1, pp_max_saturation_power_of_half := 1\<rparr>,
      rp_final_value_msat = amount,
      rp_max_total_routing_fee_msat = None\<rparr>"

text \<open>The router takes the source, the parameters, the graph, the scorer and the 32 bytes of a seed; it
  is given no first hops and the default parameters of the scorer.\<close>

type_synonym ('g, 'sc) router = "pubkey \<Rightarrow> route_parameters \<Rightarrow> 'g \<Rightarrow> 'sc \<Rightarrow> u8 list \<Rightarrow> string + route"

definition find_payment_route ::
  "(pubkey \<Rightarrow> u32 \<Rightarrow> payment_parameters) \<Rightarrow> ('g, 'sc) router \<Rightarrow> pubkey \<Rightarrow> pubkey \<Rightarrow> u64 \<Rightarrow> 'g \<Rightarrow> 'sc \<Rightarrow>
   simulation_error + route" where
  "find_payment_route from_node_id router source dest amount graph scorer =
     (case router source (payment_route_parameters from_node_id dest amount) graph scorer (replicate 32 0) of
        Inl e \<Rightarrow> Inl (SimulatedNetworkError (Fmt ''{}'' [ArgStr e]))
      | Inr route \<Rightarrow> Inr route)"

text \<open>The blocking task: it takes the scorer's lock for reading, which fails when a writer has panicked,
  and the task itself may fail.\<close>

definition pathfinding_task ::
  "string option \<Rightarrow> (string + 'sc) \<Rightarrow> ('sc \<Rightarrow> simulation_error + route) \<Rightarrow> message + (simulation_error + route)" where
  "pathfinding_task join_error read_scorer find_with =
     (case join_error of
        Some e \<Rightarrow> Inl (Fmt ''pathfinding task failed: {e}'' [ArgStr e])
      | None \<Rightarrow>
          (case read_scorer of
             Inl e \<Rightarrow> Inl (Fmt ''scorer lock poisoned: {e}'' [ArgStr e])
           | Inr scorer \<Rightarrow> Inr (find_with scorer)))"

subsection \<open>The scorer of a node\<close>

text \<open>\<open>SimNode::new\<close> makes a scorer for each node; the results of tracked payments are told to it.\<close>

record 'sc scorer_ops =
  scorer_new :: 'sc
  payment_path_successful :: "path \<Rightarrow> duration \<Rightarrow> 'sc \<Rightarrow> 'sc"
  payment_path_failed :: "path \<Rightarrow> u64 \<Rightarrow> duration \<Rightarrow> 'sc \<Rightarrow> 'sc"

fun tell_scorer :: "'sc scorer_ops \<Rightarrow> scorer_update \<Rightarrow> 'sc \<Rightarrow> 'sc" where
  "tell_scorer ops (PathSuccessful p now) sc = payment_path_successful ops p now sc"
| "tell_scorer ops (PathFailed p index now) sc = payment_path_failed ops p (of_nat index) now sc"

definition node_scorer :: "'sc scorer_ops \<Rightarrow> pubkey \<Rightarrow> (pubkey \<times> scorer_update) list \<Rightarrow> 'sc" where
  "node_scorer ops pk scores =
     fold (tell_scorer ops) (map snd (filter (\<lambda>u. fst u = pk) scores)) (scorer_new ops)"

text \<open>The environment of simulated nodes that find their routes in \<open>graph\<close>; \<open>join\<close> is the failure of the
  blocking task, if it fails.\<close>

definition pathfinding_env ::
  "(pubkey \<Rightarrow> u32 \<Rightarrow> payment_parameters) \<Rightarrow> ('g, 'sc) router \<Rightarrow> 'sc scorer_ops \<Rightarrow> 'g \<Rightarrow>
   (sim_world \<Rightarrow> string option) \<Rightarrow> sim_env \<Rightarrow> sim_env" where
  "pathfinding_env from_node_id router ops graph join env =
     env\<lparr>find_route := (\<lambda>source dest amount w.
       pathfinding_task (join w)
         (case scorer_poisoned env w of Some e \<Rightarrow> Inl e | None \<Rightarrow> Inr (node_scorer ops source (sw_scores w)))
         (find_payment_route from_node_id router source dest amount graph))\<rparr>"

subsection \<open>The fake output of a funding transaction\<close>

record 'script utxo_validator =
  uv_amount_sat :: u64
  uv_script :: 'script

record 'script tx_out =
  txo_value :: u64
  txo_script_pubkey :: 'script

definition get_utxo :: "'script utxo_validator \<Rightarrow> 'h \<Rightarrow> u64 \<Rightarrow> 'script tx_out" where
  "get_utxo v genesis_hash scid = \<lparr>txo_value = uv_amount_sat v, txo_script_pubkey = uv_script v\<rparr>"

text \<open>\<open>funding_script\<close> is the crate's script for two keys.\<close>

definition utxo_validator_of :: "(pubkey \<Rightarrow> pubkey \<Rightarrow> 'script) \<Rightarrow> simulated_channel \<Rightarrow> 'script utxo_validator" where
  "utxo_validator_of funding_script c =
     \<lparr>uv_amount_sat = capacity_msat c div 1000, uv_script = funding_script (pk_1 c) (pk_2 c)\<rparr>"

text \<open>The amount in the announcement of \<open>Sim_Graph\<close> is what the lookup returns.\<close>

lemma announcement_utxo:
  "channel_announcement c =
     ChannelAnnouncement (scid_to_u64 (short_channel_id c)) (pk_1 c) (pk_2 c)
       (txo_value (get_utxo (utxo_validator_of funding_script c) genesis (scid_to_u64 (short_channel_id c))))"
  by (simp add: channel_announcement_def get_utxo_def utxo_validator_of_def)

subsection \<open>The logger given to the router\<close>

datatype ldk_level = LdkGossip | LdkTrace | LdkDebug | LdkInfo | LdkWarn | LdkError

datatype log_level = LogTrace | LogDebug | LogInfo | LogWarn | LogError

fun wrapped_log :: "ldk_level \<Rightarrow> 'a \<Rightarrow> log_level \<times> 'a" where
  "wrapped_log LdkGossip args = (LogTrace, args)"
| "wrapped_log LdkTrace args = (LogTrace, args)"
| "wrapped_log LdkDebug args = (LogDebug, args)"
| "wrapped_log LdkInfo args = (LogDebug, args)"
| "wrapped_log LdkWarn args = (LogWarn, args)"
| "wrapped_log LdkError args = (LogError, args)"

subsection \<open>What the router promises\<close>

text \<open>
  The view that the routing graph has of the network after the gossip it was given: the ends and the
  satoshis of a channel, and the terms of a direction (zero from the first node to the second).
\<close>

record channel_terms =
  terms_cltv_delta :: u16
  terms_htlc_minimum :: u64
  terms_htlc_maximum :: u64
  terms_base_fee :: u32
  terms_fee_rate :: u32

fun announced :: "gossip list \<Rightarrow> u64 \<Rightarrow> (pubkey \<times> pubkey \<times> u64) option" where
  "announced [] scid = None"
| "announced (ChannelAnnouncement k n1 n2 sats # ms) scid = (if k = scid then Some (n1, n2, sats) else announced ms scid)"
| "announced (_ # ms) scid = announced ms scid"

fun latest_terms :: "gossip list \<Rightarrow> u64 \<Rightarrow> u8 \<Rightarrow> channel_terms option" where
  "latest_terms [] scid dir = None"
| "latest_terms (ChannelUpdate k t flags delta mn mx base rate # ms) scid dir =
     (case latest_terms ms scid dir of
        Some terms \<Rightarrow> Some terms
      | None \<Rightarrow>
          if k = scid \<and> flags = dir
          then Some \<lparr>terms_cltv_delta = delta, terms_htlc_minimum = mn, terms_htlc_maximum = mx,
                     terms_base_fee = base, terms_fee_rate = rate\<rparr>
          else None)"
| "latest_terms (_ # ms) scid dir = latest_terms ms scid dir"

definition hop_terms :: "gossip list \<Rightarrow> pubkey \<Rightarrow> route_hop \<Rightarrow> (u64 \<times> channel_terms) option" where
  "hop_terms ms sender hop =
     (case announced ms (hop_short_channel_id hop) of
        None \<Rightarrow> None
      | Some (n1, n2, sats) \<Rightarrow>
          if sender = n1 \<and> hop_pubkey hop = n2
          then map_option (Pair sats) (latest_terms ms (hop_short_channel_id hop) 0)
          else if sender = n2 \<and> hop_pubkey hop = n1
          then map_option (Pair sats) (latest_terms ms (hop_short_channel_id hop) 1)
          else None)"

text \<open>
  What the crate documents of the routes it returns. Each hop is an announced channel from the node
  before to the node of the hop; what it carries, the fees and the value still to come, is within the
  size limits of its terms; and each node before the last is offered the fee and the CLTV delta that
  it asks for on the next channel. The share of a channel's capacity that the parameters ask for is no
  promise: the crate prefers paths that keep to it and falls back on others.
\<close>

fun hops_planned :: "gossip list \<Rightarrow> pubkey \<Rightarrow> route_hop list \<Rightarrow> bool" where
  "hops_planned ms sender [] = True"
| "hops_planned ms sender (hop # rest) =
     ((case hop_terms ms sender hop of
         None \<Rightarrow> False
       | Some (sats, terms) \<Rightarrow>
           unat (terms_htlc_minimum terms) \<le> fee_total (hop # rest) \<and>
           fee_total (hop # rest) \<le> unat (terms_htlc_maximum terms)) \<and>
      (case rest of
         [] \<Rightarrow> True
       | next_hop # _ \<Rightarrow>
           (case hop_terms ms (hop_pubkey hop) next_hop of
              None \<Rightarrow> False
            | Some (sats, terms) \<Rightarrow>
                unat (terms_cltv_delta terms) \<le> unat (hop_cltv_expiry_delta hop) \<and>
                fee_total rest * unat (terms_fee_rate terms) div 1000000 + unat (terms_base_fee terms)
                  \<le> unat (hop_fee_msat hop))) \<and>
      hops_planned ms (hop_pubkey hop) rest)"

definition path_planned :: "gossip list \<Rightarrow> route_parameters \<Rightarrow> pubkey \<Rightarrow> path \<Rightarrow> bool" where
  "path_planned ms params source p \<longleftrightarrow>
     path_documented p \<and> distinct (map hop_short_channel_id (hops p)) \<and>
     hop_pubkey (last (hops p)) = pp_payee (rp_payment_params params) \<and>
     sum_list (map (\<lambda>h. unat (hop_cltv_expiry_delta h)) (hops p)) \<le> unat (pp_max_total_cltv_delta (rp_payment_params params)) \<and>
     hops_planned ms source (hops p)"

definition route_planned :: "gossip list \<Rightarrow> route_parameters \<Rightarrow> pubkey \<Rightarrow> route \<Rightarrow> bool" where
  "route_planned ms params source route \<longleftrightarrow>
     route \<noteq> [] \<and> length route \<le> unat (pp_max_path_count (rp_payment_params params)) \<and>
     list_all (path_planned ms params source) route \<and>
     unat (rp_final_value_msat params) \<le> sum_list (map (\<lambda>p. unat (path_final_value_msat p)) route)"

definition router_documented ::
  "(gossip \<Rightarrow> 'g \<Rightarrow> string + 'g) \<Rightarrow> 'g \<Rightarrow> ('g, 'sc) router \<Rightarrow> bool" where
  "router_documented apply_gossip new_graph router \<longleftrightarrow>
     (\<forall>ms graph source params scorer seed route.
        apply_all apply_gossip ms new_graph = Inr graph \<longrightarrow>
        router source params graph scorer seed = Inr route \<longrightarrow> route_planned ms params source route)"

text \<open>The defaults: a payment to a node, and at most 1008 blocks along the route.\<close>

definition from_node_id_documented :: "(pubkey \<Rightarrow> u32 \<Rightarrow> payment_parameters) \<Rightarrow> bool" where
  "from_node_id_documented from_node_id \<longleftrightarrow>
     (\<forall>pk delta. pp_payee (from_node_id pk delta) = pk \<and> pp_final_cltv_delta (from_node_id pk delta) = delta \<and>
        pp_max_total_cltv_delta (from_node_id pk delta) = 1008)"

end
