(* ===== verification/Payment_Success.thy ===== *)
theory Payment_Success
  imports Payment_Properties
begin

section \<open>When a payment succeeds (simln-lib/src/sim_node.rs)\<close>

text \<open>
  \<open>add_htlcs\<close> meets the channels one after another, each changed by the hops before it.
  \<open>route_accepted\<close> says of the channels as they were when the payment started whether every hop
  will be accepted, \<open>route_agreed\<close> of the answers of the interceptors whether they agree to every hop; on
  a route that uses no channel twice the two decide the payment.
\<close>

definition hop_scid :: "route_hop \<Rightarrow> short_channel_id" where
  "hop_scid hop = scid_from_u64 (hop_short_channel_id hop)"

text \<open>The sender can add the HTLC to its side of the channel.\<close>

definition hop_has_room :: "channels \<Rightarrow> payment_hash \<Rightarrow> pubkey \<Rightarrow> htlc \<Rightarrow> route_hop \<Rightarrow> bool" where
  "hop_has_room nodes hash sender h hop =
     (case hm_get nodes (hop_scid hop) of
        None \<Rightarrow> False
      | Some c \<Rightarrow>
          (case get_node_mut c sender of
             Inl _ \<Rightarrow> False
           | Inr s \<Rightarrow> amount_msat h \<noteq> 0 \<and>
               within_limits (side_state s c) h (policy (side_state (other_side s) c)) \<and>
               hm_get (in_flight (side_state s c)) hash = None))"

text \<open>The policy of a forwarding node allows the CLTV delta and the fee it is offered.\<close>

definition policy_allows :: "channel_policy \<Rightarrow> u32 \<Rightarrow> u64 \<Rightarrow> u64 \<Rightarrow> bool" where
  "policy_allows p delta amt fee \<longleftrightarrow>
     (let prop_fee = unat amt * unat (fee_rate_prop p);
          expected = prop_fee div 1000000 + unat (base_fee p)
      in unat (cltv_expiry_delta p) \<le> unat delta \<and> prop_fee < 2 ^ 64 \<and> expected < 2 ^ 64 \<and>
         expected \<le> unat fee)"

text \<open>The node of a hop forwards over the next channel.\<close>

definition hop_forwards :: "channels \<Rightarrow> u64 \<Rightarrow> route_hop \<Rightarrow> route_hop list \<Rightarrow> bool" where
  "hop_forwards nodes amt hop rest =
     (case rest of
        [] \<Rightarrow> True
      | next_hop # _ \<Rightarrow>
          (case hm_get nodes (hop_scid next_hop) of
             None \<Rightarrow> True
           | Some c \<Rightarrow>
               (case get_node c (hop_pubkey hop) of
                  Inl _ \<Rightarrow> False
                | Inr cs \<Rightarrow> policy_allows (policy cs) (hop_cltv_expiry_delta hop) (amt - hop_fee_msat hop)
                             (hop_fee_msat hop))))"

fun route_accepted :: "channels \<Rightarrow> payment_hash \<Rightarrow> pubkey \<Rightarrow> u64 \<Rightarrow> u32 \<Rightarrow> route_hop list \<Rightarrow> bool" where
  "route_accepted nodes hash sender amt cltv [] = True"
| "route_accepted nodes hash sender amt cltv (hop # rest) =
     (hop_has_room nodes hash sender \<lparr>amount_msat = amt, cltv_expiry = cltv\<rparr> hop \<and>
      hop_forwards nodes amt hop rest \<and>
      route_accepted nodes hash (hop_pubkey hop) (amt - hop_fee_msat hop)
        (cltv - hop_cltv_expiry_delta hop) rest)"

subsection \<open>What the interceptors agree to\<close>

text \<open>
  \<open>heard\<close> is what the loop of \<open>handle_intercepted_htlc\<close> sees of the answers, up to the shutdown
  signal. The HTLC passes when each answer that is heard lets it pass and no two of them attach
  different values to one key; it then carries their records, each key as it was first attached.
\<close>

definition heard :: "join_event list \<Rightarrow> join_event list" where
  "heard es = takeWhile (\<lambda>e. e \<noteq> ShutdownSignal) es"

fun lets_pass :: "join_event \<Rightarrow> bool" where
  "lets_pass (Joined (Inr (Inr records))) = True"
| "lets_pass _ = False"

fun attached_by :: "join_event \<Rightarrow> (u64 \<times> u8 list) list" where
  "attached_by (Joined (Inr (Inr records))) = records"
| "attached_by _ = []"

definition keep_first :: "u64 \<times> u8 list \<Rightarrow> custom_records \<Rightarrow> custom_records" where
  "keep_first r m = (if hm_get m (fst r) = None then hm_insert (fst r) (snd r) m else m)"

definition interceptors_agree :: "interceptor list \<Rightarrow> join_event list \<Rightarrow> bool" where
  "interceptors_agree ics es \<longleftrightarrow>
     ics = [] \<or> list_all lets_pass (heard es) \<and> consistent (set (concat (map attached_by (heard es))))"

definition agreed_records :: "intercept_request \<Rightarrow> interceptor list \<Rightarrow> join_event list \<Rightarrow> custom_records" where
  "agreed_records request ics es =
     (if ics = [] then incoming_custom_records request
      else fold keep_first (concat (map attached_by (heard es))) hm_new)"

lemma merge_records_kept: "merge_records records attached = Inr m \<Longrightarrow> m = fold keep_first records attached"
  by (induction records attached rule: merge_records.induct)
    (auto simp: keep_first_def split: option.splits if_splits)

lemma merge_records_iff:
  "merge_records records attached = Inr m \<longleftrightarrow>
   consistent (set records \<union> graph_of attached) \<and> m = fold keep_first records attached"
proof (cases "consistent (set records \<union> graph_of attached)")
  case True
  with merge_records_consistent [OF this] merge_records_kept [of records attached] show ?thesis by fastforce
next
  case False
  with merge_records_inconsistent [OF this] show ?thesis by auto
qed

lemma graph_of_keep_first:
  "consistent (set records \<union> graph_of m) \<Longrightarrow> graph_of (fold keep_first records m) = set records \<union> graph_of m"
  by (metis merge_records_consistent merge_records_iff)

lemma get_resp_passes:
  "(\<exists>g'. get_resp es g = Inr g' \<and> interceptor_failure g' = None \<and> attached_custom_records g' = m) \<longleftrightarrow>
   interceptor_failure g = None \<and> list_all lets_pass (heard es) \<and>
   consistent (set (concat (map attached_by (heard es))) \<union> graph_of (attached_custom_records g)) \<and>
   m = fold keep_first (concat (map attached_by (heard es))) (attached_custom_records g)"
proof (induction es g rule: get_resp.induct)
  case (2 records es g)
  let ?a = "attached_custom_records g" and ?more = "set (concat (map attached_by (heard es)))"
  show ?case
  proof (cases "consistent (set records \<union> graph_of ?a)")
    case True
    then have "merge_records records ?a = Inr (fold keep_first records ?a)" by (simp add: merge_records_iff)
    with 2 show ?thesis
      by (simp add: heard_def graph_of_keep_first [OF True] Un_ac)
  next
    case False
    then have "\<not> consistent (set records \<union> ?more \<union> graph_of ?a)"
      using consistent_mono [of "set records \<union> ?more \<union> graph_of ?a" "set records \<union> graph_of ?a"] by blast
    moreover obtain k where "merge_records records ?a = Inl (DuplicateCustomRecord k)"
      using merge_records_inconsistent [OF False] by blast
    ultimately show ?thesis by (simp add: heard_def)
  qed
qed (auto simp: heard_def)

lemma handle_passes_iff:
  "handle_intercepted_htlc request ics es = Inr (Inr records) \<longleftrightarrow>
   interceptors_agree ics es \<and> records = agreed_records request ics es"
proof -
  have "(\<exists>g'. get_resp es gather_start = Inr g' \<and> interceptor_failure g' = None \<and>
      attached_custom_records g' = records) \<longleftrightarrow>
    list_all lets_pass (heard es) \<and> consistent (set (concat (map attached_by (heard es)))) \<and>
    records = fold keep_first (concat (map attached_by (heard es))) hm_new"
    by (simp add: get_resp_passes gather_start_def)
  then show ?thesis
    by (auto simp: handle_intercepted_htlc_def interceptors_agree_def agreed_records_def res_bind_Inr_iff
        split: option.splits)
qed

text \<open>
  The request made at a hop names the HTLC by the next index of the sender's side. \<open>route_agreed\<close> asks
  at one hop after another, each with the records that were agreed at the hop before.
\<close>

definition hop_ref :: "channels \<Rightarrow> pubkey \<Rightarrow> route_hop \<Rightarrow> htlc_ref" where
  "hop_ref nodes sender hop =
     \<lparr>ref_channel_id = hop_scid hop,
      ref_index =
        (case hm_get nodes (hop_scid hop) of
           None \<Rightarrow> 0
         | Some c \<Rightarrow> (case get_node c sender of Inl _ \<Rightarrow> 0 | Inr cs \<Rightarrow> htlc_index cs))\<rparr>"

definition hop_asked ::
  "channels \<Rightarrow> payment_hash \<Rightarrow> add_state \<Rightarrow> route_hop \<Rightarrow> route_hop list \<Rightarrow> intercept_request" where
  "hop_asked nodes hash st hop rest =
     hop_request hash hop st (hop_ref nodes (outgoing_node st) hop)
       (case rest of [] \<Rightarrow> None | next_hop # _ \<Rightarrow> Some (hop_scid next_hop))"

fun route_agreed ::
  "channels \<Rightarrow> payment_hash \<Rightarrow> interceptor list \<Rightarrow> joins \<Rightarrow> nat \<Rightarrow> add_state \<Rightarrow> route_hop list \<Rightarrow> bool" where
  "route_agreed nodes hash ics joins i st [] = True"
| "route_agreed nodes hash ics joins i st (hop # rest) =
     (let request = hop_asked nodes hash st hop rest in
      interceptors_agree ics (joins request) \<and>
      route_agreed nodes hash ics joins (Suc i)
        (add_state_next i hop (agreed_records request ics (joins request)) st) rest)"

subsection \<open>One hop\<close>

lemma state_check_allows:
  "state_check_htlc_forward cs delta amt fee = Inr (Inr ()) \<longleftrightarrow> policy_allows (policy cs) delta amt fee"
  unfolding check_htlc_forward_spec policy_allows_def Let_def by auto

lemma forward_allows:
  "channel_check_htlc_forward c pk delta amt fee = Inr (Inr ()) \<longleftrightarrow>
   (case get_node c pk of Inl _ \<Rightarrow> False | Inr cs \<Rightarrow> policy_allows (policy cs) delta amt fee)"
  by (cases "get_node c pk") (simp_all add: channel_check_htlc_forward_def state_check_allows)

lemma next_hop_scid_split:
  "hops route = pre @ hop # rest \<Longrightarrow>
   next_hop_scid route (length pre) = (case rest of [] \<Rightarrow> None | h # _ \<Rightarrow> Some (hop_scid h))"
  by (cases rest) (simp_all add: next_hop_scid_def hop_scid_def Let_def nth_append)

lemma add_htlc_room:
  assumes "channel_inv c"
  shows "(\<exists>idx c'. add_htlc c pk hash h = (Inr (Inr idx), c')) \<longleftrightarrow>
    (case get_node_mut c pk of
       Inl _ \<Rightarrow> False
     | Inr s \<Rightarrow> amount_msat h \<noteq> 0 \<and>
         within_limits (side_state s c) h (policy (side_state (other_side s) c)) \<and>
         hm_get (in_flight (side_state s c)) hash = None)"
  by (cases "get_node_mut c pk") (simp_all add: add_htlc_ok_side [OF assms])

text \<open>The channels of the hops still to come are as they were.\<close>

definition same_on :: "route_hop list \<Rightarrow> channels \<Rightarrow> channels \<Rightarrow> bool" where
  "same_on hs nodes' nodes \<longleftrightarrow> (\<forall>h \<in> set hs. hm_get nodes' (hop_scid h) = hm_get nodes (hop_scid h))"

lemma add_hop_ok_iff:
  assumes "net_inv nodes'" and "same_on (hop # rest) nodes' nodes"
    and "hops route = pre @ hop # rest" and "hop_scid hop \<notin> hop_scid ` set rest"
    and "add_hop route hash (length pre) hop st nodes' = (r, nodes'')"
  shows "(\<exists>y. r = Inr (Inr y)) \<longleftrightarrow>
      hop_has_room nodes hash (outgoing_node st)
        \<lparr>amount_msat = outgoing_amount st, cltv_expiry = outgoing_cltv st\<rparr> hop \<and>
      hop_forwards nodes (outgoing_amount st) hop rest"
    and "(\<exists>y. r = Inr (Inr y)) \<Longrightarrow> same_on rest nodes'' nodes"
proof -
  let ?h = "\<lparr>amount_msat = outgoing_amount st, cltv_expiry = outgoing_cltv st\<rparr>"
  have here: "hm_get nodes (hop_scid hop) = hm_get nodes' (hop_scid hop)"
    and later: "\<And>h. h \<in> set rest \<Longrightarrow> hm_get nodes' (hop_scid h) = hm_get nodes (hop_scid h)"
    using assms(2) by (simp_all add: same_on_def)
  have "((\<exists>y. r = Inr (Inr y)) \<longleftrightarrow> hop_has_room nodes hash (outgoing_node st) ?h hop \<and>
      hop_forwards nodes (outgoing_amount st) hop rest) \<and>
    ((\<exists>y. r = Inr (Inr y)) \<longrightarrow> same_on rest nodes'' nodes)"
  proof (cases "hm_get nodes' (hop_scid hop)")
    case None
    then show ?thesis
      using assms(5) by (auto simp: add_hop_def hop_has_room_def here Let_def simp flip: hop_scid_def)
  next
    case (Some c)
    then have inv: "channel_inv c" using net_inv_get [OF assms(1)] by (auto simp: channel_good_def)
    obtain res c' where add: "add_htlc c (outgoing_node st) hash ?h = (res, c')"
      by (cases "add_htlc c (outgoing_node st) hash ?h")
    have room: "hop_has_room nodes hash (outgoing_node st) ?h hop \<longleftrightarrow> (\<exists>idx. res = Inr (Inr idx))"
      using add_htlc_room [OF inv, of "outgoing_node st" hash ?h] add
      by (simp add: hop_has_room_def here Some)
    show ?thesis
    proof (cases "\<exists>idx. res = Inr (Inr idx)")
      case False
      then show ?thesis
        using assms(5) add Some room
        by (auto simp: add_hop_def Let_def split: sum.splits simp flip: hop_scid_def)
    next
      case True
      then obtain idx where idx: "res = Inr (Inr idx)" ..
      let ?nodes = "hm_insert (hop_scid hop) c' nodes'"
      have other: "hm_get ?nodes (hop_scid h) = hm_get nodes (hop_scid h)" if "h \<in> set rest" for h
      proof -
        have "hop_scid h \<noteq> hop_scid hop" using assms(4) that by (metis imageI)
        then show ?thesis using later [OF that] by (simp add: hm_get_insert)
      qed
      have check: "(case Option.bind (next_hop_scid route (length pre)) (hm_get ?nodes) of
            None \<Rightarrow> Inr (Inr ())
          | Some next_channel \<Rightarrow> channel_check_htlc_forward next_channel (hop_pubkey hop)
              (hop_cltv_expiry_delta hop) (outgoing_amount st - hop_fee_msat hop) (hop_fee_msat hop)) = Inr (Inr ())
        \<longleftrightarrow> hop_forwards nodes (outgoing_amount st) hop rest"
      proof (cases rest)
        case (Cons h hs)
        then show ?thesis
          using other [of h]
          by (simp add: next_hop_scid_split [OF assms(3)] hop_forwards_def forward_allows split: option.split)
      qed (simp add: next_hop_scid_split [OF assms(3)] hop_forwards_def)
      have nodes'': "nodes'' = ?nodes"
        using assms(5) add Some idx by (simp add: add_hop_def Let_def flip: hop_scid_def)
      have "(\<exists>y. r = Inr (Inr y)) \<longleftrightarrow> hop_forwards nodes (outgoing_amount st) hop rest"
        using assms(5) add Some idx unfolding check [symmetric]
        by (auto simp: add_hop_def Let_def split: sum.splits simp flip: hop_scid_def)
      with room True other show ?thesis by (simp add: nodes'' same_on_def)
    qed
  qed
  then show "(\<exists>y. r = Inr (Inr y)) \<longleftrightarrow> hop_has_room nodes hash (outgoing_node st) ?h hop \<and>
      hop_forwards nodes (outgoing_amount st) hop rest"
    and "(\<exists>y. r = Inr (Inr y)) \<Longrightarrow> same_on rest nodes'' nodes" by blast+
qed

lemma add_hop_asks:
  assumes "net_inv nodes'" and "same_on (hop # rest) nodes' nodes" and "hops route = pre @ hop # rest"
    and "add_hop route hash (length pre) hop st nodes' = (Inr (Inr (incoming, next_scid)), nodes'')"
  shows "hop_request hash hop st incoming next_scid = hop_asked nodes hash st hop rest"
proof -
  let ?h = "\<lparr>amount_msat = outgoing_amount st, cltv_expiry = outgoing_cltv st\<rparr>"
  have here: "hm_get nodes (hop_scid hop) = hm_get nodes' (hop_scid hop)"
    using assms(2) by (simp add: same_on_def)
  from assms(4) obtain c idx c' where c: "hm_get nodes' (hop_scid hop) = Some c"
    and add: "add_htlc c (outgoing_node st) hash ?h = (Inr (Inr idx), c')"
    and incoming: "incoming = \<lparr>ref_channel_id = hop_scid hop, ref_index = idx\<rparr>"
    and next_scid: "next_scid = next_hop_scid route (length pre)"
    by (auto simp: add_hop_def Let_def simp flip: hop_scid_def split: option.splits sum.splits prod.splits)
  have "channel_inv c" using net_inv_get [OF assms(1) c] by (simp add: channel_good_def)
  with add obtain s where "get_node_mut c (outgoing_node st) = Inr s" "idx = htlc_index (side_state s c)"
    by (auto simp: add_htlc_ok_side)
  then have "hop_ref nodes (outgoing_node st) hop = incoming"
    by (simp add: hop_ref_def here c incoming get_node_via_side)
  then show ?thesis
    by (simp add: hop_asked_def next_scid next_hop_scid_split [OF assms(3)])
qed

subsection \<open>The whole route\<close>

lemma add_htlcs_loop_ok_iff:
  assumes "net_inv nodes'" and "same_on hs nodes' nodes" and "hops route = pre @ hs"
    and "distinct (map hop_scid hs)"
  shows "fst (add_htlcs_loop route hash ics joins (length pre) hs st nodes') = Inr (Inr ()) \<longleftrightarrow>
    route_accepted nodes hash (outgoing_node st) (outgoing_amount st) (outgoing_cltv st) hs \<and>
    route_agreed nodes hash ics joins (length pre) st hs"
  using assms
proof (induction hs arbitrary: pre st nodes')
  case (Cons hop rest)
  obtain r nodes'' where hop: "add_hop route hash (length pre) hop st nodes' = (r, nodes'')"
    by (cases "add_hop route hash (length pre) hop st nodes'")
  have new: "hop_scid hop \<notin> hop_scid ` set rest" using Cons.prems(4) by simp
  note step = add_hop_ok_iff [OF Cons.prems(1-3) new hop]
  show ?case
  proof (cases "\<exists>y. r = Inr (Inr y)")
    case False
    then have "fst (add_htlcs_loop route hash ics joins (length pre) (hop # rest) st nodes') \<noteq> Inr (Inr ())"
      using hop by (auto split: sum.split)
    with step(1) False show ?thesis by auto
  next
    case True
    then obtain incoming next_scid where y: "r = Inr (Inr (incoming, next_scid))" by auto
    let ?req = "hop_asked nodes hash st hop rest"
    let ?next = "add_state_next (length pre) hop (agreed_records ?req ics (joins ?req)) st"
    have asked: "hop_request hash hop st incoming next_scid = ?req"
      using add_hop_asks [OF Cons.prems(1-3)] hop y by simp
    from Cons.prems(1) hop refl have inv: "net_inv nodes''"
    proof (cases rule: add_hop_cases)
      case locked
      then show ?thesis using net_lock_effect(1) [OF Cons.prems(1)] by blast
    qed (use Cons.prems(1) in simp)
    have "hops route = (pre @ [hop]) @ rest" "distinct (map hop_scid rest)" using Cons.prems(3,4) by simp_all
    from Cons.IH [OF inv step(2) [OF True] this, of ?next]
    have rest: "fst (add_htlcs_loop route hash ics joins (Suc (length pre)) rest ?next nodes'') = Inr (Inr ()) \<longleftrightarrow>
        route_accepted nodes hash (hop_pubkey hop) (outgoing_amount st - hop_fee_msat hop)
          (outgoing_cltv st - hop_cltv_expiry_delta hop) rest \<and>
        route_agreed nodes hash ics joins (Suc (length pre)) ?next rest"
      by (simp add: add_state_next_def)
    show ?thesis
    proof (cases "interceptors_agree ics (joins ?req)")
      case True
      then have "handle_intercepted_htlc ?req ics (joins ?req) = Inr (Inr (agreed_records ?req ics (joins ?req)))"
        by (simp add: handle_passes_iff)
      then show ?thesis using step(1) \<open>\<exists>y. r = Inr (Inr y)\<close> hop y rest True by (simp add: Let_def asked)
    next
      case False
      then have "handle_intercepted_htlc ?req ics (joins ?req) \<noteq> Inr (Inr records)" for records
        by (simp add: handle_passes_iff)
      then show ?thesis using False hop y by (auto simp: Let_def asked split: sum.splits)
    qed
  qed
qed simp

lemma success_iff_added:
  assumes "hops (pr_route req) \<noteq> []"
  shows "rep_result (propagate_payment nodes joins req) = Some \<lparr>htlc_count = 1, payment_outcome = Success\<rparr> \<longleftrightarrow>
    fst (add_htlcs nodes (pr_source req) (pr_route req) (pr_payment_hash req) (pr_interceptors req) joins
      (pr_custom_records req)) = Inr (Inr ())"
proof -
  obtain r nodes' where add: "add_htlcs nodes (pr_source req) (pr_route req) (pr_payment_hash req)
      (pr_interceptors req) joins (pr_custom_records req) = (r, nodes')"
    by (metis prod.exhaust)
  show ?thesis
    using assms(1)
    by (auto simp: propagate_payment_def add after_removal_def remove_htlcs_def Let_def
        split: sum.splits option.splits if_splits prod.splits)
qed

text \<open>What every hop of a payment needs of the channels, and of the interceptors.\<close>

definition payment_accepted :: "channels \<Rightarrow> payment_request \<Rightarrow> bool" where
  "payment_accepted nodes req \<longleftrightarrow>
     route_accepted nodes (pr_payment_hash req) (pr_source req)
       (path_fee_msat (pr_route req) + path_final_value_msat (pr_route req))
       (sum_list (map hop_cltv_expiry_delta (hops (pr_route req)))) (hops (pr_route req))"

definition payment_agreed :: "channels \<Rightarrow> joins \<Rightarrow> payment_request \<Rightarrow> bool" where
  "payment_agreed nodes joins req \<longleftrightarrow>
     route_agreed nodes (pr_payment_hash req) (pr_interceptors req) joins 0
       (add_state_start (pr_source req) (pr_route req) (pr_custom_records req)) (hops (pr_route req))"

lemma success_iff_accepted:
  assumes "net_inv nodes" and "hops (pr_route req) \<noteq> []" and "distinct (map hop_scid (hops (pr_route req)))"
  shows "rep_result (propagate_payment nodes joins req) = Some \<lparr>htlc_count = 1, payment_outcome = Success\<rparr> \<longleftrightarrow>
    payment_accepted nodes req \<and> payment_agreed nodes joins req"
proof -
  have "same_on (hops (pr_route req)) nodes nodes" by (simp add: same_on_def)
  from add_htlcs_loop_ok_iff [OF assms(1) this, of "pr_route req" "[]", OF _ assms(3),
      of "pr_payment_hash req" "pr_interceptors req" joins
      "add_state_start (pr_source req) (pr_route req) (pr_custom_records req)"]
  show ?thesis
    unfolding success_iff_added [OF assms(2)]
    by (simp add: add_htlcs_def payment_accepted_def payment_agreed_def add_state_start_def)
qed

text \<open>Interceptors that let every HTLC pass agree to every payment.\<close>

definition all_let_pass :: "interceptor list \<Rightarrow> joins \<Rightarrow> bool" where
  "all_let_pass ics joins \<longleftrightarrow> (\<forall>request. interceptors_agree ics (joins request))"

lemma no_interceptors_pass: "all_let_pass [] joins"
  by (simp add: all_let_pass_def interceptors_agree_def)

lemma let_pass_agreed: "all_let_pass (pr_interceptors req) joins \<Longrightarrow> payment_agreed nodes joins req"
proof -
  assume pass: "all_let_pass (pr_interceptors req) joins"
  have "route_agreed nodes hash (pr_interceptors req) joins i st hs" for nodes hash i st hs
    using pass by (induction hs arbitrary: i st) (simp_all add: all_let_pass_def Let_def)
  then show ?thesis by (simp add: payment_agreed_def)
qed

text \<open>C12. When a payment succeeds. On a network in its invariant, for a route that uses no channel twice,
  a payment reports success exactly when every hop can be made on the channels as they were when the
  payment started and the interceptors agree at every hop. The first: the channel exists and joins the
  sender, the amount that is left after the fees paid so far and the expiry are within the limits of
  both policies, the hash is not yet pending there, and each forwarding node's policy allows the
  CLTV delta and the fee, read over natural numbers. The second: asked about the HTLC of the hop, by
  its amounts, its expiries and the next index of the channel, every interceptor that is heard lets it
  pass and no two attach different values to one key. Otherwise no balance moves, unless the shutdown
  was triggered.\<close>

theorem payment_succeeds_iff:
  fixes joins :: joins
  assumes "net_inv nodes" and "hops (pr_route req) \<noteq> []" and "distinct (map hop_scid (hops (pr_route req)))"
    and "notify_ok (pr_interceptors req)"
  defines "rep \<equiv> propagate_payment nodes joins req"
  shows "(rep_result rep = Some \<lparr>htlc_count = 1, payment_outcome = Success\<rparr> \<longleftrightarrow>
      payment_accepted nodes req \<and> payment_agreed nodes joins req) \<and>
    (\<not> (payment_accepted nodes req \<and> payment_agreed nodes joins req) \<longrightarrow>
      rep_shutdown rep \<or> acct_balance (rep_nodes rep) = acct_balance nodes)"
proof -
  note succeeds = success_iff_accepted [OF assms(1-3), of joins, folded rep_def]
  from assms(1,2,4) have "rep_result rep = Some \<lparr>htlc_count = 1, payment_outcome = Success\<rparr> \<or>
      rep_shutdown rep \<or> acct_balance (rep_nodes rep) = acct_balance nodes"
    unfolding rep_def by (cases rule: propagate_cases [where joins = joins]) simp_all
  with succeeds show ?thesis by blast
qed

text \<open>One interceptor that refuses the second hop of a payment which the channels would carry.\<close>

definition wary_joins :: joins where
  "wary_joins request =
     (if forwarding_node request = PublicKey 3 then [Joined (Inr (Inl (FwdInterceptorError ''no'')))]
      else [Joined (Inr (Inr []))])"

definition wary_payment :: payment_request where
  "wary_payment = (demo_payment 2)\<lparr>pr_interceptors :=
     [\<lparr>interceptor_name = ''wary'', intercept_htlc = (\<lambda>_. Inr (Inr [])), notify_resolution = (\<lambda>_. Inr ())\<rparr>]\<rparr>"

theorem payment_succeeds_iff_witness:
  "payment_accepted demo_net wary_payment \<and> \<not> payment_agreed demo_net wary_joins wary_payment \<and>
   payment_agreed demo_net demo_joins (demo_payment 2) \<and>
   rep_result (propagate_payment demo_net wary_joins wary_payment)
     \<noteq> Some \<lparr>htlc_count = 1, payment_outcome = Success\<rparr>"
proof -
  have distinct: "distinct (map hop_scid (hops (demo_route 2)))"
    by (simp add: demo_route_def hop_scid_def scid_from_u64_def)
  have fields: "pr_route wary_payment = demo_route 2" "notify_ok (pr_interceptors wary_payment)"
    by (simp_all add: wary_payment_def demo_payment_def notify_ok_def)
  have "payment_accepted demo_net (demo_payment 2) \<and> payment_agreed demo_net demo_joins (demo_payment 2)"
    using payment_succeeds_iff [OF demo_net_inv, of "demo_payment 2" demo_joins] distinct demo_pays by simp
  moreover from this have "payment_accepted demo_net wary_payment"
    by (simp add: payment_accepted_def wary_payment_def)
  moreover have refused: "\<not> payment_agreed demo_net wary_joins wary_payment"
    by (simp add: payment_agreed_def wary_payment_def demo_payment_def demo_route_def interceptors_agree_def
        wary_joins_def hop_asked_def hop_request_def heard_def add_state_next_def)
  moreover have "rep_result (propagate_payment demo_net wary_joins wary_payment)
     \<noteq> Some \<lparr>htlc_count = 1, payment_outcome = Success\<rparr>"
    using payment_succeeds_iff [OF demo_net_inv, of wary_payment wary_joins] fields distinct refused by simp
  ultimately show ?thesis by blast
qed

end
