(* ===== verification/Pathfinding_Properties.thy ===== *)
theory Pathfinding_Properties
  imports Pathfinding Payment_Success
begin

section \<open>Planned payments (simln-lib/src/sim_node.rs)\<close>

text \<open>
  The routing graph and the simulated channels are built from the same channels but check payments
  separately: the router plans with the gossip of \<open>populate_network_graph\<close>, and the channels decide
  with their own policies. Here the two are compared: on fresh channels, the fees, delays and limits
  that the router plans with are those that the channels check, and what can be missing is the balance,
  which the router does not know.
\<close>

subsection \<open>What the gossip says of a channel\<close>

definition terms_of :: "channel_policy \<Rightarrow> channel_terms" where
  "terms_of p =
     \<lparr>terms_cltv_delta = ucast (cltv_expiry_delta p), terms_htlc_minimum = min_htlc_size_msat p,
      terms_htlc_maximum = max_htlc_size_msat p, terms_base_fee = ucast (base_fee p),
      terms_fee_rate = ucast (fee_rate_prop p)\<rparr>"

lemma scid_eq: "scid_to_u64 s = k \<longleftrightarrow> s = scid_from_u64 k"
  by (cases s) (auto simp: scid_from_u64_def)

lemma announced_gossip:
  "announced (gossip_from clock i cs) k =
   map_option (\<lambda>c. (pk_1 c, pk_2 c, capacity_msat c div 1000)) (find (\<lambda>c. short_channel_id c = scid_from_u64 k) cs)"
  by (induction clock i cs rule: gossip_from.induct)
    (auto simp: channel_gossip_def channel_announcement_def channel_update_def scid_eq)

lemma latest_terms_gossip:
  assumes "distinct (map short_channel_id cs)"
  shows "latest_terms (gossip_from clock i cs) k dir =
    (case find (\<lambda>c. short_channel_id c = scid_from_u64 k) cs of
       None \<Rightarrow> None
     | Some c \<Rightarrow>
         if dir = 0 then Some (terms_of (policy (node_1 c)))
         else if dir = 1 then Some (terms_of (policy (node_2 c))) else None)"
  using assms
proof (induction clock i cs rule: gossip_from.induct)
  case (2 clock i c cs)
  show ?case
  proof (cases "short_channel_id c = scid_from_u64 k")
    case True
    with 2(2) have "find (\<lambda>c. short_channel_id c = scid_from_u64 k) cs = None"
      by (auto simp: find_None_iff) (metis imageI)
    with 2 True show ?thesis
      by (auto simp: channel_gossip_def channel_announcement_def channel_update_def scid_eq terms_of_def)
  next
    case False
    with 2 show ?thesis
      by (auto simp: channel_gossip_def channel_announcement_def channel_update_def scid_eq split: option.split)
  qed
qed simp

lemma hop_termsE:
  assumes "sim_graph_new f cs ics recs = Inr g"
    and "hop_terms (gossip_from clock 0 cs) sender hop = Some (sats, terms)"
  obtains c s where "hm_get (sg_channels g) (hop_scid hop) = Some c" "c \<in> set cs" "get_node_mut c sender = Inr s"
    "sats = capacity_msat c div 1000" "terms = terms_of (policy (side_state s c))"
    "sender = side_pk s c" "hop_pubkey hop = side_pk (other_side s) c"
proof -
  note parts = sim_graph_new_parts [OF assms(1)]
  from assms(2) obtain c where c: "find (\<lambda>c. short_channel_id c = hop_scid hop) cs = Some c"
    by (auto simp: hop_terms_def announced_gossip hop_scid_def split: option.splits)
  then have mem: "c \<in> set cs" by (auto simp: find_Some_iff)
  then have neq: "pk_1 c \<noteq> pk_2 c" using parts(3) validate_distinct_pks by blast
  from assms(2) c have "sats = capacity_msat c div 1000 \<and>
      (sender = pk_1 c \<and> hop_pubkey hop = pk_2 c \<and> terms = terms_of (policy (node_1 c)) \<or>
       sender = pk_2 c \<and> hop_pubkey hop = pk_1 c \<and> terms = terms_of (policy (node_2 c)))"
    by (auto simp: hop_terms_def announced_gossip latest_terms_gossip [OF parts(2)] simp flip: hop_scid_def
        split: if_splits)
  then show thesis
  proof (elim conjE disjE)
    assume "sender = pk_1 c" "hop_pubkey hop = pk_2 c" "terms = terms_of (policy (node_1 c))"
      "sats = capacity_msat c div 1000"
    with c mem show thesis
      by (intro that [of c Side1]) (simp_all add: parts(4) get_node_mut_def)
  next
    assume "sender = pk_2 c" "hop_pubkey hop = pk_1 c" "terms = terms_of (policy (node_2 c))"
      "sats = capacity_msat c div 1000"
    with c mem neq show thesis
      by (intro that [of c Side2]) (simp_all add: parts(4) get_node_mut_def)
  qed
qed

subsection \<open>Policies that the gossip can say\<close>

text \<open>
  The gossip has fewer bits for some terms, and says nothing of the number of HTLCs and of the total in
  flight. \<open>side_suits\<close> says that one HTLC of the largest size is always allowed, that the terms fit their
  fields and that the proportional fee of half the capacity fits 64 bits.
\<close>

definition side_suits :: "u64 \<Rightarrow> channel_policy \<Rightarrow> channel_policy \<Rightarrow> bool" where
  "side_suits capacity own other \<longleftrightarrow>
     unat (cltv_expiry_delta own) < 2 ^ 16 \<and> unat (base_fee own) < 2 ^ 32 \<and> unat (fee_rate_prop own) < 2 ^ 32 \<and>
     1 \<le> unat (max_htlc_count other) \<and> max_htlc_size_msat own \<le> max_in_flight_msat other \<and>
     unat capacity div 2 * unat (fee_rate_prop own) < 2 ^ 64"

definition policies_suit :: "simulated_channel \<Rightarrow> bool" where
  "policies_suit c \<longleftrightarrow>
     side_suits (capacity_msat c) (policy (node_1 c)) (policy (node_2 c)) \<and>
     side_suits (capacity_msat c) (policy (node_2 c)) (policy (node_1 c))"

lemma policies_suit_side:
  "policies_suit c \<Longrightarrow> side_suits (capacity_msat c) (policy (side_state s c)) (policy (side_state (other_side s) c))"
  by (cases s) (simp_all add: policies_suit_def)

lemma suited_terms:
  assumes "side_suits capacity own other"
  shows "unat (terms_cltv_delta (terms_of own)) = unat (cltv_expiry_delta own)"
    and "unat (terms_base_fee (terms_of own)) = unat (base_fee own)"
    and "unat (terms_fee_rate (terms_of own)) = unat (fee_rate_prop own)"
    and "terms_htlc_minimum (terms_of own) = min_htlc_size_msat own"
    and "terms_htlc_maximum (terms_of own) = max_htlc_size_msat own"
  using assms unat_ucast_eq_iff [of "cltv_expiry_delta own", where 'b = 16]
    unat_ucast_eq_iff [of "base_fee own", where 'b = 32] unat_ucast_eq_iff [of "fee_rate_prop own", where 'b = 32]
  by (simp_all add: side_suits_def terms_of_def)

lemma fresh_side:
  assumes "fresh_channel c"
  shows "local_balance_msat (side_state s c) = capacity_msat c div 2" and "in_flight (side_state s c) = []"
    and "in_flight_funds (side_state s c) = 0"
proof -
  have c: "c = simulated_channel_new (capacity_msat c) (short_channel_id c) (policy (node_1 c)) (policy (node_2 c))
           (exclude_capacity c)"
    using assms by (simp add: fresh_channel_def)
  have "local_balance_msat (side_state s (simulated_channel_new cap scid p1 p2 e)) = cap div 2"
    "in_flight (side_state s (simulated_channel_new cap scid p1 p2 e)) = []" for cap scid p1 p2 e
    by (cases s; simp add: simulated_channel_new_def channel_state_new_def hm_new_def)+
  then show "local_balance_msat (side_state s c) = capacity_msat c div 2" and empty: "in_flight (side_state s c) = []"
    by (metis c)+
  then show "in_flight_funds (side_state s c) = 0" by (simp add: in_flight_funds_def)
qed

subsection \<open>Planned hops are accepted\<close>

text \<open>
  The two sides of a fresh channel open with half of its capacity each. A route fits when what it sends
  over each channel, the value and the fees still to come, is at most that.
\<close>

definition hop_fits :: "channels \<Rightarrow> nat \<Rightarrow> route_hop \<Rightarrow> bool" where
  "hop_fits nodes amt hop =
     (case hm_get nodes (hop_scid hop) of None \<Rightarrow> False | Some c \<Rightarrow> amt \<le> unat (capacity_msat c) div 2)"

fun route_fits :: "channels \<Rightarrow> route_hop list \<Rightarrow> bool" where
  "route_fits nodes [] = True"
| "route_fits nodes (hop # rest) = (hop_fits nodes (fee_total (hop # rest)) hop \<and> route_fits nodes rest)"

lemma hop_room:
  assumes "sim_graph_new f cs ics recs = Inr g" and "\<forall>c \<in> set cs. fresh_channel c \<and> policies_suit c"
    and "hop_terms (gossip_from clock 0 cs) sender hop = Some (sats, terms)"
    and "unat (terms_htlc_minimum terms) \<le> unat amt" and "unat amt \<le> unat (terms_htlc_maximum terms)"
    and "unat cltv \<le> 1008" and "amt \<noteq> 0" and "hop_fits (sg_channels g) (unat amt) hop"
  shows "hop_has_room (sg_channels g) hash sender \<lparr>amount_msat = amt, cltv_expiry = cltv\<rparr> hop"
proof -
  from assms(1,3) obtain c s where c: "hm_get (sg_channels g) (hop_scid hop) = Some c" "c \<in> set cs"
    "get_node_mut c sender = Inr s" "sats = capacity_msat c div 1000" "terms = terms_of (policy (side_state s c))"
    by (rule hop_termsE)
  then have fresh: "fresh_channel c" and suits: "side_suits (capacity_msat c) (policy (side_state s c))
      (policy (side_state (other_side s) c))"
    using assms(2) policies_suit_side by blast+
  have "unat amt \<le> unat (capacity_msat c div 2)"
    using assms(8) c(1) by (simp add: hop_fits_def unat_div)
  moreover have "unat amt \<le> unat (max_in_flight_msat (policy (side_state (other_side s) c)))"
    using assms(5) suits unfolding c(5) suited_terms [OF suits] by (simp add: side_suits_def word_le_nat_alt)
  ultimately show ?thesis
    using c(1,3) assms(4-7) suits fresh_side [OF fresh, of s]
    unfolding c(5) suited_terms [OF suits]
    by (simp add: hop_has_room_def within_limits_def side_suits_def hm_get_def)
qed

lemma hop_allowed:
  assumes "sim_graph_new f cs ics recs = Inr g" and "\<forall>c \<in> set cs. fresh_channel c \<and> policies_suit c"
    and "hop_terms (gossip_from clock 0 cs) (hop_pubkey hop) next_hop = Some (sats, terms)"
    and "unat (terms_cltv_delta terms) \<le> unat (hop_cltv_expiry_delta hop)"
    and "unat (amt - hop_fee_msat hop) * unat (terms_fee_rate terms) div 1000000 + unat (terms_base_fee terms)
      \<le> unat (hop_fee_msat hop)"
    and "hop_fits (sg_channels g) (unat (amt - hop_fee_msat hop)) next_hop"
  shows "hop_forwards (sg_channels g) amt hop (next_hop # rest)"
proof -
  from assms(1,3) obtain c s where c: "hm_get (sg_channels g) (hop_scid next_hop) = Some c" "c \<in> set cs"
    "get_node_mut c (hop_pubkey hop) = Inr s" "sats = capacity_msat c div 1000" "terms = terms_of (policy (side_state s c))"
    by (rule hop_termsE)
  have suits: "side_suits (capacity_msat c) (policy (side_state s c)) (policy (side_state (other_side s) c))"
    using c(2) assms(2) policies_suit_side by blast
  have "unat (amt - hop_fee_msat hop) \<le> unat (capacity_msat c) div 2"
    using assms(6) c(1) by (simp add: hop_fits_def)
  then have "unat (amt - hop_fee_msat hop) * unat (fee_rate_prop (policy (side_state s c)))
      \<le> unat (capacity_msat c) div 2 * unat (fee_rate_prop (policy (side_state s c)))"
    by (rule mult_le_mono1)
  also have "\<dots> < 2 ^ 64" using suits by (simp add: side_suits_def)
  finally have fits: "unat (amt - hop_fee_msat hop) * unat (fee_rate_prop (policy (side_state s c))) < 2 ^ 64" .
  have "unat (amt - hop_fee_msat hop) * unat (terms_fee_rate terms) div 1000000 + unat (terms_base_fee terms) < 2 ^ 64"
    by (rule order.strict_trans1 [OF assms(5)]) simp
  moreover have "get_node c (hop_pubkey hop) = Inr (side_state s c)"
    using c(3) by (cases s) (auto simp: get_node_mut_def get_node_def split: if_splits)
  ultimately show ?thesis
    using c(1) assms(4,5) fits unfolding c(5) suited_terms [OF suits]
    by (simp add: hop_forwards_def policy_allows_def Let_def)
qed

definition cltv_total :: "route_hop list \<Rightarrow> nat" where
  "cltv_total hs = sum_list (map (\<lambda>h. unat (hop_cltv_expiry_delta h)) hs)"

lemma planned_accepted:
  assumes "sim_graph_new f cs ics recs = Inr g" and "\<forall>c \<in> set cs. fresh_channel c \<and> policies_suit c"
  shows "hops_planned (gossip_from clock 0 cs) sender hs \<Longrightarrow> unat amt = fee_total hs \<Longrightarrow>
    unat cltv = cltv_total hs \<Longrightarrow> cltv_total hs \<le> 1008 \<Longrightarrow> hs = [] \<or> 0 < unat (hop_fee_msat (last hs)) \<Longrightarrow>
    route_fits (sg_channels g) hs \<Longrightarrow> route_accepted (sg_channels g) hash sender amt cltv hs"
proof (induction hs arbitrary: sender amt cltv)
  case (Cons hop rest)
  obtain sats terms where terms: "hop_terms (gossip_from clock 0 cs) sender hop = Some (sats, terms)"
    "unat (terms_htlc_minimum terms) \<le> unat amt" "unat amt \<le> unat (terms_htlc_maximum terms)"
    using Cons.prems(1,2) by (auto split: option.splits)
  have fee: "unat (hop_fee_msat hop) \<le> unat amt" "unat (hop_cltv_expiry_delta hop) \<le> unat cltv"
    using Cons.prems(2,3) by (simp_all add: fee_total_def cltv_total_def)
  then have rest: "unat (amt - hop_fee_msat hop) = fee_total rest"
    "unat (cltv - hop_cltv_expiry_delta hop) = cltv_total rest"
    using Cons.prems(2,3) by (simp_all add: unat_sub_le word_le_nat_alt fee_total_def cltv_total_def)
  have last: "rest = [] \<or> 0 < unat (hop_fee_msat (last rest))" using Cons.prems(5) by (cases rest) auto
  have "unat (hop_fee_msat (last (hop # rest))) \<le> fee_total (hop # rest)"
    unfolding fee_total_def by (rule member_le_sum_list) simp_all
  then have "amt \<noteq> 0" using Cons.prems(2,5) by auto
  then have room: "hop_has_room (sg_channels g) hash sender \<lparr>amount_msat = amt, cltv_expiry = cltv\<rparr> hop"
    using Cons.prems(2,3,4,6) by (intro hop_room [OF assms terms]) simp_all
  have "hop_forwards (sg_channels g) amt hop rest"
  proof (cases rest)
    case (Cons next_hop more)
    from Cons.prems(1) obtain nsats nterms where
      "hop_terms (gossip_from clock 0 cs) (hop_pubkey hop) next_hop = Some (nsats, nterms)"
      "unat (terms_cltv_delta nterms) \<le> unat (hop_cltv_expiry_delta hop)"
      "unat (amt - hop_fee_msat hop) * unat (terms_fee_rate nterms) div 1000000 + unat (terms_base_fee nterms)
        \<le> unat (hop_fee_msat hop)"
      unfolding rest by (auto simp: Cons split: option.splits)
    moreover have "hop_fits (sg_channels g) (unat (amt - hop_fee_msat hop)) next_hop"
      using Cons.prems(6) unfolding rest by (simp add: Cons)
    ultimately have "hop_forwards (sg_channels g) amt hop (next_hop # more)" by (rule hop_allowed [OF assms])
    then show ?thesis by (simp add: Cons)
  qed (simp add: hop_forwards_def)
  moreover have "route_accepted (sg_channels g) hash (hop_pubkey hop) (amt - hop_fee_msat hop)
      (cltv - hop_cltv_expiry_delta hop) rest"
    using Cons.prems(1,4,6) rest last by (intro Cons.IH) (simp_all add: cltv_total_def)
  ultimately show ?case using room by simp
qed simp

text \<open>An HTLC that the sender's side takes was covered by its balance.\<close>

lemma accepted_fits:
  assumes "sim_graph_new f cs ics recs = Inr g" and "\<forall>c \<in> set cs. fresh_channel c \<and> policies_suit c"
  shows "route_accepted (sg_channels g) hash sender amt cltv hs \<Longrightarrow> unat amt = fee_total hs \<Longrightarrow>
    route_fits (sg_channels g) hs"
proof (induction hs arbitrary: sender amt cltv)
  case (Cons hop rest)
  then have room: "hop_has_room (sg_channels g) hash sender \<lparr>amount_msat = amt, cltv_expiry = cltv\<rparr> hop" by simp
  then obtain c s where c: "hm_get (sg_channels g) (hop_scid hop) = Some c" "get_node_mut c sender = Inr s"
    "unat amt \<le> unat (local_balance_msat (side_state s c))"
    by (auto simp: hop_has_room_def within_limits_def word_le_nat_alt split: option.splits sum.splits)
  have "c \<in> set cs" using c(1) unfolding sim_graph_new_parts(4) [OF assms(1)] by (auto simp: find_Some_iff)
  then have "unat amt \<le> unat (capacity_msat c) div 2"
    using c(3) assms(2) fresh_side(1) [of c s] by (simp add: unat_div)
  moreover have "unat (hop_fee_msat hop) \<le> unat amt" using Cons.prems(2) by (simp add: fee_total_def)
  then have "unat (amt - hop_fee_msat hop) = fee_total rest"
    using Cons.prems(2) by (simp add: unat_sub_le word_le_nat_alt fee_total_def)
  ultimately show ?case
    using Cons.IH [of "hop_pubkey hop" "amt - hop_fee_msat hop" "cltv - hop_cltv_expiry_delta hop"] Cons.prems c(1)
    by (simp add: hop_fits_def)
qed simp

lemma planned_connects:
  assumes "sim_graph_new f cs ics recs = Inr g"
  shows "hops_planned (gossip_from clock 0 cs) sender hs \<Longrightarrow> connects (sg_channels g) sender hs"
proof (induction hs arbitrary: sender)
  case (Cons hop rest)
  then obtain sats terms where "hop_terms (gossip_from clock 0 cs) sender hop = Some (sats, terms)"
    by (auto split: option.splits)
  with assms obtain c s where c: "hm_get (sg_channels g) (hop_scid hop) = Some c" "c \<in> set cs"
    "sender = side_pk s c" "hop_pubkey hop = side_pk (other_side s) c"
    by (rule hop_termsE)
  moreover have "pk_1 c \<noteq> pk_2 c"
    using sim_graph_new_parts(3) [OF assms] c(2) validate_distinct_pks by blast
  ultimately have "case net_frame (sg_channels g) (scid_from_u64 (hop_short_channel_id hop)) of
         None \<Rightarrow> False
       | Some (p, q) \<Rightarrow> p \<noteq> q \<and> (sender = p \<and> hop_pubkey hop = q \<or> sender = q \<and> hop_pubkey hop = p)"
    by (cases s) (auto simp: net_frame_def simp flip: hop_scid_def)
  with Cons show ?case by simp
qed simp

lemma fee_total_bound:
  assumes "sim_graph_new f cs ics recs = Inr g" and "hops_planned (gossip_from clock 0 cs) sender hs" and "hs \<noteq> []"
  shows "fee_total hs < 2 ^ 64"
proof (cases hs)
  case (Cons hop rest)
  with assms(2) obtain terms :: channel_terms where "fee_total hs \<le> unat (terms_htlc_maximum terms)"
    by (auto split: option.splits)
  then show ?thesis by (rule order.strict_trans1) simp
qed (use assms(3) in simp)

text \<open>The words in which the task computes the amounts and the expiry do not wrap on a planned path.\<close>

lemma planned_totals:
  assumes "path_documented p" and "fee_total (hops p) < 2 ^ 64" and "cltv_total (hops p) \<le> 1008"
  shows "unat (path_fee_msat p + path_final_value_msat p) = fee_total (hops p)"
    and "unat (sum_list (map hop_cltv_expiry_delta (hops p))) = cltv_total (hops p)"
  using unat_path_total [OF assms(1,2)] assms(3)
    sum_list_map_unat [of hop_cltv_expiry_delta "hops p"] by (simp_all add: cltv_total_def)

lemma spawned_route:
  assumes "send_payment g node rx hash route_task = (res, node', SenderSpawned req)"
  obtains p where "route_task = Inr (Inr [p])" "pr_route req = p" "pr_source req = pubkey (sn_info node)"
    "pr_interceptors req = sg_interceptors g" "res = Inr hash"
  using assms
  by (auto simp: send_payment_def dispatch_payment_def length_Suc_conv split: sum.splits if_splits)

text \<open>What the program asks of the router, and what a route that was found then keeps.\<close>

lemma asked_params:
  assumes "from_node_id_documented from_node_id"
  shows "pp_max_path_count (rp_payment_params (payment_route_parameters from_node_id dest amt)) = 1"
    "pp_payee (rp_payment_params (payment_route_parameters from_node_id dest amt)) = dest"
    "rp_final_value_msat (payment_route_parameters from_node_id dest amt) = amt"
    "pp_max_total_cltv_delta (rp_payment_params (payment_route_parameters from_node_id dest amt)) = 1008"
  using assms by (simp_all add: payment_route_parameters_def from_node_id_documented_def)

lemma found_planned:
  assumes "router_documented apply_gossip new_graph router" and "from_node_id_documented from_node_id"
    and "populate_network_graph apply_gossip clock new_graph cs = Inr graph"
    and "find_route (pathfinding_env from_node_id router ops graph join env) source dest amt w = Inr (Inr route)"
  obtains p where "route = [p]" "hops_planned (gossip_from clock 0 cs) source (hops p)" "path_documented p"
    "distinct (map hop_short_channel_id (hops p))" "hop_pubkey (last (hops p)) = dest" "cltv_total (hops p) \<le> 1008"
    "unat amt \<le> unat (hop_fee_msat (last (hops p)))"
proof -
  have "apply_all apply_gossip (gossip_from clock 0 cs) new_graph = Inr graph"
    using assms(3) by (simp add: populate_network_graph_def populate_loop_gossip)
  with assms(1,4) have "route_planned (gossip_from clock 0 cs) (payment_route_parameters from_node_id dest amt) source route"
    by (auto simp: pathfinding_env_def pathfinding_task_def find_payment_route_def router_documented_def
        split: option.splits sum.splits)
  note planned = this [unfolded route_planned_def path_planned_def asked_params [OF assms(2)], simplified]
  then obtain p where "route = [p]" by (cases route) auto
  with planned that show thesis by (auto simp: path_documented_def cltv_total_def)
qed

lemma planned_success:
  assumes "sim_graph_new f cs ics recs = Inr g" and "\<forall>c \<in> set cs. fresh_channel c \<and> policies_suit c"
    and "hops_planned (gossip_from clock 0 cs) source (hops p)" and "path_documented p"
    and "distinct (map hop_short_channel_id (hops p))" and "cltv_total (hops p) \<le> 1008"
    and "0 < unat (hop_fee_msat (last (hops p)))" and "pr_route req = p" "pr_source req = source"
  shows "rep_result (propagate_payment (sg_channels g) joins req) = Some \<lparr>htlc_count = 1, payment_outcome = Success\<rparr> \<longleftrightarrow>
    route_fits (sg_channels g) (hops p) \<and> payment_agreed (sg_channels g) joins req"
proof -
  have net: "net_inv (sg_channels g)" using fresh_graph(1) [OF assms(1)] assms(2) by blast
  have nonempty: "hops p \<noteq> []" using assms(4) by (simp add: path_documented_def)
  note totals = planned_totals [OF assms(4) fee_total_bound [OF assms(1,3) nonempty] assms(6)]
  have "payment_accepted (sg_channels g) req \<longleftrightarrow> route_fits (sg_channels g) (hops p)"
    using planned_accepted [OF assms(1,2,3) totals assms(6) disjI2 [OF assms(7)]]
      accepted_fits [OF assms(1,2) _ totals(1)] assms(8,9)
    by (auto simp: payment_accepted_def)
  moreover have "inj scid_from_u64" by (rule injI) (simp add: scid_from_u64_def)
  with assms(5) have "distinct (map hop_scid (hops p))"
    by (simp add: hop_scid_def [abs_def] distinct_map inj_on_def)
  ultimately show ?thesis using success_iff_accepted [OF net, of req joins] nonempty assms(8) by simp
qed

lemma planned_delivers:
  assumes "sim_graph_new f cs ics recs = Inr g" and "\<forall>c \<in> set cs. fresh_channel c \<and> policies_suit c"
    and "hops_planned (gossip_from clock 0 cs) source (hops p)" and "path_documented p"
    and "rep_result (propagate_payment (sg_channels g) joins req) = Some \<lparr>htlc_count = 1, payment_outcome = Success\<rparr>"
    and "pr_route req = p" "pr_source req = source" "notify_ok (pr_interceptors req)"
    and "hop_pubkey (last (hops p)) = dest" "dest \<noteq> source"
  shows "node_funds (sg_channels g) dest + unat (hop_fee_msat (last (hops p))) \<le>
    node_funds (rep_nodes (propagate_payment (sg_channels g) joins req)) dest"
proof -
  have net: "net_inv (sg_channels g)" using fresh_graph(1) [OF assms(1)] assms(2) by blast
  have nonempty: "hops p \<noteq> []" using assms(4) by (simp add: path_documented_def)
  have "node_funds (sg_channels g) dest + earned dest (hops p) =
      node_funds (rep_nodes (propagate_payment (sg_channels g) joins req)) dest"
    using success_pays [OF net, of req joins, OF _ _ _ _ assms(5), of dest] assms(4,6-8,10)
      fee_total_bound [OF assms(1,3) nonempty] nonempty planned_connects [OF assms(1,3)] by simp
  moreover have "unat (hop_fee_msat (last (hops p))) \<le> earned dest (hops p)"
    unfolding earned_def using nonempty assms(9)
    by (intro member_le_sum_list) (auto simp: image_iff intro!: bexI [of _ "last (hops p)"])
  ultimately show ?thesis by simp
qed

text \<open>C8. Planned payments. The nodes of a simulated network find routes in the routing graph made from
  its channels, with a router that keeps its documented promises. The payment parameters ask for one
  path, so \<open>send_payment\<close> never refuses a route for its number of paths. And while the channels are as
  they were opened, with policies that the gossip can say and that allow one HTLC of the largest size,
  a payment that is sent over a route succeeds exactly when what it sends over each channel fits the
  half of the capacity that the sender's side opens with, and the interceptors agree: the fees, delays
  and limits that the router plans with are those that the channels check, and the balance is the one
  thing it may miss. A payment that succeeds leaves the destination with at least the amount more.\<close>

theorem planned_payments_succeed:
  fixes joins :: joins
  assumes "router_documented apply_gossip new_graph router" and "from_node_id_documented from_node_id"
    and "sim_graph_new f cs ics recs = Inr g" and "populate_network_graph apply_gossip clock new_graph cs = Inr graph"
    and "\<forall>c \<in> set cs. fresh_channel c \<and> policies_suit c" and "notify_ok ics"
    and "send_payment g node rx hash (find_route (pathfinding_env from_node_id router ops graph join env)
      (pubkey (sn_info node)) dest amt w) = (res, node', fate)"
    and "amt \<noteq> 0" and "dest \<noteq> pubkey (sn_info node)"
  defines "success \<equiv> \<lparr>htlc_count = 1, payment_outcome = Success\<rparr>"
  shows "res \<noteq> Inl one_path_error \<and>
    (\<forall>req. fate = SenderSpawned req \<longrightarrow> res = Inr hash \<and>
       (rep_result (propagate_payment (sg_channels g) joins req) = Some success \<longleftrightarrow>
          route_fits (sg_channels g) (hops (pr_route req)) \<and> payment_agreed (sg_channels g) joins req) \<and>
       (rep_result (propagate_payment (sg_channels g) joins req) = Some success \<longrightarrow>
          node_funds (sg_channels g) dest + unat amt
            \<le> node_funds (rep_nodes (propagate_payment (sg_channels g) joins req)) dest))"
proof -
  let ?task = "find_route (pathfinding_env from_node_id router ops graph join env) (pubkey (sn_info node)) dest amt w"
  note found = found_planned [OF assms(1,2,4)]
  have "?task \<noteq> Inl (Fmt ''Route must contain exactly one path for this operation.'' [])"
    by (simp add: pathfinding_env_def pathfinding_task_def split: option.split sum.split)
  moreover have "length route = 1" if "?task = Inr (Inr route)" for route
    using that by (rule found) simp
  ultimately have "res \<noteq> Inl one_path_error"
    using assms(7) by (auto simp: send_payment_def hash_exists_error_def one_path_error_def split: sum.splits if_splits)
  moreover have "res = Inr hash \<and>
       (rep_result (propagate_payment (sg_channels g) joins req) = Some success \<longleftrightarrow>
          route_fits (sg_channels g) (hops (pr_route req)) \<and> payment_agreed (sg_channels g) joins req) \<and>
       (rep_result (propagate_payment (sg_channels g) joins req) = Some success \<longrightarrow>
          node_funds (sg_channels g) dest + unat amt
            \<le> node_funds (rep_nodes (propagate_payment (sg_channels g) joins req)) dest)"
    if "fate = SenderSpawned req" for req
  proof -
    from assms(7) that obtain p where p: "?task = Inr (Inr [p])" "pr_route req = p"
      "pr_source req = pubkey (sn_info node)" "pr_interceptors req = sg_interceptors g" "res = Inr hash"
      by (auto elim: spawned_route)
    have ics: "sg_interceptors g = ics" using assms(3) by (auto simp: sim_graph_new_def res_bind_Inr_iff)
    from found [OF p(1)] have planned: "hops_planned (gossip_from clock 0 cs) (pubkey (sn_info node)) (hops p)"
      "path_documented p" "distinct (map hop_short_channel_id (hops p))" "hop_pubkey (last (hops p)) = dest"
      "cltv_total (hops p) \<le> 1008" "unat amt \<le> unat (hop_fee_msat (last (hops p)))" by blast+
    have "0 < unat (hop_fee_msat (last (hops p)))"
      using assms(8) planned(6) by (metis unat_gt_0 order.strict_trans2)
    then have ok: "rep_result (propagate_payment (sg_channels g) joins req) = Some success \<longleftrightarrow>
        route_fits (sg_channels g) (hops p) \<and> payment_agreed (sg_channels g) joins req"
      unfolding success_def using planned_success [OF assms(3,5) planned(1,2,3,5) _ p(2,3)] by simp
    from planned_delivers [OF assms(3,5) planned(1,2) _ p(2,3) _ planned(4) assms(9)] assms(6) p(4) ics planned(6)
    show ?thesis using ok p(2,5) unfolding success_def by fastforce
  qed
  ultimately show ?thesis by blast
qed

text \<open>A router that knows one route, and a graph that is the gossip it was given.\<close>

definition demo_gossip :: "gossip \<Rightarrow> gossip list \<Rightarrow> string + gossip list" where
  "demo_gossip m graph = Inr (graph @ [m])"

definition demo_router :: "(gossip list, unit) router" where
  "demo_router source params graph scorer seed =
     (if route_planned graph params source [demo_route 2] then Inr [demo_route 2] else Inl ''no route'')"

definition demo_parameters :: "pubkey \<Rightarrow> u32 \<Rightarrow> payment_parameters" where
  "demo_parameters pk delta =
     \<lparr>pp_payee = pk, pp_final_cltv_delta = delta, pp_max_total_cltv_delta = 1008, pp_max_path_count = 10,
      pp_max_saturation_power_of_half = 2\<rparr>"

definition demo_scorer :: "unit scorer_ops" where
  "demo_scorer = \<lparr>scorer_new = (), payment_path_successful = (\<lambda>_ _ _. ()), payment_path_failed = (\<lambda>_ _ _ _. ())\<rparr>"

definition demo_world :: sim_world where
  "demo_world = \<lparr>sw_node = (\<lambda>_. demo_node), sw_channels_made = 0, sw_fates = [], sw_scores = []\<rparr>"

definition demo_finds :: sim_env where
  "demo_finds = pathfinding_env demo_parameters demo_router demo_scorer (gossip_from (\<lambda>_. 0) 0 demo_channels) (\<lambda>_. None)
     \<lparr>find_route = (\<lambda>_ _ _ _. Inl (Fmt '''' [])), draw_hash = (\<lambda>_. demo_hash), unix_time = (\<lambda>_. Inr 0),
      scorer_poisoned = (\<lambda>_. None), receives = (\<lambda>_ _. ListenerTriggered)\<rparr>"

lemma demo_gossip_all: "apply_all demo_gossip ms graph = Inr (graph @ ms)"
  by (induction ms arbitrary: graph) (simp_all add: demo_gossip_def)

lemma demo_router_documented: "router_documented demo_gossip [] demo_router"
  by (auto simp: router_documented_def demo_router_def demo_gossip_all split: if_splits)

lemma demo_network_planned:
  "route_planned (gossip_from (\<lambda>_. 0) 0 demo_channels) (payment_route_parameters demo_parameters (PublicKey 3) 200)
     (PublicKey 1) [demo_route 2]"
  by (simp add: route_planned_def path_planned_def path_documented_def payment_route_parameters_def
      demo_parameters_def demo_route_def demo_channels_def demo_policy_def hop_terms_def channel_gossip_def
      channel_announcement_def channel_update_def channel_eval fee_total_def)

lemma demo_found: "find_route demo_finds (PublicKey 1) (PublicKey 3) 200 demo_world = Inr (Inr [demo_route 2])"
  using demo_network_planned
  by (simp add: demo_finds_def pathfinding_env_def pathfinding_task_def find_payment_route_def demo_router_def)

lemma demo_channels_suit: "\<forall>c \<in> set demo_channels. fresh_channel c \<and> policies_suit c"
  using demo_channels_fresh
  by (simp add: demo_channels_def policies_suit_def side_suits_def demo_policy_def simulated_channel_new_def
      channel_state_new_def)

lemma demo_fits: "route_fits (sg_channels demo_graph) (hops (demo_route 2))"
  using sim_graph_new_parts(4) [OF demo_graph_ok]
  by (simp add: demo_route_def hop_fits_def hop_scid_def fee_total_def demo_channels_def
      simulated_channel_new_def scid_from_u64_def)

theorem planned_payments_succeed_witness:
  "\<exists>node' req. send_payment demo_graph demo_node 0 demo_hash
       (find_route demo_finds (PublicKey 1) (PublicKey 3) 200 demo_world) = (Inr demo_hash, node', SenderSpawned req) \<and>
     rep_result (propagate_payment (sg_channels demo_graph) demo_joins req)
       = Some \<lparr>htlc_count = 1, payment_outcome = Success\<rparr> \<and>
     node_funds (sg_channels demo_graph) (PublicKey 3) + 200
       \<le> node_funds (rep_nodes (propagate_payment (sg_channels demo_graph) demo_joins req)) (PublicKey 3)"
proof -
  have node: "pubkey (sn_info demo_node) = PublicKey 1" by (simp add: demo_node_def)
  obtain node' req where sent: "send_payment demo_graph demo_node 0 demo_hash
       (find_route demo_finds (PublicKey 1) (PublicKey 3) 200 demo_world) = (Inr demo_hash, node', SenderSpawned req)"
    unfolding demo_found
    by (auto simp: send_payment_def dispatch_payment_def demo_node_def hm_contains_def hm_get_def)
  have "sg_interceptors demo_graph = []"
    using demo_graph_ok by (auto simp: sim_graph_new_def res_bind_Inr_iff dest: arg_cong [where f = sg_interceptors])
  with sent have req: "pr_route req = demo_route 2" "pr_interceptors req = []"
    unfolding demo_found by (auto elim!: spawned_route)
  have "populate_network_graph demo_gossip (\<lambda>_. 0) [] demo_channels = Inr (gossip_from (\<lambda>_. 0) 0 demo_channels)"
    by (simp add: populate_network_graph_def populate_loop_gossip demo_gossip_all)
  moreover have "from_node_id_documented demo_parameters" by (simp add: from_node_id_documented_def demo_parameters_def)
  moreover have "notify_ok []" by (simp add: notify_ok_def)
  moreover have "payment_agreed (sg_channels demo_graph) demo_joins req"
    using let_pass_agreed [of req demo_joins] no_interceptors_pass req by simp
  ultimately show ?thesis
    using planned_payments_succeed [where joins = demo_joins, OF demo_router_documented _ demo_graph_ok _ demo_channels_suit _
        sent [unfolded demo_finds_def node [symmetric]]] sent demo_fits req by (simp add: node)
qed

end
