(* ===== verification/Display.thy ===== *)
theory Display
  imports Result_Properties Interceptors Decimal
begin

section \<open>What is printed (simln-lib/src/lib.rs, sim_node.rs, defined_activity.rs, random_activity.rs)\<close>

text \<open>
  The \<open>Display\<close> implementations, as strings, and the task that reports the results every minute. The
  printed forms of a public key (66 hexadecimal digits) and of an \<open>f64\<close>, and the hexadecimal form of
  bytes, belong to other crates or to the float formatter and are parameters. A slice out of range
  panics: \<open>None\<close>.
\<close>

subsection \<open>Keys, channels, ranges\<close>

fun node_id_display :: "(pubkey \<Rightarrow> string) \<Rightarrow> node_id \<Rightarrow> string" where
  "node_id_display show_pk (NodeIdPublicKey pk) = show_pk pk"
| "node_id_display show_pk (NodeIdAlias a) = a"

definition scid_to_string :: "short_channel_id \<Rightarrow> string" where
  "scid_to_string s =
     (case scid_display s of (block, transaction, output) \<Rightarrow>
        decimal (unat block) @ '':'' @ decimal (unat transaction) @ '':'' @ decimal (unat output))"

fun value_or_range_display :: "('a \<Rightarrow> string) \<Rightarrow> 'a value_or_range \<Rightarrow> string" where
  "value_or_range_display show_val (Value x) = show_val x"
| "value_or_range_display show_val (Range x y) = ''('' @ show_val x @ ''-'' @ show_val y @ '')''"

definition pk_summary :: "string \<Rightarrow> string option" where
  "pk_summary pk =
     (if length pk < 6 then None else Some (take 6 pk @ ''...'' @ drop (length pk - 6) pk))"

definition node_info_display :: "(pubkey \<Rightarrow> string) \<Rightarrow> node_info \<Rightarrow> string option" where
  "node_info_display show_pk info =
     map_option (\<lambda>summary. if node_alias info = [] then summary else node_alias info @ ''('' @ summary @ '')'')
       (pk_summary (show_pk (pubkey info)))"

subsection \<open>Payments and results\<close>

text \<open>The derived \<open>Debug\<close> of an outcome is its name.\<close>

fun payment_outcome_debug :: "payment_outcome \<Rightarrow> string" where
  "payment_outcome_debug Success = ''Success''"
| "payment_outcome_debug RecipientRejected = ''RecipientRejected''"
| "payment_outcome_debug UserAbandoned = ''UserAbandoned''"
| "payment_outcome_debug RetriesExhausted = ''RetriesExhausted''"
| "payment_outcome_debug PaymentExpired = ''PaymentExpired''"
| "payment_outcome_debug RouteNotFound = ''RouteNotFound''"
| "payment_outcome_debug UnexpectedError = ''UnexpectedError''"
| "payment_outcome_debug IncorrectPaymentDetails = ''IncorrectPaymentDetails''"
| "payment_outcome_debug OutcomeInsufficientBalance = ''InsufficientBalance''"
| "payment_outcome_debug Unknown = ''Unknown''"
| "payment_outcome_debug NotDispatched = ''NotDispatched''"
| "payment_outcome_debug TrackPaymentFailed = ''TrackPaymentFailed''"
| "payment_outcome_debug (IndexFailure i) = ''IndexFailure('' @ decimal i @ '')''"

definition payment_result_display :: "payment_result \<Rightarrow> string" where
  "payment_result_display r =
     ''Payment outcome: '' @ payment_outcome_debug (payment_outcome r) @ '' with '' @ decimal (htlc_count r) @ '' htlcs''"

text \<open>
  The \<open>Debug\<close> of a \<open>Duration\<close>: seconds, or the largest smaller unit that fits, with the digits after the
  point up to the last that is not zero.
\<close>

fun fraction_digits :: "nat \<Rightarrow> nat \<Rightarrow> string" where
  "fraction_digits part divisor =
     (if part = 0 \<or> divisor = 0 then []
      else char_of (48 + part div divisor) # fraction_digits (part mod divisor) (divisor div 10))"

declare fraction_digits.simps [simp del]

definition fmt_decimal :: "nat \<Rightarrow> nat \<Rightarrow> nat \<Rightarrow> string \<Rightarrow> string" where
  "fmt_decimal whole part divisor unit =
     decimal whole @ (case fraction_digits part divisor of [] \<Rightarrow> [] | ds \<Rightarrow> ''.'' @ ds) @ unit"

definition duration_debug :: "duration \<Rightarrow> string" where
  "duration_debug d =
     (let secs = d div nanos_per_sec; nanos = d mod nanos_per_sec in
      if secs > 0 then fmt_decimal secs nanos 100000000 ''s''
      else if nanos \<ge> 1000000 then fmt_decimal (nanos div 1000000) (nanos mod 1000000) 100000 ''ms''
      else if nanos \<ge> 1000 then fmt_decimal (nanos div 1000) (nanos mod 1000) 100 (map char_of [194, 181 :: nat] @ ''s'')
      else fmt_decimal nanos 0 1 ''ns'')"

definition payment_display :: "(u8 list \<Rightarrow> string) \<Rightarrow> (pubkey \<Rightarrow> string) \<Rightarrow> payment \<Rightarrow> string" where
  "payment_display hex_encode show_pk p =
     ''Payment '' @ (case pay_hash p of Some (PaymentHash bs) \<Rightarrow> hex_encode bs | None \<Rightarrow> []) @
     '' dispatched at '' @ duration_debug (pay_dispatch_time p) @
     '' sending '' @ decimal (unat (pay_amount_msat p)) @
     '' msat from '' @ show_pk (pay_source p) @ '' -> '' @ show_pk (pay_destination p) @ ''.''"

definition result_logger_display :: "'f float_ops \<Rightarrow> ('f \<Rightarrow> string) \<Rightarrow> payment_result_logger \<Rightarrow> string" where
  "result_logger_display fl show_2 logger =
     ''Processed '' @ decimal (unat (total_attempts logger)) @ '' payments sending '' @
     decimal (unat (total_sent logger)) @ '' msat total with '' @ show_2 (success_rate fl logger) @
     ''% success rate.''"

text \<open>\<open>run_results_logger\<close>: the lines it prints, over what its \<open>select!\<close> meets; a sleep that ends finds the
  logger in some state.\<close>

datatype logger_event = LoggerStopped | LoggerSlept payment_result_logger

fun results_logger_loop :: "(payment_result_logger \<Rightarrow> string) \<Rightarrow> logger_event list \<Rightarrow> string list" where
  "results_logger_loop show_logger [] = []"
| "results_logger_loop show_logger (LoggerStopped # events) = []"
| "results_logger_loop show_logger (LoggerSlept logger # events) =
     show_logger logger # results_logger_loop show_logger events"

definition run_results_logger ::
  "'f float_ops \<Rightarrow> ('f \<Rightarrow> string) \<Rightarrow> duration \<Rightarrow> logger_event list \<Rightarrow> string list" where
  "run_results_logger fl show_2 interval events =
     (''Summary of results will be reported every '' @ duration_debug interval @ ''.'') #
     results_logger_loop (result_logger_display fl show_2) events"

subsection \<open>Activities\<close>

definition defined_activity_display :: "(pubkey \<Rightarrow> string) \<Rightarrow> defined_payment_activity \<Rightarrow> string option" where
  "defined_activity_display show_pk a =
     map_option (\<lambda>dest. ''static payment of '' @ value_or_range_display (\<lambda>x. decimal (unat x)) (da_amount a) @
         '' to '' @ dest @ '' every '' @ value_or_range_display (\<lambda>x. decimal (unat x)) (da_wait a) @ ''s'')
       (node_info_display show_pk (da_destination a))"

definition network_view_display :: "'w network_graph_view \<Rightarrow> string" where
  "network_view_display v = ''network graph view with: '' @ decimal (length (view_nodes v)) @ '' nodes''"

definition random_activity_display ::
  "'f float_ops \<Rightarrow> ('f \<Rightarrow> string) \<Rightarrow> ('f, 'd) random_payment_activity \<Rightarrow> string" where
  "random_activity_display fl show_f a =
     (let monthly_events = events_per_month fl (ra_source_capacity a) (ra_multiplier a) (ra_expected_payment_amt a)
      in ''activity generator for capacity: '' @ decimal (unat (ra_source_capacity a)) @ '' with multiplier '' @
         show_f (ra_multiplier a) @ '': '' @ show_f monthly_events @ '' payments per month ('' @
         show_f (f64_div fl monthly_events (f64_const fl hours_per_month)) @ '' per hour)'')"

subsection \<open>The simulated network\<close>

definition intercept_request_display :: "(pubkey \<Rightarrow> string) \<Rightarrow> intercept_request \<Rightarrow> string" where
  "intercept_request_display show_pk r =
     ''htlc forwarded by '' @ show_pk (forwarding_node r) @ '' over '' @
     scid_to_string (ref_channel_id (incoming_htlc r)) @ '':'' @ decimal (unat (ref_index (incoming_htlc r))) @
     '' -> '' @ (case outgoing_channel_id r of Some c \<Rightarrow> ''-> '' @ scid_to_string c | None \<Rightarrow> ''receive'') @
     '' forward amounts '' @ decimal (unat (incoming_amount_msat r)) @ '' '' @ decimal (unat (outgoing_amount_msat r))"

fun forwarding_error_display :: "forwarding_error \<Rightarrow> string" where
  "forwarding_error_display (InsufficientBalance a b) =
     ''InsufficientBalance: amount: '' @ decimal (unat a) @ '' > balance: '' @ decimal (unat b)"
| "forwarding_error_display (LessThanMinimum a b) =
     ''LessThanMinimum: amount: '' @ decimal (unat a) @ '' < minimum: '' @ decimal (unat b)"
| "forwarding_error_display (MoreThanMaximum a b) =
     ''MoreThanMaximum: amount: '' @ decimal (unat a) @ '' > maximum: '' @ decimal (unat b)"
| "forwarding_error_display (ExceedsInFlightCount a b) =
     ''ExceedsInFlightCount: total in flight: '' @ decimal (unat a) @ '' > maximum count: '' @ decimal (unat b)"
| "forwarding_error_display (ExceedsInFlightTotal a b) =
     ''ExceedsInFlightTotal: total in flight amount: '' @ decimal (unat a) @ '' > maximum amount: '' @ decimal (unat a)"
| "forwarding_error_display (ExpiryInSeconds a b) = ''ExpiryInSeconds: cltv expressed in seconds: '' @ decimal (unat a)"
| "forwarding_error_display (InsufficientCltvDelta a b) =
     ''InsufficientCltvDelta: cltv delta: '' @ decimal (unat a) @ '' < required: '' @ decimal (unat b)"
| "forwarding_error_display (InsufficientFee a b c d) =
     ''InsufficientFee: offered fee: '' @ decimal (unat a) @ '' (base: '' @ decimal (unat b) @ '', prop: '' @
     decimal (unat c) @ '') < expected: '' @ decimal (unat d)"
| "forwarding_error_display (FwdInterceptorError e) = ''InterceptorError: '' @ e"

subsection \<open>Properties\<close>

text \<open>The limit that was exceeded is not in the text of \<open>ExceedsInFlightTotal\<close>.\<close>

lemma in_flight_limit_hidden:
  "forwarding_error_display (ExceedsInFlightTotal amt limit) = forwarding_error_display (ExceedsInFlightTotal amt limit')"
  by simp

text \<open>A node is printed without a panic as soon as its key has six characters, which 66 are.\<close>

lemma node_info_display_total:
  "length (show_pk (pubkey info)) = 66 \<Longrightarrow> \<exists>s. node_info_display show_pk info = Some s"
  by (simp add: node_info_display_def pk_summary_def)

text \<open>Different channels are printed differently.\<close>

lemma scid_parts:
  assumes "scid_display s = (block, transaction, output)"
  shows "unat (scid_to_u64 s) = unat block * 2 ^ 40 + unat transaction * 2 ^ 16 + unat output"
proof -
  obtain v where s: "s = ShortChannelID v" by (cases s)
  note parts = scid_display_parts [OF assms [unfolded s]]
  let ?n = "unat v"
  have "?n = ?n div 2 ^ 16 * 2 ^ 16 + ?n mod 2 ^ 16" by simp
  also have "?n div 2 ^ 16 = ?n div 2 ^ 16 div 2 ^ 24 * 2 ^ 24 + ?n div 2 ^ 16 mod 2 ^ 24" by simp
  also have "?n div 2 ^ 16 div 2 ^ 24 = ?n div 2 ^ 40" by (simp add: div_mult2_eq [symmetric])
  finally show ?thesis unfolding parts s by simp
qed

lemma colon_no_digit: "\<not> is_digit CHR '':''"
  by (simp add: is_digit_def)

theorem scid_to_string_inject: "scid_to_string s = scid_to_string t \<longleftrightarrow> s = t"
proof
  assume eq: "scid_to_string s = scid_to_string t"
  obtain b1 t1 o1 b2 t2 o2 where parts: "scid_display s = (b1, t1, o1)" "scid_display t = (b2, t2, o2)"
    by (metis prod_cases3)
  have "decimal (unat b1) @ CHR '':'' # decimal (unat t1) @ CHR '':'' # decimal (unat o1) =
      decimal (unat b2) @ CHR '':'' # decimal (unat t2) @ CHR '':'' # decimal (unat o2)"
    using eq by (simp add: scid_to_string_def parts)
  then have "unat b1 = unat b2 \<and> unat t1 = unat t2 \<and> unat o1 = unat o2"
    by (simp add: digits_separated decimal_digits colon_no_digit)
  then have "unat (scid_to_u64 s) = unat (scid_to_u64 t)"
    by (simp add: scid_parts [OF parts(1)] scid_parts [OF parts(2)])
  then show "s = t" by (cases s; cases t) (simp add: word_unat_eq_iff)
qed simp

text \<open>The logger prints one line for each sleep that ended before the shutdown.\<close>

lemma results_logger_lines:
  "results_logger_loop show_logger (map LoggerSlept loggers @ LoggerStopped # events) = map show_logger loggers"
  by (induction loggers) simp_all

end
