(* ===== verification/Error_Texts.thy ===== *)
theory Error_Texts
  imports Display
begin

section \<open>The texts of errors (simln-lib/src/lib.rs, sim_node.rs, random_activity.rs)\<close>

text \<open>
  The \<open>Display\<close> that thiserror derives from the formats in the attributes of the error types. How a message
  is put together from its format and arguments, the \<open>Debug\<close> form of a string and the texts of the
  errors of csv and of the system clock are parameters.
\<close>

record texts =
  show_msg :: "message \<Rightarrow> string"
  debug_str :: "string \<Rightarrow> string"
  debug_pk :: "pubkey \<Rightarrow> string"
  debug_hash :: "payment_hash \<Rightarrow> string"
  csv_error_text :: string
  time_error_text :: string
  time_error_debug :: string

fun critical_error_display :: "texts \<Rightarrow> critical_error \<Rightarrow> string" where
  "critical_error_display t ZeroAmountHtlc = ''ZeroAmountHtlc''"
| "critical_error_display t (ChannelNotFound scid) = ''ChannelNotFound: '' @ scid_to_string scid"
| "critical_error_display t (NodeNotFound pk) = ''NodeNotFound: '' @ debug_pk t pk"
| "critical_error_display t (PaymentHashExists hash) = ''PaymentHashExists: '' @ debug_hash t hash"
| "critical_error_display t (PaymentHashNotFound hash) = ''PaymentHashNotFound: '' @ debug_hash t hash"
| "critical_error_display t (FeeOverflow a b c) =
     ''FeeOverflow: htlc amount: '' @ decimal (unat a) @ '' (base: '' @ decimal (unat b) @ '', prop: '' @
     decimal (unat c) @ '')''"
| "critical_error_display t (SanityCheckFailed a b) =
     ''SanityCheckFailed: node balance: '' @ decimal (unat a) @ '' != capacity: '' @ decimal (unat b)"
| "critical_error_display t (DuplicateCustomRecord k) = ''DuplicateCustomRecord: key '' @ decimal (unat k)"
| "critical_error_display t (CritInterceptorError e) = ''InterceptorError: '' @ e"

fun random_activity_error_display :: "texts \<Rightarrow> random_activity_error \<Rightarrow> string" where
  "random_activity_error_display t (ValueError m) = ''Value error: '' @ show_msg t m"
| "random_activity_error_display t (InsufficientCapacity m) = ''InsufficientCapacity: '' @ show_msg t m"

fun lightning_error_display :: "texts \<Rightarrow> lightning_error \<Rightarrow> string" where
  "lightning_error_display t (ConnectionError m) = ''Node connection error: '' @ show_msg t m"
| "lightning_error_display t (GetInfoError m) = ''Get info error: '' @ show_msg t m"
| "lightning_error_display t (SendPaymentError m) = ''Send payment error: '' @ show_msg t m"
| "lightning_error_display t (TrackPaymentError m) = ''Track payment error: '' @ show_msg t m"
| "lightning_error_display t InvalidPaymentHash = ''Invalid payment hash''"
| "lightning_error_display t (GetNodeInfoError m) = ''Get node info error: '' @ show_msg t m"
| "lightning_error_display t (ValidationError m) = ''Config validation failed: '' @ show_msg t m"
| "lightning_error_display t (PermanentError m) = ''Permanent error: '' @ debug_str t (show_msg t m)"
| "lightning_error_display t (ListChannelsError m) = ''List channels error: '' @ show_msg t m"
| "lightning_error_display t (GetGraphError m) = ''Get graph error: '' @ show_msg t m"
| "lightning_error_display t SystemTimeConversionError = ''SystemTime conversion error: '' @ time_error_text t"

text \<open>The derived \<open>Debug\<close>: the name of the variant, with its field in parentheses.\<close>

fun lightning_error_debug :: "texts \<Rightarrow> lightning_error \<Rightarrow> string" where
  "lightning_error_debug t (ConnectionError m) = ''ConnectionError('' @ debug_str t (show_msg t m) @ '')''"
| "lightning_error_debug t (GetInfoError m) = ''GetInfoError('' @ debug_str t (show_msg t m) @ '')''"
| "lightning_error_debug t (SendPaymentError m) = ''SendPaymentError('' @ debug_str t (show_msg t m) @ '')''"
| "lightning_error_debug t (TrackPaymentError m) = ''TrackPaymentError('' @ debug_str t (show_msg t m) @ '')''"
| "lightning_error_debug t InvalidPaymentHash = ''InvalidPaymentHash''"
| "lightning_error_debug t (GetNodeInfoError m) = ''GetNodeInfoError('' @ debug_str t (show_msg t m) @ '')''"
| "lightning_error_debug t (ValidationError m) = ''ValidationError('' @ debug_str t (show_msg t m) @ '')''"
| "lightning_error_debug t (PermanentError m) = ''PermanentError('' @ debug_str t (show_msg t m) @ '')''"
| "lightning_error_debug t (ListChannelsError m) = ''ListChannelsError('' @ debug_str t (show_msg t m) @ '')''"
| "lightning_error_debug t (GetGraphError m) = ''GetGraphError('' @ debug_str t (show_msg t m) @ '')''"
| "lightning_error_debug t SystemTimeConversionError = ''SystemTimeConversionError('' @ time_error_debug t @ '')''"

fun simulation_error_display :: "texts \<Rightarrow> simulation_error \<Rightarrow> string" where
  "simulation_error_display t (LightningError e) = ''Lightning Error: '' @ lightning_error_debug t e"
| "simulation_error_display t TaskError = ''TaskError''"
| "simulation_error_display t CsvError = ''CSV Error: '' @ csv_error_text t"
| "simulation_error_display t FileError = ''File Error''"
| "simulation_error_display t (RandomActivityError e) = random_activity_error_display t e"
| "simulation_error_display t (SimulatedNetworkError m) = ''Simulated Network Error: '' @ show_msg t m"
| "simulation_error_display t SystemTimeError = ''System Time Error: '' @ time_error_text t"
| "simulation_error_display t (MissingNodeError m) = ''Missing Node Error: '' @ show_msg t m"
| "simulation_error_display t (MpscChannelError m) = ''Mpsc Channel Error: '' @ show_msg t m"
| "simulation_error_display t (PaymentGenerationError m) =
     ''Payment Generation Error: '' @ ''Payment generation error: '' @ show_msg t m"
| "simulation_error_display t (DestinationGenerationError m) =
     ''Destination Generation Error: '' @ ''Destination generation error: '' @ show_msg t m"
| "simulation_error_display t (RuntimeError m) = ''Runtime Error: '' @ show_msg t m"

subsection \<open>What a text tells\<close>

text \<open>
  The text of an error tells of which variant it is, whatever the message in it: the first letters do.
\<close>

primrec simulation_error_kind :: "simulation_error \<Rightarrow> nat" where
  "simulation_error_kind (LightningError e) = 0"
| "simulation_error_kind TaskError = 1"
| "simulation_error_kind CsvError = 2"
| "simulation_error_kind FileError = 3"
| "simulation_error_kind (RandomActivityError e) = 4"
| "simulation_error_kind (SimulatedNetworkError m) = 5"
| "simulation_error_kind SystemTimeError = 6"
| "simulation_error_kind (MissingNodeError m) = 7"
| "simulation_error_kind (MpscChannelError m) = 8"
| "simulation_error_kind (PaymentGenerationError m) = 9"
| "simulation_error_kind (DestinationGenerationError m) = 10"
| "simulation_error_kind (RuntimeError m) = 11"

definition text_key :: "string \<Rightarrow> char \<times> char" where
  "text_key s = (case hd s of c \<Rightarrow> if c \<in> {CHR ''S'', CHR ''M''} then (c, s ! 1) else (c, CHR ''-''))"

fun key_kind :: "char \<times> char \<Rightarrow> nat" where
  "key_kind (a, b) =
     (if a = CHR ''L'' then 0 else if a = CHR ''T'' then 1 else if a = CHR ''C'' then 2
      else if a = CHR ''F'' then 3 else if a \<in> {CHR ''V'', CHR ''I''} then 4
      else if a = CHR ''S'' then (if b = CHR ''i'' then 5 else 6)
      else if a = CHR ''M'' then (if b = CHR ''i'' then 7 else 8)
      else if a = CHR ''P'' then 9 else if a = CHR ''D'' then 10 else 11)"

lemma simulation_error_key: "key_kind (text_key (simulation_error_display t e)) = simulation_error_kind e"
proof (cases e)
  case (RandomActivityError r)
  then show ?thesis by (cases r) (simp_all add: text_key_def)
qed (simp_all add: text_key_def)

theorem simulation_error_kind_shown:
  "simulation_error_display t e = simulation_error_display t e' \<Longrightarrow> simulation_error_kind e = simulation_error_kind e'"
  using simulation_error_key [of t e] simulation_error_key [of t e'] by simp

lemma channel_not_found_shown:
  "critical_error_display t (ChannelNotFound c) = critical_error_display t (ChannelNotFound d) \<longleftrightarrow> c = d"
  by (simp add: scid_to_string_inject)

end
