(* ===== verification/Networked_Run.thy ===== *)
theory Networked_Run
  imports Running_Laws Network_Run_Laws
begin

section \<open>A simulation on its simulated network\<close>

text \<open>
  The tasks of lib.rs and the network of sim_node.rs at work together: the world behind the nodes of
  \<open>Running\<close> is the network of \<open>Network_Run\<close>. When a task sends, its node sends in the network; tracking
  a payment is a call that begins (the payment is taken from the map of its node), waits for the
  one-shot channel of the payment or for the shutdown, and returns; and between the steps of the tasks
  the payments of the network take their sections under the lock.

  What the environment decides is read from \<open>moves\<close>, one entry for each call of a node: the preimage, the
  route, the clock and the scorer's lock of that call, and whether it met the shutdown.
\<close>

subsection \<open>The nodes\<close>

type_synonym networked = "network_run \<times> nat"

type_synonym moves = "nat \<Rightarrow> sim_env \<times> bool"

definition waiting_call :: "network_run \<Rightarrow> pubkey \<Rightarrow> payment_hash \<Rightarrow> nat option" where
  "waiting_call w pk hash =
     find (\<lambda>i. fst (nw_waiting w ! i) = pk \<and> fst (snd (nw_waiting w ! i)) = hash) [0..<length (nw_waiting w)]"

text \<open>What a waiting call meets: the shutdown first, then its channel; nothing while the payment is under way.\<close>

definition call_event :: "bool \<Rightarrow> network_run \<Rightarrow> nat \<Rightarrow> track_event option" where
  "call_event stop w i =
     (if stop then Some ListenerTriggered
      else sender_event w (track_payment_receiver (snd (snd (nw_waiting w ! i)))))"

definition tracked_answer :: "network_run \<Rightarrow> lightning_error + payment_result" where
  "tracked_answer w = snd (snd (snd (last (past_tracked w))))"

text \<open>
  The trait methods over the network. The call of \<open>ln_track_payment\<close> is its return: the system below lets
  it go on only when its event has come.
\<close>

definition networked_node :: "moves \<Rightarrow> sim_graph \<Rightarrow> sim_node \<Rightarrow> networked lightning_node" where
  "networked_node moves g node =
     (let pk = pubkey (sn_info node) in
      \<lparr>ln_info = sn_info node,
       ln_network = sim_get_network,
       ln_send_payment = (\<lambda>dest amt (w, n).
         (fst (ln_send_payment (sim_lightning_node (fst (moves n)) g (sw_node (nw_world w) pk)) dest amt (nw_world w)),
          (net_send g (fst (moves n)) pk dest amt w, Suc n))),
       ln_track_payment = (\<lambda>hash (w, n).
         case Option.bind (waiting_call w pk hash)
                (\<lambda>i. map_option (\<lambda>event. end_wait i (fst (moves n)) event w) (call_event (snd (moves n)) w i)) of
           None \<Rightarrow> (Inl (not_found_error hash), (w, Suc n))
         | Some w' \<Rightarrow> (tracked_answer w', (w', Suc n))),
       ln_get_node_info = sim_get_node_info g,
       ln_channel_capacities = sim_channel_capacities g node,
       ln_get_graph = Some (sim_get_graph g)\<rparr>)"

definition networked_nodes ::
  "moves \<Rightarrow> sim_graph \<Rightarrow> pubkey list \<Rightarrow> (pubkey, sim_node) hmap \<Rightarrow> networked nodes" where
  "networked_nodes moves g exclude sims =
     remove_all_keys exclude (map (\<lambda>(pk, node). (pk, networked_node moves g node)) sims)"

subsection \<open>Steps\<close>

text \<open>
  A task goes on (the world moves only by the other steps); the call of a tracking task begins; a payment
  of the network takes a section. A call begins at most once: a second one for the same node and hash
  would need the same 32 random bytes to be drawn twice while the first waits.
\<close>

datatype whole_action =
    TaskGoes "networked action"
  | CallBegins nat
  | SectionRuns nat joins

definition call_returns :: "moves \<Rightarrow> (networked, 'r, 'w) running \<Rightarrow> nat \<Rightarrow> bool" where
  "call_returns moves s i =
     (case rn_world s of (w, n) \<Rightarrow>
        i < length (rn_tracks s) \<and>
        (case rn_tracks s ! i of
           TrackingPayment p \<Rightarrow>
             (case Option.bind (pay_hash p) (waiting_call w (pay_source p)) of
                None \<Rightarrow> False
              | Some j \<Rightarrow> snd (moves n) = rn_stopped s \<and> call_event (snd (moves n)) w j \<noteq> None)
         | SendingResult p result \<Rightarrow> False))"

definition call_begins :: "nat \<Rightarrow> (networked, 'r, 'w) running \<Rightarrow> (networked, 'r, 'w) running option" where
  "call_begins i s =
     (case rn_world s of (w, n) \<Rightarrow>
        if i < length (rn_tracks s)
        then (case rn_tracks s ! i of
                TrackingPayment p \<Rightarrow>
                  (case pay_hash p of
                     None \<Rightarrow> None
                   | Some hash \<Rightarrow>
                       if waiting_call w (pay_source p) hash = None
                       then map_option (\<lambda>w'. s\<lparr>rn_world := (w', n)\<rparr>) (net_track (pay_source p) hash w)
                       else None)
              | SendingResult p result \<Rightarrow> None)
        else None)"

definition section_runs ::
  "nat \<Rightarrow> joins \<Rightarrow> (networked, 'r, 'w) running \<Rightarrow> (networked, 'r, 'w) running option" where
  "section_runs i joins s =
     (case rn_world s of (w, n) \<Rightarrow> map_option (\<lambda>w'. s\<lparr>rn_world := (w', n)\<rparr>) (net_task i joins w))"

fun may_go :: "moves \<Rightarrow> (networked, 'r, 'w) running \<Rightarrow> networked action \<Rightarrow> bool" where
  "may_go moves s (TrackCall i) = call_returns moves s i"
| "may_go moves s (WorldMoves w) = False"
| "may_go moves s a = True"

fun whole_step ::
  "'w csv_ops \<Rightarrow> moves \<Rightarrow> networked nodes \<Rightarrow> whole_action \<Rightarrow> (networked, 'r, 'w) running \<Rightarrow>
   (networked, 'r, 'w) running option" where
  "whole_step csv moves nodes (TaskGoes a) s = (if may_go moves s a then run_action csv nodes a s else None)"
| "whole_step csv moves nodes (CallBegins i) s = call_begins i s"
| "whole_step csv moves nodes (SectionRuns i joins) s = section_runs i joins s"

definition whole_run ::
  "'w csv_ops \<Rightarrow> moves \<Rightarrow> networked nodes \<Rightarrow> whole_action list \<Rightarrow> (networked, 'r, 'w) running \<Rightarrow>
   (networked, 'r, 'w) running option" where
  "whole_run csv moves nodes = fold_opt (whole_step csv moves nodes)"

subsection \<open>What the nodes do to the network\<close>

definition nodes_networked :: "moves \<Rightarrow> sim_graph \<Rightarrow> networked nodes \<Rightarrow> bool" where
  "nodes_networked moves g nodes \<longleftrightarrow>
     (\<forall>pk node. hm_get nodes pk = Some node \<longrightarrow>
        (\<exists>sim. node = networked_node moves g sim \<and> pubkey (sn_info sim) = pk) \<and> hm_contains (sg_nodes g) pk)"

lemma networked_send:
  assumes "ln_send_payment (networked_node moves g sim) dest amt (w, n) = (r, world)"
  shows "world = (net_send g (fst (moves n)) (pubkey (sn_info sim)) dest amt w, Suc n)"
    and "past_accepted (fst world) =
      past_accepted w @ (case r of Inl e \<Rightarrow> [] | Inr hash \<Rightarrow> [(pubkey (sn_info sim), hash, sw_channels_made (nw_world w))])"
    and "past_tracked (fst world) = past_tracked w"
proof -
  let ?pk = "pubkey (sn_info sim)"
  obtain r' world' where send: "ln_send_payment (sim_lightning_node (fst (moves n)) g (sw_node (nw_world w) ?pk)) dest amt
      (nw_world w) = (r', world')" by (cases "ln_send_payment (sim_lightning_node (fst (moves n)) g
      (sw_node (nw_world w) ?pk)) dest amt (nw_world w)")
  with assms show "world = (net_send g (fst (moves n)) ?pk dest amt w, Suc n)"
    by (simp add: networked_node_def Let_def)
  moreover from assms send have "r' = r" by (simp add: networked_node_def Let_def)
  ultimately show "past_accepted (fst world) =
      past_accepted w @ (case r of Inl e \<Rightarrow> [] | Inr hash \<Rightarrow> [(?pk, hash, sw_channels_made (nw_world w))])"
    and "past_tracked (fst world) = past_tracked w"
    using send by (simp_all add: net_send_def Let_def)
qed

lemma waiting_call_Some:
  assumes "waiting_call w pk hash = Some j"
  obtains p where "j < length (nw_waiting w)" "nw_waiting w ! j = (pk, hash, p)"
proof -
  from assms have "j < length (nw_waiting w)" "fst (nw_waiting w ! j) = pk" "fst (snd (nw_waiting w ! j)) = hash"
    by (auto simp: waiting_call_def find_Some_iff)
  with that [of "snd (snd (nw_waiting w ! j))"] show thesis by (metis prod.collapse)
qed

lemma end_wait_tracked:
  assumes "nw_waiting w ! j = (pk, hash, p)"
  shows "past_tracked (end_wait j env event w) =
      past_tracked w @ [(pk, hash, track_payment_receiver p, tracked_answer (end_wait j env event w))]"
    and "past_accepted (end_wait j env event w) = past_accepted w"
  by (simp_all add: assms end_wait_def tracked_answer_def split: prod.split)

lemma end_wait_net:
  assumes "call_event stop w j = Some event" and "j < length (nw_waiting w)"
  shows "\<exists>a. net_action g a w = Some (end_wait j env event w)"
proof (cases stop)
  case True
  with assms have "net_action g (NetShutdown j env) w = Some (end_wait j env event w)" by (simp add: call_event_def)
  then show ?thesis by blast
next
  case False
  with assms have "net_action g (NetResult j env) w = Some (end_wait j env event w)"
    by (simp add: call_event_def net_result_def)
  then show ?thesis by blast
qed

end
