(* ===== verification/Networked_Laws.thy ===== *)
theory Networked_Laws
  imports Networked_Run
begin

section \<open>Laws of a simulation on its simulated network\<close>

text \<open>
  A run of the whole is a run of the tasks and a run of the network; and what the tasks hold of a payment
  is what the network holds of it.
\<close>

subsection \<open>Calls of the nodes\<close>

lemma networked_track:
  assumes "waiting_call w (pubkey (sn_info sim)) hash = Some j" and "call_event (snd (moves n)) w j = Some event"
  shows "ln_track_payment (networked_node moves g sim) hash (w, n) =
    (tracked_answer (end_wait j (fst (moves n)) event w), (end_wait j (fst (moves n)) event w, Suc n))"
  using assms by (simp add: networked_node_def Let_def)

lemma send_call_networked:
  fixes s t :: "(networked, 'r, 'w) running"
  assumes "run_action csv nodes (SendCall i) s = Some t" and "nodes_networked moves g nodes" and "rn_world s = (w, n)"
  obtains d w' where "i < length (rn_sends s)" "rn_sends s ! i = Dispatched d" "rn_world t = (w', Suc n)"
    "net_action g (NetSend (fst (moves n)) (dp_source d) (pubkey (dp_destination d)) (dp_amount d)) w = Some w'"
    "past_tracked w' = past_tracked w"
    "(\<exists>p hash rx. t = s\<lparr>rn_world := (w', Suc n), rn_sends := (rn_sends s)[i := Sending (SendPaymentSuccess p)]\<rparr> \<and>
        pay_source p = dp_source d \<and> pay_hash p = Some hash \<and>
        past_accepted w' = past_accepted w @ [(dp_source d, hash, rx)]) \<or>
     (\<exists>p. t = s\<lparr>rn_world := (w', Suc n), rn_sends := (rn_sends s)[i := Sending (SendPaymentFailure p not_dispatched)]\<rparr> \<and>
        pay_hash p = None \<and> past_accepted w' = past_accepted w) \<or>
     (t = s\<lparr>rn_world := (w', Suc n), rn_sends := remove_at i (rn_sends s), rn_triggers := rn_triggers s + 1,
        past_dropped := past_dropped s @ [dispatch_key d]\<rparr> \<and> past_accepted w' = past_accepted w)"
proof -
  from assms(1) obtain d node where i: "i < length (rn_sends s)" "rn_sends s ! i = Dispatched d"
    and node: "hm_get nodes (dp_source d) = Some node"
    by (auto split: if_splits send_task.splits option.splits)
  from assms(2) node obtain sim where sim: "node = networked_node moves g sim" "pubkey (sn_info sim) = dp_source d"
    and known: "hm_contains (sg_nodes g) (dp_source d)"
    by (auto simp: nodes_networked_def)
  obtain r w' m where send: "ln_send_payment node (pubkey (dp_destination d)) (dp_amount d) (w, n) = (r, (w', m))"
    by (metis prod_cases3)
  note moved = networked_send [OF send [unfolded sim(1)], unfolded sim(2)]
  have world: "m = Suc n" "w' = net_send g (fst (moves n)) (dp_source d) (pubkey (dp_destination d)) (dp_amount d) w"
    using moved(1) by simp_all
  have named: "pubkey (ln_info node) = dp_source d" by (simp add: sim networked_node_def Let_def)
  show thesis
  proof (rule that [OF i])
    show "rn_world t = (w', Suc n)"
      using assms(1,3) i node send world(1) named
      by (cases r) (auto simp: node_send_payment_def Let_def split: lightning_error.splits)
    show "net_action g (NetSend (fst (moves n)) (dp_source d) (pubkey (dp_destination d)) (dp_amount d)) w = Some w'"
      using known world(2) by simp
    show "past_tracked w' = past_tracked w" using moved(3) by simp
    show "(\<exists>p hash rx. t = s\<lparr>rn_world := (w', Suc n), rn_sends := (rn_sends s)[i := Sending (SendPaymentSuccess p)]\<rparr> \<and>
        pay_source p = dp_source d \<and> pay_hash p = Some hash \<and>
        past_accepted w' = past_accepted w @ [(dp_source d, hash, rx)]) \<or>
     (\<exists>p. t = s\<lparr>rn_world := (w', Suc n), rn_sends := (rn_sends s)[i := Sending (SendPaymentFailure p not_dispatched)]\<rparr> \<and>
        pay_hash p = None \<and> past_accepted w' = past_accepted w) \<or>
     (t = s\<lparr>rn_world := (w', Suc n), rn_sends := remove_at i (rn_sends s), rn_triggers := rn_triggers s + 1,
        past_dropped := past_dropped s @ [dispatch_key d]\<rparr> \<and> past_accepted w' = past_accepted w)"
    proof (cases r)
      case (Inr hash)
      with assms(1,3) i node send world(1) named moved(2) show ?thesis
        by (intro disjI1) (auto simp: node_send_payment_def Let_def)
    next
      case (Inl e)
      let ?p = "\<lparr>pay_source = dp_source d, pay_destination = pubkey (dp_destination d), pay_amount_msat = dp_amount d,
        pay_hash = None, pay_dispatch_time = dp_time d\<rparr>"
      have kept: "past_accepted w' = past_accepted w" using moved(2) Inl by simp
      consider "t = s\<lparr>rn_world := (w', Suc n), rn_sends := remove_at i (rn_sends s), rn_triggers := rn_triggers s + 1,
          past_dropped := past_dropped s @ [dispatch_key d]\<rparr>"
        | "t = s\<lparr>rn_world := (w', Suc n), rn_sends := (rn_sends s)[i := Sending (SendPaymentFailure ?p not_dispatched)]\<rparr>"
        using assms(1,3) i node send world(1) named Inl
        by (cases e) (simp_all add: node_send_payment_def Let_def)
      then show ?thesis
      proof cases
        case 1
        with kept show ?thesis by (intro disjI2 conjI) simp_all
      next
        case 2
        with kept show ?thesis by (intro disjI2 disjI1 exI [of _ ?p] conjI) simp_all
      qed
    qed
  qed
qed

lemma track_call_networked:
  fixes s t :: "(networked, 'r, 'w) running"
  assumes "run_action csv nodes (TrackCall i) s = Some t" and "call_returns moves s i"
    and "nodes_networked moves g nodes" and "rn_world s = (w, n)"
  obtains p hash rx w' where "i < length (rn_tracks s)" "rn_tracks s ! i = TrackingPayment p" "pay_hash p = Some hash"
    "\<exists>a. net_action g a w = Some w'" "past_accepted w' = past_accepted w"
    "past_tracked w' = past_tracked w @ [(pay_source p, hash, rx, tracked_answer w')]"
    "t = s\<lparr>rn_world := (w', Suc n), rn_tracks := (rn_tracks s)[i := SendingResult p
       (case tracked_answer w' of Inr r \<Rightarrow> r | Inl e \<Rightarrow> track_payment_failed)]\<rparr>"
proof -
  from assms(2,4) obtain p hash j event where i: "i < length (rn_tracks s)" "rn_tracks s ! i = TrackingPayment p"
    and hash: "pay_hash p = Some hash" and j: "waiting_call w (pay_source p) hash = Some j"
    and event: "call_event (snd (moves n)) w j = Some event"
    by (auto simp: call_returns_def bind_eq_Some_conv split: track_task.splits option.splits)
  from assms(1) i obtain node where node: "hm_get nodes (pay_source p) = Some node"
    by (auto split: option.splits)
  from assms(3) node obtain sim where sim: "node = networked_node moves g sim" "pubkey (sn_info sim) = pay_source p"
    by (auto simp: nodes_networked_def)
  let ?w = "end_wait j (fst (moves n)) event w"
  have track: "ln_track_payment node hash (w, n) = (tracked_answer ?w, (?w, Suc n))"
    using networked_track [of w sim hash j moves n event g] j event sim by simp
  from waiting_call_Some [OF j] obtain q where q: "j < length (nw_waiting w)" "nw_waiting w ! j = (pay_source p, hash, q)" .
  show thesis
  proof (rule that [OF i hash end_wait_net [OF event q(1)] end_wait_tracked(2) [OF q(2)] end_wait_tracked(1) [OF q(2)]])
    show "t = s\<lparr>rn_world := (?w, Suc n), rn_tracks := (rn_tracks s)[i := SendingResult p
       (case tracked_answer ?w of Inr r \<Rightarrow> r | Inl e \<Rightarrow> track_payment_failed)]\<rparr>"
      using assms(1,4) i node hash track
      by (cases "tracked_answer ?w") (auto simp: track_payment_result_def)
  qed
qed

subsection \<open>Both runs\<close>

lemma whole_step_runs:
  assumes "whole_step csv moves nodes a s = Some t"
  shows "\<exists>b. run_action csv nodes b s = Some t"
proof (cases a)
  case (TaskGoes b)
  with assms show ?thesis by (auto split: if_splits)
next
  case (CallBegins i)
  with assms obtain w where "t = s\<lparr>rn_world := w\<rparr>"
    by (auto simp: call_begins_def split: prod.splits if_splits track_task.splits option.splits)
  then have "run_action csv nodes (WorldMoves w) s = Some t" by simp
  then show ?thesis by blast
next
  case (SectionRuns i joins)
  with assms obtain w where "t = s\<lparr>rn_world := w\<rparr>" by (auto simp: section_runs_def split: prod.splits)
  then have "run_action csv nodes (WorldMoves w) s = Some t" by simp
  then show ?thesis by blast
qed

text \<open>The other tasks leave the world alone.\<close>

lemma world_frame:
  assumes "run_action csv nodes a s = Some t" and "may_go moves s a"
    and "\<And>i. a \<noteq> SendCall i" and "\<And>i. a \<noteq> TrackCall i"
  shows "rn_world t = rn_world s"
  using assms
  by (cases a)
    (auto simp: end_events_def end_producer_def consume_one_def Let_def
      split: events_task.splits if_splits option.splits sum.splits iteration.splits prod.splits send_task.splits
        producer_task.splits simulation_output.splits track_task.splits nat.splits)

lemma whole_step_net:
  assumes "whole_step csv moves nodes a s = Some t" and "nodes_networked moves g nodes"
  shows "fst (rn_world t) = fst (rn_world s) \<or> (\<exists>b. net_action g b (fst (rn_world s)) = Some (fst (rn_world t)))"
proof -
  obtain w n where w: "rn_world s = (w, n)" by (cases "rn_world s")
  show ?thesis
  proof (cases a)
    case (TaskGoes b)
    with assms(1) have b: "run_action csv nodes b s = Some t" "may_go moves s b" by (auto split: if_splits)
    consider (sends) i where "b = SendCall i" | (tracks) i where "b = TrackCall i"
      | (other) "\<And>i. b \<noteq> SendCall i" "\<And>i. b \<noteq> TrackCall i"
      by blast
    then show ?thesis
    proof cases
      case sends
      with b send_call_networked [OF _ assms(2) w] w show ?thesis by (metis fst_conv)
    next
      case tracks
      with b have "run_action csv nodes (TrackCall i) s = Some t" "call_returns moves s i" by simp_all
      from track_call_networked [OF this assms(2) w] obtain w' where
        "\<exists>a. net_action g a w = Some w'" "rn_world t = (w', Suc n)" by (metis running.select_convs(1) running.surjective running.update_convs(1,9))
      with w show ?thesis by auto
    next
      case other
      with world_frame [OF b] show ?thesis by simp
    qed
  next
    case (CallBegins i)
    with assms(1) w obtain pk hash w' where "net_track pk hash w = Some w'" "rn_world t = (w', n)"
      by (auto simp: call_begins_def split: if_splits track_task.splits option.splits)
    with w have "net_action g (NetTrack pk hash) (fst (rn_world s)) = Some (fst (rn_world t))" by simp
    then show ?thesis by blast
  next
    case (SectionRuns i joins)
    with assms(1) w obtain w' where "net_task i joins w = Some w'" "rn_world t = (w', n)"
      by (auto simp: section_runs_def)
    with w have "net_action g (NetTask i joins) (fst (rn_world s)) = Some (fst (rn_world t))" by simp
    then show ?thesis by blast
  qed
qed

lemma run_actions_append:
  "run_actions csv nodes (as @ bs) s = Option.bind (run_actions csv nodes as s) (run_actions csv nodes bs)"
  by (simp add: run_actions_def fold_opt_append)

lemma net_actions_append: "net_actions g (as @ bs) s = Option.bind (net_actions g as s) (net_actions g bs)"
  by (simp add: net_actions_def fold_opt_append)

lemma whole_run_invariant:
  assumes "whole_run csv moves nodes as s = Some t" and "P s"
    and "\<And>a u v. whole_step csv moves nodes a u = Some v \<Longrightarrow> P u \<Longrightarrow> P v"
  shows "P t"
  using assms(1,2) unfolding whole_run_def by (rule fold_opt_invariant [rotated]) (use assms(3) in blast)

lemma whole_run_runs:
  assumes "whole_run csv moves nodes as s = Some t"
  shows "\<exists>bs. run_actions csv nodes bs s = Some t"
  using assms
proof (rule whole_run_invariant)
  show "\<exists>bs. run_actions csv nodes bs s = Some s"
    by (rule exI [of _ "[]"]) (simp add: run_actions_def)
next
  fix a u v assume "whole_step csv moves nodes a u = Some v" and "\<exists>bs. run_actions csv nodes bs s = Some u"
  then obtain bs b where "run_actions csv nodes bs s = Some u" "run_action csv nodes b u = Some v"
    using whole_step_runs by blast
  then have "run_actions csv nodes (bs @ [b]) s = Some v"
    by (simp only: run_actions_append) (simp add: run_actions_def)
  then show "\<exists>bs. run_actions csv nodes bs s = Some v" by blast
qed

lemma whole_run_net:
  assumes "whole_run csv moves nodes as s = Some t" and "nodes_networked moves g nodes"
  shows "\<exists>bs. net_actions g bs (fst (rn_world s)) = Some (fst (rn_world t))"
  using assms(1)
proof (rule whole_run_invariant)
  show "\<exists>bs. net_actions g bs (fst (rn_world s)) = Some (fst (rn_world s))"
    by (rule exI [of _ "[]"]) (simp add: net_actions_def)
next
  fix a u v assume step: "whole_step csv moves nodes a u = Some v"
    and "\<exists>bs. net_actions g bs (fst (rn_world s)) = Some (fst (rn_world u))"
  then obtain bs where bs: "net_actions g bs (fst (rn_world s)) = Some (fst (rn_world u))" by blast
  from whole_step_net [OF step assms(2)] show "\<exists>bs. net_actions g bs (fst (rn_world s)) = Some (fst (rn_world v))"
  proof
    assume "fst (rn_world v) = fst (rn_world u)"
    with bs show ?thesis by metis
  next
    assume "\<exists>b. net_action g b (fst (rn_world u)) = Some (fst (rn_world v))"
    then obtain b where "net_action g b (fst (rn_world u)) = Some (fst (rn_world v))" by blast
    with bs have "net_actions g (bs @ [b]) (fst (rn_world s)) = Some (fst (rn_world v))"
      by (simp only: net_actions_append) (simp add: net_actions_def)
    then show ?thesis by blast
  qed
qed

end
