(* ===== verification/Networked_Accounts.thy ===== *)
theory Networked_Accounts
  imports Networked_Laws
begin

section \<open>What the tasks and the network hold of a payment\<close>

text \<open>
  Every payment that the network accepted is known to the tasks by its node and hash: without an answer
  until its tracking returned, with the answer from then on. A payment that was refused has no hash and
  the answer that it was not dispatched. The flow of a state is the multiset of what is on its way or
  counted; it is part of what the network holds, and all of it as long as nothing was dropped.
\<close>

subsection \<open>The flow\<close>

type_synonym held = "(pubkey \<times> payment_hash) option \<times> payment_result option"

definition held_as :: "payment \<Rightarrow> payment_result option \<Rightarrow> held multiset" where
  "held_as p answer = {#(map_option (Pair (pay_source p)) (pay_hash p), answer)#}"

fun output_held :: "simulation_output \<Rightarrow> held multiset" where
  "output_held (SendPaymentSuccess p) = held_as p None"
| "output_held (SendPaymentFailure p result) = held_as p (Some result)"

fun send_held :: "send_task \<Rightarrow> held multiset" where
  "send_held (Dispatched d) = {#}"
| "send_held (Sending out) = output_held out"

fun track_held :: "track_task \<Rightarrow> held multiset" where
  "track_held (TrackingPayment p) = held_as p None"
| "track_held (SendingResult p result) = held_as p (Some result)"

fun producer_held :: "producer_task \<Rightarrow> held multiset" where
  "producer_held (ProducerSending p result) = held_as p (Some result)"
| "producer_held _ = {#}"

definition row_held :: "result_row \<Rightarrow> held multiset" where
  "row_held row = held_as (fst row) (Some (snd row))"

definition all_held :: "('a \<Rightarrow> held multiset) \<Rightarrow> 'a list \<Rightarrow> held multiset" where
  "all_held f xs = \<Sum>\<^sub># (mset (map f xs))"

lemma all_held_simps [simp]:
  "all_held f [] = {#}" "all_held f (x # xs) = f x + all_held f xs" "all_held f (xs @ ys) = all_held f xs + all_held f ys"
  by (simp_all add: all_held_def)

lemma all_held_remove_at: "i < length xs \<Longrightarrow> all_held f xs = f (xs ! i) + all_held f (remove_at i xs)"
  by (simp add: all_held_def mset_remove_at [of i xs f] del: mset_map)

lemma all_held_update: "i < length xs \<Longrightarrow> all_held f (xs[i := x]) + f (xs ! i) = all_held f xs + f x"
  by (induction xs arbitrary: i) (auto split: nat.split simp: nth_Cons' ac_simps)

lemma all_held_dispatched [simp]: "all_held send_held (map Dispatched ds) = {#}"
  by (induction ds) simp_all

definition flow :: "('s, 'r, 'w) running \<Rightarrow> held multiset" where
  "flow s = all_held send_held (rn_sends s) + all_held output_held (opt_list (rn_output s)) +
     producer_held (rn_producer s) + all_held track_held (rn_tracks s) +
     all_held row_held (opt_list (rn_result s)) + all_held row_held (past_counted s)"

text \<open>A step of a task that is no call of a node passes on what it holds, or drops it.\<close>

definition flows_on :: "('s, 'r, 'w) running \<Rightarrow> ('s, 'r, 'w) running \<Rightarrow> bool" where
  "flows_on s t \<longleftrightarrow> flow t \<subseteq># flow s \<and> (past_dropped t = [] \<longrightarrow> past_dropped s = [] \<and> flow t = flow s)"

lemma flows_onI: "flow t = flow s \<Longrightarrow> past_dropped t = past_dropped s @ ks \<Longrightarrow> flows_on s t"
  by (simp add: flows_on_def)

lemma flows_on_dropped: "flow s = lost + flow t \<Longrightarrow> past_dropped t = past_dropped s @ k # ks \<Longrightarrow> flows_on s t"
  by (simp add: flows_on_def)

lemma flow_send_put:
  assumes "run_action csv nodes (SendPut i) s = Some t"
  shows "flows_on s t"
  using assms
proof (cases rule: send_put_cases)
  case (closed out)
  with all_held_remove_at [OF closed(1), of send_held] show ?thesis
    by (intro flows_on_dropped [where lost = "output_held out"]) (simp_all add: flow_def)
next
  case (puts out)
  with all_held_remove_at [OF puts(1), of send_held] show ?thesis
    by (intro flows_onI [where ks = "[]"]) (simp_all add: flow_def)
qed

lemma flow_producer:
  assumes "run_action csv nodes ProducerPoll s = Some t"
  shows "flows_on s t"
  using assms
proof (cases rule: producer_cases)
  case (tracks p)
  then show ?thesis by (intro flows_onI [where ks = "[]"]) (simp_all add: flow_def opt_list_def)
next
  case (unknown p msg)
  then show ?thesis
    by (intro flows_on_dropped [where lost = "output_held (SendPaymentSuccess p)"])
      (simp_all add: flow_def end_producer_def opt_list_def)
next
  case (failure p result)
  then show ?thesis by (intro flows_onI [where ks = "[]"]) (simp_all add: flow_def opt_list_def)
next
  case closed
  then show ?thesis by (intro flows_onI [where ks = "[]"]) (simp_all add: flow_def end_producer_def opt_list_def)
next
  case (dropped p result res)
  then show ?thesis
    by (intro flows_on_dropped [where lost = "held_as p (Some result) + all_held output_held (opt_list (rn_output s))"])
      (simp_all add: flow_def end_producer_def opt_list_def)
next
  case (puts p result)
  then show ?thesis by (intro flows_onI [where ks = "[]"]) (simp_all add: flow_def row_held_def opt_list_def)
qed

lemma flow_track_put:
  assumes "run_action csv nodes (TrackPut i) s = Some t"
  shows "flows_on s t"
  using assms
proof (cases rule: track_put_cases)
  case (dropped p result)
  with all_held_remove_at [OF dropped(1), of track_held] show ?thesis
    by (intro flows_on_dropped [where lost = "held_as p (Some result)"]) (simp_all add: flow_def)
next
  case (puts p result)
  with all_held_remove_at [OF puts(1), of track_held] show ?thesis
    by (intro flows_onI [where ks = "[]"]) (simp_all add: flow_def row_held_def opt_list_def)
qed

lemma flow_consumer:
  assumes "run_action csv nodes ConsumerPoll s = Some t"
  shows "flows_on s t"
  using assms
proof (cases rule: consumer_cases)
  case (counts p result c)
  then show ?thesis by (intro flows_onI [where ks = "[]"]) (simp_all add: flow_def opt_list_def)
next
  case (fails p result res c)
  then show ?thesis by (intro flows_onI [where ks = "[]"]) (simp_all add: flow_def opt_list_def)
next
  case (ends event res c)
  then show ?thesis
    by (cases "rn_result s")
      (auto simp: flow_def opt_list_def intro: flows_onI [where ks = "[]"] flows_on_dropped)
qed

lemma flow_events:
  assumes "run_action csv nodes a s = Some t" and "a = EventsPoll \<or> (\<exists>tick. a = EventsIterate tick)"
  shows "flows_on s t"
proof -
  have "flow t = flow s \<and> past_dropped t = past_dropped s"
    using assms(2)
  proof (elim disjE exE)
    assume "a = EventsPoll"
    with assms(1) show ?thesis by (auto simp: end_events_def flow_def split: events_task.splits)
  next
    fix tick assume "a = EventsIterate tick"
    with assms(1) have "run_action csv nodes (EventsIterate tick) s = Some t" by simp
    then show ?thesis
      by (cases rule: iterate_cases) (simp_all add: end_events_def flow_def)
  qed
  then show ?thesis by (intro flows_onI [where ks = "[]"]) simp_all
qed

lemma flow_signals:
  assumes "run_action csv nodes a s = Some t"
    and "a \<in> {RunTrigger, TimeoutPoll, TimeoutElapsed, LoggerPoll, LoggerTick, ShutdownRequested} \<union> range WorldMoves"
  shows "flows_on s t"
proof (intro flows_onI [where ks = "[]"])
  show "flow t = flow s" "past_dropped t = past_dropped s @ []"
    using assms by (auto simp: flow_def split: if_splits nat.splits)
qed

lemma flow_others:
  assumes "run_action csv nodes a s = Some t" and "\<And>i. a \<noteq> SendCall i" and "\<And>i. a \<noteq> TrackCall i"
  shows "flows_on s t"
proof (cases a)
  case (SendPut i) with assms(1) show ?thesis by (simp only: flow_send_put)
next
  case ProducerPoll with assms(1) show ?thesis by (simp only: flow_producer)
next
  case (TrackPut i) with assms(1) show ?thesis by (simp only: flow_track_put)
next
  case ConsumerPoll with assms(1) show ?thesis by (simp only: flow_consumer)
qed (use assms flow_events [OF assms(1)] flow_signals [OF assms(1)] in blast)+

subsection \<open>The account\<close>

definition accepted_keys :: "network_run \<Rightarrow> (pubkey \<times> payment_hash) multiset" where
  "accepted_keys w = mset (map (\<lambda>(pk, hash, rx). (pk, hash)) (past_accepted w))"

definition answer_of :: "lightning_error + payment_result \<Rightarrow> payment_result" where
  "answer_of res = (case res of Inr r \<Rightarrow> r | Inl e \<Rightarrow> track_payment_failed)"

definition told_answers :: "network_run \<Rightarrow> ((pubkey \<times> payment_hash) \<times> payment_result) multiset" where
  "told_answers w = mset (map (\<lambda>(pk, hash, rx, res). ((pk, hash), answer_of res)) (past_tracked w))"

definition answers :: "held multiset \<Rightarrow> ((pubkey \<times> payment_hash) \<times> payment_result) multiset" where
  "answers F = image_mset (\<lambda>(k, a). (the k, the a)) (filter_mset (\<lambda>(k, a). k \<noteq> None \<and> a \<noteq> None) F)"

definition held_keys :: "held multiset \<Rightarrow> (pubkey \<times> payment_hash) multiset" where
  "held_keys F = image_mset (\<lambda>(k, a). the k) (filter_mset (\<lambda>(k, a). k \<noteq> None) F)"

lemma answers_simps [simp]:
  "answers (F + G) = answers F + answers G" "answers {#} = {#}"
  "answers (add_mset (k, None) F) = answers F" "answers (add_mset (None, a) F) = answers F"
  "answers (add_mset (Some key, Some r) F) = add_mset (key, r) (answers F)"
  by (simp_all add: answers_def)

lemma held_keys_simps [simp]:
  "held_keys (F + G) = held_keys F + held_keys G" "held_keys {#} = {#}"
  "held_keys (add_mset (None, a) F) = held_keys F" "held_keys (add_mset (Some key, a) F) = add_mset key (held_keys F)"
  by (simp_all add: held_keys_def)

lemma held_mono:
  "F \<subseteq># G \<Longrightarrow> answers F \<subseteq># answers G" "F \<subseteq># G \<Longrightarrow> held_keys F \<subseteq># held_keys G"
  by (simp_all add: answers_def held_keys_def image_mset_subseteq_mono multiset_filter_mono)

definition refused_only :: "held multiset \<Rightarrow> bool" where
  "refused_only F \<longleftrightarrow> (\<forall>a. (None, a) \<in># F \<longrightarrow> a = Some not_dispatched)"

definition account_inv :: "network_run \<Rightarrow> held multiset \<Rightarrow> bool \<Rightarrow> bool" where
  "account_inv w F complete \<longleftrightarrow>
     refused_only F \<and> answers F \<subseteq># told_answers w \<and> held_keys F \<subseteq># accepted_keys w \<and>
     (complete \<longrightarrow> answers F = told_answers w \<and> held_keys F = accepted_keys w)"

definition accounts_kept :: "(networked, 'r, 'w) running \<Rightarrow> bool" where
  "accounts_kept s \<longleftrightarrow> account_inv (fst (rn_world s)) (flow s) (past_dropped s = [])"

lemma account_flows_on:
  assumes "account_inv w (flow s) (past_dropped s = [])" and "flows_on s t"
  shows "account_inv w (flow t) (past_dropped t = [])"
proof -
  have sub: "flow t \<subseteq># flow s" and full: "past_dropped t = [] \<longrightarrow> past_dropped s = [] \<and> flow t = flow s"
    using assms(2) by (simp_all add: flows_on_def)
  have "refused_only (flow t)"
    using assms(1) mset_subset_eqD [OF sub] by (auto simp: account_inv_def refused_only_def)
  with assms(1) held_mono [OF sub] full show ?thesis
    unfolding account_inv_def by (intro conjI impI) (metis subset_mset.order_trans)+
qed

lemma account_same_history:
  "account_inv w F c \<Longrightarrow> past_accepted w' = past_accepted w \<Longrightarrow> past_tracked w' = past_tracked w \<Longrightarrow> account_inv w' F c"
  by (simp add: account_inv_def told_answers_def accepted_keys_def)

lemma account_refused:
  "account_inv w F c \<Longrightarrow> account_inv w (add_mset (None, Some not_dispatched) F) c"
  by (auto simp: account_inv_def refused_only_def)

lemma account_accepted:
  assumes "account_inv w F c" and "past_accepted w' = past_accepted w @ [(pk, hash, rx)]"
    and "past_tracked w' = past_tracked w"
  shows "account_inv w' (add_mset (Some (pk, hash), None) F) c"
  using assms by (simp add: account_inv_def refused_only_def told_answers_def accepted_keys_def)

lemma account_told:
  assumes "account_inv w (add_mset (Some (pk, hash), None) F) c"
    and "past_tracked w' = past_tracked w @ [(pk, hash, rx, res)]" and "past_accepted w' = past_accepted w"
  shows "account_inv w' (add_mset (Some (pk, hash), Some (answer_of res)) F) c"
  using assms by (simp add: account_inv_def refused_only_def told_answers_def accepted_keys_def)

lemma accounts_send:
  assumes "run_action csv nodes (SendCall i) s = Some t" and "nodes_networked moves g nodes" and "accounts_kept s"
  shows "accounts_kept t"
proof -
  obtain w n where w: "rn_world s = (w, n)" by (cases "rn_world s")
  have kept: "account_inv w (flow s) (past_dropped s = [])" using assms(3) w by (simp add: accounts_kept_def)
  from send_call_networked [OF assms(1,2) w] obtain d w' where i: "i < length (rn_sends s)" "rn_sends s ! i = Dispatched d"
    and told: "past_tracked w' = past_tracked w"
    and cases: "(\<exists>p hash rx. t = s\<lparr>rn_world := (w', Suc n), rn_sends := (rn_sends s)[i := Sending (SendPaymentSuccess p)]\<rparr> \<and>
        pay_source p = dp_source d \<and> pay_hash p = Some hash \<and>
        past_accepted w' = past_accepted w @ [(dp_source d, hash, rx)]) \<or>
     (\<exists>p. t = s\<lparr>rn_world := (w', Suc n), rn_sends := (rn_sends s)[i := Sending (SendPaymentFailure p not_dispatched)]\<rparr> \<and>
        pay_hash p = None \<and> past_accepted w' = past_accepted w) \<or>
     (t = s\<lparr>rn_world := (w', Suc n), rn_sends := remove_at i (rn_sends s), rn_triggers := rn_triggers s + 1,
        past_dropped := past_dropped s @ [dispatch_key d]\<rparr> \<and> past_accepted w' = past_accepted w)"
    by metis
  have flow: "flow (s\<lparr>rn_world := x, rn_sends := (rn_sends s)[i := Sending out]\<rparr>) = output_held out + flow s" for x out
    using all_held_update [OF i(1), of send_held "Sending out"] i(2) by (simp add: flow_def)
  from cases show ?thesis
  proof (elim disjE exE conjE)
    fix p hash rx
    assume t: "t = s\<lparr>rn_world := (w', Suc n), rn_sends := (rn_sends s)[i := Sending (SendPaymentSuccess p)]\<rparr>"
      and p: "pay_source p = dp_source d" "pay_hash p = Some hash"
      and acc: "past_accepted w' = past_accepted w @ [(dp_source d, hash, rx)]"
    have "flow t = add_mset (Some (dp_source d, hash), None) (flow s)" by (simp add: t flow held_as_def p)
    with account_accepted [OF kept acc told] show ?thesis by (simp add: accounts_kept_def t)
  next
    fix p
    assume t: "t = s\<lparr>rn_world := (w', Suc n), rn_sends := (rn_sends s)[i := Sending (SendPaymentFailure p not_dispatched)]\<rparr>"
      and p: "pay_hash p = None" and acc: "past_accepted w' = past_accepted w"
    have "flow t = add_mset (None, Some not_dispatched) (flow s)" by (simp add: t flow held_as_def p)
    with account_refused [OF account_same_history [OF kept acc told]] show ?thesis by (simp add: accounts_kept_def t)
  next
    assume t: "t = s\<lparr>rn_world := (w', Suc n), rn_sends := remove_at i (rn_sends s), rn_triggers := rn_triggers s + 1,
        past_dropped := past_dropped s @ [dispatch_key d]\<rparr>" and acc: "past_accepted w' = past_accepted w"
    have "flow s = {#} + flow t"
      using all_held_remove_at [OF i(1), of send_held] i(2) by (simp add: t flow_def)
    then have "flows_on s t" by (rule flows_on_dropped) (simp add: t)
    then have "account_inv w' (flow t) (past_dropped t = [])"
      by (rule account_flows_on [OF account_same_history [OF kept acc told]])
    moreover have "fst (rn_world t) = w'" by (simp add: t)
    ultimately show ?thesis by (simp add: accounts_kept_def)
  qed
qed

lemma accounts_track:
  assumes "run_action csv nodes (TrackCall i) s = Some t" and "call_returns moves s i"
    and "nodes_networked moves g nodes" and "accounts_kept s"
  shows "accounts_kept t"
proof -
  obtain w n where w: "rn_world s = (w, n)" by (cases "rn_world s")
  from track_call_networked [OF assms(1-3) w] obtain p hash rx w' where
    i: "i < length (rn_tracks s)" "rn_tracks s ! i = TrackingPayment p" and hash: "pay_hash p = Some hash"
    and acc: "past_accepted w' = past_accepted w"
    and told: "past_tracked w' = past_tracked w @ [(pay_source p, hash, rx, tracked_answer w')]"
    and t: "t = s\<lparr>rn_world := (w', Suc n), rn_tracks := (rn_tracks s)[i := SendingResult p
       (case tracked_answer w' of Inr r \<Rightarrow> r | Inl e \<Rightarrow> track_payment_failed)]\<rparr>" by metis
  define F where "F = flow s - {#(Some (pay_source p, hash), None)#}"
  have here: "flow s = add_mset (Some (pay_source p, hash), None) F"
  proof -
    have "held_as p None \<subseteq># all_held track_held (rn_tracks s)"
      using all_held_remove_at [OF i(1), of track_held] i(2) by simp
    then have "(Some (pay_source p, hash), None) \<in># flow s" by (auto simp: flow_def held_as_def hash dest: mset_subset_eqD)
    then show ?thesis by (simp add: F_def)
  qed
  have "all_held track_held (rn_tracks t) + held_as p None =
      all_held track_held (rn_tracks s) + held_as p (Some (answer_of (tracked_answer w')))"
    using all_held_update [OF i(1), of track_held] i(2) by (simp add: t answer_of_def)
  then have "flow t + held_as p None = flow s + held_as p (Some (answer_of (tracked_answer w')))"
    by (simp add: flow_def t ac_simps)
  then have "flow t = add_mset (Some (pay_source p, hash), Some (answer_of (tracked_answer w'))) F"
    by (simp add: held_as_def hash here)
  with account_told [OF _ told acc, of F] assms(4) here w show ?thesis by (simp add: accounts_kept_def t)
qed

lemma accounts_step:
  assumes "whole_step csv moves nodes a s = Some t" and "nodes_networked moves g nodes" and "accounts_kept s"
  shows "accounts_kept t"
proof (cases a)
  case (TaskGoes b)
  with assms(1) have b: "run_action csv nodes b s = Some t" "may_go moves s b" by (auto split: if_splits)
  consider (sends) i where "b = SendCall i" | (tracks) i where "b = TrackCall i"
    | (other) "\<And>i. b \<noteq> SendCall i" "\<And>i. b \<noteq> TrackCall i"
    by blast
  then show ?thesis
  proof cases
    case sends
    with b(1) assms(2,3) show ?thesis by (simp only: accounts_send)
  next
    case (tracks i)
    with b have "run_action csv nodes (TrackCall i) s = Some t" "call_returns moves s i" by simp_all
    then show ?thesis using assms(2,3) by (rule accounts_track)
  next
    case other
    from world_frame [OF b other] account_flows_on [OF _ flow_others [OF b(1) other]] assms(3) show ?thesis
      by (simp add: accounts_kept_def)
  qed
next
  case (CallBegins i)
  with assms(1) obtain w n w' where w: "rn_world s = (w, n)" "t = s\<lparr>rn_world := (w', n)\<rparr>"
    and same: "past_accepted w' = past_accepted w" "past_tracked w' = past_tracked w"
    by (auto simp: call_begins_def net_track_def Let_def split: prod.splits if_splits track_task.splits option.splits)
  have "flow t = flow s" by (simp add: w flow_def)
  with account_same_history [OF _ same] assms(3) w show ?thesis by (simp add: accounts_kept_def)
next
  case (SectionRuns i joins)
  with assms(1) obtain w n w' where w: "rn_world s = (w, n)" "t = s\<lparr>rn_world := (w', n)\<rparr>"
    and same: "past_accepted w' = past_accepted w" "past_tracked w' = past_tracked w"
    by (auto simp: section_runs_def net_task_def split: prod.splits if_splits)
  have "flow t = flow s" by (simp add: w flow_def)
  with account_same_history [OF _ same] assms(3) w show ?thesis by (simp add: accounts_kept_def)
qed

lemma accounts_run:
  assumes "whole_run csv moves nodes as s = Some t" and "nodes_networked moves g nodes" and "accounts_kept s"
  shows "accounts_kept t"
  using assms(1,3) by (rule whole_run_invariant) (use accounts_step [OF _ assms(2)] in blast)

end
