(* ===== verification/Networked_Counts.thy ===== *)
theory Networked_Counts
  imports Networked_Accounts
begin

section \<open>Counting the successes of a simulation on its network\<close>

text \<open>
  Successes among the rows that were counted, among the trackings that returned and among the tasks of the
  network: no more of the first than of the second, nor of the second than of the third, and as many
  of each when everything has come to rest.
\<close>

subsection \<open>The start\<close>

lemma networked_nodes_ok:
  assumes "sim_graph_new f cs ics recs = Inr g" and "ln_node_from_graph g = Inr sims"
  shows "nodes_networked moves g (networked_nodes moves g exclude sims)" and "nodes_named (networked_nodes moves g exclude sims)"
proof -
  have node: "\<exists>sim. hm_get sims pk = Some sim \<and> node = networked_node moves g sim"
    if "hm_get (networked_nodes moves g exclude sims) pk = Some node" for pk node
    using that by (auto simp: networked_nodes_def remove_all_keys_get hm_get_map_values split: if_splits)
  have known: "hm_contains (sg_nodes g) pk \<and> pubkey (sn_info sim) = pk" if "hm_get sims pk = Some sim" for pk sim
    using simulated_nodes_get [OF assms, of pk] sim_graph_new_parts(5) [OF assms(1), of pk] that
    by (auto simp: hm_contains_def split: if_splits)
  show "nodes_networked moves g (networked_nodes moves g exclude sims)"
    unfolding nodes_networked_def using node known by blast
  show "nodes_named (networked_nodes moves g exclude sims)"
    unfolding nodes_named_def using node known by (fastforce simp: networked_node_def Let_def)
qed

lemma spawn_task_quiet:
  "rn_world (spawn_task csv now task s) = rn_world s" "past_dropped (spawn_task csv now task s) = past_dropped s"
  "rn_producer s \<in> {ProducerReceiving, ProducerOver (Inr ())} \<Longrightarrow>
     flow (spawn_task csv now task s) = flow s \<and>
     rn_producer (spawn_task csv now task s) \<in> {ProducerReceiving, ProducerOver (Inr ())}"
  by (cases task; auto simp: flow_def Let_def)+

lemma start_quiet:
  "rn_world (start_running csv now world out r) = world \<and> past_dropped (start_running csv now world out r) = [] \<and>
   flow (start_running csv now world out r) = {#}"
proof -
  have "rn_world (fold (spawn_task csv now) tasks s) = rn_world s \<and> past_dropped (fold (spawn_task csv now) tasks s) = past_dropped s \<and>
      flow (fold (spawn_task csv now) tasks s) = flow s"
    if "rn_producer s \<in> {ProducerReceiving, ProducerOver (Inr ())}" for tasks s
    using that
  proof (induction tasks arbitrary: s)
    case (Cons task tasks)
    note quiet = spawn_task_quiet(3) [OF Cons.prems, of csv now task]
    from Cons.IH [OF conjunct2 [OF quiet]] quiet show ?case by (simp add: spawn_task_quiet(1,2))
  qed simp
  from this [of "(no_tasks world r)\<lparr>rn_stopped := shutdown_triggered out\<rparr>" "spawned_tasks out"] show ?thesis
    by (simp add: start_running_def no_tasks_def flow_def opt_list_def)
qed

lemma accounts_start: "accounts_kept (start_running csv now (network_start g sims, 0) out r)"
  by (simp add: accounts_kept_def start_quiet account_inv_def refused_only_def told_answers_def accepted_keys_def
      network_start_def)

subsection \<open>Tasks of the network\<close>

definition tasks_accepted :: "network_run \<Rightarrow> bool" where
  "tasks_accepted w \<longleftrightarrow> (\<forall>(rx, req, t) \<in> set (nw_tasks w). \<exists>pk hash. (pk, hash, rx) \<in> set (past_accepted w))"

lemma same_tasks:
  "nw_tasks v = nw_tasks w \<Longrightarrow> past_accepted v = past_accepted w \<Longrightarrow> tasks_accepted v = tasks_accepted w"
  by (simp add: tasks_accepted_def)

lemma end_wait_tasks:
  "nw_tasks (end_wait i env event w) = nw_tasks w" "past_accepted (end_wait i env event w) = past_accepted w"
  by (simp_all add: end_wait_def split: prod.split)

lemma tasks_accepted_step:
  assumes "net_action g a w = Some v" and "network_inv g w" and "tasks_accepted w"
  shows "tasks_accepted v"
proof (cases a)
  case (NetSend env pk dest amt)
  with assms(1) have v: "v = net_send g env pk dest amt w" by (simp split: if_splits)
  have "pubkey (sn_info (sw_node (nw_world w) pk)) = pk" using assms(2) by (simp add: network_inv_def channels_inv_def)
  then show ?thesis
  proof (cases rule: net_send_cases [of w pk g env dest amt])
    case refused
    with v assms(3) show ?thesis by (simp add: tasks_accepted_def)
  next
    case (accepted hash path fate)
    with v assms(3) show ?thesis
      by (cases fate) (fastforce simp: tasks_accepted_def accept_payment_def Let_def)+
  qed
next
  case (NetTask i joins)
  with assms(1) obtain rx req t t' channels where "i < length (nw_tasks w)" "nw_tasks w ! i = (rx, req, t)"
    and "v = w\<lparr>nw_channels := channels, nw_tasks := (nw_tasks w)[i := (rx, req, t')]\<rparr>"
    by (auto simp: net_task_def split: if_splits prod.splits)
  with assms(3) show ?thesis
    using set_update_subset_insert [of "nw_tasks w" i "(rx, req, t')"] nth_mem [of i "nw_tasks w"]
    by (fastforce simp: tasks_accepted_def)
qed (use assms same_tasks [of v w] in \<open>auto simp: net_track_def net_result_def end_wait_tasks Let_def split: option.splits if_splits\<close>)

lemma tasks_accepted_run:
  assumes "net_actions g as w = Some v" and "network_inv g w" and "tasks_accepted w"
  shows "network_inv g v \<and> tasks_accepted v"
  using assms(1) conjI [OF assms(2,3)] unfolding net_actions_def
  by (rule fold_opt_invariant [rotated]) (use network_inv_action tasks_accepted_step in blast)

subsection \<open>Counting\<close>

definition row_succeeded :: "result_row \<Rightarrow> bool" where
  "row_succeeded row \<longleftrightarrow> payment_outcome (snd row) = Success"

definition succeeded_tasks :: "network_run \<Rightarrow> nat list" where
  "succeeded_tasks w = map fst (filter (\<lambda>(rx, req, t). succeeded t) (nw_tasks w))"

definition succeeded_trackings :: "network_run \<Rightarrow> nat list" where
  "succeeded_trackings w =
     map (\<lambda>(pk, hash, rx, res). rx) (filter (\<lambda>(pk, hash, rx, res). payment_outcome (answer_of res) = Success) (past_tracked w))"

lemma size_answers_rows:
  "refused_only (all_held row_held rows) \<Longrightarrow>
   size (filter_mset (\<lambda>(k, r). payment_outcome r = Success) (answers (all_held row_held rows))) =
     length (filter row_succeeded rows)"
proof (induction rows)
  case (Cons row rows)
  have row: "row_held row = {#(map_option (Pair (pay_source (fst row))) (pay_hash (fst row)), Some (snd row))#}"
    by (simp add: row_held_def held_as_def)
  have "refused_only (all_held row_held rows)" and refused: "pay_hash (fst row) = None \<Longrightarrow> snd row = not_dispatched"
    using Cons.prems by (auto simp: refused_only_def row)
  note ih = Cons.IH [OF this(1)]
  show ?case
    using ih refused by (cases "pay_hash (fst row)") (auto simp: row row_succeeded_def not_dispatched_def)
qed simp

lemma size_told_successes:
  "size (filter_mset (\<lambda>(k, r). payment_outcome r = Success) (told_answers w)) = length (succeeded_trackings w)"
proof -
  have "size (filter_mset (\<lambda>(k, r). payment_outcome r = Success) (mset (map (\<lambda>(pk, hash, rx, res). ((pk, hash), answer_of res)) xs))) =
      length (filter (\<lambda>(pk, hash, rx, res). payment_outcome (answer_of res) = Success) xs)"
    for xs :: "(pubkey \<times> payment_hash \<times> nat \<times> (lightning_error + payment_result)) list"
    by (induction xs) auto
  then show ?thesis by (simp add: told_answers_def succeeded_trackings_def)
qed

text \<open>Each tracked success is the task of its own channel, so there are no more of them than tasks that succeeded.\<close>

lemma tracked_successes:
  assumes "network_inv g w"
  shows "set (succeeded_trackings w) \<subseteq> set (succeeded_tasks w)" and "distinct (succeeded_trackings w)"
    and "distinct (succeeded_tasks w)"
proof -
  have inv: "channels_inv g w" "tracking_inv w" using assms by (simp_all add: network_inv_def)
  have "distinct (map (\<lambda>(pk, hash, rx, res). rx) (past_tracked w))"
    using inv(2) by (simp add: tracking_inv_def receivers_def)
  then show "distinct (succeeded_trackings w)"
    by (simp add: succeeded_trackings_def distinct_map_filter)
  show "distinct (succeeded_tasks w)"
    using task_keys_distinct [OF inv(1)] by (simp add: succeeded_tasks_def distinct_map_filter)
  show "set (succeeded_trackings w) \<subseteq> set (succeeded_tasks w)"
  proof
    fix rx assume "rx \<in> set (succeeded_trackings w)"
    then obtain pk hash res where t: "(pk, hash, rx, res) \<in> set (past_tracked w)" "payment_outcome (answer_of res) = Success"
      by (auto simp: succeeded_trackings_def)
    then obtain r where r: "res = Inr r" "payment_outcome r = Success"
      by (cases res) (auto simp: answer_of_def track_payment_failed_def)
    with tracked_own [OF assms] t(1) obtain req sd where "(rx, req, Reported sd (Some r)) \<in> set (nw_tasks w)"
      by fastforce
    with r(2) show "rx \<in> set (succeeded_tasks w)" by (force simp: succeeded_tasks_def succeeded_def)
  qed
qed

text \<open>At rest each task that succeeded was tracked, and its success is among the answers.\<close>

lemma all_successes_tracked:
  assumes "network_inv g w" and "tasks_accepted w" and "accepted_keys w = image_mset fst (told_answers w)"
    and "\<forall>(pk, hash, rx, res) \<in> set (past_tracked w). is_ok res"
  shows "set (succeeded_tasks w) \<subseteq> set (succeeded_trackings w)"
proof
  have inv: "channels_inv g w" "tracking_inv w" using assms(1) by (simp_all add: network_inv_def)
  let ?rx = "\<lambda>(pk, hash, rx). rx" and ?own = "\<lambda>(pk, hash, rx, res). (pk, hash, rx)"
  have size: "length (past_accepted w) = length (past_tracked w)"
    using arg_cong [OF assms(3), of size] by (simp add: accepted_keys_def told_answers_def)
  have "distinct (map ?rx (past_accepted w))" "distinct (map ?rx (map ?own (past_tracked w)))"
    using inv by (simp_all add: channels_inv_def tracking_inv_def receivers_def comp_def case_prod_unfold)
  then have distinct: "distinct (past_accepted w)" "distinct (map ?own (past_tracked w))"
    by (simp_all only: distinct_map)
  have "set (map ?own (past_tracked w)) \<subseteq> set (past_accepted w)"
    using inv(2) by (auto simp: tracking_inv_def)
  then have all: "set (map ?own (past_tracked w)) = set (past_accepted w)"
    by (rule card_subset_eq [OF List.finite_set]) (simp only: distinct_card distinct length_map size)
  fix rx assume "rx \<in> set (succeeded_tasks w)"
  then obtain req t where t: "(rx, req, t) \<in> set (nw_tasks w)" "succeeded t" by (auto simp: succeeded_tasks_def)
  with assms(2) obtain pk hash where "(pk, hash, rx) \<in> set (past_accepted w)" by (fastforce simp: tasks_accepted_def)
  with all obtain res where tr: "(pk, hash, rx, res) \<in> set (past_tracked w)" by force
  with assms(4) obtain r where r: "res = Inr r" by (auto simp: is_ok_iff)
  from tracked_own [OF assms(1) tr [unfolded r]] t(1) obtain req' sd where
    "(rx, req', Reported sd (Some r)) \<in> set (nw_tasks w)" by (fastforce simp: image_iff)
  with t(1) task_keys_distinct [OF inv(1)] have "t = Reported sd (Some r)" by (meson eq_key_imp_eq_value prod.inject)
  with t(2) tr r show "rx \<in> set (succeeded_trackings w)"
    by (force simp: succeeded_trackings_def succeeded_def answer_of_def)
qed

lemma logged_successes:
  "success_payment (logged rows payment_result_logger_new) = of_nat (length (filter row_succeeded rows))"
  by (simp add: logged_def payment_result_logger_new_def row_succeeded_def [abs_def])

subsection \<open>A run of both\<close>

text \<open>What is known of a state that a simulation on its network has reached.\<close>

lemma whole_run_reached:
  assumes "sim_graph_new f cs ics recs = Inr g" and "ln_node_from_graph g = Inr sims"
    and "internal_run env cfg supports_keysend (networked_nodes moves g exclude sims) now activity r = Some (out, r1)"
    and "outcome out = Inr ()"
    and "whole_run csv moves (networked_nodes moves g exclude sims) as
      (start_running csv t0 (network_start g sims, 0) out r1) = Some s"
  shows "accounts_kept s" and "network_inv g (fst (rn_world s))" and "tasks_accepted (fst (rn_world s))"
    and "running_inv (networked_nodes moves g exclude sims) s"
    and "cn_logger (snd (rn_consumer s)) = logged (past_counted s) payment_result_logger_new"
    and "\<exists>bs. net_actions g bs (network_start g sims) = Some (fst (rn_world s))"
proof -
  note nodes = networked_nodes_ok [OF assms(1,2), of moves exclude]
  from whole_run_runs [OF assms(5)] obtain bs where
    run: "run_actions csv (networked_nodes moves g exclude sims) bs (start_running csv t0 (network_start g sims, 0) out r1) = Some s"
    by blast
  show "accounts_kept s" by (rule accounts_run [OF assms(5) nodes(1) accounts_start])
  show net: "\<exists>bs. net_actions g bs (network_start g sims) = Some (fst (rn_world s))"
    using whole_run_net [OF assms(5) nodes(1)] by (simp add: start_quiet)
  have "tasks_accepted (network_start g sims)" by (simp add: tasks_accepted_def network_start_def)
  with net tasks_accepted_run network_inv_start [OF assms(1,2)]
  show "network_inv g (fst (rn_world s))" "tasks_accepted (fst (rn_world s))" by blast+
  show "running_inv (networked_nodes moves g exclude sims) s"
    by (rule running_inv_actions [OF run nodes(2) running_inv_start [OF assms(3)]])
  have "counted_inv csv (\<lambda>_. []) (\<lambda>_. []) (cfg_write_results cfg) s"
    by (rule counted_inv_actions [OF run counted_inv_start [OF assms(3,4)]])
  then show "cn_logger (snd (rn_consumer s)) = logged (past_counted s) payment_result_logger_new"
    by (simp add: counted_inv_def)
qed

lemma counted_rows_told:
  assumes "accounts_kept s"
  shows "refused_only (all_held row_held (past_counted s))"
    and "answers (all_held row_held (past_counted s)) \<subseteq># told_answers (fst (rn_world s))"
proof -
  have sub: "all_held row_held (past_counted s) \<subseteq># flow s" by (simp add: flow_def)
  with assms show "refused_only (all_held row_held (past_counted s))"
    by (auto simp: accounts_kept_def account_inv_def refused_only_def dest: mset_subset_eqD)
  from held_mono(1) [OF sub] assms show "answers (all_held row_held (past_counted s)) \<subseteq># told_answers (fst (rn_world s))"
    by (auto simp: accounts_kept_def account_inv_def intro: subset_mset.order_trans)
qed

lemma row_answered:
  "row \<in> set rows \<Longrightarrow> pay_hash (fst row) = Some hash \<Longrightarrow>
   ((pay_source (fst row), hash), snd row) \<in># answers (all_held row_held rows)"
proof (induction rows)
  case (Cons row' rows)
  then show ?case by (cases "pay_hash (fst row')") (auto simp: row_held_def held_as_def)
qed simp

lemma counted_successes_bound:
  assumes "accounts_kept s" and "network_inv g (fst (rn_world s))"
  shows "length (filter row_succeeded (past_counted s)) \<le> length (succeeded_tasks (fst (rn_world s)))"
proof -
  let ?w = "fst (rn_world s)"
  have "length (filter row_succeeded (past_counted s)) =
      size (filter_mset (\<lambda>(k, r). payment_outcome r = Success) (answers (all_held row_held (past_counted s))))"
    using size_answers_rows [OF counted_rows_told(1) [OF assms(1)]] by simp
  also have "\<dots> \<le> size (filter_mset (\<lambda>(k, r). payment_outcome r = Success) (told_answers ?w))"
    using counted_rows_told(2) [OF assms(1)] by (intro size_mset_mono multiset_filter_mono)
  also have "\<dots> = card (set (succeeded_trackings ?w))"
    using size_told_successes tracked_successes(2) [OF assms(2)] by (simp add: distinct_card)
  also have "\<dots> \<le> card (set (succeeded_tasks ?w))"
    using tracked_successes(1) [OF assms(2)] by (intro card_mono) simp_all
  finally show ?thesis using tracked_successes(3) [OF assms(2)] by (simp add: distinct_card)
qed

text \<open>Nothing on its way: the flow is what was counted.\<close>

lemma rest_flow:
  assumes "Running_Laws.in_flight s = {#}"
  shows "flow s = all_held row_held (past_counted s)"
proof -
  from assms have "rn_sends s = []" "opt_list (rn_output s) = []" "producer_keys (rn_producer s) = []" "rn_tracks s = []"
    "opt_list (rn_result s) = []" by (simp_all add: Running_Laws.in_flight_def)
  then show ?thesis by (cases "rn_producer s") (simp_all add: flow_def)
qed

lemma counted_successes_exact:
  assumes "accounts_kept s" and "network_inv g (fst (rn_world s))" and "tasks_accepted (fst (rn_world s))"
    and "Running_Laws.in_flight s = {#}" and "past_dropped s = []"
    and "list_all (\<lambda>row. payment_outcome (snd row) \<noteq> TrackPaymentFailed) (past_counted s)"
  shows "length (filter row_succeeded (past_counted s)) = length (succeeded_tasks (fst (rn_world s)))"
proof -
  let ?w = "fst (rn_world s)" and ?F = "all_held row_held (past_counted s)"
  have all: "answers ?F = told_answers ?w" "held_keys ?F = accepted_keys ?w"
    using assms(1,5) by (simp_all add: accounts_kept_def account_inv_def rest_flow [OF assms(4)])
  have "held_keys (all_held row_held rows) = image_mset fst (answers (all_held row_held rows))" for rows
  proof (induction rows)
    case (Cons row rows)
    then show ?case by (cases "pay_hash (fst row)") (simp_all add: row_held_def held_as_def)
  qed simp
  with all have keys: "accepted_keys ?w = image_mset fst (told_answers ?w)" by metis
  have "is_ok res" if "(pk, hash, rx, res) \<in> set (past_tracked ?w)" for pk hash rx res
  proof (rule ccontr)
    assume "\<not> is_ok res"
    then have "answer_of res = track_payment_failed" by (cases res) (simp_all add: answer_of_def)
    moreover have "((pk, hash), answer_of res) \<in># told_answers ?w"
      using that by (force simp: told_answers_def)
    ultimately have "((pk, hash), track_payment_failed) \<in># answers ?F" by (simp add: all)
    moreover have "x \<in># answers (all_held row_held rows) \<Longrightarrow> \<exists>row \<in> set rows. snd row = snd x" for x rows
    proof (induction rows)
      case (Cons row rows)
      then show ?case by (cases "pay_hash (fst row)") (auto simp: row_held_def held_as_def)
    qed simp
    ultimately show False using assms(6) by (fastforce simp: list_all_iff track_payment_failed_def)
  qed
  with all_successes_tracked [OF assms(2,3) keys] tracked_successes [OF assms(2)]
  have "length (succeeded_trackings ?w) = length (succeeded_tasks ?w)"
    by (metis (no_types, lifting) case_prodI2 distinct_card subset_antisym)
  then show ?thesis
    using size_answers_rows [OF counted_rows_told(1) [OF assms(1)]] size_told_successes [of ?w] all(1) by simp
qed

end
