(* ===== verification/Node_Contract.thy ===== *)
theory Node_Contract
  imports Results Backend_Properties
begin

section \<open>The contract of a lightning node (simln-lib/src/lib.rs)\<close>

text \<open>
  What the tasks of a simulation may rely on whatever implements the \<open>LightningNode\<close> trait: a payment that
  was sent has a hash of 32 bytes, an error of \<open>send_payment\<close> is one of three kinds, and a tracked
  payment is never reported as not dispatched. It is discharged by the four backends. For the nodes of a
  simulated network the same is shown of what the network tells them (\<open>Networked_Rows\<close>).
\<close>

text \<open>A row of the results: without a hash the payment was not dispatched, otherwise it has a hash of 32
  bytes and an outcome of its own.\<close>

definition row_typed :: "result_row \<Rightarrow> bool" where
  "row_typed row =
     (case pay_hash (fst row) of
        None \<Rightarrow> snd row = not_dispatched
      | Some h \<Rightarrow> length (hash_bytes h) = 32 \<and> payment_outcome (snd row) \<noteq> NotDispatched)"

definition sent_typed :: "payment \<Rightarrow> bool" where
  "sent_typed p = (case pay_hash p of None \<Rightarrow> False | Some h \<Rightarrow> length (hash_bytes h) = 32)"

fun output_typed :: "simulation_output \<Rightarrow> bool" where
  "output_typed (SendPaymentSuccess p) = sent_typed p"
| "output_typed (SendPaymentFailure p result) = row_typed (p, result)"

locale node_contract =
  fixes node :: "'s lightning_node"
  assumes sends: "sent_ok True (fst (ln_send_payment node dest amt s))"
    and tracks: "ln_track_payment node hash s = (Inr result, s') \<Longrightarrow> payment_outcome result \<noteq> NotDispatched"
begin

lemma sends_typed:
  assumes "node_send_payment node event time ok s = (res, Some out, s')"
  shows "output_typed out"
proof -
  obtain dest amt where event: "event = SendPayment dest amt" by (cases event)
  obtain r s1 where send: "ln_send_payment node (pubkey dest) amt s = (r, s1)"
    by (cases "ln_send_payment node (pubkey dest) amt s")
  with sends [of "pubkey dest" amt s] have ok: "sent_ok True r" by simp
  show ?thesis
  proof (cases r)
    case (Inr h)
    with assms event send ok show ?thesis by (auto simp: node_send_payment_def sent_typed_def Let_def)
  next
    case (Inl e)
    with assms event send show ?thesis
      by (cases e) (auto simp: node_send_payment_def row_typed_def Let_def)
  qed
qed

lemma stops_only_permanent:
  assumes "node_send_payment node event time ok s = (Inl e, None, s')"
  shows "\<exists>msg. e = LightningError (PermanentError msg)"
  using assms
  by (auto simp: node_send_payment_def Let_def split: simulation_event.splits sum.splits lightning_error.splits prod.splits)

lemma tracks_typed:
  assumes "sent_typed p" and "track_payment_result node p sending s = (res, Some row, s')"
  shows "row_typed row"
proof -
  obtain h where h: "pay_hash p = Some h" "length (hash_bytes h) = 32"
    using assms(1) by (auto simp: sent_typed_def split: option.splits)
  obtain r s1 where track: "ln_track_payment node h s = (r, s1)" by (cases "ln_track_payment node h s")
  show ?thesis
  proof (cases r)
    case (Inr result)
    with assms(2) h track tracks [of h s result s1] show ?thesis
      by (cases sending) (auto simp: track_payment_result_def row_typed_def)
  next
    case (Inl e)
    with assms(2) h track show ?thesis
      by (cases sending) (auto simp: track_payment_result_def row_typed_def track_payment_failed_def)
  qed
qed

end

definition nodes_contract :: "'s nodes \<Rightarrow> bool" where
  "nodes_contract nodes \<longleftrightarrow> (\<forall>pk node. hm_get nodes pk = Some node \<longrightarrow> node_contract node)"

end
