(* ===== verification/Backend_Nodes.thy ===== *)
theory Backend_Nodes
  imports Node_Contract Network_Setup
begin

section \<open>Real nodes behind the trait (simln-lib/src/lnd.rs, cln.rs, eclair.rs, ldk_server.rs)\<close>

text \<open>
  The four backends as values of the \<open>LightningNode\<close> trait, and the connectors that \<open>get_clients\<close> uses. What
  a client of a node answers may depend on the world and change it. A tracking loop polls until the
  shutdown at the latest: the number of rounds before it is part of the client.

  Eclair answers \<open>getsentinfo\<close> with at least one part here; on an empty answer \<open>send_payment\<close> panics
  (\<open>eclair_send_payment\<close>), which the trait has no value for.
\<close>

subsection \<open>What the backends share\<close>

record codecs =
  pk_from_str :: "string \<Rightarrow> string + pubkey"
  pk_from_slice :: "u8 list \<Rightarrow> string + pubkey"
  pk_serialize :: "pubkey \<Rightarrow> u8 list"
  sha256_hash :: "u8 list \<Rightarrow> u8 list"
  hex_of_bytes :: "u8 list \<Rightarrow> string"
  bytes_of_hex :: "string \<Rightarrow> u8 list option"
  network_from_str :: "string \<Rightarrow> string + network"
  network_from_core_arg :: "string \<Rightarrow> string + network"
  lnd_status_from_i32 :: "int \<Rightarrow> lnd_status option"
  lnd_failure_from_i32 :: "int \<Rightarrow> lnd_failure option"
  cln_status_from_i32 :: "int \<Rightarrow> cln_status option"
  ldk_status_from_i32 :: "int \<Rightarrow> ldk_status option"

text \<open>The answers of a tracking loop: those of the node, until the shutdown.\<close>

definition polled_until :: "nat \<Rightarrow> (nat \<Rightarrow> 'q \<Rightarrow> 'a) \<Rightarrow> nat \<Rightarrow> 'q \<Rightarrow> 'a poll_event" where
  "polled_until n answers i q = (if i < n then Polled (answers i q) else PollShutdown)"

definition tracked_at_last :: "(lightning_error + payment_result) option \<Rightarrow> lightning_error + payment_result" where
  "tracked_at_last r = (case r of Some res \<Rightarrow> res | None \<Rightarrow> Inl shutdown_before_tracking)"

lemma poll_loop_ends: "PollShutdown \<in> set es \<Longrightarrow> poll_loop poll es \<noteq> None"
proof (induction es)
  case (Cons e es)
  then show ?case by (cases e) (auto split: option.split)
qed simp

text \<open>With the shutdown among its rounds a loop always ends by itself.\<close>

lemma polled_until_ends:
  "poll_loop poll (map (\<lambda>i. polled_until n answers i q) [0..<Suc n]) =
   Some (tracked_at_last (poll_loop poll (map (\<lambda>i. polled_until n answers i q) [0..<Suc n])))"
proof -
  have "PollShutdown \<in> set (map (\<lambda>i. polled_until n answers i q) [0..<Suc n])"
    by (auto simp: polled_until_def)
  from poll_loop_ends [OF this, of poll] show ?thesis by (auto simp: tracked_at_last_def)
qed

subsection \<open>LND\<close>

record 's lnd_client =
  lnd_connects :: "string \<Rightarrow> string \<Rightarrow> string \<Rightarrow> string + unit"
  lnd_get_info :: "string + lnd_info_reply"
  lnd_router :: "'s \<Rightarrow> lnd_send_request \<Rightarrow> grpc_status + (grpc_status + string option)"
  lnd_preimage :: "'s \<Rightarrow> u8 list"
  lnd_stream :: "'s \<Rightarrow> u8 list \<Rightarrow> string + lnd_track_event"
  lnd_node_query :: "pubkey \<Rightarrow> string + lnd_graph_node option"
  lnd_list_channels :: "string + int list"
  lnd_describe_graph :: "string + lnd_graph_node list"
  lnd_moves :: "'s \<Rightarrow> 's"

definition lnd_lightning_node :: "codecs \<Rightarrow> 's lnd_client \<Rightarrow> lnd_node \<Rightarrow> 's lightning_node" where
  "lnd_lightning_node codecs client node =
     \<lparr>ln_info = lnd_info node,
      ln_network = lnd_network node,
      ln_send_payment = (\<lambda>dest amt s.
        (lnd_send_payment (pk_serialize codecs) (sha256_hash codecs) (bytes_of_hex codecs) (lnd_router client s)
           (lnd_preimage client s) dest amt, lnd_moves client s)),
      ln_track_payment = (\<lambda>hash s.
        (lnd_track_payment (lnd_status_from_i32 codecs) (lnd_failure_from_i32 codecs) (lnd_stream client s) hash,
         lnd_moves client s)),
      ln_get_node_info = lnd_get_node_info (lnd_node_query client),
      ln_channel_capacities = lnd_channel_capacities (lnd_list_channels client),
      ln_get_graph = lnd_get_graph (pk_from_str codecs) (lnd_describe_graph client)\<rparr>"

subsection \<open>Core Lightning\<close>

record ('s, 'f, 'u, 'c) cln_client =
  cln_open :: "string \<Rightarrow> string + 'f"
  cln_read_to_end :: "'f \<Rightarrow> string + u8 list"
  cln_from_shared :: "string \<Rightarrow> string + 'u"
  cln_tls_config :: "u8 list \<Rightarrow> u8 list \<Rightarrow> u8 list \<Rightarrow> 'u \<Rightarrow> string + 'c"
  cln_channel_connect :: "'c \<Rightarrow> string + unit"
  cln_getinfo :: "string + cln_info_reply"
  cln_key_send :: "'s \<Rightarrow> cln_keysend_request \<Rightarrow> string + u8 list"
  cln_rounds :: "'s \<Rightarrow> nat"
  cln_list_pays :: "'s \<Rightarrow> nat \<Rightarrow> u8 list \<Rightarrow> string + cln_pay list"
  cln_list_nodes :: "pubkey \<Rightarrow> string + cln_list_node list"
  cln_list_channels :: "bool \<Rightarrow> string + u64 option list"
  cln_all_nodes :: "string + cln_list_node list"
  cln_moves :: "'s \<Rightarrow> 's"

definition cln_lightning_node :: "codecs \<Rightarrow> ('s, 'f, 'u, 'c) cln_client \<Rightarrow> cln_node \<Rightarrow> 's lightning_node" where
  "cln_lightning_node codecs client node =
     \<lparr>ln_info = cln_info node,
      ln_network = cln_network node,
      ln_send_payment = (\<lambda>dest amt s.
        (cln_send_payment (pk_serialize codecs) (cln_key_send client s) dest amt, cln_moves client s)),
      ln_track_payment = (\<lambda>hash s.
        (tracked_at_last (cln_track_payment (cln_status_from_i32 codecs)
           (polled_until (cln_rounds client s) (cln_list_pays client s)) hash (Suc (cln_rounds client s))),
         cln_moves client s)),
      ln_get_node_info = cln_get_node_info (cln_list_nodes client),
      ln_channel_capacities = cln_channel_capacities (cln_list_channels client),
      ln_get_graph = cln_get_graph (pk_from_slice codecs) (cln_all_nodes client)\<rparr>"

subsection \<open>Eclair\<close>

record ('s, 'u) eclair_answers =
  eclair_url_parse :: "string \<Rightarrow> string + 'u"
  eclair_getinfo :: "'u eclair_client \<Rightarrow> string \<Rightarrow> params option \<Rightarrow> string + eclair_info_reply"
  eclair_request_id :: "'s \<Rightarrow> string \<Rightarrow> params option \<Rightarrow> string + string"
  eclair_sent_parts :: "'s \<Rightarrow> string \<Rightarrow> params option \<Rightarrow> string + (payment_part \<times> payment_part list)"
  eclair_preimage :: "'s \<Rightarrow> u8 list"
  eclair_rounds :: "'s \<Rightarrow> nat"
  eclair_parts :: "'s \<Rightarrow> nat \<Rightarrow> string \<times> params option \<Rightarrow> string + payment_part list"
  eclair_node_query :: "string \<Rightarrow> params option \<Rightarrow> string + announcement"
  eclair_channels :: "string + u64 list list"
  eclair_all_nodes :: "string + node_in_graph list"
  eclair_moves :: "'s \<Rightarrow> 's"

text \<open>The answer to \<open>getsentinfo\<close> after a payment, as the list that the code indexes.\<close>

definition sent_parts_list :: "string + (payment_part \<times> payment_part list) \<Rightarrow> string + payment_part list" where
  "sent_parts_list answer = (case answer of Inl e \<Rightarrow> Inl e | Inr (part, parts) \<Rightarrow> Inr (part # parts))"

definition eclair_sent ::
  "codecs \<Rightarrow> ('s, 'u) eclair_answers \<Rightarrow> pubkey \<Rightarrow> u64 \<Rightarrow> 's \<Rightarrow> (lightning_error + payment_hash) option" where
  "eclair_sent codecs client dest amt s =
     eclair_send_payment (pk_serialize codecs) (hex_of_bytes codecs) (bytes_of_hex codecs) (eclair_request_id client s)
       (\<lambda>endpoint ps. sent_parts_list (eclair_sent_parts client s endpoint ps)) (eclair_preimage client s) dest amt"

lemma eclair_sent_no_panic: "eclair_sent codecs client dest amt s \<noteq> None"
  by (auto simp: eclair_sent_def eclair_send_payment_def sent_parts_list_def Let_def split: sum.splits list.splits prod.splits)

definition eclair_lightning_node :: "codecs \<Rightarrow> ('s, 'u) eclair_answers \<Rightarrow> eclair_node \<Rightarrow> 's lightning_node" where
  "eclair_lightning_node codecs client node =
     \<lparr>ln_info = eclair_info node,
      ln_network = eclair_network node,
      ln_send_payment = (\<lambda>dest amt s. (the (eclair_sent codecs client dest amt s), eclair_moves client s)),
      ln_track_payment = (\<lambda>hash s.
        (tracked_at_last (eclair_track_payment (hex_of_bytes codecs)
           (\<lambda>i endpoint ps. polled_until (eclair_rounds client s) (eclair_parts client s) i (endpoint, ps))
           hash (Suc (eclair_rounds client s))),
         eclair_moves client s)),
      ln_get_node_info = eclair_get_node_info (pk_serialize codecs) (hex_of_bytes codecs) (eclair_node_query client),
      ln_channel_capacities = eclair_channel_capacities (eclair_channels client),
      ln_get_graph = eclair_get_graph (pk_from_str codecs) (eclair_all_nodes client)\<rparr>"

subsection \<open>LDK Server\<close>

record ('s, 'k) ldk_client =
  ldk_read :: "string \<Rightarrow> string + u8 list"
  ldk_client_new :: "string \<Rightarrow> string \<Rightarrow> u8 list \<Rightarrow> string + 'k"
  ldk_node_info :: "'k \<Rightarrow> string + ldk_info_reply"
  ldk_spontaneous_send :: "'s \<Rightarrow> u64 \<Rightarrow> pubkey \<Rightarrow> (ldk_error_code \<times> string) + string"
  ldk_rounds :: "'s \<Rightarrow> nat"
  ldk_payment_details :: "'s \<Rightarrow> nat \<Rightarrow> string \<Rightarrow> string + int option"
  ldk_graph_node :: "string \<Rightarrow> string + graph_node_announcement option option"
  ldk_list_channels :: "string + (u64 \<times> u64) list"
  ldk_graph_nodes :: "string + string list"
  ldk_moves :: "'s \<Rightarrow> 's"

text \<open>\<open>show_pk\<close> is the printed form of a key, by which the server looks a node up.\<close>

definition ldk_lightning_node ::
  "codecs \<Rightarrow> (pubkey \<Rightarrow> string) \<Rightarrow> ('s, 'k) ldk_client \<Rightarrow> ldk_server_node \<Rightarrow> 's lightning_node" where
  "ldk_lightning_node codecs show_pk client node =
     \<lparr>ln_info = ls_info node,
      ln_network = ls_network node,
      ln_send_payment = (\<lambda>dest amt s.
        (ldk_send_payment (bytes_of_hex codecs) (ldk_spontaneous_send client s) dest amt, ldk_moves client s)),
      ln_track_payment = (\<lambda>hash s.
        (tracked_at_last (ldk_track_payment (hex_of_bytes codecs) (ldk_status_from_i32 codecs)
           (polled_until (ldk_rounds client s) (ldk_payment_details client s)) hash (Suc (ldk_rounds client s))),
         ldk_moves client s)),
      ln_get_node_info = ldk_get_node_info (\<lambda>pk. ldk_graph_node client (show_pk pk)) node,
      ln_channel_capacities = ldk_channel_capacities (ldk_list_channels client),
      ln_get_graph = Some (ldk_get_graph (pk_from_str codecs) (ldk_graph_node client) (ldk_graph_nodes client))\<rparr>"

subsection \<open>Connecting\<close>

text \<open>The client that answers for each connection.\<close>

record ('s, 'f, 'u, 'c, 'v, 'k) backend_clients =
  lnd_client_of :: "lnd_connection \<Rightarrow> 's lnd_client"
  cln_client_of :: "cln_connection \<Rightarrow> ('s, 'f, 'u, 'c) cln_client"
  eclair_client_of :: "eclair_connection \<Rightarrow> ('s, 'v) eclair_answers"
  ldk_client_of :: "ldk_server_connection \<Rightarrow> ('s, 'k) ldk_client"

definition backend_connectors ::
  "codecs \<Rightarrow> (pubkey \<Rightarrow> string) \<Rightarrow> ('s, 'f, 'u, 'c, 'v, 'k) backend_clients \<Rightarrow> 's connectors" where
  "backend_connectors codecs show_pk clients =
     \<lparr>connect_lnd = (\<lambda>c. let client = lnd_client_of clients c in
        map_sum (\<lambda>e. e) (lnd_lightning_node codecs client)
          (lnd_new (pk_from_str codecs) (network_from_str codecs) (lnd_connects client) (lnd_get_info client) c)),
      connect_cln = (\<lambda>c. let client = cln_client_of clients c in
        map_sum (\<lambda>e. e) (cln_lightning_node codecs client)
          (cln_new (pk_from_slice codecs) (network_from_core_arg codecs)
            (cln_connect (reader (cln_open client) (cln_read_to_end client)) (cln_from_shared client)
               (cln_tls_config client) (cln_channel_connect client))
            (cln_getinfo client) c)),
      connect_eclair = (\<lambda>c. let client = eclair_client_of clients c in
        map_sum (\<lambda>e. e) (eclair_lightning_node codecs client)
          (eclair_new (eclair_url_parse client) (pk_from_str codecs) (network_from_str codecs) (eclair_getinfo client) c)),
      connect_ldk_server = (\<lambda>c. let client = ldk_client_of clients c in
        map_sum (\<lambda>e. e) (ldk_lightning_node codecs show_pk client)
          (ldk_new (ldk_read client) (ldk_client_new client) (ldk_node_info client) (pk_from_str codecs) c))\<rparr>"

subsection \<open>The contract\<close>

lemma lnd_outcome_dispatched:
  "lnd_outcome sf ff payment = Inr result \<Longrightarrow> payment_outcome result \<noteq> NotDispatched"
  by (auto simp: lnd_outcome_def res_bind_Inr_iff split: option.splits lnd_status.splits
      elim: lnd_failed_outcome.elims)

lemma tracked_ok_dispatched: "tracked_ok (Inr result) \<Longrightarrow> payment_outcome result \<noteq> NotDispatched"
  by (auto simp: tracked_ok_def)

lemma at_last_dispatched:
  assumes "\<And>r. poll_loop poll es = Some r \<Longrightarrow> tracked_ok r" and "tracked_at_last (poll_loop poll es) = Inr result"
  shows "payment_outcome result \<noteq> NotDispatched"
  using assms by (cases "poll_loop poll es") (auto simp: tracked_at_last_def tracked_ok_dispatched)

lemma polled_dispatched:
  "tracked_at_last (poll_loop (cln_poll f) es) = Inr result \<Longrightarrow> payment_outcome result \<noteq> NotDispatched"
  "tracked_at_last (poll_loop (ldk_poll g) es') = Inr result \<Longrightarrow> payment_outcome result \<noteq> NotDispatched"
  "tracked_at_last (poll_loop eclair_poll es'') = Inr result \<Longrightarrow> payment_outcome result \<noteq> NotDispatched"
  using at_last_dispatched [of "cln_poll f" es] at_last_dispatched [of "ldk_poll g" es']
    at_last_dispatched [of eclair_poll es''] cln.loop_result [folded tracked_ok_def]
    ldk.loop_result [folded tracked_ok_def] eclair.loop_result [folded tracked_ok_def] by blast+

lemma sent_ok_weaken: "sent_ok False r \<Longrightarrow> sent_ok True r"
proof (cases r)
  case (Inl e)
  then show "sent_ok False r \<Longrightarrow> sent_ok True r" by (cases e) simp_all
qed simp

lemma sent_ok_eclair_sent: "sent_ok True (the (eclair_sent codecs client dest amt s))"
  using eclair_sent_no_panic [of codecs client dest amt s]
    sent_ok_eclair [of "pk_serialize codecs" "hex_of_bytes codecs" "bytes_of_hex codecs" "eclair_request_id client s"
      "\<lambda>endpoint ps. sent_parts_list (eclair_sent_parts client s endpoint ps)" "eclair_preimage client s" dest amt]
  by (auto simp: eclair_sent_def sent_ok_weaken split: option.splits)

interpretation lnd_node: node_contract "lnd_lightning_node codecs client node" for codecs client node
  by unfold_locales
    (auto simp: lnd_lightning_node_def sent_ok_lnd lnd_track_payment_def
      split: sum.splits lnd_track_event.splits option.splits dest: lnd_outcome_dispatched)

interpretation cln_node: node_contract "cln_lightning_node codecs client node" for codecs client node
  by unfold_locales
    (auto simp: cln_lightning_node_def sent_ok_cln cln_track_payment_def simp del: upt_Suc dest!: polled_dispatched)

interpretation eclair_node: node_contract "eclair_lightning_node codecs client node" for codecs client node
  by unfold_locales
    (auto simp: eclair_lightning_node_def sent_ok_eclair_sent eclair_track_payment_def simp del: upt_Suc
      dest!: polled_dispatched)

interpretation ldk_node: node_contract "ldk_lightning_node codecs show_pk client node" for codecs show_pk client node
  by unfold_locales
    (auto simp: ldk_lightning_node_def sent_ok_ldk ldk_track_payment_def Let_def simp del: upt_Suc
      dest!: polled_dispatched)

text \<open>A simulated node sends hashes of 32 bytes when those of the preimages it draws have 32; that what it
  tracks was dispatched is a matter of the network, not of the node.\<close>

definition draws_hashes :: "sim_env \<Rightarrow> bool" where
  "draws_hashes env \<longleftrightarrow> (\<forall>w. length (hash_bytes (draw_hash env w)) = 32)"

lemma sim_node_sends:
  "draws_hashes env \<Longrightarrow> sent_ok True (fst (ln_send_payment (sim_lightning_node env g node) dest amt s))"
  by (auto simp: sim_lightning_node_def Let_def draws_hashes_def send_payment_def hash_exists_error_def
      one_path_error_def split: sum.splits prod.splits if_splits)

subsection \<open>The nodes of a prepared simulation\<close>

lemma connected_contract:
  "connect_node (backend_connectors codecs show_pk clients) conn = Inr node \<Longrightarrow> node_contract node"
  by (cases conn)
    (auto simp: backend_connectors_def Let_def map_sum_def lnd_node.node_contract_axioms cln_node.node_contract_axioms
      eclair_node.node_contract_axioms ldk_node.node_contract_axioms split: sum.splits)

lemma get_clients_loop_nodes:
  "get_clients_loop cs conns clients infos = Inr (clients', infos') \<Longrightarrow>
   hm_get clients' pk = Some node \<Longrightarrow>
   hm_get clients pk = Some node \<or> (\<exists>c. connect_node cs c = Inr node \<and> pubkey (ln_info node) = pk)"
proof (induction cs conns clients infos rule: get_clients_loop.induct)
  case (2 cs c conns clients infos)
  from 2(2) obtain n where n: "connect_node cs c = Inr n"
    and rest: "get_clients_loop cs conns (hm_insert (pubkey (ln_info n)) n clients)
      (hm_insert (pubkey (ln_info n)) (ln_info n) infos) = Inr (clients', infos')"
    by (auto simp: res_bind_Inr_iff Let_def)
  from 2(1) [OF refl rest 2(3)] n show ?case by (auto simp: hm_get_insert split: if_splits)
qed simp

end
