(* ===== verification/Reported_Rows.thy ===== *)
theory Reported_Rows
  imports Running_Laws Node_Contract
begin

section \<open>The rows that a running simulation reports\<close>

text \<open>
  On nodes that keep their contract, whatever is on its way through the tasks is well-typed: an output
  that says a payment was sent holds its hash, and so does every result that was tracked.
\<close>

fun send_typed :: "send_task \<Rightarrow> bool" where
  "send_typed (Dispatched d) = True"
| "send_typed (Sending out) = output_typed out"

fun track_typed :: "track_task \<Rightarrow> bool" where
  "track_typed (TrackingPayment p) = sent_typed p"
| "track_typed (SendingResult p result) = row_typed (p, result)"

fun producer_typed :: "producer_task \<Rightarrow> bool" where
  "producer_typed (ProducerSending p result) = row_typed (p, result)"
| "producer_typed _ = True"

definition rows_inv :: "('s, 'r, 'w) running \<Rightarrow> bool" where
  "rows_inv s \<longleftrightarrow> list_all send_typed (rn_sends s) \<and> list_all output_typed (opt_list (rn_output s)) \<and>
     producer_typed (rn_producer s) \<and> list_all track_typed (rn_tracks s) \<and>
     list_all row_typed (opt_list (rn_result s)) \<and> list_all row_typed (past_counted s)"

lemma list_all_remove_at: "list_all P xs \<Longrightarrow> list_all P (remove_at i xs)"
  using set_remove_at [of i xs] by (auto simp: list_all_iff)

lemma list_all_put: "list_all P xs \<Longrightarrow> P x \<Longrightarrow> list_all P (xs[i := x])"
  using set_update_subset_insert [of xs i x] by (auto simp: list_all_iff)

lemma list_all_at: "list_all P xs \<Longrightarrow> i < length xs \<Longrightarrow> P (xs ! i)"
  by (simp add: list_all_length)

lemma rows_send_call:
  assumes "run_action csv nodes (SendCall i) s = Some t" and "rows_inv s" and "nodes_contract nodes"
  shows "rows_inv t"
  using assms(1)
proof (cases rule: send_call_cases)
  case (sent d node res out world)
  from assms(3) sent(3) have "node_contract node" by (auto simp: nodes_contract_def)
  from node_contract.sends_typed [OF this sent(4)] assms(2) show ?thesis
    by (simp add: sent rows_inv_def list_all_put)
next
  case (refused d world)
  with assms(2) show ?thesis by (simp add: rows_inv_def list_all_remove_at)
qed

lemma rows_send_put:
  assumes "run_action csv nodes (SendPut i) s = Some t" and "rows_inv s"
  shows "rows_inv t"
  using assms(1)
proof (cases rule: send_put_cases)
  case (closed out)
  with assms(2) show ?thesis by (simp add: rows_inv_def list_all_remove_at)
next
  case (puts out)
  with assms(2) list_all_at [of send_typed "rn_sends s" i] show ?thesis
    by (simp add: rows_inv_def list_all_remove_at)
qed

lemma rows_producer:
  assumes "run_action csv nodes ProducerPoll s = Some t" and "rows_inv s"
  shows "rows_inv t"
  using assms(1)
  by (cases rule: producer_cases) (use assms(2) in \<open>simp_all add: rows_inv_def end_producer_def\<close>)

lemma rows_track_call:
  assumes "run_action csv nodes (TrackCall i) s = Some t" and "rows_inv s" and "nodes_contract nodes"
  shows "rows_inv t"
proof -
  from assms(1) obtain p p' result node res world where i: "i < length (rn_tracks s)" "rn_tracks s ! i = TrackingPayment p"
    and node: "hm_get nodes (pay_source p) = Some node"
    and tracked: "track_payment_result node p SendDone (rn_world s) = (res, Some (p', result), world)"
    and t: "t = s\<lparr>rn_world := world, rn_tracks := (rn_tracks s)[i := SendingResult p' result]\<rparr>"
    by (auto split: if_splits track_task.splits option.splits prod.splits)
  have "sent_typed p" using list_all_at [OF _ i(1), of track_typed] assms(2) by (simp add: rows_inv_def i(2))
  moreover have "node_contract node" using assms(3) node by (auto simp: nodes_contract_def)
  ultimately have "row_typed (p', result)" using tracked by (intro node_contract.tracks_typed)
  with assms(2) show ?thesis by (simp add: t rows_inv_def list_all_put)
qed

lemma rows_track_put:
  assumes "run_action csv nodes (TrackPut i) s = Some t" and "rows_inv s"
  shows "rows_inv t"
  using assms(1)
proof (cases rule: track_put_cases)
  case (dropped p result)
  with assms(2) show ?thesis by (simp add: rows_inv_def list_all_remove_at)
next
  case (puts p result)
  with assms(2) list_all_at [of track_typed "rn_tracks s" i] show ?thesis
    by (simp add: rows_inv_def list_all_remove_at)
qed

lemma rows_consumer:
  assumes "run_action csv nodes ConsumerPoll s = Some t" and "rows_inv s"
  shows "rows_inv t"
  using assms(1)
  by (cases rule: consumer_cases) (use assms(2) in \<open>simp_all add: rows_inv_def\<close>)

lemma rows_events:
  "run_action csv nodes EventsPoll s = Some t \<Longrightarrow> rows_inv s \<Longrightarrow> rows_inv t"
  by (auto simp: rows_inv_def end_events_def split: events_task.splits if_splits)

lemma rows_iterate:
  assumes "run_action csv nodes (EventsIterate tick) s = Some t" and "rows_inv s"
  shows "rows_inv t"
  using assms(1)
  by (cases rule: iterate_cases)
    (use assms(2) in \<open>auto simp: rows_inv_def end_events_def list_all_iff\<close>)

lemma rows_action:
  assumes "run_action csv nodes a s = Some t" and "rows_inv s" and "nodes_contract nodes"
  shows "rows_inv t"
proof (cases a)
  case EventsPoll with assms show ?thesis by (blast intro: rows_events)
next
  case (EventsIterate tick) with assms show ?thesis by (blast intro: rows_iterate)
next
  case (SendCall i) with assms show ?thesis by (blast intro: rows_send_call)
next
  case (SendPut i) with assms show ?thesis by (blast intro: rows_send_put)
next
  case ProducerPoll with assms show ?thesis by (blast intro: rows_producer)
next
  case (TrackCall i) with assms show ?thesis by (blast intro: rows_track_call)
next
  case (TrackPut i) with assms show ?thesis by (blast intro: rows_track_put)
next
  case ConsumerPoll with assms show ?thesis by (blast intro: rows_consumer)
qed (use assms(1,2) in \<open>auto simp: rows_inv_def split: if_splits nat.splits\<close>)

lemma rows_actions:
  "run_actions csv nodes as s = Some t \<Longrightarrow> nodes_contract nodes \<Longrightarrow> rows_inv s \<Longrightarrow> rows_inv t"
  unfolding run_actions_def
  by (erule fold_opt_invariant [rotated]) (auto intro: rows_action)

lemma rows_spawn: "rows_inv s \<Longrightarrow> rows_inv (spawn_task csv now task s)"
  by (cases task) (auto simp: rows_inv_def Let_def)

lemma rows_start: "rows_inv (start_running csv now world out r)"
proof -
  have "rows_inv (fold (spawn_task csv now) tasks s)" if "rows_inv s"
    for tasks :: "'b spawned list" and s :: "('a, 'b, 'c) running"
    using that by (induction tasks arbitrary: s) (simp_all add: rows_spawn)
  moreover have "rows_inv ((no_tasks world r)\<lparr>rn_stopped := shutdown_triggered out\<rparr>)"
    by (simp add: rows_inv_def no_tasks_def)
  ultimately show ?thesis by (simp add: start_running_def)
qed

end
