(* ===== verification/Program.thy ===== *)
theory Program
  imports Network_Properties Backend_Nodes Reported_Rows Running_Properties
begin

section \<open>The whole program\<close>

text \<open>
  From the command line to the results: the simulation that \<open>main\<close> prepares, on real nodes behind the four
  backends or on a network that it simulates, is run by \<open>Simulation::run\<close>, and its tasks go on in any order.
\<close>

subsection \<open>The nodes of a prepared simulation\<close>

lemma connected_nodes:
  assumes "create_simulation (backend_connectors codecs show_pk clients) cfg sp = Some (Inr (cfg', nodes, defs))"
  shows "nodes_named nodes" and "nodes_contract nodes"
proof -
  from assms obtain infos where
    "get_clients_loop (backend_connectors codecs show_pk clients) (sp_nodes sp) hm_new hm_new = Inr (nodes, infos)"
    by (auto simp: create_simulation_def get_clients_def split: sum.splits option.splits)
  note nodes = get_clients_loop_nodes [OF this]
  have "\<exists>c. connect_node (backend_connectors codecs show_pk clients) c = Inr node \<and> pubkey (ln_info node) = pk"
    if "hm_get nodes pk = Some node" for pk node
    using nodes [OF that] by simp
  then show "nodes_named nodes" "nodes_contract nodes"
    by (auto simp: nodes_named_def nodes_contract_def dest: connected_contract)
qed

subsection \<open>What a running simulation accounts for\<close>

text \<open>What \<open>Simulation\<close> tells of its results at any time.\<close>

definition get_total_payments :: "('s, 'r, 'w) running \<Rightarrow> u64" where
  "get_total_payments s = total_attempts (cn_logger (snd (rn_consumer s)))"

definition get_success_rate :: "'f float_ops \<Rightarrow> ('s, 'r, 'w) running \<Rightarrow> 'f" where
  "get_success_rate ops s = success_rate ops (cn_logger (snd (rn_consumer s)))"

text \<open>What holds of every state that the run of a simulation can reach.\<close>

definition accounted :: "('s, 'r, 'w) running \<Rightarrow> bool" where
  "accounted s \<longleftrightarrow>
     mset (map dispatch_key (past_dispatched s)) =
       in_flight s + mset (map row_key (past_counted s)) + mset (past_dropped s) \<and>
     (\<not> stopping s \<longrightarrow> past_dropped s = []) \<and>
     get_total_payments s = of_nat (length (past_counted s)) \<and>
     list_all row_typed (past_counted s)"

definition runs_accounted ::
  "('f, 'd, 'w, 'r) random_env \<Rightarrow> (node_features \<Rightarrow> bool) \<Rightarrow> 'v csv_ops \<Rightarrow> 'f simulation_cfg \<Rightarrow> 's nodes \<Rightarrow>
   activity_definition list \<Rightarrow> bool" where
  "runs_accounted env supports_keysend csv cfg nodes activity \<longleftrightarrow>
     (\<forall>now r out r1 t0 world as s.
        internal_run env cfg supports_keysend nodes now activity r = Some (out, r1) \<and> outcome out = Inr () \<and>
        run_actions csv nodes as (start_running csv t0 world out r1) = Some s \<longrightarrow> accounted s)"

lemma runs_accountedI:
  assumes "nodes_named nodes" and "nodes_contract nodes"
  shows "runs_accounted env supports_keysend csv cfg nodes activity"
  unfolding runs_accounted_def
proof (intro allI impI, elim conjE)
  fix now r out r1 t0 world as s
  assume run: "internal_run env cfg supports_keysend nodes now activity r = Some (out, r1)" and ok: "outcome out = Inr ()"
    and acts: "run_actions csv nodes as (start_running csv t0 world out r1) = Some s"
  have "running_inv nodes s"
    by (rule running_inv_actions [OF acts assms(1) running_inv_start [OF run]])
  moreover have "counted_inv csv (\<lambda>_. []) (\<lambda>_. []) (cfg_write_results cfg) s"
    by (rule counted_inv_actions [OF acts counted_inv_start [OF run ok]])
  moreover have "rows_inv s"
    by (rule rows_actions [OF acts assms(2) rows_start])
  ultimately show "accounted s"
    by (simp add: accounted_def get_total_payments_def running_inv_def all_payments_kept_def rows_inv_def counted_total)
qed

subsection \<open>An example\<close>

text \<open>The network of the other example, with no node excluded, where node 1 pays node 3 twice.\<close>

definition paying_params :: sim_params where
  "paying_params = demo_params\<lparr>sp_exclude := [], sp_activity :=
     [\<lparr>ap_source = NodeIdPublicKey (PublicKey 1), ap_destination = NodeIdPublicKey (PublicKey 3), ap_start_secs = None,
       ap_count = Some 2, ap_interval_secs = Value 1, ap_amount_msat = Value 200\<rparr>]\<rparr>"

definition paying_env :: sim_env where
  "paying_env = demo_sim_env\<lparr>find_route := (\<lambda>src dst amt w. Inr (Inr [demo_route 2])),
     draw_hash := (\<lambda>w. PaymentHash (replicate 32 0))\<rparr>"

definition paying_set_up :: "sim_world nodes \<times> activity_definition list" where
  "paying_set_up =
     (case create_simulation_with_network (\<lambda>x. x) (\<lambda>m g. Inr g :: string + unit) (\<lambda>i. 0) () paying_env
             demo_prepared_cfg paying_params [] hm_new of
        Some (Inr (cfg, nodes, defs, sims)) \<Rightarrow> (nodes, defs))"

lemmas paying_set_up_eval = paying_set_up_def paying_params_def network_eval activity_source_def activity_of_def
  activity_destination_def

lemma paying_main_prepare:
  "main_prepare demo_files (\<lambda>contents. Inr paying_params) (backend_connectors codecs show_pk clients)
     (\<lambda>ms. Inr ()) (\<lambda>x. x) (\<lambda>m g. Inr g :: string + unit) (\<lambda>i. 0) () paying_env demo_cli =
   Some (Inr (OnNetwork demo_prepared_cfg (fst paying_set_up) (snd paying_set_up)))"
  by (simp add: main_prepare_def build_simulation_def parse_sim_params_def read_sim_path_def demo_files_def
      demo_cli_def default_data_dir_def default_sim_file_def path_join_def path_is_relative_def
      cli_validate_def simulation_cfg_try_from_def default_expected_payment_amount_def
      latency_interceptors_def demo_prepared_cfg_def paying_set_up_eval)

lemma paying_activity: "length (snd paying_set_up) = 1"
  by (simp add: paying_set_up_eval)

theorem activity_sources_controlled_witness:
  "sources_controlled (OnNetwork demo_prepared_cfg (fst paying_set_up) (snd paying_set_up) :: (int, unit) prepared) \<and>
   snd paying_set_up \<noteq> []"
  using activity_sources_controlled [OF paying_main_prepare] paying_activity by fastforce

definition paying_outcome :: "nat run_outcome" where
  "paying_outcome = fst (the (internal_run demo_env demo_prepared_cfg (\<lambda>_. True) (fst paying_set_up) 0 (snd paying_set_up) 0))"

lemma paying_run:
  "internal_run demo_env demo_prepared_cfg (\<lambda>_. True) (fst paying_set_up) 0 (snd paying_set_up) 0 = Some (paying_outcome, 0)"
  apply (simp add: paying_outcome_def demo_prepared_cfg_def simulation_cfg_new_def paying_set_up_eval
      sim_get_network_def internal_run_eval event_eval)
  done

lemma paying_ok: "outcome paying_outcome = Inr ()"
  by (simp add: paying_outcome_def demo_prepared_cfg_def simulation_cfg_new_def paying_set_up_eval
      sim_get_network_def internal_run_eval event_eval)

lemmas paying_eval = paying_outcome_def demo_prepared_cfg_def
  simulation_cfg_new_def paying_set_up_eval sim_get_network_def internal_run_eval event_eval running_eval
  send_payment_def paying_env_def demo_sim_env_def

end
