(* ===== verification/Networked_Properties.thy ===== *)
theory Networked_Properties
  imports Networked_Counts Network_Run_Properties Program
begin

section \<open>Properties of a simulation on its simulated network\<close>

text \<open>
  What the results of a simulation say of its network: a success that is counted is a payment that
  moved funds, and once everything has come to rest the counts and the balances agree.
\<close>

subsection \<open>The set-up sees only what a node is\<close>

text \<open>
  \<open>internal_run\<close> asks a node for its information, its network and its capacity, and never sends or tracks:
  it does the same on the nodes that the program prepared and on those that act on the network.
\<close>

definition face :: "'s lightning_node \<Rightarrow> node_info \<times> network \<times> (lightning_error + u64) \<times> (pubkey \<Rightarrow> lightning_error + node_info)" where
  "face node = (ln_info node, ln_network node, ln_channel_capacities node, ln_get_node_info node)"

definition faces :: "'s nodes \<Rightarrow> (pubkey \<times> node_info \<times> network \<times> (lightning_error + u64) \<times> (pubkey \<Rightarrow> lightning_error + node_info)) list" where
  "faces nodes = map (\<lambda>(pk, node). (pk, face node)) nodes"

lemma faces_parts:
  "map ln_info (hm_values nodes) = map (\<lambda>(pk, info, net, cap, ask). info) (faces nodes)"
  "map ln_network (hm_values nodes) = map (\<lambda>(pk, info, net, cap, ask). net) (faces nodes)"
  "map fst nodes = map fst (faces nodes)" "length nodes = length (faces nodes)"
  by (simp_all add: faces_def face_def hm_values_def case_prod_unfold)

lemma active_nodes_faces:
  "faces nodes = faces nodes' \<Longrightarrow> active_nodes_loop expected nodes active = active_nodes_loop expected nodes' active"
proof (induction nodes arbitrary: nodes' active)
  case Nil
  then show ?case by (simp add: faces_def)
next
  case (Cons n nodes)
  obtain pk node where n: "n = (pk, node)" by (cases n)
  with Cons.prems obtain node' rest where nodes': "nodes' = (pk, node') # rest" "face node = face node'"
    "faces nodes = faces rest" by (cases nodes') (auto simp: faces_def)
  from Cons.IH [OF this(3)] this(2) show ?case
    by (auto simp: n nodes'(1) face_def Let_def split: sum.split)
qed

lemma internal_run_faces:
  fixes env :: "('f, 'd, 'w, 'r) random_env"
  assumes "faces nodes = faces nodes'"
  shows "internal_run env cfg supports_keysend nodes now activity r = internal_run env cfg supports_keysend nodes' now activity r"
proof -
  have contains: "hm_contains nodes pk \<longleftrightarrow> hm_contains nodes' pk" for pk
  proof -
    have "fst ` set nodes = fst ` set nodes'" using assms faces_parts(3) by (metis list.set_map)
    then show ?thesis by (simp add: hm_contains_iff)
  qed
  have "validate_flows supports_keysend sample nodes flows = validate_flows supports_keysend sample nodes' flows" for sample :: "('r, u64) range_sampler" and flows
  proof (induction flows)
    case (Cons flow flows)
    show ?case unfolding validate_flows.simps contains Cons.IH ..
  qed simp
  then have "validate_activity supports_keysend sample nodes activity = validate_activity supports_keysend sample nodes' activity"
    for sample :: "('r, u64) range_sampler"
    using assms faces_parts(1,4) [of nodes] faces_parts(1,4) [of nodes'] by (simp add: validate_activity_def hm_len_def)
  moreover have "nodes = [] \<longleftrightarrow> nodes' = []" using assms by (auto simp: faces_def)
  then have "validate_node_network nodes = validate_node_network nodes'"
    using faces_parts(2) [of nodes] faces_parts(2) [of nodes'] assms by (simp only: validate_node_network_def)
  moreover have "activity_executors env cfg nodes activity = activity_executors env cfg nodes' activity"
    using active_nodes_faces [OF assms] by (simp add: activity_executors_def random_activity_nodes_def)
  ultimately show ?thesis by (simp only: internal_run_def)
qed

lemma remove_all_keys_filter: "remove_all_keys pks m = filter (\<lambda>e. fst e \<notin> set pks) m"
  by (induction pks m rule: remove_all_keys.induct) (auto simp: hm_remove_def intro: filter_cong)

lemma networked_faces:
  "faces (networked_nodes moves g exclude sims) =
   faces (remove_all_keys exclude (map (\<lambda>(pk, node). (pk, sim_lightning_node env g node)) sims))"
  by (induction sims) (auto simp: faces_def networked_nodes_def remove_all_keys_filter face_def networked_node_def
      sim_lightning_node_def Let_def)

text \<open>A simulation of a file, set up on the nodes that were prepared, goes on over its network.\<close>

lemma prepared_runs_networked:
  assumes "create_simulation_with_network f ag clock g0 env0 cfg sp ics recs = Some (Inr (cfg', nodes, defs, sims))"
    and "sim_graph_new f (map (network_channel (sp_exclude sp)) (sp_sim_network sp)) ics recs = Inr g"
    and "internal_run env cfg' supports_keysend nodes now activity r = Some (out, r1)"
  shows "ln_node_from_graph g = Inr sims"
    and "internal_run env cfg' supports_keysend (networked_nodes moves g (sp_exclude sp) sims) now activity r = Some (out, r1)"
proof -
  from network_created [OF assms(1)] assms(2) have sims: "ln_node_from_graph g = Inr sims"
    and nodes: "nodes = remove_all_keys (sp_exclude sp) (map (\<lambda>(pk, node). (pk, sim_lightning_node env0 g node)) sims)"
    by auto
  show "ln_node_from_graph g = Inr sims" by (rule sims)
  show "internal_run env cfg' supports_keysend (networked_nodes moves g (sp_exclude sp) sims) now activity r = Some (out, r1)"
    unfolding internal_run_faces [OF networked_faces [of moves g "sp_exclude sp" sims env0]]
    using assms(3) by (simp add: nodes)
qed

lemma file_channels_fresh:
  "list_all (\<lambda>c. even (unat (np_capacity_msat c))) net \<Longrightarrow> \<forall>c \<in> set (map (network_channel exclude) net). fresh_channel c"
  by (auto simp: fresh_channel_def network_channel_def simulated_channel_new_def channel_state_new_def Let_def list_all_iff)

subsection \<open>An example\<close>

text \<open>
  The file of \<open>Program\<close> again: node 1 pays node 3 over node 2. The payment is sent, tracked while it takes
  its sections under the lock, and counted.
\<close>

definition paid_moves :: moves where
  "paid_moves n = (net_env (Inr [demo_route 2]) demo_hash, False)"

definition paid_graph :: sim_graph where
  "paid_graph = (case sim_graph_new (\<lambda>x. x) (map (network_channel []) (sp_sim_network paying_params)) [] [] of Inr g \<Rightarrow> g)"

definition paid_sims :: "(pubkey, sim_node) hmap" where
  "paid_sims = (case ln_node_from_graph paid_graph of Inr sims \<Rightarrow> sims)"

definition paid_start :: "(networked, nat, result_row list \<times> result_row list) running" where
  "paid_start = start_running demo_csv 0 (network_start paid_graph paid_sims, 0) paying_outcome 0"

definition paid_nodes :: "networked nodes" where
  "paid_nodes = networked_nodes paid_moves paid_graph (sp_exclude paying_params) paid_sims"

definition paid_actions :: "whole_action list" where
  "paid_actions = [TaskGoes EventsPoll, TaskGoes (EventsIterate demo_tick), TaskGoes (SendCall 0), TaskGoes (SendPut 0),
     SectionRuns 0 demo_joins, TaskGoes ProducerPoll, SectionRuns 0 demo_joins, CallBegins 0, SectionRuns 0 demo_joins,
     SectionRuns 0 demo_joins, SectionRuns 0 demo_joins, SectionRuns 0 demo_joins, TaskGoes (TrackCall 0),
     TaskGoes (TrackPut 0), TaskGoes ConsumerPoll]"

definition paid_state :: "(networked, nat, result_row list \<times> result_row list) running" where
  "paid_state = the (whole_run demo_csv paid_moves paid_nodes paid_actions paid_start)"

lemmas paid_network_eval = paid_graph_def paid_sims_def paying_set_up_eval

lemma paid_created:
  "create_simulation_with_network (\<lambda>x. x) (\<lambda>m g. Inr g :: string + unit) (\<lambda>i. 0) () paying_env demo_prepared_cfg
     paying_params [] hm_new = Some (Inr (demo_prepared_cfg, fst paying_set_up, snd paying_set_up, paid_sims))"
  by (simp add: paid_network_eval)

lemma paid_graph_ok:
  "sim_graph_new (\<lambda>x. x) (map (network_channel (sp_exclude paying_params)) (sp_sim_network paying_params)) [] hm_new =
     Inr paid_graph"
  by (simp add: paid_network_eval hm_new_def)

lemmas paid_state_eval = paid_state_def paid_start_def paid_nodes_def networked_nodes_def networked_node_def paid_network_eval
  paying_eval whole_run_def paid_actions_def paid_moves_def call_returns_def call_begins_def section_runs_def
  waiting_call_def call_event_def tracked_answer_def net_eval payment_eval demo_net_defs
  demo_hash_def add_done_def begin_removal_def

lemma paid_state_ok: "whole_run demo_csv paid_moves paid_nodes paid_actions paid_start = Some paid_state"
  by (simp add: paid_state_eval)

lemma paid_state_value:
  "past_counted paid_state =
     [(\<lparr>pay_source = PublicKey 1, pay_destination = PublicKey 3, pay_amount_msat = 200, pay_hash = Some demo_hash,
        pay_dispatch_time = 0\<rparr>, \<lparr>htlc_count = 1, payment_outcome = Success\<rparr>)]"
  "Running_Laws.in_flight paid_state = {#}" "\<not> stopping paid_state" "length (nw_tasks (fst (rn_world paid_state))) = 1"
  "all_reported (task_states (fst (rn_world paid_state)))"
  by (simp_all add: paid_state_eval Running_Laws.in_flight_def stopping_def opt_list_def all_reported_def)

lemmas paid_premises = paid_created paid_graph_ok paying_run paying_ok paid_state_ok [unfolded paid_nodes_def paid_start_def]

subsection \<open>The properties\<close>

text \<open>C7. A result that is counted is real. In every state that the simulation of a file reaches on its network, a
  counted result of a payment that was sent is the one that the payment's own task in the network
  reported to its node, unless no route was found for it or its tracking failed. And the logger never
  counts more successes than payments succeeded in the network.\<close>

theorem counted_results_are_real:
  assumes "create_simulation_with_network f ag clock g0 env0 cfg sp ics recs = Some (Inr (cfg', nodes, defs, sims))"
    and "sim_graph_new f (map (network_channel (sp_exclude sp)) (sp_sim_network sp)) ics recs = Inr g"
    and "internal_run env cfg' supports_keysend nodes now activity r = Some (out, r1)" and "outcome out = Inr ()"
    and "whole_run csv moves (networked_nodes moves g (sp_exclude sp) sims) as
      (start_running csv t0 (network_start g sims, 0) out r1) = Some s"
  shows "(\<forall>(p, result) \<in> set (past_counted s). \<forall>hash. pay_hash p = Some hash \<longrightarrow>
      payment_outcome result \<in> {RouteNotFound, TrackPaymentFailed} \<or>
      (\<exists>rx req sd. (rx, req, Reported sd (Some result)) \<in> set (nw_tasks (fst (rn_world s))) \<and>
         pr_source req = pay_source p \<and> pr_payment_hash req = hash)) \<and>
    success_payment (cn_logger (snd (rn_consumer s))) = of_nat (length (filter row_succeeded (past_counted s))) \<and>
    length (filter row_succeeded (past_counted s)) \<le> length (filter succeeded (task_states (fst (rn_world s))))"
proof -
  note reached = whole_run_reached [OF assms(2) prepared_runs_networked [OF assms(1-3)] assms(4,5)]
  let ?w = "fst (rn_world s)"
  have real: "payment_outcome result \<in> {RouteNotFound, TrackPaymentFailed} \<or>
      (\<exists>rx req sd. (rx, req, Reported sd (Some result)) \<in> set (nw_tasks ?w) \<and>
         pr_source req = pay_source p \<and> pr_payment_hash req = hash)"
    if row: "(p, result) \<in> set (past_counted s)" "pay_hash p = Some hash" for p result hash
  proof -
    have "((pay_source p, hash), result) \<in># told_answers ?w"
      using row_answered [OF row(1)] row(2) counted_rows_told(2) [OF reached(1)] by (auto dest: mset_subset_eqD)
    then obtain rx res where "(pay_source p, hash, rx, res) \<in> set (past_tracked ?w)" "result = answer_of res"
      by (auto simp: told_answers_def)
    with tracked_own [OF reached(2)] show ?thesis
      by (cases res) (fastforce simp: answer_of_def track_payment_failed_def)+
  qed
  have "length (succeeded_tasks ?w) = length (filter succeeded (task_states ?w))"
    by (simp add: succeeded_tasks_def filter_map comp_def case_prod_unfold)
  with counted_successes_bound [OF reached(1,2)] reached(5) logged_successes
  have "success_payment (cn_logger (snd (rn_consumer s))) = of_nat (length (filter row_succeeded (past_counted s))) \<and>
    length (filter row_succeeded (past_counted s)) \<le> length (filter succeeded (task_states ?w))" by simp
  with real show ?thesis by (intro conjI ballI case_prodI2 allI impI) simp_all
qed

theorem counted_results_are_real_witness:
  "\<exists>rx req sd. (rx, req, Reported sd (Some \<lparr>htlc_count = 1, payment_outcome = Success\<rparr>)) \<in> set (nw_tasks (fst (rn_world paid_state))) \<and>
     pr_source req = PublicKey 1 \<and> pr_payment_hash req = demo_hash"
  using counted_results_are_real [OF paid_premises] by (simp add: paid_state_value)

text \<open>C6. The results explain the balances. When the simulation of a file whose capacities are even has come to
  rest on its network without a shutdown (nothing is on its way, and the payments of the network have reported), and
  no tracking failed, the successes that the logger counted are exactly the payments that succeeded in
  the network; no HTLC is pending; and every balance is the initial one with what those payments moved.\<close>

theorem results_explain_balances:
  assumes "create_simulation_with_network f ag clock g0 env0 cfg sp ics recs = Some (Inr (cfg', nodes, defs, sims))"
    and "sim_graph_new f (map (network_channel (sp_exclude sp)) (sp_sim_network sp)) ics recs = Inr g"
    and "internal_run env cfg' supports_keysend nodes now activity r = Some (out, r1)" and "outcome out = Inr ()"
    and "whole_run csv moves (networked_nodes moves g (sp_exclude sp) sims) as
      (start_running csv t0 (network_start g sims, 0) out r1) = Some s"
    and "list_all (\<lambda>c. even (unat (np_capacity_msat c))) (sp_sim_network sp)" and "notify_ok ics"
    and "Running_Laws.in_flight s = {#}" and "\<not> stopping s"
    and "list_all (\<lambda>row. payment_outcome (snd row) \<noteq> TrackPaymentFailed) (past_counted s)"
    and "all_reported (task_states (fst (rn_world s)))"
  defines "w \<equiv> fst (rn_world s)"
  shows "success_payment (cn_logger (snd (rn_consumer s))) = of_nat (length (filter succeeded (task_states w))) \<and>
    length (past_counted s) = length (past_dispatched s) \<and>
    net_inv (nw_channels w) \<and> (\<forall>a k. acct_pending (nw_channels w) a k = None) \<and>
    (\<forall>a. acct_balance (nw_channels w) a +
        sum_list (map (pays_from (sg_channels g) a) (zip (task_requests w) (task_states w))) =
      acct_balance (sg_channels g) a +
        sum_list (map (pays_to (sg_channels g) a) (zip (task_requests w) (task_states w))))"
proof -
  note reached = whole_run_reached [OF assms(2) prepared_runs_networked [OF assms(1-3)] assms(4,5)]
  have dropped: "past_dropped s = []" using reached(4) assms(9) by (simp add: running_inv_def)
  with reached(4) assms(8) have "mset (map dispatch_key (past_dispatched s)) = mset (map row_key (past_counted s))"
    by (simp add: running_inv_def all_payments_kept_def)
  then have "length (past_counted s) = length (past_dispatched s)" by (metis length_map size_mset)
  moreover have "length (succeeded_tasks w) = length (filter succeeded (task_states w))"
    by (simp add: succeeded_tasks_def filter_map comp_def case_prod_unfold)
  with counted_successes_exact [OF reached(1-3) assms(8) dropped assms(10)] reached(5)
  have "success_payment (cn_logger (snd (rn_consumer s))) = of_nat (length (filter succeeded (task_states w)))"
    by (simp add: logged_successes w_def)
  moreover have "sg_interceptors g = ics" using assms(2) by (auto simp: sim_graph_new_def res_bind_Inr_iff)
  with network_settled [OF reached(2) fresh_graph [OF assms(2) file_channels_fresh [OF assms(6)]]] assms(7)
  have "tasks_inv (task_requests w) (sg_channels g) (task_states w, nw_channels w)" by (simp add: w_def)
  from settled_network [OF this] assms(11) have "net_inv (nw_channels w)" "\<And>a k. acct_pending (nw_channels w) a k = None"
    "\<And>a. acct_balance (nw_channels w) a +
        sum_list (map (pays_from (sg_channels g) a) (zip (task_requests w) (task_states w))) =
      acct_balance (sg_channels g) a +
        sum_list (map (pays_to (sg_channels g) a) (zip (task_requests w) (task_states w)))"
    by (simp_all add: w_def)
  ultimately show ?thesis by blast
qed

theorem results_explain_balances_witness:
  "success_payment (cn_logger (snd (rn_consumer paid_state))) = of_nat (length (filter succeeded (task_states (fst (rn_world paid_state))))) \<and>
   net_inv (nw_channels (fst (rn_world paid_state)))"
proof -
  have "notify_ok []" by (simp add: notify_ok_def)
  moreover have "list_all (\<lambda>c. even (unat (np_capacity_msat c))) (sp_sim_network paying_params)"
    by (simp add: paying_params_def demo_params_def)
  ultimately show ?thesis
    using results_explain_balances [OF paid_premises _ _ paid_state_value(2,3) _ paid_state_value(5)]
    by (simp add: paid_state_value(1))
qed

end
