(* ===== verification/Networked_Rows.thy ===== *)
theory Networked_Rows
  imports Networked_Counts Program
begin

section \<open>The rows of a simulation on its simulated network\<close>

text \<open>
  The nodes of a simulated network take a payment's hash from the preimage they draw and its result from
  the task that \<open>dispatch_payment\<close> spawned. So what \<open>Reported_Rows\<close> shows on nodes that keep the contract of
  the trait holds of the rows of a simulated network too, with nothing asked of what arrives on the
  one-shot channels: the tasks of the network, their sender, never report a payment as not dispatched.
\<close>

subsection \<open>Results of the tasks of the network\<close>

fun task_typed :: "task \<Rightarrow> bool" where
  "task_typed (Adding i hs st) = True"
| "task_typed (Removing success ihs outgoing result) = (payment_outcome result \<noteq> NotDispatched)"
| "task_typed (Reported sd None) = True"
| "task_typed (Reported sd (Some result)) = (payment_outcome result \<noteq> NotDispatched)"

lemma task_ends_typed: "task_typed crashed" "task_typed (add_failed req failed_at)" "task_typed (add_done req)"
  by (auto simp: crashed_def add_failed_def add_done_def begin_removal_def split: option.split)

lemma task_step_typed: "task_typed t \<Longrightarrow> task_typed (fst (task_step req joins t nodes))"
  by (induction req joins t nodes rule: task_step.induct)
    (auto simp: task_ends_typed Let_def split: sum.split prod.split)

definition tasks_typed :: "network_run \<Rightarrow> bool" where
  "tasks_typed w \<longleftrightarrow> (\<forall>(rx, req, t) \<in> set (nw_tasks w). task_typed t)"

lemma tasks_typed_step:
  assumes "net_action g a w = Some v" and "tasks_typed w"
  shows "tasks_typed v"
proof (cases a)
  case (NetSend env pk dest amt)
  with assms(1) have v: "v = net_send g env pk dest amt w" by (simp split: if_splits)
  with assms(2) show ?thesis
    by (auto simp: tasks_typed_def net_send_def Let_def start_task_def split: sender_fate.splits prod.splits)
next
  case (NetTask i joins)
  with assms(1) obtain rx req t where i: "i < length (nw_tasks w)" "nw_tasks w ! i = (rx, req, t)"
    and v: "nw_tasks v = (nw_tasks w)[i := (rx, req, fst (task_step req joins t (nw_channels w)))]"
    by (auto simp: net_task_def split: if_splits prod.splits)
  have "task_typed t" using assms(2) nth_mem [OF i(1)] i(2) by (auto simp: tasks_typed_def)
  with assms(2) show ?thesis
    using set_update_subset_insert [of "nw_tasks w" i "(rx, req, fst (task_step req joins t (nw_channels w)))"]
    by (fastforce simp: tasks_typed_def v task_step_typed)
next
  case (NetTrack pk hash)
  with assms show ?thesis by (auto simp: tasks_typed_def net_track_def Let_def split: option.splits)
next
  case (NetResult i env)
  with assms show ?thesis by (auto simp: tasks_typed_def net_result_def end_wait_tasks split: if_splits)
next
  case (NetShutdown i env)
  with assms show ?thesis by (auto simp: tasks_typed_def end_wait_tasks split: if_splits)
qed

lemma tasks_typed_run:
  assumes "net_actions g as (network_start g sims) = Some w"
  shows "tasks_typed w"
proof -
  have "tasks_typed (network_start g sims)" by (simp add: tasks_typed_def network_start_def)
  with assms show ?thesis
    unfolding net_actions_def by (rule fold_opt_invariant [rotated]) (rule tasks_typed_step)
qed

subsection \<open>Hashes of the payments of the network\<close>

definition hashes_typed :: "network_run \<Rightarrow> bool" where
  "hashes_typed w \<longleftrightarrow> (\<forall>(pk, hash, rx) \<in> set (past_accepted w). length (hash_bytes hash) = 32)"

lemma hashes_send:
  assumes "net_action g (NetSend env pk dest amt) w = Some v" and "draws_hashes env" and "hashes_typed w"
  shows "hashes_typed v"
proof -
  let ?res = "fst (ln_send_payment (sim_lightning_node env g (sw_node (nw_world w) pk)) dest amt (nw_world w))"
  have "past_accepted v = past_accepted w @
      (case ?res of Inl _ \<Rightarrow> [] | Inr hash \<Rightarrow> [(pk, hash, sw_channels_made (nw_world w))])"
    using assms(1) by (auto simp: net_send_def Let_def split: if_splits prod.splits)
  with sim_node_sends [OF assms(2)] assms(3) show ?thesis
    by (cases ?res) (auto simp: hashes_typed_def, metis sent_ok.simps(1))
qed

lemma same_hashes: "past_accepted v = past_accepted w \<Longrightarrow> hashes_typed v = hashes_typed w"
  by (simp add: hashes_typed_def)

lemma hashes_step:
  assumes "whole_step csv moves nodes a s = Some t" and "nodes_networked moves g nodes"
    and "\<forall>n. draws_hashes (fst (moves n))" and "hashes_typed (fst (rn_world s))"
  shows "hashes_typed (fst (rn_world t))"
proof -
  obtain w n where w: "rn_world s = (w, n)" by (cases "rn_world s")
  show ?thesis
  proof (cases a)
    case (TaskGoes b)
    with assms(1) have b: "run_action csv nodes b s = Some t" "may_go moves s b" by (auto split: if_splits)
    consider (sends) i where "b = SendCall i" | (tracks) i where "b = TrackCall i"
      | (other) "\<And>i. b \<noteq> SendCall i" "\<And>i. b \<noteq> TrackCall i"
      by blast
    then show ?thesis
    proof cases
      case sends
      with b(1) have "run_action csv nodes (SendCall i) s = Some t" by simp
      then show ?thesis
      proof (rule send_call_networked [OF _ assms(2) w])
        fix d w' assume "rn_world t = (w', Suc n)"
          "net_action g (NetSend (fst (moves n)) (dp_source d) (pubkey (dp_destination d)) (dp_amount d)) w = Some w'"
        with hashes_send [OF this(2)] assms(3,4) w show ?thesis by simp
      qed
    next
      case tracks
      with b have "run_action csv nodes (TrackCall i) s = Some t" "call_returns moves s i" by simp_all
      then show ?thesis
      proof (rule track_call_networked [OF _ _ assms(2) w])
        fix p hash rx w' assume "past_accepted w' = past_accepted w"
          "t = s\<lparr>rn_world := (w', Suc n), rn_tracks := (rn_tracks s)[i := SendingResult p
             (case tracked_answer w' of Inr r \<Rightarrow> r | Inl e \<Rightarrow> track_payment_failed)]\<rparr>"
        with assms(4) w show ?thesis by (simp add: hashes_typed_def)
      qed
    next
      case other
      with world_frame [OF b] assms(4) show ?thesis by simp
    qed
  next
    case (CallBegins i)
    with assms(1) w obtain pk hash w' where "net_track pk hash w = Some w'" "rn_world t = (w', n)"
      by (auto simp: call_begins_def split: if_splits track_task.splits option.splits)
    then have "past_accepted w' = past_accepted w" by (auto simp: net_track_def Let_def split: option.splits)
    from same_hashes [OF this] \<open>rn_world t = (w', n)\<close> assms(4) w show ?thesis by simp
  next
    case (SectionRuns i joins)
    with assms(1) w obtain w' where "net_task i joins w = Some w'" "rn_world t = (w', n)"
      by (auto simp: section_runs_def)
    then have "past_accepted w' = past_accepted w" by (auto simp: net_task_def split: if_splits prod.splits)
    from same_hashes [OF this] \<open>rn_world t = (w', n)\<close> assms(4) w show ?thesis by simp
  qed
qed

subsection \<open>Every row is typed\<close>

lemma unhashed_row_held:
  "row \<in> set rows \<Longrightarrow> pay_hash (fst row) = None \<Longrightarrow> (None, Some (snd row)) \<in># all_held row_held rows"
  by (induction rows) (auto simp: row_held_def held_as_def)

lemma networked_rows_typed:
  assumes "network_inv g w" and "tasks_typed w" and "hashes_typed w" and "accounts_kept s" and "w = fst (rn_world s)"
  shows "list_all row_typed (past_counted s)"
  unfolding list_all_iff
proof
  fix row assume row: "row \<in> set (past_counted s)"
  have inv: "tracking_inv w" using assms(1) by (simp add: network_inv_def)
  show "row_typed row"
  proof (cases "pay_hash (fst row)")
    case None
    have "(None, Some (snd row)) \<in># all_held row_held (past_counted s)"
      using row None by (rule unhashed_row_held)
    with counted_rows_told(1) [OF assms(4)] None show ?thesis by (auto simp: refused_only_def row_typed_def)
  next
    case (Some hash)
    have "((pay_source (fst row), hash), snd row) \<in># told_answers w"
      using row_answered [OF row Some] counted_rows_told(2) [OF assms(4)] assms(5) by (auto dest: mset_subset_eqD)
    then obtain rx res where told: "(pay_source (fst row), hash, rx, res) \<in> set (past_tracked w)" "snd row = answer_of res"
      by (auto simp: told_answers_def)
    with inv have "(pay_source (fst row), hash, rx) \<in> set (past_accepted w)" by (fastforce simp: tracking_inv_def)
    with assms(3) have "length (hash_bytes hash) = 32" by (fastforce simp: hashes_typed_def)
    moreover have "payment_outcome (answer_of res) \<noteq> NotDispatched"
    proof (cases res)
      case (Inr result)
      with tracked_own [OF assms(1), of "pay_source (fst row)" hash rx result] told(1) assms(2) show ?thesis
        by (fastforce simp: answer_of_def tasks_typed_def)
    qed (simp add: answer_of_def track_payment_failed_def)
    ultimately show ?thesis by (simp add: row_typed_def Some told(2))
  qed
qed

lemma networked_accounted:
  assumes "sim_graph_new f cs ics recs = Inr g" and "ln_node_from_graph g = Inr sims"
    and "internal_run env cfg supports_keysend (networked_nodes moves g exclude sims) now activity r = Some (out, r1)"
    and "outcome out = Inr ()" and "\<forall>n. draws_hashes (fst (moves n))"
    and "whole_run csv moves (networked_nodes moves g exclude sims) as
      (start_running csv t0 (network_start g sims, 0) out r1) = Some s"
  shows "accounted s"
proof -
  note nodes = networked_nodes_ok [OF assms(1,2), of moves exclude]
  note reached = whole_run_reached [OF assms(1-4,6)]
  have hashes: "hashes_typed (fst (rn_world s))"
    using assms(6)
  proof (rule whole_run_invariant)
    show "hashes_typed (fst (rn_world (start_running csv t0 (network_start g sims, 0 :: nat) out r1)))"
      by (simp add: start_quiet hashes_typed_def network_start_def)
  qed (rule hashes_step [OF _ nodes(1) assms(5)])
  from reached(6) tasks_typed_run have "tasks_typed (fst (rn_world s))" by blast
  from networked_rows_typed [OF reached(2) this hashes reached(1) refl] have "list_all row_typed (past_counted s)" .
  moreover from whole_run_runs [OF assms(6)] obtain bs where
    "run_actions csv (networked_nodes moves g exclude sims) bs (start_running csv t0 (network_start g sims, 0) out r1) = Some s"
    by blast
  then have "counted_inv csv (\<lambda>_. []) (\<lambda>_. []) (cfg_write_results cfg) s"
    by (rule counted_inv_actions [OF _ counted_inv_start [OF assms(3,4)]])
  ultimately show ?thesis
    using reached(4) by (simp add: accounted_def get_total_payments_def running_inv_def all_payments_kept_def counted_total)
qed

end
