(* ===== verification/Main_Program.thy ===== *)
theory Main_Program
  imports Networked_Properties Networked_Rows
begin

section \<open>The main function (sim-cli/src/main.rs)\<close>

text \<open>
  \<open>main\<close> from the options to the end of \<open>Simulation::run\<close>: the runtime on which the simulation is built and run,
  with its clock, and the handler of ctrl-c. What tokio, the platform and ctrlc answer is in
  \<open>main_env\<close>; \<open>reading\<close> is what the clock shows when the first events are set up.
\<close>

record main_env =
  nested_runtime :: bool
  parallelism :: "nat option"
  build_paused :: "nat \<Rightarrow> string + nat"
  new_runtime :: "string + nat"
  wall_clock :: system_time
  ctrlc_handler :: "string + unit"
  reading :: "simulation_clock \<Rightarrow> system_time"

datatype main_error = HandlerError string | Failed anyhow_error

definition main_run_simulation ::
  "main_env \<Rightarrow> ('f, 'd, 'w, 'r) random_env \<Rightarrow> (node_features \<Rightarrow> bool) \<Rightarrow> simulation_clock \<Rightarrow> 'f simulation_cfg \<Rightarrow>
   's nodes \<Rightarrow> activity_definition list \<Rightarrow> 'r \<Rightarrow> (main_error + ('r run_outcome \<times> 'r)) option" where
  "main_run_simulation menv env supports_keysend clock cfg nodes activity r =
     (case ctrlc_handler menv of
        Inl e \<Rightarrow> Some (Inl (HandlerError e))
      | Inr _ \<Rightarrow>
          map_option (\<lambda>(out, r1). case outcome out of
              Inl e \<Rightarrow> Inl (Failed (AnySimulation e))
            | Inr _ \<Rightarrow> Inr (out, r1))
            (run_simulation env cfg supports_keysend nodes (reading menv clock) activity r))"

fun run_prepared ::
  "main_env \<Rightarrow> ('f, 'd, 'w, 'r) random_env \<Rightarrow> (node_features \<Rightarrow> bool) \<Rightarrow> simulation_clock \<Rightarrow> 'r \<Rightarrow>
   ('f, 's) prepared \<Rightarrow> (main_error + ('r run_outcome \<times> 'r)) option" where
  "run_prepared menv env supports_keysend clock r (OnRealNodes cfg nodes activity) =
     main_run_simulation menv env supports_keysend clock cfg nodes activity r"
| "run_prepared menv env supports_keysend clock r (OnNetwork cfg nodes activity) =
     main_run_simulation menv env supports_keysend clock cfg nodes activity r"

definition build_and_run ::
  "(anyhow_error + ('f, 's) prepared) option \<Rightarrow>
   (('f, 's) prepared \<Rightarrow> (main_error + ('r run_outcome \<times> 'r)) option) \<Rightarrow>
   (main_error + ('r run_outcome \<times> 'r)) option" where
  "build_and_run built run =
     (case built of
        None \<Rightarrow> None
      | Some (Inl e) \<Rightarrow> Some (Inl (Failed e))
      | Some (Inr prepared) \<Rightarrow> run prepared)"

definition on_runtime ::
  "main_env \<Rightarrow> bool \<Rightarrow> (simulation_clock \<Rightarrow> (main_error + 'a) option) \<Rightarrow> (main_error + 'a) option" where
  "on_runtime menv virtual build =
     (if virtual
      then (case block_on_virtual_time (nested_runtime menv) (parallelism menv) (build_paused menv) (wall_clock menv) build of
              Inl e \<Rightarrow> Some (Inl (Failed (AnySimulation e)))
            | Inr res \<Rightarrow> res)
      else (case new_runtime menv of
              Inl e \<Rightarrow> Some (Inl (Failed (AnyIo e)))
            | Inr instant \<Rightarrow> build (simulation_clock_new instant (wall_clock menv))))"

definition main_program ::
  "main_env \<Rightarrow> ('f, 'd, 'w, 'r) random_env \<Rightarrow> (node_features \<Rightarrow> bool) \<Rightarrow> 'r \<Rightarrow> file_system \<Rightarrow>
   (string \<Rightarrow> (nat \<times> nat \<times> string) + sim_params) \<Rightarrow> 's connectors \<Rightarrow> (u32 \<Rightarrow> simulation_error + 'l) \<Rightarrow>
   (node_features \<Rightarrow> node_features) \<Rightarrow> (gossip \<Rightarrow> 'g \<Rightarrow> string + 'g) \<Rightarrow> (nat \<Rightarrow> system_time) \<Rightarrow> 'g \<Rightarrow> sim_env \<Rightarrow>
   'f cli \<Rightarrow> (main_error + ('r run_outcome \<times> 'r)) option" where
  "main_program menv env supports_keysend r fs from_str cs new_poisson f ag clock g0 sim_env cli =
     (case parse_sim_params fs from_str cli of
        None \<Rightarrow> None
      | Some (Inl e) \<Rightarrow> Some (Inl (Failed e))
      | Some (Inr sp) \<Rightarrow>
          (case cli_validate cli sp of
             Inl e \<Rightarrow> Some (Inl (Failed e))
           | Inr _ \<Rightarrow>
               (case simulation_cfg_try_from fs cli of
                  Inl e \<Rightarrow> Some (Inl (Failed e))
                | Inr cfg \<Rightarrow>
                    on_runtime menv (virtual_time cli) (\<lambda>sim_clock.
                      build_and_run
                        (build_simulation cs new_poisson
                           (\<lambda>cfg interceptors. create_simulation_with_network f ag clock g0 sim_env cfg sp interceptors hm_new)
                           cli sp cfg)
                        (run_prepared menv env supports_keysend sim_clock r)))))"

subsection \<open>What a run of main is\<close>

lemma on_runtime_Inr:
  assumes "on_runtime menv virtual build = Some (Inr res)"
  obtains clock where "build clock = Some (Inr res)" "start_time clock = wall_clock menv"
    "virtual \<Longrightarrow> \<not> nested_runtime menv"
proof (cases virtual)
  case True
  with assms obtain instant where "\<not> nested_runtime menv"
    "build (simulation_clock_new instant (wall_clock menv)) = Some (Inr res)"
    by (auto simp: on_runtime_def block_on_virtual_time_def Let_def split: sum.splits if_splits)
  with that show thesis by (simp add: simulation_clock_new_def)
next
  case False
  with assms obtain instant where "build (simulation_clock_new instant (wall_clock menv)) = Some (Inr res)"
    by (auto simp: on_runtime_def split: sum.splits)
  with that False show thesis by (simp add: simulation_clock_new_def)
qed

lemma main_run_simulation_Inr:
  assumes "main_run_simulation menv env supports_keysend clock cfg nodes activity r = Some (Inr (out, r1))"
  obtains out0 where "internal_run env cfg supports_keysend nodes (reading menv clock) activity r = Some (out0, r1)"
    "outcome out0 = Inr ()" "out = out0\<lparr>waited_for_tasks := True\<rparr>"
proof (cases "internal_run env cfg supports_keysend nodes (reading menv clock) activity r")
  case None
  with assms show thesis by (simp add: main_run_simulation_def run_simulation_def split: sum.splits)
next
  case (Some res)
  obtain out0 r0 where res: "res = (out0, r0)" by (cases res)
  from assms that show thesis
    by (cases "outcome out0") (auto simp: main_run_simulation_def run_simulation_def Some res split: sum.splits)
qed

lemma start_running_waited:
  "start_running csv now world (out\<lparr>waited_for_tasks := b\<rparr>) r = start_running csv now world out r"
  by (simp add: start_running_def)

lemma main_run_accounted:
  assumes "main_run_simulation menv env supports_keysend sim_clock cfg nodes activity r = Some (Inr (out, r1))"
    and "runs_accounted env supports_keysend csv cfg nodes activity"
    and "run_actions csv nodes acts (start_running csv t0 world out r1) = Some s"
  shows "accounted s"
  using main_run_simulation_Inr [OF assms(1)] assms(2,3) unfolding runs_accounted_def
  by (metis start_running_waited)

text \<open>When \<open>main\<close> ran a simulation, it is one that \<open>main_prepare\<close> prepared.\<close>

lemma main_program_Inr:
  assumes "main_program menv env supports_keysend r fs from_str cs new_poisson f ag clock g0 sim_env cli = Some (Inr (out, r1))"
  obtains prepared sim_clock where
    "main_prepare fs from_str cs new_poisson f ag clock g0 sim_env cli = Some (Inr prepared)"
    "run_prepared menv env supports_keysend sim_clock r prepared = Some (Inr (out, r1))"
    "start_time sim_clock = wall_clock menv"
proof -
  from assms obtain sp u cfg where
    prep: "parse_sim_params fs from_str cli = Some (Inr sp)" "cli_validate cli sp = Inr u"
      "simulation_cfg_try_from fs cli = Inr cfg"
    and started: "on_runtime menv (virtual_time cli) (\<lambda>sim_clock.
        build_and_run
          (build_simulation cs new_poisson
             (\<lambda>cfg interceptors. create_simulation_with_network f ag clock g0 sim_env cfg sp interceptors hm_new) cli sp cfg)
          (run_prepared menv env supports_keysend sim_clock r)) = Some (Inr (out, r1))"
    by (auto simp: main_program_def split: option.splits sum.splits)
  from on_runtime_Inr [OF started] obtain sim_clock where
    "build_and_run
       (build_simulation cs new_poisson
          (\<lambda>cfg interceptors. create_simulation_with_network f ag clock g0 sim_env cfg sp interceptors hm_new) cli sp cfg)
       (run_prepared menv env supports_keysend sim_clock r) = Some (Inr (out, r1))"
    "start_time sim_clock = wall_clock menv" by blast
  with prep that show thesis
    by (auto simp: build_and_run_def main_prepare_def split: option.splits sum.splits)
qed

text \<open>The network that a simulation runs on when \<open>main\<close> simulates one: the graph of the file's channels, with
  the interceptors that the options ask for, and its nodes.\<close>

definition main_network ::
  "file_system \<Rightarrow> (string \<Rightarrow> (nat \<times> nat \<times> string) + sim_params) \<Rightarrow> (u32 \<Rightarrow> simulation_error + 'l) \<Rightarrow>
   (node_features \<Rightarrow> node_features) \<Rightarrow> 'f cli \<Rightarrow> (pubkey list \<times> sim_graph \<times> (pubkey, sim_node) hmap) option" where
  "main_network fs from_str new_poisson f cli =
     (case parse_sim_params fs from_str cli of
        Some (Inr sp) \<Rightarrow>
          (case res_bind (latency_interceptors new_poisson (case latency_ms cli of None \<Rightarrow> 0 | Some ms \<Rightarrow> ms))
                 (\<lambda>ics. sim_graph_new f (map (network_channel (sp_exclude sp)) (sp_sim_network sp)) ics hm_new) of
             Inr g \<Rightarrow>
               (case ln_node_from_graph g of
                  Inr sims \<Rightarrow> Some (sp_exclude sp, g, sims)
                | Inl e \<Rightarrow> None)
           | Inl e \<Rightarrow> None)
      | _ \<Rightarrow> None)"

lemma main_run_networked:
  assumes "create_simulation_with_network f ag clock g0 sim_env cfg sp ics hm_new = Some (Inr (cfg', nodes, defs, sims))"
    and "sim_graph_new f (map (network_channel (sp_exclude sp)) (sp_sim_network sp)) ics hm_new = Inr g"
    and "main_run_simulation menv env supports_keysend sim_clock cfg' nodes defs r = Some (Inr (out, r1))"
    and "\<forall>n. draws_hashes (fst (moves n))"
    and "whole_run csv moves (networked_nodes moves g (sp_exclude sp) sims) as
      (start_running csv t0 (network_start g sims, 0) out r1) = Some s"
  shows "accounted s"
proof -
  from main_run_simulation_Inr [OF assms(3)] obtain out0 where
    run: "internal_run env cfg' supports_keysend nodes (reading menv sim_clock) defs r = Some (out0, r1)"
    and ok: "outcome out0 = Inr ()" and out: "out = out0\<lparr>waited_for_tasks := True\<rparr>" .
  note networked = prepared_runs_networked [OF assms(1,2) run]
  from networked_accounted [OF assms(2) networked ok assms(4) assms(5) [unfolded out start_running_waited]]
  show ?thesis .
qed

text \<open>C5. From the command line to the results. Whatever the options, the simulation file, the clients of the
  four backends and the runtime are: when \<open>main\<close> has run a simulation, then in every state that its tasks
  can reach, on real nodes of any behaviour or on the simulated network of the file at work, each
  dispatched payment is in exactly one place (on its way, counted or dropped), none was dropped before a
  shutdown is under way, and the total that \<open>get_total_payments\<close> gives is the number of results. Every
  result counted is of a payment with a hash of 32 bytes and an outcome other than that it was not
  dispatched, or is the result not dispatched of a payment without a hash. The one premise is the type
  of the source: a hash drawn from the preimages of a simulated node has 32 bytes.\<close>

theorem program_accounts_for_payments:
  assumes "main_program menv env supports_keysend r fs from_str (backend_connectors codecs show_pk clients)
      new_poisson f ag clock g0 sim_env cli = Some (Inr (out, r1))"
    and "\<forall>n. draws_hashes (fst (moves n))"
  shows "\<exists>prepared.
    main_prepare fs from_str (backend_connectors codecs show_pk clients) new_poisson f ag clock g0 sim_env cli =
      Some (Inr prepared) \<and>
    (case prepared of
       OnRealNodes cfg nodes activity \<Rightarrow>
         (\<forall>t0 world as s. run_actions csv nodes as (start_running csv t0 world out r1) = Some s \<longrightarrow> accounted s)
     | OnNetwork cfg nodes activity \<Rightarrow>
         (\<exists>exclude g sims. main_network fs from_str new_poisson f cli = Some (exclude, g, sims) \<and>
           (\<forall>t0 as s. whole_run csv' moves (networked_nodes moves g exclude sims) as
              (start_running csv' t0 (network_start g sims, 0) out r1) = Some s \<longrightarrow> accounted s)))"
proof -
  from main_program_Inr [OF assms(1)] obtain prepared sim_clock where
    prepared: "main_prepare fs from_str (backend_connectors codecs show_pk clients) new_poisson f ag clock g0 sim_env cli =
      Some (Inr prepared)"
    and run: "run_prepared menv env supports_keysend sim_clock r prepared = Some (Inr (out, r1))" by blast
  from main_prepared [OF prepared] obtain sp cfg where
    "build_simulation (backend_connectors codecs show_pk clients) new_poisson
       (\<lambda>cfg interceptors. create_simulation_with_network f ag clock g0 sim_env cfg sp interceptors hm_new) cli sp cfg =
     Some (Inr prepared)" and sp: "parse_sim_params fs from_str cli = Some (Inr sp)" by blast
  then show ?thesis
  proof (cases rule: prepared_cases)
    case (real nodes defs)
    with run connected_nodes [OF real(3)] prepared show ?thesis by (auto intro: main_run_accounted runs_accountedI)
  next
    case (network cfg' interceptors nodes defs sims)
    from network_created [OF network(3)] obtain g where
      g: "sim_graph_new f (map (network_channel (sp_exclude sp)) (sp_sim_network sp)) interceptors hm_new = Inr g"
        "ln_node_from_graph g = Inr sims" by blast
    have "main_network fs from_str new_poisson f cli = Some (sp_exclude sp, g, sims)"
      using sp network(4) g by (simp add: main_network_def)
    moreover have "accounted s" if "whole_run csv' moves (networked_nodes moves g (sp_exclude sp) sims) as
        (start_running csv' t0 (network_start g sims, 0) out r1) = Some s" for t0 as s
      using run network(2) by (intro main_run_networked [OF network(3) g(1) _ assms(2) that]) simp
    ultimately show ?thesis using prepared network(2) by (intro exI [of _ prepared]) auto
  qed
qed

text \<open>The whole program on the file of \<open>Program\<close>: the payment that its network carries is counted as a success.\<close>

definition paid_main :: main_env where
  "paid_main = \<lparr>nested_runtime = False, parallelism = None, build_paused = (\<lambda>n. Inr 0), new_runtime = Inr 0,
     wall_clock = 0, ctrlc_handler = Inr (), reading = (\<lambda>clock. 0)\<rparr>"

lemma main_program_prepared:
  assumes "main_prepare fs from_str cs new_poisson f ag clock g0 sim_env cli = Some (Inr prepared)"
    and "on_runtime menv (virtual_time cli) (\<lambda>sim_clock. run_prepared menv env supports_keysend sim_clock r prepared) = res"
  shows "main_program menv env supports_keysend r fs from_str cs new_poisson f ag clock g0 sim_env cli = res"
proof -
  from assms(1) obtain sp u cfg where
    "parse_sim_params fs from_str cli = Some (Inr sp)" "cli_validate cli sp = Inr u"
    "simulation_cfg_try_from fs cli = Inr cfg"
    "build_simulation cs new_poisson
       (\<lambda>cfg interceptors. create_simulation_with_network f ag clock g0 sim_env cfg sp interceptors hm_new) cli sp cfg =
     Some (Inr prepared)"
    by (auto simp: main_prepare_def split: option.splits sum.splits)
  with assms(2) show ?thesis by (simp add: main_program_def build_and_run_def)
qed

lemma paid_program:
  "main_program paid_main demo_env (\<lambda>_. True) 0 demo_files (\<lambda>contents. Inr paying_params)
     (backend_connectors codecs show_pk clients) (\<lambda>ms. Inr ()) (\<lambda>x. x) (\<lambda>m g. Inr g :: string + unit) (\<lambda>i. 0) ()
     paying_env demo_cli = Some (Inr (paying_outcome\<lparr>waited_for_tasks := True\<rparr>, 0))"
  by (rule main_program_prepared [OF paying_main_prepare])
    (simp add: on_runtime_def block_on_virtual_time_def Let_def paid_main_def demo_cli_def main_run_simulation_def
      run_simulation_def paying_run paying_ok)

lemma paid_main_network:
  "main_network demo_files (\<lambda>contents. Inr paying_params) (\<lambda>ms. Inr ()) (\<lambda>x. x) demo_cli =
   Some (sp_exclude paying_params, paid_graph, paid_sims)"
  using paid_graph_ok prepared_runs_networked(1) [OF paid_created paid_graph_ok paying_run]
  by (simp add: main_network_def parse_sim_params_def read_sim_path_def demo_files_def demo_cli_def default_data_dir_def
      default_sim_file_def path_join_def path_is_relative_def latency_interceptors_def)

theorem program_accounts_for_payments_witness:
  "accounted paid_state \<and> length (past_dispatched paid_state) = 1 \<and>
   past_counted paid_state =
     [(\<lparr>pay_source = PublicKey 1, pay_destination = PublicKey 3, pay_amount_msat = 200, pay_hash = Some demo_hash,
        pay_dispatch_time = 0\<rparr>, \<lparr>htlc_count = 1, payment_outcome = Success\<rparr>)]"
proof -
  have "\<forall>n. draws_hashes (fst (paid_moves n))"
    by (simp add: draws_hashes_def paid_moves_def net_env_def demo_hash_def)
  from program_accounts_for_payments [OF paid_program this, where csv' = demo_csv] have
    "whole_run demo_csv paid_moves (networked_nodes paid_moves paid_graph (sp_exclude paying_params) paid_sims) as
       (start_running demo_csv t0 (network_start paid_graph paid_sims, 0) (paying_outcome\<lparr>waited_for_tasks := True\<rparr>) 0) = Some s
     \<Longrightarrow> accounted s" for t0 as s
    by (simp add: paying_main_prepare paid_main_network)
  from this [unfolded start_running_waited, OF paid_state_ok [unfolded paid_nodes_def paid_start_def]]
  have acc: "accounted paid_state" .
  moreover have "size (mset (map dispatch_key (past_dispatched paid_state))) = 1"
    using acc paid_state_value by (simp add: accounted_def)
  ultimately show ?thesis using paid_state_value(1) by simp
qed

end
