(* ===== verification/Spec2Isabelle.thy ===== *)
theory Spec2Isabelle
  imports Channel_Properties Sim_Node Event_Properties Simulation_Properties Result_Properties
    Schedules Serializers Backend_Properties Network_Properties Running_Properties
    Network_Run_Properties Seeds Pathfinding_Properties Error_Texts Networked_Properties Main_Program
begin

text \<open>
  Verification of sim-ln, a simulator of Lightning payments (simln-lib/src and sim-cli/src).

  The program. A simulation sends payments between Lightning nodes: real ones, over the RPC of LND,
  Core Lightning, Eclair or LDK Server, or the nodes of a network that the program simulates itself.
  \<open>main\<close> reads options and a simulation file, connects to the nodes or builds the network, resolves the
  activities of the file and runs the \<open>Simulation\<close>: it validates the activities, makes one payment
  generator per activity (or one random generator per node), and spawns tasks that communicate by
  channels. One task keeps a queue of payment events and dispatches the earliest; each payment is sent
  and tracked; results are counted and written as CSV. In the simulated network a payment is a task of
  its own that locks and releases the shared channels hop by hop, while interceptors may delay or
  refuse each hop.

  The model. Data are records and datatypes with the source's fields and variants; unsigned integers
  are words of their width and wrap as in a release build; \<open>Result\<close> is a sum with \<open>Inl\<close> for \<open>Err\<close>; a
  panic, or a loop that has not ended, is \<open>None\<close>; a method that takes \<open>&mut self\<close> returns the new state
  with its result. A task that waits (\<open>select!\<close>, a channel, a clock) is a function of the sequence of
  events it meets, so a theorem holds for every sequence. Code of other crates is a parameter; where a
  theorem needs it to behave as documented, a named hypothesis says so. A message is its format string
  and its arguments.

  The theories, in the order of their imports:

  Prelude: machine integers, results, the locale \<open>invariant_system\<close>. Hash_Map: \<open>HashMap\<close> as a list of
  entries in iteration order, with the locale \<open>hash_map\<close>.

  Sim_Types (lib.rs): keys, node ids, short channel ids, value ranges, errors, payments.

  Sim_Channel, Channel_Laws, Channel_Properties (sim_node.rs: \<open>ChannelPolicy\<close>, \<open>ChannelState\<close>,
  \<open>SimulatedChannel\<close>): adding, checking, settling and removing HTLCs. An abstract ledger of two balances
  and pending amounts is refined by the channel; in every reachable state the funds add up to the
  capacity and the limits of both policies hold.

  Interceptors, Propagation, Escrow, Propagation_Laws, Payment_Properties (sim_node.rs: \<open>Interceptor\<close>,
  \<open>handle_intercepted_htlc\<close>, \<open>add_htlcs\<close>, \<open>remove_htlcs\<close>, \<open>propagate_payment\<close>): one payment along its
  route. The decision of interceptors does not depend on their order; a payment is atomic, and pays each
  hop its fee. Interleaving and Schedules split a payment into the sections in which it holds the lock:
  in every interleaving removal never fails and balances settle, and every fair schedule ends.

  Payment_Success: a payment on its own, over a route that uses no channel twice, succeeds exactly when
  each hop has room, each policy is met and the interceptors agree at each hop.

  Sim_Graph, Sim_Node (sim_node.rs: \<open>SimGraph\<close>, \<open>populate_network_graph\<close>, \<open>SimNode\<close>): building the network,
  dispatching, tracking, queries. Network_Run, Network_Run_Laws, Network_Run_Properties: the nodes of a
  simulated network, their payment tasks and one-shot channels as one system of sends, sections under
  the lock and trackings, in any order; each tracked result is the payment's own. Pathfinding and
  Pathfinding_Properties (\<open>find_payment_route\<close>, the scorer, \<open>UtxoValidator\<close>, \<open>WrappedLog\<close>): what is asked of the
  router. On channels as they were opened, a payment over a route that it found meets the fees, delays
  and limits of every hop, since the gossip says what the channels check; the balance is all that may be
  missing, and a payment succeeds exactly when each hop fits it.

  Generators (defined_activity.rs, random_activity.rs), Events, Event_Properties (lib.rs: the event
  queue): how payments are chosen, and the loop that dispatches them: order, counts, termination. The
  counts are stated per source of the executor that owns it, the last with that source: with one executor
  per source, each of them; with several, the payments that the others lose.

  Simulation, Simulation_Properties (lib.rs: \<open>SimulationCfg\<close>, \<open>MutRng\<close>, validation, set-up,
  \<open>internal_run\<close>): what a simulation pays, who takes part, what an error leaves behind. Seeds: a run with a
  seed, and no ranges in its activities, depends neither on the entropy of the machine nor on the generator
  of the thread nor on the iteration order of the hash map of nodes.

  Results, Result_Properties (lib.rs, batched_writer.rs): sending and tracking, counting and writing
  results: each payment gives one result, each result is counted and written.

  Task_Lists, Running, Running_Laws, Running_Properties (lib.rs: the tasks that \<open>internal_run\<close> spawns): the
  running simulation as one state, the fields of which are the tasks, the channels of capacity one and
  the shutdown signal. An action is one task going on to its next wait; a run is any list of actions
  that can happen. Each payment is in exactly one place, the tasks do not block each other, and a
  shutdown ends them all; a run that drops the last payments is proved to exist.

  Serializers (serializers.rs): round trips. Backend_Common, Lnd, Cln, Eclair, Ldk_Server,
  Backend_Properties (lnd.rs, cln.rs, eclair.rs, ldk_server.rs): every method of the four backends. The
  locale \<open>polling_backend\<close> is the contract of the three that poll a payment and is interpreted on each.
  Node_Contract, Backend_Nodes, Reported_Rows: the four backends as values of the trait \<open>LightningNode\<close>. The
  locale \<open>node_contract\<close> says what the tasks rely on (a hash of 32 bytes for a payment sent, a final
  outcome for a payment tracked); it is interpreted on every backend, and from it follows the shape of
  every result that is counted.

  Cli, Activities, Network_Setup, Network_Properties (parsing.rs, main.rs): options, simulation file,
  resolution of names against a relational specification, creation of the simulation. Latency
  (latency_interceptor.rs, clock.rs, runtime.rs): the interceptor shipped with the program, the clock
  and virtual time.

  Decimal, Display, Error_Texts: the texts that the program shows of its data and of its errors, and the
  task that logs the results.

  Program and Main_Program (main.rs): the whole of it, from the command line to the results. What \<open>main\<close>
  prepares is run, on the ordinary or the virtual runtime, by the tasks of Running over nodes that keep
  \<open>node_contract\<close>, whichever backend they are on, or by \<open>whole_run\<close> over the simulated network of the file.

  Networked_Run, Networked_Laws, Networked_Accounts, Networked_Counts, Networked_Rows, Networked_Properties: Running over
  Network_Run, the tasks of lib.rs and the simulated network of sim_node.rs as one system. The world
  behind the nodes is the network; \<open>whole_step\<close> is a task that goes on, a call of \<open>track_payment\<close> that begins
  (the payment leaves the map of its node and the call waits) or a payment that takes a section under
  the lock; a call returns only when its event has come. What the environment decides for each call
  (the route, the preimage, the clock, whether the call meets the shutdown) is read from \<open>moves\<close>, one
  entry per call. Networked_Laws projects a run on the tasks and on the network, so that everything
  proved of either holds of both together; Networked_Accounts keeps the account of where each accepted
  payment is, and Networked_Counts compares the successes among the rows counted, the trackings that
  returned and the tasks of the network. Networked_Rows shows of the rows counted on the network what
  \<open>node_contract\<close> gives for the backends, from the tasks that the network spawned. A success that is counted is a payment that moved funds; when
  all has come to rest the counts explain every balance.

  Bounds and fuel. The event loop and the polling loops run over a list of events and say that they
  are still running when the list ends; as a method of a node in Backend_Nodes, a polling loop is given
  as many rounds as the environment lets pass and then the shutdown, which ends it (\<open>polled_until_ends\<close>).
  Payments with counts end within executors * (n + 1) + 1 iterations, a payment task within 2 * hops + 2
  sections, and every schedule that gives each task that many turns settles. After a shutdown the tasks
  of a simulation make at most \<open>work_ahead\<close> steps. Sampling a destination again when it is the source may
  go on forever: it is fuelled by the samples, and the theorem says that it loops only on samples that
  all name the source.

  Not modelled. The router, the scorer and the routing graph belong to the lightning crate and are
  parameters; what the program asks of them, tells them and makes of their answers is modelled, and the
  promises of the router are the named hypothesis \<open>router_documented\<close> (the share of a channel's capacity
  that the parameters ask for is not among them: the crate falls back on other paths). The field
  \<open>shutdown_listener\<close> of an intercepted request carries no data and is left out. \<open>float_monotone\<close> assumes that
  the logarithm of the platform is monotone, which the standard library does not promise. The random generators of the rand
  crates, the RPC clients, serde, the file system and tokio's runtime and timers are parameters too. Log
  lines other than the summary of results and the set-up of the logger are pure output; what the
  ctrl-c handler does is the shutdown request of Running. In Networked_Run a call of \<open>track_payment\<close> does not
  begin for a node and hash for which another waits: for that the same 32 random bytes would have to
  be drawn twice while the first payment is tracked; and the clock of \<open>main\<close> is read once. In Backend_Nodes the
  answer of Eclair to \<open>getsentinfo\<close> after a payment has at least one part: on an empty answer the code
  panics (\<open>eclair_send_payment\<close> is then \<open>None\<close>), which kills the task that sends. test_utils.rs is support for
  the unit tests, compiled only for them, and no part of the program.

  The plan is finished: outside the unit tests and what is listed above every operation of the program
  has its definition.
\<close>

end
